(* ===== verification/Prelude.thy ===== *)
theory Prelude
  imports Main "HOL-Library.Word" "HOL-Library.Multiset" "HOL-Library.Char_ord"
    "HOL-Library.List_Lexorder"
begin

text \<open>
  What the components share: Go's machine integers, the runtime panics the modelled code can
  raise, the result of a handler that may panic half way (the state it has reached by then is
  kept, because the callers recover and go on with it), the exchange of two slice elements,
  and the iteration over a Go map, whose order is chosen by the runtime and is therefore an
  argument of the model.
\<close>

subsection \<open>Types\<close>

text \<open>Go's \<open>uint\<close>, \<open>uint64\<close> and \<open>uint32\<close> on the 64-bit platforms the program is built for.
  A pointer is a number that names a cell of an explicit memory.\<close>

type_synonym uint = "64 word"
type_synonym uint64 = "64 word"
type_synonym uint32 = "32 word"
type_synonym uint16 = "16 word"
type_synonym uint8 = "8 word"
type_synonym ref = nat

datatype panic = IndexOutOfRange | SliceBoundsOutOfRange | NilPointer | CloseOfClosedChannel | SendOnClosedChannel | TypeAssertion

text \<open>A handler either finishes or panics; both carry the state reached.\<close>

datatype 's outcome = Finished 's | Panicked panic 's

fun final_state :: "'s outcome \<Rightarrow> 's" where
  "final_state (Finished s) = s"
| "final_state (Panicked p s) = s"

fun finished :: "'s outcome \<Rightarrow> bool" where
  "finished (Finished s) = True"
| "finished (Panicked p s) = False"

fun and_then :: "'s outcome \<Rightarrow> ('s \<Rightarrow> 's outcome) \<Rightarrow> 's outcome" where
  "and_then (Finished s) f = f s"
| "and_then (Panicked p s) f = Panicked p s"

text \<open>A loop over a list whose body may panic.\<close>

fun for_each :: "('a \<Rightarrow> 's \<Rightarrow> 's outcome) \<Rightarrow> 'a list \<Rightarrow> 's \<Rightarrow> 's outcome" where
  "for_each f [] s = Finished s"
| "for_each f (x # xs) s = and_then (f x s) (for_each f xs)"

subsection \<open>Collections of rules\<close>

named_theorems list_swap_rules \<open>the exchange of two elements of a list\<close>
named_theorems handler_rules \<open>results of handlers that may panic\<close>
named_theorems frame_rules \<open>fields an operation does not write\<close>

lemma and_then_assoc [handler_rules]:
  "and_then (and_then r f) g = and_then r (\<lambda>s. and_then (f s) g)"
  by (cases r) auto

lemma and_then_Finished [simp]: "and_then r Finished = r"
  by (cases r) auto

lemma and_then_eq_Finished [handler_rules]:
  "and_then r f = Finished t \<longleftrightarrow> (\<exists>s. r = Finished s \<and> f s = Finished t)"
  by (cases r) auto

lemma for_each_append [handler_rules]:
  "for_each f (xs @ ys) s = and_then (for_each f xs s) (for_each f ys)"
proof (induction xs arbitrary: s)
  case (Cons x xs)
  then show ?case by (cases "f x s") auto
qed simp

text \<open>The Hoare-style rule of the loop: an invariant indexed by the elements still to come.\<close>

lemma for_each_rule:
  assumes "I xs s"
    and "\<And>y ys t. I (y # ys) t \<Longrightarrow> \<exists>t'. f y t = Finished t' \<and> I ys t'"
  shows "\<exists>t. for_each f xs s = Finished t \<and> I [] t"
  using assms(1)
proof (induction xs arbitrary: s)
  case Nil
  then show ?case by simp
next
  case (Cons x xs)
  from assms(2)[OF Cons.prems] obtain t where t: "f x s = Finished t" "I xs t" by blast
  from Cons.IH[OF t(2)] t(1) show ?case by simp
qed

text \<open>The same for a loop that may panic: \<open>K\<close> holds of whatever state it stops in.\<close>

lemma for_each_inv:
  assumes "K s" and "\<And>y t. y \<in> set xs \<Longrightarrow> K t \<Longrightarrow> K (final_state (f y t))"
  shows "K (final_state (for_each f xs s))"
  using assms
proof (induction xs arbitrary: s)
  case Nil
  then show ?case by simp
next
  case (Cons x xs)
  have x: "K (final_state (f x s))" using Cons.prems by simp
  show ?case
  proof (cases "f x s")
    case (Finished t)
    with x have "K t" by simp
    moreover have "\<And>y t. y \<in> set xs \<Longrightarrow> K t \<Longrightarrow> K (final_state (f y t))"
      using Cons.prems(2) by simp
    ultimately show ?thesis using Cons.IH Finished by simp
  next
    case (Panicked p t)
    with x show ?thesis by simp
  qed
qed

subsection \<open>Exchanging two elements\<close>

definition list_swap :: "'a list \<Rightarrow> nat \<Rightarrow> nat \<Rightarrow> 'a list" where
  "list_swap xs i j = xs[i := xs ! j, j := xs ! i]"

lemma length_list_swap [simp]: "length (list_swap xs i j) = length xs"
  by (simp add: list_swap_def)

lemma nth_list_swap [list_swap_rules]:
  "i < length xs \<Longrightarrow> j < length xs \<Longrightarrow> k < length xs \<Longrightarrow>
   list_swap xs i j ! k = (if k = i then xs ! j else if k = j then xs ! i else xs ! k)"
  by (auto simp: list_swap_def nth_list_update)

lemma list_swap_same [simp]: "list_swap xs i i = xs"
  by (cases "i < length xs") (auto simp: list_swap_def list_update_beyond)

lemma mset_list_swap [simp]:
  "i < length xs \<Longrightarrow> j < length xs \<Longrightarrow> mset (list_swap xs i j) = mset xs"
  unfolding list_swap_def by (cases "i = j") (simp_all add: list_update_swap[of i j] mset_swap)

lemma set_list_swap [simp]:
  "i < length xs \<Longrightarrow> j < length xs \<Longrightarrow> set (list_swap xs i j) = set xs"
  using mset_list_swap mset_eq_setD by blast

lemma distinct_list_swap [simp]:
  "i < length xs \<Longrightarrow> j < length xs \<Longrightarrow> distinct (list_swap xs i j) = distinct xs"
  using mset_list_swap mset_eq_imp_distinct_iff by blast

subsection \<open>Iterating over a map\<close>

text \<open>\<open>enumerates ks m\<close>: the list \<open>ks\<close> is an order in which Go may visit the keys of \<open>m\<close>.\<close>

definition enumerates :: "'k list \<Rightarrow> ('k \<rightharpoonup> 'v) \<Rightarrow> bool" where
  "enumerates ks m \<longleftrightarrow> distinct ks \<and> set ks = dom m"

lemma enumerates_finite: "enumerates ks m \<Longrightarrow> finite (dom m)"
  by (auto simp: enumerates_def) (metis finite_set)

lemma enumerates_length: "enumerates ks m \<Longrightarrow> length ks = card (dom m)"
  by (auto simp: enumerates_def dest: distinct_card)

lemma enumerates_mset: "enumerates ks m \<Longrightarrow> enumerates ks' m \<Longrightarrow> mset ks = mset ks'"
  by (simp add: enumerates_def set_eq_iff_mset_eq_distinct[symmetric])

lemma count_list_distinct: "distinct xs \<Longrightarrow> count_list xs x = (if x \<in> set xs then 1 else 0)"
  by (induction xs) auto

subsection \<open>Words\<close>

lemma unat_less_plus_one: "x < (y :: 'a::len word) \<Longrightarrow> unat (x + 1) = Suc (unat x)"
  by unat_arith

lemma unat_minus_one_pos: "0 < unat (x :: 'a::len word) \<Longrightarrow> unat (x - 1) = unat x - 1"
  by (metis gr_implies_not0 unat_eq_zero unat_minus_one)

lemma word_less_next: "x \<noteq> - 1 \<Longrightarrow> (x :: 'a::len word) < x + 1"
proof -
  assume "x \<noteq> - 1"
  then have "1 + x \<noteq> 0" by (metis add.commute eq_neg_iff_add_eq_0)
  then have "unat (1 + x) = Suc (unat x)" by (rule unatSuc)
  then show ?thesis by (simp add: word_less_nat_alt add.commute)
qed

lemma unat_of_nat_small:
  assumes "i < unat (x :: 'a::len word)"
  shows "unat (of_nat i :: 'a word) = i"
proof -
  have "i < 2 ^ LENGTH('a)" using assms unsigned_less[of x] by (rule less_trans)
  then show ?thesis by (simp add: unsigned_of_nat take_bit_nat_eq_self_iff)
qed

end
