(* ===== verification/Backend.thy ===== *)
theory Backend
  imports Prelude
begin

text \<open>
  engine/native/const.go, backend.go and the session types of spdy.go: a backend server, its
  slots for multiplexed (SPDY) tunnel connections, and the three operations on the slots.
  A \<open>*spdystream.Connection\<close> and a \<open>net.Conn\<close> are identified by a number; what the peer
  answers (the outcome of \<open>CreateStream\<close> and \<open>net.Dial\<close>, the next stream id of a connection)
  and the clock are arguments.
\<close>

subsection \<open>Constants\<close>

definition MaxBackends :: nat where "MaxBackends = 128"
definition MaxForwarders :: nat where "MaxForwarders = 8192"
definition MaxForwardersPerBackend :: uint where "MaxForwardersPerBackend = 4096"
definition ThreshStreamId :: uint32 where "ThreshStreamId = 0x7fffffff - push_bit 20 0x1"
definition FlagInit :: uint16 where "FlagInit = 0x1"

subsection \<open>Data\<close>

record conn_tunnel =
  tn_conn :: "nat option"
  tn_tcpAddr :: "string option"
  tn_switching :: bool

record backend =
  bk_tunnel :: "conn_tunnel list"
  bk_address :: string
  bk_index :: int
  bk_ongoing :: uint
  bk_weight :: uint
  bk_flags :: uint16
  bk_failChan :: bool
  bk_tunnels :: uint
  bk_count :: uint64
  bk_RxBytes :: uint64
  bk_TxBytes :: uint64

record spdy_session =
  ss_backend :: ref
  ss_spdy :: "conn_tunnel option"
  ss_connindex :: uint

definition zero_tunnel :: conn_tunnel where
  "zero_tunnel = \<lparr>tn_conn = None, tn_tcpAddr = None, tn_switching = False\<rparr>"

definition NewBackend :: "string \<Rightarrow> uint \<Rightarrow> uint \<Rightarrow> backend" where
  "NewBackend addr tunnels weight =
    \<lparr>bk_tunnel = replicate (unat tunnels) zero_tunnel, bk_address = addr, bk_index = 0,
     bk_ongoing = 0, bk_weight = weight, bk_flags = FlagInit, bk_failChan = False,
     bk_tunnels = tunnels, bk_count = 0, bk_RxBytes = 0, bk_TxBytes = 0\<rparr>"

definition NewSpdySession :: "ref \<Rightarrow> uint \<Rightarrow> spdy_session" where
  "NewSpdySession r index = \<lparr>ss_backend = r, ss_spdy = None, ss_connindex = index\<rparr>"

definition FailChan :: "backend \<Rightarrow> backend" where
  "FailChan b = b\<lparr>bk_failChan := True\<rparr>"

definition set_slot :: "nat \<Rightarrow> (conn_tunnel \<Rightarrow> conn_tunnel) \<Rightarrow> backend \<Rightarrow> backend" where
  "set_slot i f b = b\<lparr>bk_tunnel := (bk_tunnel b)[i := f (bk_tunnel b ! i)]\<rparr>"

text \<open>Every backend has one slot per tunnel, and its failures have somewhere to go.\<close>

definition backend_wf :: "backend \<Rightarrow> bool" where
  "backend_wf b \<longleftrightarrow> length (bk_tunnel b) = unat (bk_tunnels b) \<and> bk_failChan b"

lemma backend_wf_new [simp]: "backend_wf (FailChan (NewBackend a t w))"
  by (simp add: backend_wf_def FailChan_def NewBackend_def)

lemma set_slot_frame [simp]:
  "bk_address (set_slot i f b) = bk_address b" "bk_index (set_slot i f b) = bk_index b"
  "bk_ongoing (set_slot i f b) = bk_ongoing b" "bk_weight (set_slot i f b) = bk_weight b"
  "bk_tunnels (set_slot i f b) = bk_tunnels b" "bk_count (set_slot i f b) = bk_count b"
  "bk_failChan (set_slot i f b) = bk_failChan b"
  "length (bk_tunnel (set_slot i f b)) = length (bk_tunnel b)"
  by (simp_all add: set_slot_def)

lemma set_slot_nth [simp]:
  "j < length (bk_tunnel b) \<Longrightarrow>
   bk_tunnel (set_slot i f b) ! j = (if i = j then f (bk_tunnel b ! j) else bk_tunnel b ! j)"
  by (simp add: set_slot_def nth_list_update)

lemma set_slot_wf [simp]: "backend_wf (set_slot i f b) = backend_wf b"
  by (simp add: backend_wf_def)

subsection \<open>Installing a new tunnel connection\<close>

text \<open>The connections closed, and the backend. A missing tunnel (\<open>to == nil\<close>) panics after the
  old connection has been closed and before anything is written.\<close>

definition SwitchSpdyConn :: "uint \<Rightarrow> conn_tunnel option \<Rightarrow> backend \<Rightarrow> nat list \<times> backend outcome" where
  "SwitchSpdyConn index to b =
    (let i = unat index in
     if \<not> i < length (bk_tunnel b) then ([], Panicked IndexOutOfRange b)
     else
       let closed = (case tn_conn (bk_tunnel b ! i) of None \<Rightarrow> [] | Some from \<Rightarrow> [from]) in
       case to of
         None \<Rightarrow> (closed, Panicked NilPointer b)
       | Some t \<Rightarrow> (closed, Finished (set_slot i (\<lambda>s. s\<lparr>tn_conn := tn_conn t,
           tn_tcpAddr := tn_tcpAddr t, tn_switching := False\<rparr>) b)))"

subsection \<open>Renewing connections whose stream ids are almost used up\<close>

definition check_slot ::
  "(nat \<Rightarrow> uint32) \<Rightarrow> ref \<Rightarrow> nat \<Rightarrow> backend \<times> spdy_session list \<Rightarrow> (backend \<times> spdy_session list) outcome"
where
  "check_slot peek r i = (\<lambda>(b, ss).
    if \<not> i < length (bk_tunnel b) then Panicked IndexOutOfRange (b, ss)
    else case tn_conn (bk_tunnel b ! i) of
      None \<Rightarrow> Finished (b, ss)
    | Some c \<Rightarrow>
        if \<not> tn_switching (bk_tunnel b ! i) then
          if peek c > ThreshStreamId then
            Finished (set_slot i (\<lambda>s. s\<lparr>tn_switching := True\<rparr>) b, ss @ [NewSpdySession r (of_nat i)])
          else Finished (b, ss)
        else Finished (b, ss))"

text \<open>\<open>b.count\<close> is increased first; the slots are looked at only if the last look was five
  seconds ago. \<open>t\<close> is the global \<open>spdyCheckTime\<close>; \<open>now\<close> is the clock read by \<open>time.Since\<close>, \<open>now'\<close>
  the clock read by \<open>time.Now\<close> after it.\<close>

definition SpdyCheckStreamId ::
  "(nat \<Rightarrow> uint32) \<Rightarrow> int \<Rightarrow> int \<Rightarrow> ref \<Rightarrow> backend \<Rightarrow> int \<Rightarrow> int \<times> (backend \<times> spdy_session list) outcome"
where
  "SpdyCheckStreamId peek now now' r b t =
    (let b1 = b\<lparr>bk_count := bk_count b + 1\<rparr> in
     if bk_tunnels b1 = 0 \<or> now - t < 5 * 1000000000 then (t, Finished (b1, []))
     else (now', for_each (check_slot peek r) [0..<unat (bk_tunnels b1)] (b1, [])))"

text \<open>The slots that need a new connection: connected, not being renewed, ids beyond the
  threshold.\<close>

definition worn_out :: "(nat \<Rightarrow> uint32) \<Rightarrow> conn_tunnel \<Rightarrow> bool" where
  "worn_out peek s \<longleftrightarrow>
    (case tn_conn s of None \<Rightarrow> False | Some c \<Rightarrow> \<not> tn_switching s \<and> ThreshStreamId < peek c)"

lemma check_slot_eq:
  "i < length (bk_tunnel b) \<Longrightarrow> check_slot peek r i (b, ss) =
    Finished (if worn_out peek (bk_tunnel b ! i)
      then (set_slot i (\<lambda>s. s\<lparr>tn_switching := True\<rparr>) b, ss @ [NewSpdySession r (of_nat i)]) else (b, ss))"
  by (auto simp: check_slot_def worn_out_def split: option.splits)

definition renew_slots :: "(nat \<Rightarrow> uint32) \<Rightarrow> nat \<Rightarrow> conn_tunnel list \<Rightarrow> conn_tunnel list" where
  "renew_slots peek n ts = map (\<lambda>(i, s). if i < n \<and> worn_out peek s then s\<lparr>tn_switching := True\<rparr> else s)
     (enumerate 0 ts)"

lemma renew_slots_0: "renew_slots peek 0 ts = ts"
  by (simp add: renew_slots_def case_prod_unfold)

lemma length_renew_slots [simp]: "length (renew_slots peek n ts) = length ts"
  by (simp add: renew_slots_def)

lemma nth_renew_slots [simp]:
  "i < length ts \<Longrightarrow> renew_slots peek n ts ! i =
    (if i < n \<and> worn_out peek (ts ! i) then (ts ! i)\<lparr>tn_switching := True\<rparr> else ts ! i)"
  by (simp add: renew_slots_def nth_enumerate_eq)

lemma renew_slots_Suc:
  assumes "n < length ts"
  shows "renew_slots peek (Suc n) ts =
    (if worn_out peek (ts ! n) then (renew_slots peek n ts)[n := (ts ! n)\<lparr>tn_switching := True\<rparr>]
     else renew_slots peek n ts)"
  using assms by (intro nth_equalityI) (auto simp: nth_list_update less_Suc_eq)

lemma check_slots:
  assumes "n \<le> length (bk_tunnel b)"
  shows "for_each (check_slot peek r) [0..<n] (b, ss) =
    Finished (b\<lparr>bk_tunnel := renew_slots peek n (bk_tunnel b)\<rparr>,
      ss @ map (\<lambda>i. NewSpdySession r (of_nat i)) (filter (\<lambda>i. worn_out peek (bk_tunnel b ! i)) [0..<n]))"
  using assms
proof (induction n)
  case 0
  then show ?case by (simp add: renew_slots_0)
next
  case (Suc n)
  let ?b = "b\<lparr>bk_tunnel := renew_slots peek n (bk_tunnel b)\<rparr>"
  have n: "n < length (bk_tunnel b)" using Suc.prems by simp
  have step: "check_slot peek r n (?b, s) = Finished
      (b\<lparr>bk_tunnel := renew_slots peek (Suc n) (bk_tunnel b)\<rparr>,
       s @ (if worn_out peek (bk_tunnel b ! n) then [NewSpdySession r (of_nat n)] else []))" for s
    using n by (simp add: check_slot_eq renew_slots_Suc set_slot_def)
  show ?case
    using Suc.IH n by (simp add: for_each_append step)
qed

lemma SpdyCheckStreamId_finishes:
  assumes "backend_wf b"
  shows "\<exists>t' ss ts.
    SpdyCheckStreamId peek now now' r b t = (t', Finished (b\<lparr>bk_count := bk_count b + 1, bk_tunnel := ts\<rparr>, ss)) \<and>
    length ts = length (bk_tunnel b) \<and>
    (\<forall>s \<in> set ss. ss_backend s = r \<and> unat (ss_connindex s) < length ts)"
proof -
  let ?b = "b\<lparr>bk_count := bk_count b + 1\<rparr>" and ?n = "unat (bk_tunnels b)"
  have n: "?n = length (bk_tunnel b)" using assms by (simp add: backend_wf_def)
  have small: "unat (of_nat i :: uint) < ?n" if "i < ?n" for i
    using that by (simp add: unat_of_nat_small)
  show ?thesis
  proof (cases "bk_tunnels b = 0 \<or> now - t < 5 * 1000000000")
    case True
    then show ?thesis
      by (intro exI[of _ t] exI[of _ "[]"] exI[of _ "bk_tunnel b"]) (simp_all add: SpdyCheckStreamId_def Let_def)
  next
    case False
    then show ?thesis
      using check_slots[of ?n ?b peek r "[]"] n small
      by (intro exI[of _ now']
            exI[of _ "map (\<lambda>i. NewSpdySession r (of_nat i)) (filter (\<lambda>i. worn_out peek (bk_tunnel b ! i)) [0..<?n])"]
            exI[of _ "renew_slots peek ?n (bk_tunnel b)"])
        (auto simp: SpdyCheckStreamId_def Let_def NewSpdySession_def)
  qed
qed

subsection \<open>Properties\<close>

text \<open>When the slots are looked at, exactly those are marked that hold a connection whose next
  stream id is beyond the threshold and that are not being renewed, one session is started for each
  of them, and a second look at once starts none: a slot is renewed once until it is switched.\<close>

theorem renewal_once:
  assumes "backend_wf b" "0 < bk_tunnels b" "5 * 1000000000 \<le> now - t"
  shows "\<exists>ts. SpdyCheckStreamId peek now now' r b t =
      (now', Finished (b\<lparr>bk_count := bk_count b + 1, bk_tunnel := ts\<rparr>,
        map (\<lambda>i. NewSpdySession r (of_nat i))
          (filter (\<lambda>i. worn_out peek (bk_tunnel b ! i)) [0..<unat (bk_tunnels b)]))) \<and>
    (\<forall>i < unat (bk_tunnels b). tn_conn (ts ! i) = tn_conn (bk_tunnel b ! i) \<and>
       (tn_switching (ts ! i) \<longleftrightarrow> tn_switching (bk_tunnel b ! i) \<or> worn_out peek (bk_tunnel b ! i)) \<and>
       \<not> worn_out peek (ts ! i))"
proof -
  let ?n = "unat (bk_tunnels b)" and ?b = "b\<lparr>bk_count := bk_count b + 1\<rparr>"
  have n: "?n = length (bk_tunnel b)" "bk_tunnels b \<noteq> 0" using assms(1,2) by (auto simp: backend_wf_def)
  have "SpdyCheckStreamId peek now now' r b t =
      (now', Finished (b\<lparr>bk_count := bk_count b + 1, bk_tunnel := renew_slots peek ?n (bk_tunnel b)\<rparr>,
        map (\<lambda>i. NewSpdySession r (of_nat i)) (filter (\<lambda>i. worn_out peek (bk_tunnel b ! i)) [0..<?n])))"
    using assms(2,3) check_slots[of ?n ?b peek r "[]"] n by (simp add: SpdyCheckStreamId_def Let_def)
  moreover have "tn_conn (renew_slots peek ?n (bk_tunnel b) ! i) = tn_conn (bk_tunnel b ! i) \<and>
       (tn_switching (renew_slots peek ?n (bk_tunnel b) ! i) \<longleftrightarrow>
          tn_switching (bk_tunnel b ! i) \<or> worn_out peek (bk_tunnel b ! i)) \<and>
       \<not> worn_out peek (renew_slots peek ?n (bk_tunnel b) ! i)" if "i < ?n" for i
    using that n by (auto simp: worn_out_def split: option.splits)
  ultimately show ?thesis by blast
qed

definition ex_tunnels :: backend where
  "ex_tunnels = (FailChan (NewBackend ''h:1'' 2 0))\<lparr>bk_tunnel :=
    [\<lparr>tn_conn = Some 3, tn_tcpAddr = None, tn_switching = False\<rparr>, zero_tunnel]\<rparr>"

theorem renewal_once_witness:
  "\<exists>b'. SpdyCheckStreamId (\<lambda>_. 0x7ffffffd) (9 * 1000000000) 7 0 ex_tunnels 0 =
     (7, Finished (b', [NewSpdySession 0 0]))"
proof -
  have wf: "backend_wf ex_tunnels" "0 < bk_tunnels ex_tunnels"
    by (simp_all add: backend_wf_def ex_tunnels_def FailChan_def NewBackend_def)
  have flt: "filter (\<lambda>i. worn_out (\<lambda>_. 0x7ffffffd) (bk_tunnel ex_tunnels ! i)) [0..<unat (bk_tunnels ex_tunnels)] = [0]"
    by code_simp
  have "5 * 1000000000 \<le> 9 * 1000000000 - (0 :: int)" by simp
  from renewal_once[OF wf this, of "\<lambda>_. 0x7ffffffd" 7 0] obtain ts where
    "SpdyCheckStreamId (\<lambda>_. 0x7ffffffd) (9 * 1000000000) 7 0 ex_tunnels 0 =
      (7, Finished (ex_tunnels\<lparr>bk_count := bk_count ex_tunnels + 1, bk_tunnel := ts\<rparr>,
        map (\<lambda>i. NewSpdySession 0 (of_nat i))
          (filter (\<lambda>i. worn_out (\<lambda>_. 0x7ffffffd) (bk_tunnel ex_tunnels ! i)) [0..<unat (bk_tunnels ex_tunnels)])))"
    by blast
  moreover have "(of_nat 0 :: uint) = 0" by simp
  ultimately show ?thesis unfolding flt list.map by (metis (no_types))
qed

end
