(* ===== verification/GoHeap.thy ===== *)
theory GoHeap
  imports Prelude
begin

text \<open>
  The algorithms of Go's standard package \<open>container/heap\<close>, which both the scheduler's pool of
  backends (engine/native/pool.go) and the frame queue of the SPDY connections are built on.
  They see the container only through its five methods \<open>Len\<close>, \<open>Less\<close>, \<open>Swap\<close>, \<open>Push\<close> and
  \<open>Pop\<close>, each of which may panic (None). The locale \<open>go_heap\<close> states what the
  algorithms need of these methods; inside it the algorithms are proved once to keep the heap
  order and the elements and never to panic. Each container of the program interprets it.
\<close>

subsection \<open>The algorithms\<close>

function heap_up ::
  "('h \<Rightarrow> nat \<Rightarrow> nat \<Rightarrow> bool option) \<Rightarrow> (nat \<Rightarrow> nat \<Rightarrow> 'h \<Rightarrow> 'h option) \<Rightarrow> nat \<Rightarrow> 'h \<Rightarrow> 'h option"
where
  "heap_up lt swap j h =
    (let i = (j - 1) div 2 in
     if i = j then Some h
     else case lt h j i of
       None \<Rightarrow> None
     | Some b \<Rightarrow>
         if \<not> b then Some h
         else (case swap i j h of
           None \<Rightarrow> None
         | Some h' \<Rightarrow> heap_up lt swap i h'))"
  by pat_completeness auto
termination
  by (relation "measure (\<lambda>(lt, swap, j, h). j)") auto

function heap_down ::
  "('h \<Rightarrow> nat \<Rightarrow> nat \<Rightarrow> bool option) \<Rightarrow> (nat \<Rightarrow> nat \<Rightarrow> 'h \<Rightarrow> 'h option) \<Rightarrow> nat \<Rightarrow> nat \<Rightarrow> 'h \<Rightarrow> 'h option"
where
  "heap_down lt swap i n h =
    (let j1 = 2 * i + 1 in
     if j1 \<ge> n then Some h
     else case (if j1 + 1 < n then lt h j1 (j1 + 1) else Some True) of
       None \<Rightarrow> None
     | Some left \<Rightarrow>
         let j = (if left then j1 else j1 + 1) in
         (case lt h j i of
           None \<Rightarrow> None
         | Some b \<Rightarrow>
             if \<not> b then Some h
             else (case swap i j h of
               None \<Rightarrow> None
             | Some h' \<Rightarrow> heap_down lt swap j n h')))"
  by pat_completeness auto
termination
  by (relation "measure (\<lambda>(lt, swap, i, n, h). n - i)") (auto split: if_splits)

declare heap_up.simps [simp del] heap_down.simps [simp del]

lemma heap_down_unfold:
  assumes "2 * i + 1 < n"
    and "(if 2 * i + 1 + 1 < n then lt h (2 * i + 1) (2 * i + 1 + 1) else Some True) = Some left"
    and "j = (if left then 2 * i + 1 else 2 * i + 1 + 1)" and "lt h j i = Some b"
  shows "heap_down lt swap i n h =
    (if b then case swap i j h of None \<Rightarrow> None | Some h' \<Rightarrow> heap_down lt swap j n h' else Some h)"
proof -
  have "\<not> n \<le> 2 * i + 1" using assms(1) by simp
  then show ?thesis
    unfolding heap_down.simps[of lt swap i n h] Let_def assms(2)
    by (simp only: if_False option.case flip: assms(3)) (simp add: assms(4))
qed

definition heap_push where
  "heap_push len lt swap push x h =
    (case push x h of
       None \<Rightarrow> None
     | Some h' \<Rightarrow> heap_up lt swap (len h' - 1) h')"

definition heap_pop where
  "heap_pop len lt swap pop h =
    (let n = len h - 1 in
     case swap 0 n h of
       None \<Rightarrow> None
     | Some h1 \<Rightarrow>
         (case heap_down lt swap 0 n h1 of
           None \<Rightarrow> None
         | Some h2 \<Rightarrow> pop h2))"

definition heap_remove where
  "heap_remove len lt swap pop (k :: int) h =
    (if k < 0 then None
     else
       let i = nat k; n = len h - 1 in
       if n \<noteq> i then
         (case swap i n h of
           None \<Rightarrow> None
         | Some h1 \<Rightarrow>
             (case heap_down lt swap i n h1 of
               None \<Rightarrow> None
             | Some h2 \<Rightarrow>
                 (case heap_up lt swap i h2 of
                   None \<Rightarrow> None
                 | Some h3 \<Rightarrow> pop h3)))
       else pop h)"

subsection \<open>Heap order on the first \<open>n\<close> elements of a list\<close>

definition heap_parent :: "nat \<Rightarrow> nat" where
  "heap_parent j = (j - 1) div 2"

lemma heap_up_unfold:
  "heap_up lt swap j h =
    (let i = heap_parent j in
     if i = j then Some h
     else case lt h j i of
       None \<Rightarrow> None
     | Some b \<Rightarrow> if \<not> b then Some h
                 else (case swap i j h of None \<Rightarrow> None | Some h' \<Rightarrow> heap_up lt swap i h'))"
  unfolding heap_parent_def by (rule heap_up.simps)

lemma heap_parent_less [simp]: "0 < j \<Longrightarrow> heap_parent j < j"
  by (simp add: heap_parent_def)

lemma heap_parent_0 [simp]: "heap_parent 0 = 0"
  by (simp add: heap_parent_def)

lemma heap_parent_neq [simp]: "0 < j \<Longrightarrow> heap_parent j \<noteq> j" "0 < j \<Longrightarrow> j \<noteq> heap_parent j"
  by (metis heap_parent_less less_irrefl)+

lemma heap_parent_below [simp]: "j < n \<Longrightarrow> heap_parent j < n"
  by (simp add: heap_parent_def)

lemma heap_parent_child:
  "heap_parent j = i \<Longrightarrow> 0 < j \<Longrightarrow> j = 2 * i + 1 \<or> j = 2 * i + 2"
  by (auto simp: heap_parent_def)

lemma heap_parent_of_child [simp]: "heap_parent (2 * i + 1) = i" "heap_parent (2 * i + 2) = i"
  "heap_parent (Suc (2 * i)) = i" "heap_parent (Suc (Suc (2 * i))) = i"
  by (simp_all add: heap_parent_def)

definition heap_list :: "('x \<Rightarrow> 'k::linorder) \<Rightarrow> 'x list \<Rightarrow> nat \<Rightarrow> bool" where
  "heap_list k xs n \<longleftrightarrow> (\<forall>j. 0 < j \<longrightarrow> j < n \<longrightarrow> k (xs ! (heap_parent j)) \<le> k (xs ! j))"

text \<open>Below the children of \<open>i\<close> and the grandparent, nothing is said about position \<open>i\<close>
  itself: not about its parent (\<open>up\<close>), not about its children (\<open>down\<close>).\<close>

definition bridged :: "('x \<Rightarrow> 'k::linorder) \<Rightarrow> 'x list \<Rightarrow> nat \<Rightarrow> nat \<Rightarrow> bool" where
  "bridged k xs n i \<longleftrightarrow>
     (\<forall>j. 0 < j \<longrightarrow> j < n \<longrightarrow> heap_parent j = i \<longrightarrow> 0 < i \<longrightarrow> k (xs ! (heap_parent i)) \<le> k (xs ! j))"

definition heap_but :: "bool \<Rightarrow> bool \<Rightarrow> ('x \<Rightarrow> 'k::linorder) \<Rightarrow> 'x list \<Rightarrow> nat \<Rightarrow> nat \<Rightarrow> bool" where
  "heap_but up down k xs n i \<longleftrightarrow>
     (\<forall>j. 0 < j \<longrightarrow> j < n \<longrightarrow> \<not> (up \<and> j = i) \<longrightarrow> \<not> (down \<and> heap_parent j = i) \<longrightarrow>
        k (xs ! (heap_parent j)) \<le> k (xs ! j)) \<and> bridged k xs n i"

lemma heap_list_root:
  assumes "heap_list k xs n" and "i < n"
  shows "k (xs ! 0) \<le> k (xs ! i)"
  using assms(2)
proof (induction i rule: less_induct)
  case (less i)
  show ?case
  proof (cases "i = 0")
    case False
    then have "heap_parent i < i" by simp
    with less have "k (xs ! 0) \<le> k (xs ! (heap_parent i))" by simp
    also have "\<dots> \<le> k (xs ! i)" using assms(1) less.prems False by (simp add: heap_list_def)
    finally show ?thesis .
  qed simp
qed

lemma heap_list_Min:
  assumes "heap_list k xs (length xs)" and "x \<in> set xs"
  shows "k (hd xs) \<le> k x"
  using heap_list_root[OF assms(1)] assms(2)
  by (metis hd_conv_nth in_set_conv_nth length_pos_if_in_set length_greater_0_conv)

lemma heap_list_cong:
  "(\<And>j. j < n \<Longrightarrow> k (xs ! j) = k' (ys ! j)) \<Longrightarrow> heap_list k xs n = heap_list k' ys n"
  by (auto simp: heap_list_def)

lemma heap_list_prefix: "heap_list k xs n \<Longrightarrow> m \<le> n \<Longrightarrow> heap_list k xs m"
  by (simp add: heap_list_def)

lemma heap_but_none: "heap_but False False k xs n i \<Longrightarrow> heap_list k xs n"
  by (simp add: heap_but_def heap_list_def)

lemma heap_list_bridged: "heap_list k xs n \<Longrightarrow> bridged k xs n i"
proof (unfold bridged_def, intro allI impI)
  fix j
  assume h: "heap_list k xs n" and j: "0 < j" "j < n" "heap_parent j = i" "0 < i"
  then have "i < n" using heap_parent_below by blast
  with h j have "k (xs ! (heap_parent i)) \<le> k (xs ! i)" by (simp add: heap_list_def)
  also have "\<dots> \<le> k (xs ! j)" using h j by (auto simp: heap_list_def)
  finally show "k (xs ! (heap_parent i)) \<le> k (xs ! j)" .
qed

lemma heap_list_but: "heap_list k xs n \<Longrightarrow> heap_but u d k xs n i"
  by (simp add: heap_but_def heap_list_bridged) (simp add: heap_list_def)

text \<open>A new last element disturbs only its own edge to its parent.\<close>

lemma heap_list_snoc:
  assumes "heap_list k xs (length xs)"
  shows "heap_but True False k (xs @ [x]) (Suc (length xs)) (length xs)"
proof -
  have "k ((xs @ [x]) ! heap_parent j) \<le> k ((xs @ [x]) ! j)" if "0 < j" "j < length xs" for j
    using assms that by (simp add: heap_list_def nth_append)
  moreover have "heap_parent j \<noteq> length xs" if "0 < j" "j < Suc (length xs)" for j
    using heap_parent_less[OF that(1)] that(2) by linarith
  ultimately show ?thesis by (auto simp: heap_but_def bridged_def less_Suc_eq)
qed

text \<open>Removing the last element and storing it at \<open>i\<close> disturbs only the edges at \<open>i\<close>.\<close>

lemma heap_list_swap_last:
  assumes h: "heap_list k xs (Suc n)" and n: "length xs = Suc n" and i: "i < n"
  shows "heap_but True True k (list_swap xs i n) n i"
proof -
  let ?ys = "list_swap xs i n"
  have same: "?ys ! j = xs ! j" if "j < n" "j \<noteq> i" for j
    using that n i by (simp add: nth_list_swap)
  have "k (?ys ! (heap_parent j)) \<le> k (?ys ! j)"
    if "0 < j" "j < n" "j \<noteq> i" "heap_parent j \<noteq> i" for j
    using that same h by (simp add: heap_list_def)
  moreover have "bridged k ?ys n i"
    using heap_list_bridged[OF h, of i] same by (auto simp: bridged_def)
  ultimately show ?thesis by (auto simp: heap_but_def)
qed

subsection \<open>Sifting on lists\<close>

lemma sift_up_stop:
  "heap_but True False k xs n i \<Longrightarrow> i = 0 \<or> k (xs ! (heap_parent i)) \<le> k (xs ! i) \<Longrightarrow> heap_list k xs n"
  by (auto simp: heap_but_def heap_list_def)

lemma sift_up_step:
  assumes h: "heap_but True False k xs n i" and i: "0 < i" "i < n" "n \<le> length xs"
    and lt: "k (xs ! i) < k (xs ! (heap_parent i))"
  shows "heap_but True False k (list_swap xs (heap_parent i) i) n (heap_parent i)"
proof -
  let ?p = "heap_parent i"
  let ?ys = "list_swap xs ?p i"
  have p: "?p < i" using i by simp
  have nth: "?ys ! j = (if j = ?p then xs ! i else if j = i then xs ! ?p else xs ! j)" if "j < n" for j
    using that i p by (simp add: nth_list_swap)
  have edge: "k (xs ! (heap_parent j)) \<le> k (xs ! j)" if "0 < j" "j < n" "j \<noteq> i" for j
    using h that by (simp add: heap_but_def)
  have bridge: "k (xs ! ?p) \<le> k (xs ! j)" if "0 < j" "j < n" "heap_parent j = i" for j
    using h that i by (simp add: heap_but_def bridged_def)
  have "k (?ys ! (heap_parent j)) \<le> k (?ys ! j)" if j: "0 < j" "j < n" "j \<noteq> ?p" for j
  proof (cases "j = i")
    case True
    with lt i p show ?thesis by (simp add: nth)
  next
    case False
    then have e: "k (xs ! (heap_parent j)) \<le> k (xs ! j)" using edge j by simp
    consider (sibling) "heap_parent j = ?p" | (child) "heap_parent j = i" "heap_parent j \<noteq> ?p"
      | (far) "heap_parent j \<noteq> ?p" "heap_parent j \<noteq> i" by blast
    then show ?thesis
    proof cases
      case sibling
      with e lt have "k (xs ! i) \<le> k (xs ! j)" by simp
      then show ?thesis using nth[OF j(2)] nth[OF heap_parent_below[OF j(2)]] sibling j False by simp
    next
      case child
      then show ?thesis using nth[OF j(2)] nth[OF heap_parent_below[OF j(2)]] bridge[OF j(1,2)] j False by simp
    next
      case far
      then show ?thesis using nth[OF j(2)] nth[OF heap_parent_below[OF j(2)]] e j False by simp
    qed
  qed
  moreover have "bridged k ?ys n ?p"
  proof (unfold bridged_def, intro allI impI)
    fix j
    assume j: "0 < j" "j < n" "heap_parent j = ?p" "0 < ?p"
    let ?g = "heap_parent ?p"
    have g: "?g < ?p" "?g < n" using j heap_parent_below[OF heap_parent_below[OF i(2)]] by simp_all
    have gp: "k (xs ! ?g) \<le> k (xs ! ?p)" using edge[of ?p] j p i by simp
    have "k (xs ! ?g) \<le> k (?ys ! j)"
    proof (cases "j = i")
      case False
      then have "k (xs ! ?p) \<le> k (xs ! j)" using edge[of j] j by simp
      moreover have "j \<noteq> ?p" using j by auto
      ultimately show ?thesis using nth[OF j(2)] gp False by simp
    qed (use nth[OF j(2)] gp p in simp)
    then show "k (?ys ! ?g) \<le> k (?ys ! j)" using nth[OF g(2)] g p by simp
  qed
  ultimately show ?thesis by (simp add: heap_but_def)
qed

lemma sift_down_stop:
  assumes h: "heap_but u True k xs n i"
    and c: "\<And>j. 0 < j \<Longrightarrow> j < n \<Longrightarrow> heap_parent j = i \<Longrightarrow> k (xs ! i) \<le> k (xs ! j)"
  shows "heap_but u False k xs n i"
proof -
  have "k (xs ! heap_parent j) \<le> k (xs ! j)" if j: "0 < j" "j < n" "\<not> (u \<and> j = i)" for j
  proof (cases "heap_parent j = i")
    case True
    with c[OF j(1,2)] show ?thesis by simp
  next
    case False
    with h j show ?thesis by (simp add: heap_but_def)
  qed
  then show ?thesis using h by (simp add: heap_but_def)
qed

lemma sift_down_step:
  assumes h: "heap_but u True k xs n i" and j: "0 < j" "j < n" "n \<le> length xs" "heap_parent j = i"
    and lt: "k (xs ! j) < k (xs ! i)"
    and least: "\<And>l. 0 < l \<Longrightarrow> l < n \<Longrightarrow> heap_parent l = i \<Longrightarrow> k (xs ! j) \<le> k (xs ! l)"
  shows "heap_but False True k (list_swap xs i j) n j"
proof -
  let ?ys = "list_swap xs i j"
  have ij: "i < j" using j by auto
  have nth: "?ys ! l = (if l = i then xs ! j else if l = j then xs ! i else xs ! l)" if "l < n" for l
    using that j ij by (simp add: nth_list_swap)
  have edge: "k (xs ! (heap_parent l)) \<le> k (xs ! l)"
    if "0 < l" "l < n" "l \<noteq> i" "heap_parent l \<noteq> i" for l
    using h that by (simp add: heap_but_def)
  have bridge: "k (xs ! (heap_parent i)) \<le> k (xs ! l)" if "0 < l" "l < n" "heap_parent l = i" "0 < i" for l
    using h that by (simp add: heap_but_def bridged_def)
  have "k (?ys ! (heap_parent l)) \<le> k (?ys ! l)" if l: "0 < l" "l < n" "heap_parent l \<noteq> j" for l
  proof -
    consider (at) "l = i" | (child) "l \<noteq> i" "heap_parent l = i" | (far) "l \<noteq> i" "heap_parent l \<noteq> i" by blast
    then show ?thesis
    proof cases
      case at
      then have "heap_parent l \<noteq> i" using l by auto
      with at bridge[OF j(1,2,4)] l show ?thesis using nth[OF l(2)] nth[OF heap_parent_below[OF l(2)]] by simp
    next
      case child
      then show ?thesis using nth[OF l(2)] nth[OF heap_parent_below[OF l(2)]] least[OF l(1,2)] lt l by (simp add: less_imp_le)
    next
      case far
      then show ?thesis
        using nth[OF l(2)] nth[OF heap_parent_below[OF l(2)]] edge[OF l(1,2)] l j by auto
    qed
  qed
  moreover have "bridged k ?ys n j"
  proof (unfold bridged_def, intro allI impI)
    fix l
    assume l: "0 < l" "l < n" "heap_parent l = j" "0 < j"
    then have "l \<noteq> i" "l \<noteq> j" using ij heap_parent_less[of l] by auto
    moreover have "k (xs ! j) \<le> k (xs ! l)" using edge[of l] l ij calculation by simp
    ultimately show "k (?ys ! (heap_parent j)) \<le> k (?ys ! l)"
      using nth[OF l(2)] nth[of i] l j ij by simp
  qed
  ultimately show ?thesis by (simp add: heap_but_def)
qed

subsection \<open>The interface and the algorithms' contracts\<close>

text \<open>
  What \<open>container/heap\<close> relies on. \<open>elems\<close> is the slice the container keeps, \<open>rest\<close> all of its
  state that the five methods leave alone (the keys \<open>Less\<close> compares are read from it), and
  \<open>mark\<close> what a container writes into an element about its position, with the value \<open>out\<close> for
  an element that has been popped. \<open>room\<close> is the condition under which \<open>Push\<close> does not panic.
\<close>

locale go_heap =
  fixes len :: "'h \<Rightarrow> nat"
    and lt :: "'h \<Rightarrow> nat \<Rightarrow> nat \<Rightarrow> bool option"
    and swap :: "nat \<Rightarrow> nat \<Rightarrow> 'h \<Rightarrow> 'h option"
    and push :: "'x \<Rightarrow> 'h \<Rightarrow> 'h option"
    and pop :: "'h \<Rightarrow> ('x \<times> 'h) option"
    and elems :: "'h \<Rightarrow> 'x list"
    and rest :: "'h \<Rightarrow> 'r"
    and key :: "'r \<Rightarrow> 'x \<Rightarrow> 'k::linorder"
    and mark :: "'h \<Rightarrow> 'x \<Rightarrow> 'm"
    and out :: 'm
    and ok :: "'h \<Rightarrow> bool"
    and room :: "'x \<Rightarrow> 'h \<Rightarrow> bool"
  assumes len_law: "ok h \<Longrightarrow> len h = length (elems h)"
    and lt_law: "ok h \<Longrightarrow> i < length (elems h) \<Longrightarrow> j < length (elems h) \<Longrightarrow>
      lt h i j = Some (key (rest h) (elems h ! i) < key (rest h) (elems h ! j))"
    and swap_law: "ok h \<Longrightarrow> i < length (elems h) \<Longrightarrow> j < length (elems h) \<Longrightarrow>
      \<exists>h'. swap i j h = Some h' \<and> ok h' \<and> elems h' = list_swap (elems h) i j \<and> rest h' = rest h \<and>
        (\<forall>y. y \<notin> set (elems h) \<longrightarrow> mark h' y = mark h y)"
    and push_law: "ok h \<Longrightarrow> room x h \<Longrightarrow>
      \<exists>h'. push x h = Some h' \<and> ok h' \<and> elems h' = elems h @ [x] \<and> rest h' = rest h \<and>
        (\<forall>y. y \<notin> set (elems h) \<longrightarrow> y \<noteq> x \<longrightarrow> mark h' y = mark h y)"
    and pop_law: "ok h \<Longrightarrow> elems h \<noteq> [] \<Longrightarrow>
      \<exists>h'. pop h = Some (last (elems h), h') \<and> ok h' \<and> elems h' = butlast (elems h) \<and> rest h' = rest h \<and>
        mark h' (last (elems h)) = out \<and> (\<forall>y. y \<notin> set (elems h) \<longrightarrow> mark h' y = mark h y)"
begin

lemma heap_up_correct:
  assumes "ok h" "j < n" "n \<le> length (elems h)" "heap_but True False (key (rest h)) (elems h) n j"
  shows "\<exists>h'. heap_up lt swap j h = Some h' \<and> ok h' \<and> rest h' = rest h \<and>
    heap_list (key (rest h)) (elems h') n \<and> mset (elems h') = mset (elems h) \<and>
    (\<forall>m. n \<le> m \<longrightarrow> m < length (elems h) \<longrightarrow> elems h' ! m = elems h ! m) \<and>
    (\<forall>y. y \<notin> set (elems h) \<longrightarrow> mark h' y = mark h y)"
  using assms
proof (induction j arbitrary: h rule: less_induct)
  case (less j)
  let ?k = "key (rest h)" and ?p = "heap_parent j"
  show ?case
  proof (cases "j = 0 \<or> \<not> ?k (elems h ! j) < ?k (elems h ! ?p)")
    case True
    then have "heap_up lt swap j h = Some h"
      using lt_law[OF less.prems(1), of j ?p] less.prems
      by (subst heap_up_unfold) (auto simp: Let_def)
    moreover have "heap_list ?k (elems h) n"
      using True by (intro sift_up_stop[OF less.prems(4)]) auto
    ultimately show ?thesis using less.prems(1) by blast
  next
    case False
    then have j: "0 < j" "?p < j" "?p \<noteq> j" by simp_all
    from swap_law[OF less.prems(1), of ?p j] less.prems(2,3) j(2) obtain h1 where
      h1: "swap ?p j h = Some h1" "ok h1" "elems h1 = list_swap (elems h) ?p j" "rest h1 = rest h"
      "\<forall>y. y \<notin> set (elems h) \<longrightarrow> mark h1 y = mark h y" by auto
    have "heap_but True False (key (rest h1)) (elems h1) n ?p"
      using sift_up_step[OF less.prems(4) j(1) less.prems(2,3)] False by (simp add: h1)
    from less.IH[OF j(2) h1(2) _ _ this] less.prems(2,3) j(2) obtain h2 where
      h2: "heap_up lt swap ?p h1 = Some h2" "ok h2" "rest h2 = rest h" "heap_list ?k (elems h2) n"
      "mset (elems h2) = mset (elems h1)"
      "\<forall>m. n \<le> m \<longrightarrow> m < length (elems h1) \<longrightarrow> elems h2 ! m = elems h1 ! m"
      "\<forall>y. y \<notin> set (elems h1) \<longrightarrow> mark h2 y = mark h1 y" by (auto simp: h1)
    have "heap_up lt swap j h = Some h2"
      using lt_law[OF less.prems(1), of j ?p] less.prems(2,3) j False h1(1) h2(1)
      by (subst heap_up_unfold) (simp add: Let_def)
    moreover have "elems h2 ! m = elems h ! m" if "n \<le> m" "m < length (elems h)" for m
      using h2(6) that less.prems(2) j(2) by (simp add: h1 nth_list_swap)
    ultimately show ?thesis
      using h2 h1 less.prems(2,3) j(2) by (intro exI[of _ h2]) auto
  qed
qed

text \<open>\<open>down\<close> compares with the smaller child, the left one on a tie of the last two elements.\<close>

lemma heap_down_child:
  assumes "ok h" "n \<le> length (elems h)" "2 * i + 1 < n"
  obtains j where "0 < j" "j < n" "heap_parent j = i" "i < j"
    "\<And>l. 0 < l \<Longrightarrow> l < n \<Longrightarrow> heap_parent l = i \<Longrightarrow> key (rest h) (elems h ! j) \<le> key (rest h) (elems h ! l)"
    "heap_down lt swap i n h =
      (if key (rest h) (elems h ! j) < key (rest h) (elems h ! i)
       then case swap i j h of None \<Rightarrow> None | Some h' \<Rightarrow> heap_down lt swap j n h'
       else Some h)"
proof -
  let ?k = "key (rest h)"
  define j1 where "j1 = 2 * i + 1"
  define left where "left \<longleftrightarrow> (j1 + 1 < n \<longrightarrow> ?k (elems h ! j1) < ?k (elems h ! (j1 + 1)))"
  define j where "j = (if left then j1 else j1 + 1)"
  have j: "0 < j" "j < n" "heap_parent j = i" "i < j"
    using assms(3) by (auto simp: j_def left_def j1_def)
  moreover have "?k (elems h ! j) \<le> ?k (elems h ! l)" if "0 < l" "l < n" "heap_parent l = i" for l
    using heap_parent_child[OF that(3,1)] that(2) by (auto simp: j_def left_def j1_def)
  moreover have "heap_down lt swap i n h =
      (if ?k (elems h ! j) < ?k (elems h ! i)
       then case swap i j h of None \<Rightarrow> None | Some h' \<Rightarrow> heap_down lt swap j n h'
       else Some h)"
  proof (rule heap_down_unfold[OF assms(3)])
    show "(if 2 * i + 1 + 1 < n then lt h (2 * i + 1) (2 * i + 1 + 1) else Some True) = Some left"
      using lt_law[OF assms(1), of j1 "j1 + 1"] assms(2) by (simp add: left_def j1_def)
    show "j = (if left then 2 * i + 1 else 2 * i + 1 + 1)" by (simp add: j_def j1_def)
    show "lt h j i = Some (?k (elems h ! j) < ?k (elems h ! i))"
      using lt_law[OF assms(1), of j i] assms(2) j by linarith
  qed
  ultimately show thesis by (rule that)
qed

lemma heap_down_correct:
  assumes "ok h" "n \<le> length (elems h)" "heap_but u True (key (rest h)) (elems h) n i"
  shows "\<exists>h'. heap_down lt swap i n h = Some h' \<and> ok h' \<and> rest h' = rest h \<and>
    heap_but u False (key (rest h)) (elems h') n i \<and> mset (elems h') = mset (elems h) \<and>
    (\<forall>m. n \<le> m \<longrightarrow> m < length (elems h) \<longrightarrow> elems h' ! m = elems h ! m) \<and>
    (\<forall>y. y \<notin> set (elems h) \<longrightarrow> mark h' y = mark h y)"
  using assms
proof (induction "n - i" arbitrary: i u h rule: less_induct)
  case less
  let ?k = "key (rest h)"
  show ?case
  proof (cases "n \<le> 2 * i + 1")
    case True
    then have "heap_down lt swap i n h = Some h"
      by (simp add: heap_down.simps[of lt swap i])
    moreover have "heap_but u False ?k (elems h) n i"
    proof (rule sift_down_stop[OF less.prems(3)])
      fix l
      assume l: "0 < l" "l < n" "heap_parent l = i"
      show "?k (elems h ! i) \<le> ?k (elems h ! l)" using heap_parent_child[OF l(3,1)] l True by auto
    qed
    ultimately show ?thesis using less.prems(1) by blast
  next
    case False
    then have "2 * i + 1 < n" by simp
    from heap_down_child[OF less.prems(1,2) this] obtain j where
      j: "0 < j" "j < n" "heap_parent j = i" "i < j"
      and least: "\<And>l. 0 < l \<Longrightarrow> l < n \<Longrightarrow> heap_parent l = i \<Longrightarrow> ?k (elems h ! j) \<le> ?k (elems h ! l)"
      and unfold: "heap_down lt swap i n h =
        (if ?k (elems h ! j) < ?k (elems h ! i)
         then case swap i j h of None \<Rightarrow> None | Some h' \<Rightarrow> heap_down lt swap j n h'
         else Some h)" by metis
    show ?thesis
    proof (cases "?k (elems h ! j) < ?k (elems h ! i)")
      case stop: False
      have "heap_but u False ?k (elems h) n i"
        by (rule sift_down_stop[OF less.prems(3)]) (rule order_trans[OF leI[OF stop] least])
      then show ?thesis using less.prems(1) unfold stop by auto
    next
      case True
      from swap_law[OF less.prems(1), of i j] less.prems(2) j obtain h1 where
        h1: "swap i j h = Some h1" "ok h1" "elems h1 = list_swap (elems h) i j" "rest h1 = rest h"
        "\<forall>y. y \<notin> set (elems h) \<longrightarrow> mark h1 y = mark h y" by auto
      have "heap_but False True (key (rest h1)) (elems h1) n j"
        unfolding h1(3,4)
        by (rule sift_down_step[OF less.prems(3) j(1,2) less.prems(2) j(3) True]) (rule least)
      from less.hyps[OF _ h1(2) _ this] less.prems(2) j obtain h2 where
        h2: "heap_down lt swap j n h1 = Some h2" "ok h2" "rest h2 = rest h"
        "heap_but False False ?k (elems h2) n j" "mset (elems h2) = mset (elems h1)"
        "\<forall>m. n \<le> m \<longrightarrow> m < length (elems h1) \<longrightarrow> elems h2 ! m = elems h1 ! m"
        "\<forall>y. y \<notin> set (elems h1) \<longrightarrow> mark h2 y = mark h1 y" by (auto simp: h1 diff_less_mono2)
      have "heap_but u False ?k (elems h2) n i"
        by (rule heap_list_but[OF heap_but_none[OF h2(4)]])
      moreover have "elems h2 ! m = elems h ! m" if "n \<le> m" "m < length (elems h)" for m
        using h2(6) that j less.prems(2) by (simp add: h1 nth_list_swap)
      moreover have "heap_down lt swap i n h = Some h2"
        using unfold True h1(1) h2(1) by simp
      moreover have "mset (elems h1) = mset (elems h)" "set (elems h1) = set (elems h)"
        using j less.prems(2) by (simp_all add: h1(3))
      ultimately show ?thesis using h2(2,3,5,7) h1(5) by (intro exI[of _ h2]) simp
    qed
  qed
qed

text \<open>\<open>heap.Push\<close>, \<open>heap.Pop\<close> and \<open>heap.Remove\<close> on a container in heap order.\<close>

lemma heap_push_correct:
  assumes "ok h" "room x h" "heap_list (key (rest h)) (elems h) (length (elems h))"
  shows "\<exists>h'. heap_push len lt swap push x h = Some h' \<and> ok h' \<and> rest h' = rest h \<and>
    heap_list (key (rest h)) (elems h') (length (elems h')) \<and>
    mset (elems h') = add_mset x (mset (elems h)) \<and>
    (\<forall>y. y \<notin> set (elems h) \<longrightarrow> y \<noteq> x \<longrightarrow> mark h' y = mark h y)"
proof -
  let ?n = "length (elems h)"
  from push_law[OF assms(1,2)] obtain h1 where
    h1: "push x h = Some h1" "ok h1" "elems h1 = elems h @ [x]" "rest h1 = rest h"
    "\<forall>y. y \<notin> set (elems h) \<longrightarrow> y \<noteq> x \<longrightarrow> mark h1 y = mark h y" by blast
  have "heap_but True False (key (rest h1)) (elems h1) (Suc ?n) ?n"
    using heap_list_snoc[OF assms(3)] by (simp add: h1)
  from heap_up_correct[OF h1(2) _ _ this] obtain h2 where
    h2: "heap_up lt swap ?n h1 = Some h2" "ok h2" "rest h2 = rest h1"
    "heap_list (key (rest h1)) (elems h2) (Suc ?n)" "mset (elems h2) = mset (elems h1)"
    "\<forall>y. y \<notin> set (elems h1) \<longrightarrow> mark h2 y = mark h1 y" by (auto simp: h1)
  have "length (elems h2) = Suc ?n"
    using mset_eq_length[OF h2(5)] by (simp add: h1)
  moreover have "heap_push len lt swap push x h = Some h2"
    using h2(1) by (simp add: heap_push_def h1 len_law[OF h1(2)])
  ultimately show ?thesis
    using h1 h2 by (intro exI[of _ h2]) auto
qed

lemma heap_cut_correct:
  assumes "ok h" "length (elems h) = Suc n" "heap_list (key (rest h)) (elems h) n"
  shows "\<exists>h'. pop h = Some (elems h ! n, h') \<and> ok h' \<and> rest h' = rest h \<and>
    heap_list (key (rest h)) (elems h') (length (elems h')) \<and>
    mset (elems h) = add_mset (elems h ! n) (mset (elems h')) \<and> mark h' (elems h ! n) = out \<and>
    (\<forall>y. y \<notin> set (elems h) \<longrightarrow> mark h' y = mark h y)"
proof -
  have ne: "elems h \<noteq> []" and last: "last (elems h) = elems h ! n"
    using assms(2) last_conv_nth[of "elems h"] by (force, force)
  from pop_law[OF assms(1) ne] obtain h1 where
    h1: "pop h = Some (last (elems h), h1)" "ok h1" "elems h1 = butlast (elems h)" "rest h1 = rest h"
    "mark h1 (last (elems h)) = out" "\<forall>y. y \<notin> set (elems h) \<longrightarrow> mark h1 y = mark h y" by blast
  have "heap_list (key (rest h)) (elems h1) (length (elems h1))"
    using assms(2,3) by (subst heap_list_cong[where ys = "elems h"]) (auto simp: h1 nth_butlast)
  moreover have "mset (elems h) = mset (elems h1 @ [elems h ! n])"
    using append_butlast_last_id[OF ne] by (simp add: h1 last)
  ultimately show ?thesis using h1 by (intro exI[of _ h1]) (auto simp: last)
qed

lemma heap_pop_correct:
  assumes "ok h" "elems h \<noteq> []" "heap_list (key (rest h)) (elems h) (length (elems h))"
  shows "\<exists>h'. heap_pop len lt swap pop h = Some (hd (elems h), h') \<and> ok h' \<and> rest h' = rest h \<and>
    heap_list (key (rest h)) (elems h') (length (elems h')) \<and>
    mset (elems h) = add_mset (hd (elems h)) (mset (elems h')) \<and> mark h' (hd (elems h)) = out \<and>
    (\<forall>y. y \<notin> set (elems h) \<longrightarrow> mark h' y = mark h y)"
proof -
  obtain n where n: "length (elems h) = Suc n"
    using assms(2) by (cases "elems h") auto
  from swap_law[OF assms(1), of 0 n] n obtain h1 where
    h1: "swap 0 n h = Some h1" "ok h1" "elems h1 = list_swap (elems h) 0 n" "rest h1 = rest h"
    "\<forall>y. y \<notin> set (elems h) \<longrightarrow> mark h1 y = mark h y" by auto
  have same: "mset (elems h1) = mset (elems h)" "set (elems h1) = set (elems h)"
    "elems h1 ! n = hd (elems h)"
    using n assms(2) by (simp_all add: h1 nth_list_swap hd_conv_nth)
  have "heap_but False True (key (rest h1)) (elems h1) n 0"
  proof (cases n)
    case 0
    then show ?thesis by (simp add: heap_but_def bridged_def)
  next
    case (Suc m)
    then show ?thesis
      using heap_list_swap_last[OF assms(3)[unfolded n] n, of 0] by (simp add: h1 heap_but_def)
  qed
  from heap_down_correct[OF h1(2) _ this] obtain h2 where
    h2: "heap_down lt swap 0 n h1 = Some h2" "ok h2" "rest h2 = rest h1"
    "heap_but False False (key (rest h1)) (elems h2) n 0" "mset (elems h2) = mset (elems h1)"
    "elems h2 ! n = elems h1 ! n" "\<forall>y. y \<notin> set (elems h1) \<longrightarrow> mark h2 y = mark h1 y"
    using n by (auto simp: h1(3))
  have "length (elems h2) = Suc n"
    using n mset_eq_length[OF h2(5)] by (simp add: h1)
  from heap_cut_correct[OF h2(2) this] heap_but_none[OF h2(4)] obtain h3 where
    "pop h2 = Some (hd (elems h), h3)" "ok h3" "rest h3 = rest h"
    "heap_list (key (rest h)) (elems h3) (length (elems h3))"
    "mset (elems h) = add_mset (hd (elems h)) (mset (elems h3))" "mark h3 (hd (elems h)) = out"
    "\<forall>y. y \<notin> set (elems h2) \<longrightarrow> mark h3 y = mark h2 y"
    using h1 h2 same by auto
  moreover have "set (elems h2) = set (elems h)" using h2(5) same by (metis set_mset_mset)
  ultimately show ?thesis
    using h1 h2 n same len_law[OF assms(1)] by (intro exI[of _ h3]) (auto simp: heap_pop_def)
qed

text \<open>\<open>heap.Remove\<close> moves the last element to the gap, sifts it down, then up: whichever
  direction it has to go, the other pass finds nothing to do.\<close>

lemma heap_remove_correct:
  assumes "ok h" "i < length (elems h)" "heap_list (key (rest h)) (elems h) (length (elems h))"
  shows "\<exists>h'. heap_remove len lt swap pop (int i) h = Some (elems h ! i, h') \<and> ok h' \<and> rest h' = rest h \<and>
    heap_list (key (rest h)) (elems h') (length (elems h')) \<and>
    mset (elems h) = add_mset (elems h ! i) (mset (elems h')) \<and> mark h' (elems h ! i) = out \<and>
    (\<forall>y. y \<notin> set (elems h) \<longrightarrow> mark h' y = mark h y)"
proof -
  obtain n where n: "length (elems h) = Suc n"
    using assms(2) by (cases "elems h") auto
  then have len: "len h - 1 = n" using len_law[OF assms(1)] by simp
  show ?thesis
  proof (cases "i = n")
    case True
    then show ?thesis
      using heap_cut_correct[OF assms(1) n heap_list_prefix[OF assms(3)]] n len
      by (auto simp: heap_remove_def Let_def)
  next
    case False
    with assms(2) n have i: "i < n" by simp
    from swap_law[OF assms(1), of i n] n i obtain h1 where
      h1: "swap i n h = Some h1" "ok h1" "elems h1 = list_swap (elems h) i n" "rest h1 = rest h"
      "\<forall>y. y \<notin> set (elems h) \<longrightarrow> mark h1 y = mark h y" by auto
    have same1: "mset (elems h1) = mset (elems h)" "set (elems h1) = set (elems h)"
      "length (elems h1) = Suc n" "elems h1 ! n = elems h ! i"
      using n i by (simp_all add: h1(3) nth_list_swap)
    have "heap_but True True (key (rest h1)) (elems h1) n i"
      using heap_list_swap_last[OF assms(3)[unfolded n] n i] by (simp add: h1(3,4))
    from heap_down_correct[OF h1(2) _ this] same1(3) obtain h2 where
      h2: "heap_down lt swap i n h1 = Some h2" "ok h2" "rest h2 = rest h1"
      "heap_but True False (key (rest h1)) (elems h2) n i" "mset (elems h2) = mset (elems h1)"
      "elems h2 ! n = elems h1 ! n" "\<forall>y. y \<notin> set (elems h1) \<longrightarrow> mark h2 y = mark h1 y"
      by auto
    have same2: "set (elems h2) = set (elems h)" "length (elems h2) = Suc n"
      using mset_eq_setD[OF h2(5)] mset_eq_length[OF h2(5)] same1 by simp_all
    have "heap_but True False (key (rest h2)) (elems h2) n i" using h2(3,4) by simp
    from heap_up_correct[OF h2(2) i _ this] same2 obtain h3 where
      h3: "heap_up lt swap i h2 = Some h3" "ok h3" "rest h3 = rest h2"
      "heap_list (key (rest h2)) (elems h3) n" "mset (elems h3) = mset (elems h2)"
      "elems h3 ! n = elems h2 ! n" "\<forall>y. y \<notin> set (elems h2) \<longrightarrow> mark h3 y = mark h2 y"
      by auto
    have same3: "mset (elems h3) = mset (elems h)" "set (elems h3) = set (elems h)"
      "length (elems h3) = Suc n" "elems h3 ! n = elems h ! i" "rest h3 = rest h"
      using mset_eq_setD[OF h3(5)] mset_eq_length[OF h3(5)] same1 same2 h1 h2 h3 by simp_all
    have "heap_list (key (rest h3)) (elems h3) n" using h3(3,4) by simp
    from heap_cut_correct[OF h3(2) same3(3) this] obtain h4 where
      h4: "pop h3 = Some (elems h ! i, h4)" "ok h4" "rest h4 = rest h"
      "heap_list (key (rest h)) (elems h4) (length (elems h4))"
      "mset (elems h) = add_mset (elems h ! i) (mset (elems h4))" "mark h4 (elems h ! i) = out"
      "\<forall>y. y \<notin> set (elems h) \<longrightarrow> mark h4 y = mark h3 y"
      by (auto simp: same3)
    have "heap_remove len lt swap pop (int i) h = Some (elems h ! i, h4)"
      using h1(1) h2(1) h3(1) h4(1) len False by (simp add: heap_remove_def Let_def)
    then show ?thesis
      using h1(5) h2(7) h3(7) h4 same1(2) same2(1) by (intro exI[of _ h4]) simp
  qed
qed

end

end
