(* ===== verification/Pool.thy ===== *)
theory Pool
  imports Backend GoHeap
begin

text \<open>
  engine/native/pool.go: the slice of backend pointers that \<open>container/heap\<close> keeps in heap
  order, by weight in failover mode and by the number of running connections otherwise. The
  pointers go to an explicit memory, since \<open>Swap\<close>, \<open>Push\<close> and \<open>Pop\<close> write the position of a
  backend into the backend itself. The interpretation \<open>pq\<close> at the end makes the algorithms of
  theory \<open>GoHeap\<close> available for it.
\<close>

subsection \<open>The pool and the five methods of \<open>heap.Interface\<close>\<close>

record pool =
  pl_backends :: "ref list"
  pl_leastweight :: bool
  pl_cap :: nat

type_synonym mem = "ref \<Rightarrow> backend"

definition pool_Len :: "pool \<times> mem \<Rightarrow> nat" where
  "pool_Len h = length (pl_backends (fst h))"

definition pool_Less :: "pool \<times> mem \<Rightarrow> nat \<Rightarrow> nat \<Rightarrow> bool option" where
  "pool_Less h i j = (case h of (p, m) \<Rightarrow>
    let n = pl_backends p in
    if i < length n \<and> j < length n then
      if pl_leastweight p then Some (bk_weight (m (n ! i)) < bk_weight (m (n ! j)))
      else Some (bk_ongoing (m (n ! i)) < bk_ongoing (m (n ! j)))
    else None)"

definition set_index :: "ref \<Rightarrow> int \<Rightarrow> mem \<Rightarrow> mem" where
  "set_index r i m = m(r := (m r)\<lparr>bk_index := i\<rparr>)"

definition pool_Swap :: "nat \<Rightarrow> nat \<Rightarrow> pool \<times> mem \<Rightarrow> (pool \<times> mem) option" where
  "pool_Swap i j h = (case h of (p, m) \<Rightarrow>
    if i < length (pl_backends p) \<and> j < length (pl_backends p) then
      let n = list_swap (pl_backends p) i j in
      Some (p\<lparr>pl_backends := n\<rparr>, set_index (n ! j) (int j) (set_index (n ! i) (int i) m))
    else None)"

text \<open>\<open>Push\<close> reslices to one element more and panics beyond the slice's capacity, which is fixed
  when the pool is made.\<close>

definition pool_Push :: "ref \<Rightarrow> pool \<times> mem \<Rightarrow> (pool \<times> mem) option" where
  "pool_Push x h = (case h of (p, m) \<Rightarrow>
    let n = pl_backends p; l = length n in
    if l + 1 \<le> pl_cap p then Some (p\<lparr>pl_backends := n @ [x]\<rparr>, set_index x (int l) m) else None)"

definition pool_Pop :: "pool \<times> mem \<Rightarrow> (ref \<times> (pool \<times> mem)) option" where
  "pool_Pop h = (case h of (p, m) \<Rightarrow>
    let n = pl_backends p in
    if n = [] then None
    else Some (last n, (p\<lparr>pl_backends := butlast n\<rparr>, set_index (last n) (- 1) m)))"

text \<open>\<open>heap.Push(&s.pool, b)\<close>, \<open>heap.Pop(&s.pool)\<close> and \<open>heap.Remove(&s.pool, i)\<close>.\<close>

definition PoolPush :: "ref \<Rightarrow> pool \<times> mem \<Rightarrow> (pool \<times> mem) option" where
  "PoolPush = heap_push pool_Len pool_Less pool_Swap pool_Push"

definition PoolPop :: "pool \<times> mem \<Rightarrow> (ref \<times> (pool \<times> mem)) option" where
  "PoolPop = heap_pop pool_Len pool_Less pool_Swap pool_Pop"

definition PoolRemove :: "int \<Rightarrow> pool \<times> mem \<Rightarrow> (ref \<times> (pool \<times> mem)) option" where
  "PoolRemove = heap_remove pool_Len pool_Less pool_Swap pool_Pop"

subsection \<open>Keys\<close>

text \<open>What \<open>Less\<close> compares, as one linearly ordered type. Within one pool all keys have the same
  constructor.\<close>

datatype pool_key = ByWeight uint | ByOngoing uint

instantiation pool_key :: linorder
begin

fun less_eq_pool_key :: "pool_key \<Rightarrow> pool_key \<Rightarrow> bool" where
  "less_eq_pool_key (ByWeight a) (ByWeight b) = (a \<le> b)"
| "less_eq_pool_key (ByOngoing a) (ByOngoing b) = (a \<le> b)"
| "less_eq_pool_key (ByWeight a) (ByOngoing b) = True"
| "less_eq_pool_key (ByOngoing a) (ByWeight b) = False"

definition less_pool_key :: "pool_key \<Rightarrow> pool_key \<Rightarrow> bool" where
  "less_pool_key a b \<longleftrightarrow> a \<le> b \<and> \<not> b \<le> (a :: pool_key)"

instance
proof
  fix a b c :: pool_key
  show "a < b \<longleftrightarrow> a \<le> b \<and> \<not> b \<le> a" by (rule less_pool_key_def)
  show "a \<le> a" by (cases a) auto
  show "a \<le> b \<Longrightarrow> b \<le> c \<Longrightarrow> a \<le> c" by (cases a; cases b; cases c) auto
  show "a \<le> b \<Longrightarrow> b \<le> a \<Longrightarrow> a = b" by (cases a; cases b) auto
  show "a \<le> b \<or> b \<le> a" by (cases a; cases b) auto
qed

end

lemma less_pool_key_simps [simp]:
  "(ByWeight a < ByWeight b) = (a < b)" "(ByOngoing a < ByOngoing b) = (a < b)"
  by (auto simp: less_pool_key_def)

text \<open>A backend without its position: what the pool's methods leave alone.\<close>

definition strip :: "mem \<Rightarrow> mem" where
  "strip m = (\<lambda>r. (m r)\<lparr>bk_index := 0\<rparr>)"

definition key_of :: "bool \<Rightarrow> backend \<Rightarrow> pool_key" where
  "key_of lw b = (if lw then ByWeight (bk_weight b) else ByOngoing (bk_ongoing b))"

definition pool_rest :: "pool \<times> mem \<Rightarrow> bool \<times> nat \<times> mem" where
  "pool_rest h = (pl_leastweight (fst h), pl_cap (fst h), strip (snd h))"

definition pool_key :: "bool \<times> nat \<times> mem \<Rightarrow> ref \<Rightarrow> pool_key" where
  "pool_key c r = key_of (fst c) (snd (snd c) r)"

definition pool_ok :: "pool \<times> mem \<Rightarrow> bool" where
  "pool_ok h \<longleftrightarrow>
     distinct (pl_backends (fst h)) \<and> length (pl_backends (fst h)) \<le> pl_cap (fst h) \<and>
     (\<forall>i < length (pl_backends (fst h)). bk_index (snd h (pl_backends (fst h) ! i)) = int i)"

definition pool_room :: "ref \<Rightarrow> pool \<times> mem \<Rightarrow> bool" where
  "pool_room x h \<longleftrightarrow> x \<notin> set (pl_backends (fst h)) \<and> length (pl_backends (fst h)) < pl_cap (fst h)"

lemma strip_set_index [simp]: "strip (set_index r i m) = strip m"
  by (auto simp: strip_def set_index_def fun_eq_iff)

lemma set_index_other [simp]: "x \<noteq> r \<Longrightarrow> bk_index (set_index r i m x) = bk_index (m x)"
  by (simp add: set_index_def)

lemma set_index_same [simp]: "bk_index (set_index r i m r) = i"
  by (simp add: set_index_def)

lemma key_of_strip [simp]: "key_of lw (strip m r) = key_of lw (m r)"
  by (simp add: key_of_def strip_def)

lemma pool_ok_swap:
  assumes "pool_ok (p, m)" "i < length (pl_backends p)" "j < length (pl_backends p)"
  shows "\<exists>h'. pool_Swap i j (p, m) = Some h' \<and> pool_ok h' \<and>
    pl_backends (fst h') = list_swap (pl_backends p) i j \<and> pool_rest h' = pool_rest (p, m) \<and>
    (\<forall>y. y \<notin> set (pl_backends p) \<longrightarrow> bk_index (snd h' y) = bk_index (m y))"
proof -
  let ?n = "pl_backends p"
  let ?ys = "list_swap ?n i j"
  let ?m = "set_index (?ys ! j) (int j) (set_index (?ys ! i) (int i) m)"
  have inj: "?ys ! a = ?ys ! b \<longleftrightarrow> a = b" if "a < length ?n" "b < length ?n" for a b
    using assms that by (intro nth_eq_iff_index_eq) (auto simp: pool_ok_def)
  have "bk_index (?m (?ys ! k)) = int k" if "k < length ?n" for k
  proof (cases "k = j \<or> k = i")
    case True
    then show ?thesis using inj assms that by (cases "k = j") auto
  next
    case False
    then show ?thesis
      using inj[of k j] inj[of k i] assms that by (simp add: pool_ok_def nth_list_swap)
  qed
  moreover have "?ys ! i \<in> set ?n" "?ys ! j \<in> set ?n"
    using assms by (auto simp: nth_list_swap)
  ultimately show ?thesis
    using assms by (auto simp: pool_Swap_def pool_ok_def pool_rest_def Let_def intro!: set_index_other[THEN trans])
qed

lemma pool_ok_push:
  assumes "pool_ok (p, m)" "pool_room x (p, m)"
  shows "\<exists>h'. pool_Push x (p, m) = Some h' \<and> pool_ok h' \<and>
    pl_backends (fst h') = pl_backends p @ [x] \<and> pool_rest h' = pool_rest (p, m) \<and>
    (\<forall>y. y \<notin> set (pl_backends p) \<longrightarrow> y \<noteq> x \<longrightarrow> bk_index (snd h' y) = bk_index (m y))"
proof -
  have "pl_backends p ! i \<noteq> x" if "i < length (pl_backends p)" for i
    using assms(2) that nth_mem by (fastforce simp: pool_room_def)
  then show ?thesis
    using assms
    by (auto simp: pool_Push_def pool_ok_def pool_room_def pool_rest_def Let_def nth_append less_Suc_eq)
qed

lemma pool_ok_pop:
  assumes "pool_ok (p, m)" "pl_backends p \<noteq> []"
  shows "\<exists>h'. pool_Pop (p, m) = Some (last (pl_backends p), h') \<and> pool_ok h' \<and>
    pl_backends (fst h') = butlast (pl_backends p) \<and> pool_rest h' = pool_rest (p, m) \<and>
    bk_index (snd h' (last (pl_backends p))) = - 1 \<and>
    (\<forall>y. y \<notin> set (pl_backends p) \<longrightarrow> bk_index (snd h' y) = bk_index (m y))"
proof -
  let ?n = "pl_backends p"
  from assms obtain ys x where n: "?n = ys @ [x]" by (metis append_butlast_last_id)
  then have d: "x \<notin> set ys" "distinct ys" using assms(1) by (simp_all add: pool_ok_def)
  have "bk_index (m (ys ! i)) = int i" if "i < length ys" for i
    using assms(1) n that by (auto simp: pool_ok_def nth_append dest!: spec[of _ i])
  moreover have "ys ! i \<noteq> x" if "i < length ys" for i
    using d(1) that nth_mem by blast
  ultimately show ?thesis
    using assms d n by (auto simp: pool_Pop_def pool_ok_def pool_rest_def Let_def)
qed

interpretation pq: go_heap pool_Len pool_Less pool_Swap pool_Push pool_Pop
  "\<lambda>h. pl_backends (fst h)" pool_rest pool_key "\<lambda>h r. bk_index (snd h r)" "- 1" pool_ok pool_room
proof (unfold_locales, goal_cases)
  case (1 h)
  then show ?case by (simp add: pool_Len_def)
next
  case (2 h i j)
  then show ?case
    by (cases h) (simp add: pool_Less_def pool_key_def pool_rest_def key_of_def strip_def Let_def)
next
  case (3 h i j)
  then show ?case using pool_ok_swap by (cases h) fastforce
next
  case (4 h x)
  then show ?case using pool_ok_push by (cases h) fastforce
next
  case (5 h)
  then show ?case using pool_ok_pop by (cases h) fastforce
qed

subsection \<open>The pool as a priority queue\<close>

definition pool_inv :: "pool \<Rightarrow> mem \<Rightarrow> bool" where
  "pool_inv p m \<longleftrightarrow> pool_ok (p, m) \<and>
     heap_list (\<lambda>r. key_of (pl_leastweight p) (m r)) (pl_backends p) (length (pl_backends p))"

text \<open>The effect of a heap operation outside the list of backends: positions only.\<close>

definition pool_frame :: "pool \<Rightarrow> mem \<Rightarrow> pool \<Rightarrow> mem \<Rightarrow> bool" where
  "pool_frame p m p' m' \<longleftrightarrow>
     pl_leastweight p' = pl_leastweight p \<and> pl_cap p' = pl_cap p \<and>
     (\<forall>r. m' r = (m r)\<lparr>bk_index := bk_index (m' r)\<rparr>)"

lemma strip_eq_iff: "strip m' = strip m \<longleftrightarrow> (\<forall>r. m' r = (m r)\<lparr>bk_index := bk_index (m' r)\<rparr>)"
proof -
  have "(x\<lparr>bk_index := 0\<rparr> = y\<lparr>bk_index := 0\<rparr>) = (x = y\<lparr>bk_index := bk_index x\<rparr>)" for x y :: backend
    by (cases x; cases y) auto
  then show ?thesis by (simp add: strip_def fun_eq_iff)
qed

lemma pool_rest_eq_iff: "pool_rest (p', m') = pool_rest (p, m) \<longleftrightarrow> pool_frame p m p' m'"
  by (simp add: pool_rest_def pool_frame_def strip_eq_iff)

lemma pool_frame_refl [simp]: "pool_frame p m p m"
  by (simp add: pool_frame_def)

lemma pool_frame_fields [simp]:
  assumes "pool_frame p m p' m'"
  shows "pl_leastweight p' = pl_leastweight p" "pl_cap p' = pl_cap p"
    "bk_address (m' r) = bk_address (m r)" "bk_ongoing (m' r) = bk_ongoing (m r)"
    "bk_weight (m' r) = bk_weight (m r)" "bk_tunnel (m' r) = bk_tunnel (m r)"
    "bk_tunnels (m' r) = bk_tunnels (m r)" "bk_failChan (m' r) = bk_failChan (m r)"
    "bk_count (m' r) = bk_count (m r)" "key_of lw (m' r) = key_of lw (m r)"
    "backend_wf (m' r) = backend_wf (m r)"
proof -
  from assms have "m' r = (m r)\<lparr>bk_index := bk_index (m' r)\<rparr>" by (simp add: pool_frame_def)
  then obtain i where m: "m' r = (m r)\<lparr>bk_index := i\<rparr>" by blast
  show "pl_leastweight p' = pl_leastweight p" "pl_cap p' = pl_cap p"
    using assms by (simp_all add: pool_frame_def)
  show "bk_address (m' r) = bk_address (m r)" "bk_ongoing (m' r) = bk_ongoing (m r)"
    "bk_weight (m' r) = bk_weight (m r)" "bk_tunnel (m' r) = bk_tunnel (m r)"
    "bk_tunnels (m' r) = bk_tunnels (m r)" "bk_failChan (m' r) = bk_failChan (m r)"
    "bk_count (m' r) = bk_count (m r)" "key_of lw (m' r) = key_of lw (m r)"
    "backend_wf (m' r) = backend_wf (m r)"
    by (simp_all add: m key_of_def backend_wf_def)
qed

lemma pool_inv_index: "pool_inv p m \<Longrightarrow> r \<in> set (pl_backends p) \<Longrightarrow>
   0 \<le> bk_index (m r) \<and> nat (bk_index (m r)) < length (pl_backends p) \<and>
   pl_backends p ! nat (bk_index (m r)) = r"
  by (auto simp: pool_inv_def pool_ok_def in_set_conv_nth)

lemma pool_inv_distinct: "pool_inv p m \<Longrightarrow> distinct (pl_backends p)"
  by (simp add: pool_inv_def pool_ok_def)

lemma pool_inv_min: "pool_inv p m \<Longrightarrow> r \<in> set (pl_backends p) \<Longrightarrow>
   key_of (pl_leastweight p) (m (hd (pl_backends p))) \<le> key_of (pl_leastweight p) (m r)"
  unfolding pool_inv_def using heap_list_Min[where k = "\<lambda>r. key_of (pl_leastweight p) (m r)"] by blast

text \<open>The invariant reads positions and keys of the pool's own backends only.\<close>

lemma pool_inv_cong:
  assumes "pool_inv p m"
    and "\<And>r. r \<in> set (pl_backends p) \<Longrightarrow>
      bk_index (m' r) = bk_index (m r) \<and> key_of (pl_leastweight p) (m' r) = key_of (pl_leastweight p) (m r)"
  shows "pool_inv p m'"
proof -
  have "pool_ok (p, m')" using assms by (simp add: pool_inv_def pool_ok_def)
  moreover have "heap_list (\<lambda>r. key_of (pl_leastweight p) (m' r)) (pl_backends p) (length (pl_backends p))"
    using assms by (subst heap_list_cong[where k' = "\<lambda>r. key_of (pl_leastweight p) (m r)" and ys = "pl_backends p"])
      (simp_all add: pool_inv_def)
  ultimately show ?thesis by (simp add: pool_inv_def)
qed

lemma pool_inv_heap: "pool_inv p m \<longleftrightarrow> pool_ok (p, m) \<and>
   heap_list (pool_key (pool_rest (p, m))) (pl_backends p) (length (pl_backends p))"
proof -
  have "pool_key (pool_rest (p, m)) = (\<lambda>r. key_of (pl_leastweight p) (m r))"
    by (simp add: pool_key_def pool_rest_def fun_eq_iff)
  then show ?thesis by (simp add: pool_inv_def)
qed

lemma pool_inv_heap': "pool_ok (p', m') \<Longrightarrow> pool_rest (p', m') = c \<Longrightarrow>
   heap_list (pool_key c) (pl_backends p') (length (pl_backends p')) \<Longrightarrow> pool_inv p' m'"
  by (auto simp: pool_inv_heap)

theorem PoolPush_ok:
  assumes "pool_inv p m" "r \<notin> set (pl_backends p)" "length (pl_backends p) < pl_cap p"
  obtains p' m' where "PoolPush r (p, m) = Some (p', m')" "pool_inv p' m'" "pool_frame p m p' m'"
    "mset (pl_backends p') = add_mset r (mset (pl_backends p))"
    "\<And>x. x \<notin> set (pl_backends p) \<Longrightarrow> x \<noteq> r \<Longrightarrow> bk_index (m' x) = bk_index (m x)"
proof -
  have "pool_room r (p, m)" using assms(2,3) by (simp add: pool_room_def)
  from pq.heap_push_correct[of "(p, m)" r] this assms(1) obtain h where
    h: "PoolPush r (p, m) = Some h" "pool_ok h" "pool_rest h = pool_rest (p, m)"
    "heap_list (pool_key (pool_rest (p, m))) (pl_backends (fst h)) (length (pl_backends (fst h)))"
    "mset (pl_backends (fst h)) = add_mset r (mset (pl_backends p))"
    "\<forall>x. x \<notin> set (pl_backends p) \<longrightarrow> x \<noteq> r \<longrightarrow> bk_index (snd h x) = bk_index (m x)"
    unfolding PoolPush_def pool_inv_heap by auto
  obtain p' m' where hp: "h = (p', m')" by (cases h)
  show thesis
    using h by (intro that[of p' m']) (auto simp: hp simp flip: pool_rest_eq_iff intro: pool_inv_heap')
qed

theorem PoolPop_ok:
  assumes "pool_inv p m" "pl_backends p \<noteq> []"
  obtains p' m' where "PoolPop (p, m) = Some (hd (pl_backends p), (p', m'))" "pool_inv p' m'"
    "pool_frame p m p' m'" "mset (pl_backends p) = add_mset (hd (pl_backends p)) (mset (pl_backends p'))"
    "bk_index (m' (hd (pl_backends p))) = - 1"
    "\<And>x. x \<notin> set (pl_backends p) \<Longrightarrow> bk_index (m' x) = bk_index (m x)"
proof -
  from pq.heap_pop_correct[of "(p, m)"] assms obtain h where
    h: "PoolPop (p, m) = Some (hd (pl_backends p), h)" "pool_ok h" "pool_rest h = pool_rest (p, m)"
    "heap_list (pool_key (pool_rest (p, m))) (pl_backends (fst h)) (length (pl_backends (fst h)))"
    "mset (pl_backends p) = add_mset (hd (pl_backends p)) (mset (pl_backends (fst h)))"
    "bk_index (snd h (hd (pl_backends p))) = - 1"
    "\<forall>x. x \<notin> set (pl_backends p) \<longrightarrow> bk_index (snd h x) = bk_index (m x)"
    unfolding PoolPop_def pool_inv_heap by auto
  obtain p' m' where hp: "h = (p', m')" by (cases h)
  show thesis
    using h by (intro that[of p' m']) (auto simp: hp simp flip: pool_rest_eq_iff intro: pool_inv_heap')
qed

theorem PoolRemove_ok:
  assumes "pool_inv p m" "r \<in> set (pl_backends p)"
  obtains p' m' where "PoolRemove (bk_index (m r)) (p, m) = Some (r, (p', m'))" "pool_inv p' m'"
    "pool_frame p m p' m'" "mset (pl_backends p) = add_mset r (mset (pl_backends p'))"
    "bk_index (m' r) = - 1" "\<And>x. x \<notin> set (pl_backends p) \<Longrightarrow> bk_index (m' x) = bk_index (m x)"
proof -
  from assms(2) obtain i where i: "i < length (pl_backends p)" "pl_backends p ! i = r"
    by (auto simp: in_set_conv_nth)
  then have ri: "bk_index (m r) = int i"
    using assms(1) by (auto simp: pool_inv_def pool_ok_def)
  from pq.heap_remove_correct[of "(p, m)" i] i assms(1) obtain h where
    h: "PoolRemove (bk_index (m r)) (p, m) = Some (r, h)" "pool_ok h" "pool_rest h = pool_rest (p, m)"
    "heap_list (pool_key (pool_rest (p, m))) (pl_backends (fst h)) (length (pl_backends (fst h)))"
    "mset (pl_backends p) = add_mset r (mset (pl_backends (fst h)))" "bk_index (snd h r) = - 1"
    "\<forall>x. x \<notin> set (pl_backends p) \<longrightarrow> bk_index (snd h x) = bk_index (m x)"
    unfolding PoolRemove_def pool_inv_heap ri by auto
  obtain p' m' where hp: "h = (p', m')" by (cases h)
  show thesis
    using h by (intro that[of p' m']) (auto simp: hp simp flip: pool_rest_eq_iff intro: pool_inv_heap')
qed

subsection \<open>Properties\<close>

definition ex_mem :: mem where
  "ex_mem = (\<lambda>r. (NewBackend ''s'' 0 (of_nat r))\<lparr>bk_index := (if r = 5 then 0 else if r = 7 then 1 else - 1)\<rparr>)"

definition ex_pool :: "nat \<Rightarrow> pool" where
  "ex_pool n = \<lparr>pl_backends = [5, 7], pl_leastweight = True, pl_cap = n\<rparr>"

lemma ex_pool_inv: "2 \<le> n \<Longrightarrow> pool_inv (ex_pool n) ex_mem"
  by (auto simp: pool_inv_def pool_ok_def heap_list_def heap_parent_def ex_pool_def ex_mem_def key_of_def
      NewBackend_def less_Suc_eq dest!: less_2_cases)

text \<open>\<open>heap.Pop\<close> on a pool that is not empty returns a backend of least key, takes exactly that one
  out and gives it the position -1; every other backend of the pool still knows its position.\<close>

theorem pool_pop_least:
  assumes "pool_inv p m" "pl_backends p \<noteq> []"
  shows "\<exists>b p' m'. PoolPop (p, m) = Some (b, (p', m')) \<and> pool_inv p' m' \<and>
    mset (pl_backends p) = add_mset b (mset (pl_backends p')) \<and> bk_index (m' b) = - 1 \<and>
    (\<forall>r \<in> set (pl_backends p). if pl_leastweight p then bk_weight (m b) \<le> bk_weight (m r)
       else bk_ongoing (m b) \<le> bk_ongoing (m r)) \<and>
    (\<forall>r. m' r = (m r)\<lparr>bk_index := bk_index (m' r)\<rparr>)"
proof -
  from PoolPop_ok[OF assms] obtain p' m' where
    p: "PoolPop (p, m) = Some (hd (pl_backends p), (p', m'))" "pool_inv p' m'" "pool_frame p m p' m'"
    "mset (pl_backends p) = add_mset (hd (pl_backends p)) (mset (pl_backends p'))"
    "bk_index (m' (hd (pl_backends p))) = - 1" by metis
  have "if pl_leastweight p then bk_weight (m (hd (pl_backends p))) \<le> bk_weight (m r)
       else bk_ongoing (m (hd (pl_backends p))) \<le> bk_ongoing (m r)" if "r \<in> set (pl_backends p)" for r
    using pool_inv_min[OF assms(1) that] by (simp add: key_of_def split: if_splits)
  then show ?thesis using p unfolding pool_frame_def by blast
qed

theorem pool_pop_least_witness:
  "\<exists>b p' m'. PoolPop (ex_pool 2, ex_mem) = Some (b, (p', m')) \<and> pool_inv p' m' \<and> bk_weight (ex_mem b) \<le> 5"
proof -
  have "pl_backends (ex_pool 2) \<noteq> []" by (simp add: ex_pool_def)
  from pool_pop_least[OF ex_pool_inv this] obtain b p' m' where
    "PoolPop (ex_pool 2, ex_mem) = Some (b, (p', m'))" "pool_inv p' m'"
    "\<forall>r \<in> {5, 7}. bk_weight (ex_mem b) \<le> bk_weight (ex_mem r)" by (auto simp: ex_pool_def)
  moreover have "bk_weight (ex_mem 5) = 5" by (simp add: ex_mem_def NewBackend_def)
  ultimately show ?thesis by auto
qed

text \<open>\<open>heap.Remove\<close> at the position stored in a backend of the pool takes out that very backend.\<close>

theorem pool_remove_own_index:
  assumes "pool_inv p m" "r \<in> set (pl_backends p)"
  shows "\<exists>p' m'. PoolRemove (bk_index (m r)) (p, m) = Some (r, (p', m')) \<and> pool_inv p' m' \<and>
    mset (pl_backends p) = add_mset r (mset (pl_backends p')) \<and> bk_index (m' r) = - 1 \<and>
    (\<forall>x. m' x = (m x)\<lparr>bk_index := bk_index (m' x)\<rparr>)"
proof -
  from PoolRemove_ok[OF assms] obtain p' m' where
    "PoolRemove (bk_index (m r)) (p, m) = Some (r, (p', m'))" "pool_inv p' m'" "pool_frame p m p' m'"
    "mset (pl_backends p) = add_mset r (mset (pl_backends p'))" "bk_index (m' r) = - 1" by metis
  then show ?thesis unfolding pool_frame_def by blast
qed

theorem pool_remove_own_index_witness:
  "\<exists>p' m'. PoolRemove 1 (ex_pool 2, ex_mem) = Some (7, (p', m')) \<and> pool_inv p' m'"
proof -
  have "7 \<in> set (pl_backends (ex_pool 2))" "bk_index (ex_mem 7) = 1"
    by (simp_all add: ex_pool_def ex_mem_def)
  then show ?thesis using pool_remove_own_index[OF ex_pool_inv, of 2 7] by auto
qed

text \<open>\<open>heap.Push\<close> of a backend that is not in the pool panics exactly if the slice is full, which
  it is with 8192 backends in the scheduler's pool; otherwise the backend is added.\<close>

theorem pool_push_panics_iff_full:
  assumes "pool_inv p m" "r \<notin> set (pl_backends p)"
  shows "case PoolPush r (p, m) of
      None \<Rightarrow> length (pl_backends p) = pl_cap p
    | Some (p', m') \<Rightarrow> length (pl_backends p) < pl_cap p \<and> pool_inv p' m' \<and>
        mset (pl_backends p') = add_mset r (mset (pl_backends p)) \<and>
        (\<forall>x. m' x = (m x)\<lparr>bk_index := bk_index (m' x)\<rparr>)"
proof (cases "length (pl_backends p) < pl_cap p")
  case True
  from PoolPush_ok[OF assms True] obtain p' m' where
    p: "PoolPush r (p, m) = Some (p', m')" "pool_inv p' m'" "pool_frame p m p' m'"
    "mset (pl_backends p') = add_mset r (mset (pl_backends p))" by metis
  show ?thesis
    unfolding p(1) option.case prod.case using True p(2-4) unfolding pool_frame_def by blast
next
  case False
  moreover have "length (pl_backends p) \<le> pl_cap p" using assms(1) by (simp add: pool_inv_def pool_ok_def)
  ultimately have "length (pl_backends p) = pl_cap p" by simp
  then show ?thesis by (simp add: PoolPush_def heap_push_def pool_Push_def Let_def)
qed

theorem pool_push_panics_iff_full_witness:
  "PoolPush 9 (ex_pool 2, ex_mem) = None \<and> PoolPush 9 (ex_pool 3, ex_mem) \<noteq> None"
proof -
  have "9 \<notin> set (pl_backends (ex_pool n))" "length (pl_backends (ex_pool n)) = 2" "pl_cap (ex_pool n) = n" for n
    by (simp_all add: ex_pool_def)
  then have c: "case PoolPush 9 (ex_pool n, ex_mem) of None \<Rightarrow> n = 2 | Some _ \<Rightarrow> 2 < n" if "2 \<le> n" for n
    using pool_push_panics_iff_full[OF ex_pool_inv[OF that], of 9] by (simp split: option.splits prod.splits)
  show ?thesis using c[of 2] c[of 3] by (simp split: option.splits)
qed

end
