(* ===== verification/Shuffle.thy ===== *)
theory Shuffle
  imports Prelude
begin

text \<open>
  utils/utils.go, \<open>Shuffle\<close>. The permutation of \<open>rand.Perm\<close> is an argument; what the standard
  library promises of it is \<open>is_perm\<close>.
\<close>

definition is_perm :: "nat list \<Rightarrow> nat \<Rightarrow> bool" where
  "is_perm perm n \<longleftrightarrow> length perm = n \<and> distinct perm \<and> set perm = {..<n}"

fun shuffle_into :: "'a list \<Rightarrow> nat list \<Rightarrow> 'a list \<Rightarrow> 'a list" where
  "shuffle_into (x # src) (v # perm) dst = shuffle_into src perm (dst[v := x])"
| "shuffle_into _ _ dst = dst"

definition Shuffle :: "nat list \<Rightarrow> string list \<Rightarrow> string list" where
  "Shuffle perm src = shuffle_into src perm (replicate (length src) '''')"

lemma length_shuffle_into [simp]: "length (shuffle_into src perm dst) = length dst"
  by (induction src perm dst rule: shuffle_into.induct) auto

lemma shuffle_into_other: "j \<notin> set perm \<Longrightarrow> shuffle_into src perm dst ! j = dst ! j"
  by (induction src perm dst rule: shuffle_into.induct) auto

lemma nth_shuffle_into:
  "distinct perm \<Longrightarrow> set perm \<subseteq> {..<length dst} \<Longrightarrow> length src = length perm \<Longrightarrow> i < length perm \<Longrightarrow>
   shuffle_into src perm dst ! (perm ! i) = src ! i"
proof (induction src perm dst arbitrary: i rule: shuffle_into.induct)
  case (1 x src v perm dst)
  then show ?case by (cases i) (auto simp: shuffle_into_other)
qed auto

text \<open>Element \<open>i\<close> of the source ends up at position \<open>perm ! i\<close>.\<close>

lemma Shuffle_nth:
  "is_perm perm (length src) \<Longrightarrow> i < length src \<Longrightarrow> Shuffle perm src ! (perm ! i) = src ! i"
  by (simp add: Shuffle_def is_perm_def nth_shuffle_into)

lemma Shuffle_mset:
  assumes "is_perm perm (length src)"
  shows "mset (Shuffle perm src) = mset src"
proof -
  let ?n = "length src" and ?ys = "Shuffle perm src"
  have p: "length perm = ?n" "distinct perm" "set perm = {..<?n}" using assms by (auto simp: is_perm_def)
  have len: "length ?ys = ?n" by (simp add: Shuffle_def)
  have "src = map (\<lambda>i. ?ys ! (perm ! i)) [0..<?n]"
    using Shuffle_nth[OF assms] by (intro nth_equalityI) auto
  also have "\<dots> = map ((!) ?ys) perm"
    using p(1) by (intro nth_equalityI) auto
  finally have "mset src = image_mset ((!) ?ys) (mset perm)" by (metis mset_map)
  also have "mset perm = mset [0..<?n]"
    using p set_eq_iff_mset_eq_distinct[of perm "[0..<?n]"] by (simp add: atLeast0LessThan)
  also have "image_mset ((!) ?ys) (mset [0..<?n]) = mset ?ys"
    by (metis len map_nth mset_map)
  finally show ?thesis by simp
qed

end
