(* ===== verification/Scheduler.thy ===== *)
theory Scheduler
  imports Pool Shuffle
begin

text \<open>
  engine/native/scheduler.go: the scheduler's state, its operations, one handler per case of the
  \<open>select\<close> in \<open>Schedule\<close>, and the loop that restarts \<open>Schedule\<close> after a recovered panic.
  A \<open>go\<close> statement adds the goroutine's argument to a list of the state (\<open>sc_running\<close> for
  \<open>go s.run(req)\<close>, \<open>sc_creating\<close> for \<open>go CreateSpdySession(..)\<close>); a connection that is closed is
  added to \<open>sc_rejected\<close> or \<open>sc_spdyClosed\<close>.
\<close>

subsection \<open>State\<close>

datatype go_error = OpError string | OtherError string

record request =
  rq_conn :: nat
  rq_backend :: "ref option"
  rq_err :: "go_error option"

record sched =
  sc_pool :: pool
  sc_mem :: mem
  sc_next :: ref
  sc_backendSeq :: uint
  sc_backends :: "string \<rightharpoonup> ref"
  sc_pending :: "request list"
  sc_tunnels :: uint
  sc_checkTime :: int
  sc_running :: "request list"
  sc_creating :: "spdy_session list"
  sc_rejected :: "nat list"
  sc_spdyClosed :: "nat list"

text \<open>What a handler reads of the outside: the next stream id of each tunnel connection
  (\<open>PeekNextStreamId\<close>) and the two clock readings of \<open>SpdyCheckStreamId\<close>.\<close>

record sched_env =
  en_peek :: "nat \<Rightarrow> uint32"
  en_now :: int
  en_now' :: int

definition NewScheduler :: "bool \<Rightarrow> uint \<Rightarrow> sched" where
  "NewScheduler lw tunnels =
    \<lparr>sc_pool = \<lparr>pl_backends = [], pl_leastweight = lw, pl_cap = MaxForwarders\<rparr>,
     sc_mem = (\<lambda>_. NewBackend '''' 0 0), sc_next = 0, sc_backendSeq = 0, sc_backends = Map.empty,
     sc_pending = [], sc_tunnels = tunnels, sc_checkTime = 0, sc_running = [], sc_creating = [],
     sc_rejected = [], sc_spdyClosed = []\<rparr>"

definition nextBackendSequence :: "sched \<Rightarrow> uint \<times> sched" where
  "nextBackendSequence s =
    (let s' = s\<lparr>sc_backendSeq := sc_backendSeq s + 1\<rparr> in (sc_backendSeq s', s'))"

subsection \<open>Writing a backend, the pool\<close>

definition upd_backend :: "ref \<Rightarrow> (backend \<Rightarrow> backend) \<Rightarrow> sched \<Rightarrow> sched" where
  "upd_backend r f s = s\<lparr>sc_mem := (sc_mem s)(r := f (sc_mem s r))\<rparr>"

definition set_pool :: "pool \<times> mem \<Rightarrow> sched \<Rightarrow> sched" where
  "set_pool h s = s\<lparr>sc_pool := fst h, sc_mem := snd h\<rparr>"

definition push_backend :: "ref \<Rightarrow> sched \<Rightarrow> sched outcome" where
  "push_backend b s =
    (case PoolPush b (sc_pool s, sc_mem s) of
       None \<Rightarrow> Panicked SliceBoundsOutOfRange s
     | Some h \<Rightarrow> Finished (set_pool h s))"

text \<open>\<open>if b.index != -1 \{ heap.Remove(&s.pool, b.index) \}\<close>\<close>

definition remove_backend :: "ref \<Rightarrow> sched \<Rightarrow> sched outcome" where
  "remove_backend b s =
    (if bk_index (sc_mem s b) \<noteq> - 1 then
       case PoolRemove (bk_index (sc_mem s b)) (sc_pool s, sc_mem s) of
         None \<Rightarrow> Panicked IndexOutOfRange s
       | Some (_, h) \<Rightarrow> Finished (set_pool h s)
     else Finished s)"

definition inc_ongoing :: "ref \<Rightarrow> sched \<Rightarrow> sched" where
  "inc_ongoing b = upd_backend b (\<lambda>x. x\<lparr>bk_ongoing := bk_ongoing x + 1\<rparr>)"

definition dec_ongoing :: "ref \<Rightarrow> sched \<Rightarrow> sched" where
  "dec_ongoing b = upd_backend b (\<lambda>x. x\<lparr>bk_ongoing := bk_ongoing x - 1\<rparr>)"

definition AddBackend :: "ref \<Rightarrow> sched \<Rightarrow> sched outcome" where
  "AddBackend b s =
    push_backend b (s\<lparr>sc_backends := (sc_backends s)(bk_address (sc_mem s b) \<mapsto> b)\<rparr>)"

definition RemoveBackend :: "string \<Rightarrow> sched \<Rightarrow> sched outcome" where
  "RemoveBackend addr s =
    (case sc_backends s addr of
       None \<Rightarrow> Finished s
     | Some b \<Rightarrow> and_then (remove_backend b s)
         (\<lambda>s. Finished (s\<lparr>sc_backends := (sc_backends s)(bk_address (sc_mem s b) := None)\<rparr>)))"

subsection \<open>Dispatching a request\<close>

definition check_stream_id :: "sched_env \<Rightarrow> ref \<Rightarrow> sched \<Rightarrow> sched outcome" where
  "check_stream_id env b s =
    (case SpdyCheckStreamId (en_peek env) (en_now env) (en_now' env) b (sc_mem s b) (sc_checkTime s) of
       (t, r) \<Rightarrow> map_outcome (\<lambda>(bk, ss). s\<lparr>sc_checkTime := t, sc_mem := (sc_mem s)(b := bk),
           sc_creating := sc_creating s @ ss\<rparr>) r)"

definition dispatch :: "sched_env \<Rightarrow> request \<Rightarrow> sched \<Rightarrow> sched outcome" where
  "dispatch env req s =
    (if pl_backends (sc_pool s) = [] then Finished (s\<lparr>sc_pending := sc_pending s @ [req]\<rparr>)
     else case PoolPop (sc_pool s, sc_mem s) of
       None \<Rightarrow> Panicked IndexOutOfRange s
     | Some (b, h) \<Rightarrow>
         let s1 = set_pool h s in
         if bk_ongoing (sc_mem s1 b) \<ge> MaxForwardersPerBackend then
           and_then (push_backend b s1)
             (\<lambda>s2. Finished (s2\<lparr>sc_rejected := sc_rejected s2 @ [rq_conn req]\<rparr>))
         else
           and_then (push_backend b (inc_ongoing b s1)) (\<lambda>s2.
           and_then (check_stream_id env b s2) (\<lambda>s3.
             Finished (s3\<lparr>sc_running := sc_running s3 @ [req\<lparr>rq_backend := Some b\<rparr>]\<rparr>))))"

subsection \<open>The handlers of \<open>Schedule\<close>\<close>

definition finish :: "sched_env \<Rightarrow> request \<Rightarrow> sched \<Rightarrow> sched outcome" where
  "finish env req s =
    (case rq_backend req of
       None \<Rightarrow> Panicked NilPointer s
     | Some b \<Rightarrow>
         (case rq_err req of
           Some e \<Rightarrow>
             and_then (remove_backend b s) (\<lambda>s.
             let s = dec_ongoing b s in
             case e of
               OpError op \<Rightarrow> if op = ''dial'' then dispatch env req s else Finished s
             | OtherError _ \<Rightarrow> Finished s)
         | None \<Rightarrow>
             if bk_index (sc_mem s b) = - 1 then Finished (dec_ongoing b s)
             else and_then (remove_backend b s) (\<lambda>s. push_backend b (dec_ongoing b s))))"

text \<open>The body of the loop over the known backends; the status map loses the backends that stay.\<close>

definition status_known :: "string \<Rightarrow> sched \<times> (string \<rightharpoonup> int) \<Rightarrow> (sched \<times> (string \<rightharpoonup> int)) outcome" where
  "status_known addr = (\<lambda>(s, st).
    case sc_backends s addr of
      None \<Rightarrow> Finished (s, st)
    | Some b \<Rightarrow>
        if st addr = None then map_outcome (\<lambda>s. (s, st)) (RemoveBackend addr s)
        else
          let st' = st(addr := None) in
          if bk_index (sc_mem s b) = - 1 then map_outcome (\<lambda>s. (s, st')) (push_backend b s)
          else Finished (s, st'))"

definition new_backend :: "string \<Rightarrow> uint \<Rightarrow> sched \<Rightarrow> ref \<times> sched" where
  "new_backend addr weight s =
    (let r = sc_next s in
     (r, s\<lparr>sc_mem := (sc_mem s)(r := FailChan (NewBackend addr (sc_tunnels s) weight)), sc_next := r + 1\<rparr>))"

definition status_new :: "bool \<Rightarrow> string \<Rightarrow> sched \<Rightarrow> sched outcome" where
  "status_new shuffle addr s =
    (let (weight, s1) = (if shuffle then (0, s) else nextBackendSequence s);
         (b, s2) = new_backend addr weight s1 in
     if sc_tunnels s2 > 0 then
       Finished (s2\<lparr>sc_creating := sc_creating s2 @
         map (\<lambda>i. NewSpdySession b (of_nat i)) [0..<unat (sc_tunnels s2)]\<rparr>)
     else AddBackend b s2)"

definition arrange :: "bool \<Rightarrow> nat list \<Rightarrow> string list \<Rightarrow> string list" where
  "arrange shuffle perm addrs = (if shuffle then Shuffle perm addrs else sort addrs)"

text \<open>\<open>known\<close> and \<open>fresh\<close> are the orders in which the two map iterations visit the keys, \<open>perm\<close> is
  the permutation that \<open>Shuffle\<close> draws.\<close>

definition handle_status ::
  "bool \<Rightarrow> string list \<Rightarrow> string list \<Rightarrow> nat list \<Rightarrow> (string \<rightharpoonup> int) \<Rightarrow> sched \<Rightarrow> sched outcome"
where
  "handle_status shuffle known fresh perm st s =
    (case for_each status_known known (s, st) of
       Panicked p (s1, _) \<Rightarrow> Panicked p s1
     | Finished (s1, _) \<Rightarrow> for_each (status_new shuffle) (arrange shuffle perm fresh) s1)"

definition handle_fail :: "spdy_session \<Rightarrow> sched \<Rightarrow> sched outcome" where
  "handle_fail session s =
    (let b = ss_backend session; i = unat (ss_connindex session) in
     if \<not> i < length (bk_tunnel (sc_mem s b)) then Panicked IndexOutOfRange s
     else if \<not> tn_switching (bk_tunnel (sc_mem s b) ! i) then
       let s1 = upd_backend b (set_slot i (\<lambda>t. t\<lparr>tn_switching := True\<rparr>)) s in
       Finished (s1\<lparr>sc_creating := sc_creating s1 @ [session]\<rparr>)
     else Finished s)"

definition drain :: "sched_env \<Rightarrow> sched \<Rightarrow> sched outcome" where
  "drain env s =
    (if sc_pending s \<noteq> [] \<and> pl_backends (sc_pool s) \<noteq> [] then
       and_then (for_each (dispatch env) (sc_pending s) s) (\<lambda>s. Finished (s\<lparr>sc_pending := []\<rparr>))
     else Finished s)"

definition handle_new :: "sched_env \<Rightarrow> spdy_session \<Rightarrow> sched \<Rightarrow> sched outcome" where
  "handle_new env session s =
    (let b = ss_backend session in
     case SwitchSpdyConn (ss_connindex session) (ss_spdy session) (sc_mem s b) of
       (closed, r) \<Rightarrow>
         and_then (map_outcome (\<lambda>bk. s\<lparr>sc_mem := (sc_mem s)(b := bk), sc_spdyClosed := sc_spdyClosed s @ closed\<rparr>) r)
           (\<lambda>s. if sc_backends s (bk_address (sc_mem s b)) = None
                then and_then (AddBackend b s) (drain env) else Finished s))"

datatype event =
    EvDone request
  | EvStatus "string list" "string list" "nat list" "string \<rightharpoonup> int"
  | EvFail spdy_session
  | EvNew spdy_session
  | EvJob request

fun schedule_event :: "bool \<Rightarrow> sched_env \<Rightarrow> event \<Rightarrow> sched \<Rightarrow> sched outcome" where
  "schedule_event shuffle env (EvDone req) s = finish env req s"
| "schedule_event shuffle env (EvStatus known fresh perm st) s = handle_status shuffle known fresh perm st s"
| "schedule_event shuffle env (EvFail session) s = handle_fail session s"
| "schedule_event shuffle env (EvNew session) s = handle_new env session s"
| "schedule_event shuffle env (EvJob req) s = dispatch env req s"

text \<open>\<open>Schedule\<close> takes events until one panics; \<open>RecoverReport\<close> turns the panic into a return, with
  the events that have not been taken yet. \<open>EventLoop\<close> calls it again.\<close>

fun Schedule :: "bool \<Rightarrow> (sched_env \<times> event) list \<Rightarrow> sched \<Rightarrow> (sched_env \<times> event) list \<times> sched" where
  "Schedule shuffle [] s = ([], s)"
| "Schedule shuffle ((env, ev) # evs) s =
    (case schedule_event shuffle env ev s of
       Finished s' \<Rightarrow> Schedule shuffle evs s'
     | Panicked _ s' \<Rightarrow> (evs, s'))"

lemma Schedule_consumes: "length (fst (Schedule shuffle evs s)) \<le> length evs - 1"
proof (induction evs arbitrary: s)
  case (Cons e evs)
  obtain env ev where e: "e = (env, ev)" by (cases e)
  have "length (fst (Schedule shuffle evs t)) \<le> length evs" for t
    using Cons.IH[of t] by simp
  then show ?case by (cases "schedule_event shuffle env ev s") (auto simp: e)
qed simp

lemma Schedule_shrinks:
  "(rest, s') = Schedule shuffle evs s \<Longrightarrow> evs \<noteq> [] \<Longrightarrow> length rest < length evs"
  using Schedule_consumes[of shuffle evs s] by (cases evs) (auto dest: sym)

function EventLoop :: "bool \<Rightarrow> (sched_env \<times> event) list \<Rightarrow> sched \<Rightarrow> sched" where
  "EventLoop shuffle evs s =
    (if evs = [] then s
     else case Schedule shuffle evs s of (rest, s') \<Rightarrow> EventLoop shuffle rest s')"
  by pat_completeness auto
termination
  by (relation "measure (\<lambda>(shuffle, evs, s). length evs)") (auto, metis Schedule_shrinks case_prod_conv)

declare EventLoop.simps [simp del]

end
