(* ===== verification/SchedulerInv.thy ===== *)
theory SchedulerInv
  imports Scheduler
begin

text \<open>
  The invariant of the scheduler and what each operation does to it. \<open>c r\<close> is the number of
  requests that are being forwarded to backend \<open>r\<close> or whose forwarding has ended and not yet been
  taken from the \<open>done\<close> channel; the invariant says that the backend's \<open>ongoing\<close> counter agrees
  with it, that every backend of the pool is registered under its own address and knows its
  position, and that every registered or busy backend that is not in the pool carries the
  position \<open>-1\<close>.
\<close>

subsection \<open>Invariant\<close>

abbreviation pooled :: "sched \<Rightarrow> ref set" where
  "pooled s \<equiv> set (pl_backends (sc_pool s))"

definition placed :: "sched \<Rightarrow> ref \<Rightarrow> bool" where
  "placed s r \<longleftrightarrow> r \<in> pooled s \<or> bk_index (sc_mem s r) = - 1"

definition registered :: "sched \<Rightarrow> ref \<Rightarrow> bool" where
  "registered s r \<longleftrightarrow> sc_backends s (bk_address (sc_mem s r)) = Some r"

definition session_ok :: "sched \<Rightarrow> spdy_session \<Rightarrow> bool" where
  "session_ok s x \<longleftrightarrow> ss_backend x < sc_next s \<and> unat (ss_connindex x) < unat (sc_tunnels s)"

definition sched_inv :: "sched \<Rightarrow> (ref \<Rightarrow> nat) \<Rightarrow> bool" where
  "sched_inv s c \<longleftrightarrow>
     pool_inv (sc_pool s) (sc_mem s) \<and> pl_cap (sc_pool s) = MaxForwarders \<and>
     finite (dom (sc_backends s)) \<and> card (dom (sc_backends s)) \<le> MaxForwarders \<and>
     (\<forall>r \<in> pooled s. registered s r) \<and>
     (\<forall>a r. sc_backends s a = Some r \<longrightarrow> r < sc_next s \<and> bk_address (sc_mem s r) = a \<and> placed s r) \<and>
     (\<forall>r. 0 < c r \<longrightarrow> r < sc_next s \<and> placed s r) \<and>
     (\<forall>r < sc_next s. backend_wf (sc_mem s r) \<and> bk_tunnels (sc_mem s r) = sc_tunnels s \<and>
        unat (bk_ongoing (sc_mem s r)) = c r \<and> c r \<le> unat MaxForwardersPerBackend) \<and>
     (\<forall>x \<in> set (sc_creating s). session_ok s x)"

lemma sched_invD:
  assumes "sched_inv s c"
  shows "pool_inv (sc_pool s) (sc_mem s)" "pl_cap (sc_pool s) = MaxForwarders"
    "finite (dom (sc_backends s))" "card (dom (sc_backends s)) \<le> MaxForwarders"
    "r \<in> pooled s \<Longrightarrow> registered s r"
    "sc_backends s a = Some r \<Longrightarrow> r < sc_next s"
    "sc_backends s a = Some r \<Longrightarrow> bk_address (sc_mem s r) = a"
    "sc_backends s a = Some r \<Longrightarrow> placed s r"
    "0 < c r \<Longrightarrow> r < sc_next s" "0 < c r \<Longrightarrow> placed s r"
    "r < sc_next s \<Longrightarrow> backend_wf (sc_mem s r)"
    "r < sc_next s \<Longrightarrow> bk_tunnels (sc_mem s r) = sc_tunnels s"
    "r < sc_next s \<Longrightarrow> unat (bk_ongoing (sc_mem s r)) = c r"
    "r < sc_next s \<Longrightarrow> c r \<le> unat MaxForwardersPerBackend"
    "x \<in> set (sc_creating s) \<Longrightarrow> session_ok s x"
  using assms by (auto simp: sched_inv_def)

lemma pooled_backend: "sched_inv s c \<Longrightarrow> r \<in> pooled s \<Longrightarrow> r < sc_next s"
  using sched_invD(5,6) registered_def by metis

lemma registered_inj:
  "registered s x \<Longrightarrow> registered s y \<Longrightarrow> bk_address (sc_mem s x) = bk_address (sc_mem s y) \<Longrightarrow> x = y"
  by (simp add: registered_def)

text \<open>The pool never outgrows the register.\<close>

lemma pool_length_le:
  assumes "sched_inv s c"
  shows "length (pl_backends (sc_pool s)) \<le> card (dom (sc_backends s))"
proof -
  let ?f = "\<lambda>r. bk_address (sc_mem s r)"
  have "inj_on ?f (pooled s)"
    by (rule inj_onI) (metis registered_inj sched_invD(5)[OF assms])
  then have "card (pooled s) = card (?f ` pooled s)" by (simp add: card_image)
  also have "\<dots> \<le> card (dom (sc_backends s))"
    using sched_invD(3)[OF assms] sched_invD(5)[OF assms]
    by (intro card_mono) (auto simp: registered_def)
  finally show ?thesis
    using pool_inv_distinct[OF sched_invD(1)[OF assms]] by (simp add: distinct_card)
qed

lemma pool_length_less:
  assumes "sched_inv s c" "sc_backends s a = Some b" "b \<notin> pooled s"
  shows "length (pl_backends (sc_pool s)) < card (dom (sc_backends s))"
proof -
  let ?f = "\<lambda>r. bk_address (sc_mem s r)"
  have reg: "registered s r" if "r \<in> insert b (pooled s)" for r
    using that sched_invD(5,7)[OF assms(1)] assms(2) by (auto simp: registered_def)
  then have "inj_on ?f (insert b (pooled s))"
    by (intro inj_onI) (metis registered_inj)
  then have "card (insert b (pooled s)) = card (?f ` insert b (pooled s))" by (rule card_image[symmetric])
  also have "\<dots> \<le> card (dom (sc_backends s))"
    using reg by (intro card_mono[OF sched_invD(3)[OF assms(1)]]) (auto simp: registered_def)
  finally show ?thesis
    using pool_inv_distinct[OF sched_invD(1)[OF assms(1)]] assms(3) by (simp add: distinct_card)
qed

subsection \<open>Changes of the pool\<close>

text \<open>A heap operation keeps the invariant when the pool stays inside the register and whoever
  is outside the pool has position \<open>-1\<close>.\<close>

lemma sched_inv_pool:
  assumes inv: "sched_inv s c" and p: "pool_inv p m" "pool_frame (sc_pool s) (sc_mem s) p m"
    and reg: "\<And>r. r \<in> set (pl_backends p) \<Longrightarrow> registered s r"
    and out: "\<And>r. placed s r \<Longrightarrow> r \<in> set (pl_backends p) \<or> bk_index (m r) = - 1"
  shows "sched_inv (s\<lparr>sc_pool := p, sc_mem := m\<rparr>) c"
proof -
  have "\<forall>x \<in> set (sc_creating s). session_ok (s\<lparr>sc_pool := p, sc_mem := m\<rparr>) x"
    using sched_invD(15)[OF inv] by (simp add: session_ok_def)
  moreover have "\<forall>r \<in> set (pl_backends p). registered (s\<lparr>sc_pool := p, sc_mem := m\<rparr>) r"
    using reg p(2) by (simp add: registered_def)
  moreover have "placed (s\<lparr>sc_pool := p, sc_mem := m\<rparr>) r" if "placed s r" for r
    using out[OF that] by (simp add: placed_def)
  ultimately show ?thesis
    using inv p by (simp add: sched_inv_def)
qed

lemma push_backend_ok:
  assumes inv: "sched_inv s c" and b: "sc_backends s (bk_address (sc_mem s b)) = Some b" "b \<notin> pooled s"
  shows "\<exists>p m. push_backend b s = Finished (s\<lparr>sc_pool := p, sc_mem := m\<rparr>) \<and>
    sched_inv (s\<lparr>sc_pool := p, sc_mem := m\<rparr>) c \<and> pool_frame (sc_pool s) (sc_mem s) p m \<and>
    set (pl_backends p) = insert b (pooled s) \<and>
    (\<forall>x. x \<notin> pooled s \<longrightarrow> x \<noteq> b \<longrightarrow> bk_index (m x) = bk_index (sc_mem s x))"
proof -
  have "length (pl_backends (sc_pool s)) < pl_cap (sc_pool s)"
    using pool_length_less[OF inv b] sched_invD(2,4)[OF inv] by simp
  from PoolPush_ok[OF sched_invD(1)[OF inv] b(2) this] obtain p m where
    p: "PoolPush b (sc_pool s, sc_mem s) = Some (p, m)" "pool_inv p m" "pool_frame (sc_pool s) (sc_mem s) p m"
    "mset (pl_backends p) = add_mset b (mset (pl_backends (sc_pool s)))"
    "\<And>x. x \<notin> pooled s \<Longrightarrow> x \<noteq> b \<Longrightarrow> bk_index (m x) = bk_index (sc_mem s x)" by blast
  have set: "set (pl_backends p) = insert b (pooled s)"
    using p(4) by (metis set_mset_add_mset_insert set_mset_mset)
  have "sched_inv (s\<lparr>sc_pool := p, sc_mem := m\<rparr>) c"
  proof (rule sched_inv_pool[OF inv p(2,3)])
    fix r
    show "r \<in> set (pl_backends p) \<Longrightarrow> registered s r"
      using sched_invD(5)[OF inv] b by (auto simp: set registered_def)
    show "placed s r \<Longrightarrow> r \<in> set (pl_backends p) \<or> bk_index (m r) = - 1"
      using p(5)[of r] by (cases "r \<in> pooled s") (auto simp: set placed_def)
  qed
  then show ?thesis
    using p set by (intro exI[of _ p] exI[of _ m]) (auto simp: push_backend_def set_pool_def)
qed

lemma sched_pool_id [simp]: "s\<lparr>sc_pool := sc_pool s, sc_mem := sc_mem s\<rparr> = s"
  by (cases s) simp

lemma remove_backend_ok:
  assumes inv: "sched_inv s c" and b: "placed s b"
  shows "\<exists>p m. remove_backend b s = Finished (s\<lparr>sc_pool := p, sc_mem := m\<rparr>) \<and>
    sched_inv (s\<lparr>sc_pool := p, sc_mem := m\<rparr>) c \<and> pool_frame (sc_pool s) (sc_mem s) p m \<and>
    set (pl_backends p) = pooled s - {b} \<and> bk_index (m b) = - 1 \<and>
    (\<forall>x. x \<notin> pooled s \<longrightarrow> bk_index (m x) = bk_index (sc_mem s x))"
proof (cases "b \<in> pooled s")
  case True
  from PoolRemove_ok[OF sched_invD(1)[OF inv] True] obtain p m where
    p: "PoolRemove (bk_index (sc_mem s b)) (sc_pool s, sc_mem s) = Some (b, p, m)" "pool_inv p m"
    "pool_frame (sc_pool s) (sc_mem s) p m"
    "mset (pl_backends (sc_pool s)) = add_mset b (mset (pl_backends p))" "bk_index (m b) = - 1"
    "\<And>x. x \<notin> pooled s \<Longrightarrow> bk_index (m x) = bk_index (sc_mem s x)" by blast
  have "b \<notin> set (pl_backends p)"
    using pool_inv_distinct[OF sched_invD(1)[OF inv]] mset_eq_imp_distinct_iff[OF p(4)[unfolded mset.simps(2)[symmetric]]]
    by simp
  then have set: "set (pl_backends p) = pooled s - {b}"
    using arg_cong[OF p(4), of set_mset] by auto
  have "sched_inv (s\<lparr>sc_pool := p, sc_mem := m\<rparr>) c"
  proof (rule sched_inv_pool[OF inv p(2,3)])
    fix r
    show "r \<in> set (pl_backends p) \<Longrightarrow> registered s r"
      using sched_invD(5)[OF inv] by (simp add: set)
    show "placed s r \<Longrightarrow> r \<in> set (pl_backends p) \<or> bk_index (m r) = - 1"
      using p(5) p(6)[of r] by (cases "r \<in> pooled s") (auto simp: set placed_def)
  qed
  moreover have "bk_index (sc_mem s b) \<noteq> - 1"
    using pool_inv_index[OF sched_invD(1)[OF inv] True] by simp
  ultimately show ?thesis
    using p set by (intro exI[of _ p] exI[of _ m]) (auto simp: remove_backend_def set_pool_def)
next
  case False
  then have "bk_index (sc_mem s b) = - 1" using b by (simp add: placed_def)
  then show ?thesis
    using False inv by (intro exI[of _ "sc_pool s"] exI[of _ "sc_mem s"])
      (auto simp: remove_backend_def)
qed

subsection \<open>Changes of a backend\<close>

lemma sched_inv_backend:
  assumes inv: "sched_inv s c" and b: "b \<notin> pooled s" "b < sc_next s" "placed s b"
    and x: "bk_index x = bk_index (sc_mem s b)" "bk_address x = bk_address (sc_mem s b)"
      "backend_wf x" "bk_tunnels x = sc_tunnels s" "unat (bk_ongoing x) = n"
      "n \<le> unat MaxForwardersPerBackend"
  shows "sched_inv (s\<lparr>sc_mem := (sc_mem s)(b := x)\<rparr>) (c(b := n))"
proof -
  let ?s = "s\<lparr>sc_mem := (sc_mem s)(b := x)\<rparr>"
  have "pool_inv (sc_pool s) ((sc_mem s)(b := x))"
    using b(1) by (intro pool_inv_cong[OF sched_invD(1)[OF inv]]) auto
  moreover have "placed ?s r = placed s r" "registered ?s r = registered s r" "session_ok ?s y = session_ok s y" for r y
    by (auto simp: placed_def registered_def session_ok_def x)
  ultimately show ?thesis
    using inv b x by (auto simp: sched_inv_def)
qed

lemma inc_ongoing_inv:
  assumes inv: "sched_inv s c" and b: "b \<notin> pooled s" "b < sc_next s" "placed s b"
    and room: "bk_ongoing (sc_mem s b) < MaxForwardersPerBackend"
  shows "sched_inv (inc_ongoing b s) (c(b := Suc (c b)))"
proof -
  have "Suc (c b) \<le> unat MaxForwardersPerBackend"
    using room sched_invD(13)[OF inv b(2)] by (simp add: word_less_nat_alt)
  moreover have "unat (bk_ongoing (sc_mem s b) + 1) = Suc (c b)"
    using unat_less_plus_one[OF room] sched_invD(13)[OF inv b(2)] by simp
  ultimately show ?thesis
    unfolding inc_ongoing_def upd_backend_def
    using sched_invD(11,12)[OF inv b(2)] by (intro sched_inv_backend[OF inv b]) (auto simp: backend_wf_def)
qed

lemma dec_ongoing_inv:
  assumes inv: "sched_inv s c" and b: "b \<notin> pooled s" "placed s b" "0 < c b"
  shows "sched_inv (dec_ongoing b s) (c(b := c b - 1))"
proof -
  have nxt: "b < sc_next s" using sched_invD(9)[OF inv b(3)] .
  have "c b - 1 \<le> unat MaxForwardersPerBackend"
    using sched_invD(14)[OF inv nxt] by simp
  moreover have "unat (bk_ongoing (sc_mem s b) - 1) = c b - 1"
    using unat_minus_one_pos[of "bk_ongoing (sc_mem s b)"] sched_invD(13)[OF inv nxt] b(3) by simp
  ultimately show ?thesis
    unfolding dec_ongoing_def upd_backend_def
    using sched_invD(11,12)[OF inv nxt] b(1,2) nxt by (intro sched_inv_backend[OF inv]) (auto simp: backend_wf_def)
qed

text \<open>Changes of the slots and of \<open>count\<close> are invisible to the invariant.\<close>

lemma sched_inv_slots:
  assumes inv: "sched_inv s c" and b: "b < sc_next s"
    and ts: "length ts = length (bk_tunnel (sc_mem s b))"
  shows "sched_inv (s\<lparr>sc_mem := (sc_mem s)(b := (sc_mem s b)\<lparr>bk_count := n, bk_tunnel := ts\<rparr>)\<rparr>) c"
proof -
  let ?s = "s\<lparr>sc_mem := (sc_mem s)(b := (sc_mem s b)\<lparr>bk_count := n, bk_tunnel := ts\<rparr>)\<rparr>"
  have "pool_inv (sc_pool s) (sc_mem ?s)"
    by (intro pool_inv_cong[OF sched_invD(1)[OF inv]]) (auto simp: key_of_def)
  moreover have "placed ?s r = placed s r" "registered ?s r = registered s r" "session_ok ?s y = session_ok s y" for r y
    by (auto simp: placed_def registered_def session_ok_def)
  moreover have "backend_wf ((sc_mem s b)\<lparr>bk_count := n, bk_tunnel := ts\<rparr>)"
    using sched_invD(11)[OF inv b] ts by (simp add: backend_wf_def)
  ultimately show ?thesis
    using inv by (auto simp: sched_inv_def)
qed

text \<open>The lists of pending, running and closed requests are not mentioned by it either.\<close>

lemma sched_inv_lists [simp]:
  "sched_inv (s\<lparr>sc_pending := ps\<rparr>) c = sched_inv s c"
  "sched_inv (s\<lparr>sc_running := rs\<rparr>) c = sched_inv s c"
  "sched_inv (s\<lparr>sc_rejected := cs\<rparr>) c = sched_inv s c"
  "sched_inv (s\<lparr>sc_spdyClosed := cs\<rparr>) c = sched_inv s c"
  "sched_inv (s\<lparr>sc_checkTime := t\<rparr>) c = sched_inv s c"
  "sched_inv (s\<lparr>sc_backendSeq := n\<rparr>) c = sched_inv s c"
  by (simp_all add: sched_inv_def placed_def registered_def session_ok_def)

lemma sched_inv_creating:
  assumes "sched_inv s c" "\<And>x. x \<in> set ss \<Longrightarrow> session_ok s x"
  shows "sched_inv (s\<lparr>sc_creating := sc_creating s @ ss\<rparr>) c"
  using assms by (auto simp: sched_inv_def placed_def registered_def session_ok_def)

subsection \<open>Dispatching\<close>

text \<open>The part of the state that dispatching and finishing requests leave alone.\<close>

definition sched_frame :: "sched \<Rightarrow> sched \<Rightarrow> bool" where
  "sched_frame s s' \<longleftrightarrow>
     sc_backends s' = sc_backends s \<and> sc_next s' = sc_next s \<and> sc_tunnels s' = sc_tunnels s \<and>
     sc_backendSeq s' = sc_backendSeq s \<and> sc_spdyClosed s' = sc_spdyClosed s \<and>
     pl_leastweight (sc_pool s') = pl_leastweight (sc_pool s) \<and>
     (\<forall>r. bk_address (sc_mem s' r) = bk_address (sc_mem s r) \<and> bk_weight (sc_mem s' r) = bk_weight (sc_mem s r))"

lemma sched_frame_refl [simp]: "sched_frame s s"
  by (simp add: sched_frame_def)

lemma sched_frame_trans: "sched_frame s t \<Longrightarrow> sched_frame t u \<Longrightarrow> sched_frame s u"
  by (simp add: sched_frame_def)

lemma sched_frame_heap:
  "pool_frame (sc_pool s) (sc_mem s) p m \<Longrightarrow> sched_frame s (s\<lparr>sc_pool := p, sc_mem := m\<rparr>)"
  by (simp add: sched_frame_def)

lemma check_stream_id_ok:
  assumes inv: "sched_inv s c" and b: "b < sc_next s"
  shows "\<exists>s'. check_stream_id env b s = Finished s' \<and> sched_inv s' c \<and> sched_frame s s' \<and>
    sc_pool s' = sc_pool s \<and> sc_pending s' = sc_pending s \<and> sc_running s' = sc_running s \<and>
    sc_rejected s' = sc_rejected s"
proof -
  let ?b = "sc_mem s b"
  from SpdyCheckStreamId_finishes[OF sched_invD(11)[OF inv b]] obtain t ss ts where
    chk: "SpdyCheckStreamId (en_peek env) (en_now env) (en_now' env) b ?b (sc_checkTime s) =
      (t, Finished (?b\<lparr>bk_count := bk_count ?b + 1, bk_tunnel := ts\<rparr>, ss))"
    and ts: "length ts = length (bk_tunnel ?b)"
    and ss: "\<forall>x \<in> set ss. ss_backend x = b \<and> unat (ss_connindex x) < length ts" by blast
  let ?s = "s\<lparr>sc_mem := (sc_mem s)(b := ?b\<lparr>bk_count := bk_count ?b + 1, bk_tunnel := ts\<rparr>)\<rparr>"
  have inv1: "sched_inv ?s c" by (rule sched_inv_slots[OF inv b ts])
  have "length (bk_tunnel ?b) = unat (sc_tunnels s)"
    using sched_invD(11,12)[OF inv b] by (simp add: backend_wf_def)
  then have "session_ok ?s x" if "x \<in> set ss" for x
    using ss that ts b by (simp add: session_ok_def)
  from sched_inv_creating[OF inv1 this]
  have "sched_inv (?s\<lparr>sc_creating := sc_creating ?s @ ss\<rparr>) c" .
  then have "sched_inv (?s\<lparr>sc_creating := sc_creating ?s @ ss, sc_checkTime := t\<rparr>) c"
    by (simp only: sched_inv_lists)
  then show ?thesis
    by (intro exI[of _ "?s\<lparr>sc_creating := sc_creating ?s @ ss, sc_checkTime := t\<rparr>"])
      (simp_all add: check_stream_id_def chk sched_frame_def)
qed

text \<open>What becomes of a request that is dispatched: it waits if the pool is empty; otherwise the
  backend \<open>b\<close> with the least key decides, which refuses it when it is full.\<close>

definition dispatched :: "request \<Rightarrow> sched \<Rightarrow> (ref \<Rightarrow> nat) \<Rightarrow> sched \<Rightarrow> (ref \<Rightarrow> nat) \<Rightarrow> bool" where
  "dispatched req s c s' c' \<longleftrightarrow>
     sched_frame s s' \<and> pooled s' = pooled s \<and> sched_inv s' c' \<and>
     (pooled s = {} \<and> c' = c \<and> sc_pending s' = sc_pending s @ [req] \<and>
        sc_running s' = sc_running s \<and> sc_rejected s' = sc_rejected s \<or>
      (\<exists>b \<in> pooled s.
        (\<forall>r \<in> pooled s. key_of (pl_leastweight (sc_pool s)) (sc_mem s b)
                       \<le> key_of (pl_leastweight (sc_pool s)) (sc_mem s r)) \<and>
        sc_pending s' = sc_pending s \<and>
        (MaxForwardersPerBackend \<le> bk_ongoing (sc_mem s b) \<and> c' = c \<and> sc_running s' = sc_running s \<and>
           sc_rejected s' = sc_rejected s @ [rq_conn req] \<or>
         bk_ongoing (sc_mem s b) < MaxForwardersPerBackend \<and> c' = c(b := Suc (c b)) \<and>
           sc_running s' = sc_running s @ [req\<lparr>rq_backend := Some b\<rparr>] \<and>
           sc_rejected s' = sc_rejected s)))"

text \<open>Taking the first server out of the pool.\<close>

lemma pop_backend_ok:
  assumes inv: "sched_inv s c" and False: "pl_backends (sc_pool s) \<noteq> []"
  obtains p m where "PoolPop (sc_pool s, sc_mem s) = Some (hd (pl_backends (sc_pool s)), p, m)"
    "pool_frame (sc_pool s) (sc_mem s) p m" "set (pl_backends p) = pooled s - {hd (pl_backends (sc_pool s))}"
    "sched_inv (s\<lparr>sc_pool := p, sc_mem := m\<rparr>) c" "sched_frame s (s\<lparr>sc_pool := p, sc_mem := m\<rparr>)"
    "placed (s\<lparr>sc_pool := p, sc_mem := m\<rparr>) (hd (pl_backends (sc_pool s)))"
proof -
  let ?b = "hd (pl_backends (sc_pool s))"
  from PoolPop_ok[OF sched_invD(1)[OF inv] False] obtain p m where
    pop: "PoolPop (sc_pool s, sc_mem s) = Some (?b, p, m)" "pool_inv p m" "pool_frame (sc_pool s) (sc_mem s) p m"
    "mset (pl_backends (sc_pool s)) = add_mset ?b (mset (pl_backends p))" "bk_index (m ?b) = - 1"
    "\<And>x. x \<notin> pooled s \<Longrightarrow> bk_index (m x) = bk_index (sc_mem s x)" by metis
  have "?b \<notin> set (pl_backends p)"
    using pool_inv_distinct[OF sched_invD(1)[OF inv]] mset_eq_imp_distinct_iff[OF pop(4)[unfolded mset.simps(2)[symmetric]]]
    by simp
  then have set: "set (pl_backends p) = pooled s - {?b}"
    using arg_cong[OF pop(4), of set_mset] by auto
  let ?s1 = "s\<lparr>sc_pool := p, sc_mem := m\<rparr>"
  have inv1: "sched_inv ?s1 c"
  proof (rule sched_inv_pool[OF inv pop(2,3)])
    fix r
    show "r \<in> set (pl_backends p) \<Longrightarrow> registered s r" using sched_invD(5)[OF inv] by (simp add: set)
    show "placed s r \<Longrightarrow> r \<in> set (pl_backends p) \<or> bk_index (m r) = - 1"
      using pop(5) pop(6)[of r] by (cases "r \<in> pooled s") (auto simp: set placed_def)
  qed
  have f1: "sched_frame s ?s1" by (rule sched_frame_heap[OF pop(3)])
  have "placed ?s1 ?b" using pop(5) by (simp add: placed_def)
  then show thesis using that pop(1,3) set inv1 f1 by blast
qed

lemma dispatch_ok:
  assumes inv: "sched_inv s c"
  shows "\<exists>s' c'. dispatch env req s = Finished s' \<and> dispatched req s c s' c'"
proof (cases "pl_backends (sc_pool s) = []")
  case True
  with inv show ?thesis
    by (intro exI[of _ "s\<lparr>sc_pending := sc_pending s @ [req]\<rparr>"] exI[of _ c])
      (simp add: dispatch_def dispatched_def sched_frame_def)
next
  case False
  let ?b = "hd (pl_backends (sc_pool s))"
  from pop_backend_ok[OF inv False] obtain p m where
    pop: "PoolPop (sc_pool s, sc_mem s) = Some (?b, p, m)" "pool_frame (sc_pool s) (sc_mem s) p m" and
    set: "set (pl_backends p) = pooled s - {?b}" and
    inv1: "sched_inv (s\<lparr>sc_pool := p, sc_mem := m\<rparr>) c" and
    f1: "sched_frame s (s\<lparr>sc_pool := p, sc_mem := m\<rparr>)" and
    pl: "placed (s\<lparr>sc_pool := p, sc_mem := m\<rparr>) ?b" by blast
  have b: "?b \<in> pooled s" using False by simp
  let ?s1 = "s\<lparr>sc_pool := p, sc_mem := m\<rparr>"
  have b1: "?b \<notin> pooled ?s1" "?b < sc_next ?s1" "placed ?s1 ?b"
    using pooled_backend[OF inv b] pl by (simp_all add: set)
  have reg: "sc_backends s (bk_address (sc_mem s ?b)) = Some ?b"
    using sched_invD(5)[OF inv b] by (simp add: registered_def)
  have least: "\<forall>r \<in> pooled s. key_of (pl_leastweight (sc_pool s)) (sc_mem s ?b)
                       \<le> key_of (pl_leastweight (sc_pool s)) (sc_mem s r)"
    using pool_inv_min[OF sched_invD(1)[OF inv]] by blast
  have on: "bk_ongoing (m ?b) = bk_ongoing (sc_mem s ?b)" using pop(2) by simp
  show ?thesis
  proof (cases "MaxForwardersPerBackend \<le> bk_ongoing (sc_mem s ?b)")
    case True
    have "sc_backends ?s1 (bk_address (sc_mem ?s1 ?b)) = Some ?b" using reg pop(2) by simp
    from push_backend_ok[OF inv1 this b1(1)] obtain p2 m2 where
      push: "push_backend ?b ?s1 = Finished (?s1\<lparr>sc_pool := p2, sc_mem := m2\<rparr>)"
      "sched_inv (?s1\<lparr>sc_pool := p2, sc_mem := m2\<rparr>) c" "pool_frame (sc_pool ?s1) (sc_mem ?s1) p2 m2"
      "set (pl_backends p2) = insert ?b (pooled ?s1)" by blast
    let ?s2 = "?s1\<lparr>sc_pool := p2, sc_mem := m2\<rparr>"
    let ?s3 = "?s2\<lparr>sc_rejected := sc_rejected ?s2 @ [rq_conn req]\<rparr>"
    have "dispatch env req s = Finished ?s3"
      using False pop(1) push(1) True on by (simp add: dispatch_def set_pool_def)
    moreover have "sched_frame s ?s2"
      by (rule sched_frame_trans[OF f1 sched_frame_heap[OF push(3)]])
    then have "sched_frame s ?s3" by (simp add: sched_frame_def)
    moreover have "pooled ?s3 = pooled s" using push(4) b by (auto simp: set)
    moreover have "sched_inv ?s3 c" using push(2) by (simp only: sched_inv_lists)
    ultimately show ?thesis
      using b least True by (intro exI[of _ ?s3] exI[of _ c]) (auto simp: dispatched_def)
  next
    case room: False
    then have lt: "bk_ongoing (sc_mem s ?b) < MaxForwardersPerBackend" by simp
    let ?c = "c(?b := Suc (c ?b))" and ?t = "inc_ongoing ?b ?s1"
    have inv2: "sched_inv ?t ?c"
      using inc_ongoing_inv[OF inv1 b1] lt on by simp
    have t: "pooled ?t = pooled ?s1" "sc_backends ?t = sc_backends s" "sc_next ?t = sc_next s"
      "bk_address (sc_mem ?t r) = bk_address (sc_mem s r)" for r
      using pop(2) by (simp_all add: inc_ongoing_def upd_backend_def)
    have ft: "sched_frame s ?t"
      using f1 by (auto simp: sched_frame_def inc_ongoing_def upd_backend_def)
    have "sc_backends ?t (bk_address (sc_mem ?t ?b)) = Some ?b" "?b \<notin> pooled ?t"
      using reg t b1(1) by simp_all
    from push_backend_ok[OF inv2 this] obtain p2 m2 where
      push: "push_backend ?b ?t = Finished (?t\<lparr>sc_pool := p2, sc_mem := m2\<rparr>)"
      "sched_inv (?t\<lparr>sc_pool := p2, sc_mem := m2\<rparr>) ?c" "pool_frame (sc_pool ?t) (sc_mem ?t) p2 m2"
      "set (pl_backends p2) = insert ?b (pooled ?t)" by blast
    let ?s2 = "?t\<lparr>sc_pool := p2, sc_mem := m2\<rparr>"
    have "?b < sc_next ?s2" using b1(2) t(3) by simp
    from check_stream_id_ok[OF push(2) this] obtain s3 where
      chk: "check_stream_id env ?b ?s2 = Finished s3" "sched_inv s3 ?c" "sched_frame ?s2 s3"
      "sc_pool s3 = p2" "sc_pending s3 = sc_pending ?s2" "sc_running s3 = sc_running ?s2"
      "sc_rejected s3 = sc_rejected ?s2" by auto
    let ?s4 = "s3\<lparr>sc_running := sc_running s3 @ [req\<lparr>rq_backend := Some ?b\<rparr>]\<rparr>"
    have "dispatch env req s = Finished ?s4"
      using False pop(1) push(1) chk(1) room on by (simp add: dispatch_def set_pool_def)
    moreover have "sched_frame s s3"
      by (rule sched_frame_trans[OF ft sched_frame_trans[OF sched_frame_heap[OF push(3)] chk(3)]])
    then have "sched_frame s ?s4" by (simp add: sched_frame_def)
    moreover have "pooled ?s4 = pooled s" using push(4) b t(1) by (auto simp: set chk(4))
    moreover have "sched_inv ?s4 ?c" using chk(2) by simp
    moreover have "sc_pending ?s4 = sc_pending s" "sc_rejected ?s4 = sc_rejected s"
      "sc_running ?s4 = sc_running s @ [req\<lparr>rq_backend := Some ?b\<rparr>]"
      using chk(5,6,7) by (simp_all add: inc_ongoing_def upd_backend_def)
    ultimately show ?thesis
      using b least lt by (intro exI[of _ ?s4] exI[of _ ?c]) (auto simp: dispatched_def)
  qed
qed

subsection \<open>Finishing\<close>

definition same_lists :: "sched \<Rightarrow> sched \<Rightarrow> bool" where
  "same_lists s s' \<longleftrightarrow> sc_pending s' = sc_pending s \<and> sc_running s' = sc_running s \<and>
     sc_rejected s' = sc_rejected s \<and> sc_creating s' = sc_creating s"

lemma take_out_ok:
  assumes inv: "sched_inv s c" and b: "0 < c b"
  shows "\<exists>s1. remove_backend b s = Finished s1 \<and> sched_inv (dec_ongoing b s1) (c(b := c b - 1)) \<and>
    pooled (dec_ongoing b s1) = pooled s - {b} \<and> bk_index (sc_mem (dec_ongoing b s1) b) = - 1 \<and>
    sched_frame s (dec_ongoing b s1) \<and> same_lists s (dec_ongoing b s1)"
proof -
  from remove_backend_ok[OF inv sched_invD(10)[OF inv b]] obtain p m where
    r: "remove_backend b s = Finished (s\<lparr>sc_pool := p, sc_mem := m\<rparr>)"
    "sched_inv (s\<lparr>sc_pool := p, sc_mem := m\<rparr>) c" "pool_frame (sc_pool s) (sc_mem s) p m"
    "set (pl_backends p) = pooled s - {b}" "bk_index (m b) = - 1" by blast
  let ?s = "s\<lparr>sc_pool := p, sc_mem := m\<rparr>"
  have "sched_inv (dec_ongoing b ?s) (c(b := c b - 1))"
    using r(4,5) b by (intro dec_ongoing_inv[OF r(2)]) (auto simp: placed_def)
  moreover have "sched_frame s ?s" by (rule sched_frame_heap[OF r(3)])
  then have "sched_frame s (dec_ongoing b ?s)"
    by (simp add: sched_frame_def dec_ongoing_def upd_backend_def)
  ultimately show ?thesis
    using r by (intro exI[of _ ?s]) (simp add: dec_ongoing_def upd_backend_def same_lists_def)
qed

text \<open>A request that ended without error: the backend's counter goes down by one and its place in
  the pool is renewed; a backend that is not in the pool stays out.\<close>

lemma finish_success:
  assumes inv: "sched_inv s c" and req: "rq_backend req = Some b" "rq_err req = None" and b: "0 < c b"
  shows "\<exists>s'. finish env req s = Finished s' \<and> sched_inv s' (c(b := c b - 1)) \<and>
    pooled s' = pooled s \<and> sched_frame s s' \<and> same_lists s s'"
proof (cases "bk_index (sc_mem s b) = - 1")
  case True
  then have out: "b \<notin> pooled s" using pool_inv_index[OF sched_invD(1)[OF inv], of b] by auto
  have "sched_inv (dec_ongoing b s) (c(b := c b - 1))"
    using True b by (intro dec_ongoing_inv[OF inv out]) (simp_all add: placed_def)
  with True req show ?thesis
    by (simp add: finish_def sched_frame_def dec_ongoing_def upd_backend_def same_lists_def)
next
  case False
  then have in_pool: "b \<in> pooled s" using sched_invD(10)[OF inv b] by (simp add: placed_def)
  from take_out_ok[of s c b, OF inv b] obtain s1 where
    s1: "remove_backend b s = Finished s1" "sched_inv (dec_ongoing b s1) (c(b := c b - 1))"
    "pooled (dec_ongoing b s1) = pooled s - {b}" "sched_frame s (dec_ongoing b s1)"
    "same_lists s (dec_ongoing b s1)" by blast
  have "sc_backends (dec_ongoing b s1) (bk_address (sc_mem (dec_ongoing b s1) b)) = Some b"
    using sched_invD(5)[OF inv in_pool] s1(4) by (simp add: registered_def sched_frame_def)
  from push_backend_ok[OF s1(2) this] s1(3) obtain p m where
    p: "push_backend b (dec_ongoing b s1) = Finished (dec_ongoing b s1\<lparr>sc_pool := p, sc_mem := m\<rparr>)"
    "sched_inv (dec_ongoing b s1\<lparr>sc_pool := p, sc_mem := m\<rparr>) (c(b := c b - 1))"
    "pool_frame (sc_pool (dec_ongoing b s1)) (sc_mem (dec_ongoing b s1)) p m"
    "set (pl_backends p) = insert b (pooled s - {b})" by auto
  have "sched_frame s (dec_ongoing b s1\<lparr>sc_pool := p, sc_mem := m\<rparr>)"
    by (rule sched_frame_trans[OF s1(4) sched_frame_heap[OF p(3)]])
  moreover have "finish env req s = Finished (dec_ongoing b s1\<lparr>sc_pool := p, sc_mem := m\<rparr>)"
    using req False s1(1) p(1) by (simp add: finish_def)
  ultimately show ?thesis
    using p(2,4) s1(5) in_pool by (auto simp: same_lists_def)
qed

text \<open>A request that ended with an error takes its backend out of the pool; a request that failed
  on \<open>dial\<close> is dispatched again, among the backends that are left, with its error still set.\<close>

lemma finish_failure:
  assumes inv: "sched_inv s c" and req: "rq_backend req = Some b" "rq_err req = Some e" and b: "0 < c b"
  shows "\<exists>s1. sched_inv s1 (c(b := c b - 1)) \<and> pooled s1 = pooled s - {b} \<and> bk_index (sc_mem s1 b) = - 1 \<and>
    sched_frame s s1 \<and> same_lists s s1 \<and>
    finish env req s = (if e = OpError ''dial'' then dispatch env req s1 else Finished s1)"
proof -
  from take_out_ok[of s c b, OF inv b] obtain s1 where
    s1: "remove_backend b s = Finished s1" "sched_inv (dec_ongoing b s1) (c(b := c b - 1))"
    "pooled (dec_ongoing b s1) = pooled s - {b}" "bk_index (sc_mem (dec_ongoing b s1) b) = - 1"
    "sched_frame s (dec_ongoing b s1)" "same_lists s (dec_ongoing b s1)" by blast
  have "finish env req s = (if e = OpError ''dial'' then dispatch env req (dec_ongoing b s1)
      else Finished (dec_ongoing b s1))"
    using req s1(1) by (cases e) (auto simp: finish_def)
  then show ?thesis using s1 by (intro exI[of _ "dec_ongoing b s1"]) simp
qed

subsection \<open>Registering backends\<close>

lemma AddBackend_ok:
  assumes inv: "sched_inv s c" and b: "b < sc_next s" "b \<notin> pooled s"
    and new: "sc_backends s (bk_address (sc_mem s b)) = None"
    and room: "card (dom (sc_backends s)) < MaxForwarders"
  shows "\<exists>s'. AddBackend b s = Finished s' \<and> sched_inv s' c \<and> pooled s' = insert b (pooled s) \<and>
    sc_backends s' = (sc_backends s)(bk_address (sc_mem s b) \<mapsto> b) \<and> same_lists s s' \<and>
    sc_next s' = sc_next s \<and> sc_tunnels s' = sc_tunnels s \<and> sc_backendSeq s' = sc_backendSeq s \<and>
    pl_leastweight (sc_pool s') = pl_leastweight (sc_pool s) \<and>
    (\<forall>r. bk_address (sc_mem s' r) = bk_address (sc_mem s r) \<and> bk_weight (sc_mem s' r) = bk_weight (sc_mem s r)) \<and>
    (\<forall>r. r \<notin> pooled s \<longrightarrow> r \<noteq> b \<longrightarrow> bk_index (sc_mem s' r) = bk_index (sc_mem s r))"
proof -
  let ?a = "bk_address (sc_mem s b)"
  let ?t = "s\<lparr>sc_backends := (sc_backends s)(?a \<mapsto> b)\<rparr>"
  have len: "length (pl_backends (sc_pool s)) < pl_cap (sc_pool s)"
    using pool_length_le[OF inv] sched_invD(2)[OF inv] room by simp
  from PoolPush_ok[OF sched_invD(1)[OF inv] b(2) len] obtain p m where
    p: "PoolPush b (sc_pool s, sc_mem s) = Some (p, m)" "pool_inv p m" "pool_frame (sc_pool s) (sc_mem s) p m"
    "mset (pl_backends p) = add_mset b (mset (pl_backends (sc_pool s)))"
    "\<And>x. x \<notin> pooled s \<Longrightarrow> x \<noteq> b \<Longrightarrow> bk_index (m x) = bk_index (sc_mem s x)" by blast
  have set: "set (pl_backends p) = insert b (pooled s)"
    using p(4) by (metis set_mset_add_mset_insert set_mset_mset)
  let ?s = "?t\<lparr>sc_pool := p, sc_mem := m\<rparr>"
  have pl: "placed ?s r" if "placed s r \<or> r = b" for r
    using that p(5)[of r] by (cases "r \<in> insert b (pooled s)") (auto simp: placed_def set)
  have rg: "registered ?s r" if "r \<in> insert b (pooled s)" for r
    using that sched_invD(5)[OF inv, of r] new p(3) by (auto simp: registered_def)
  have so: "session_ok ?s x" if "x \<in> set (sc_creating s)" for x
    using sched_invD(15)[OF inv that] by (simp add: session_ok_def)
  have "card (dom (sc_backends ?s)) \<le> MaxForwarders"
    using room new sched_invD(3)[OF inv] by (simp add: domIff)
  then have "sched_inv ?s c"
    using inv p(2,3) pl rg so b(1) by (auto simp: sched_inv_def set)
  then show ?thesis
    using p set by (intro exI[of _ ?s]) (auto simp: AddBackend_def push_backend_def set_pool_def same_lists_def)
qed

lemma RemoveBackend_ok:
  assumes inv: "sched_inv s c" and a: "sc_backends s a = Some b"
  shows "\<exists>s'. RemoveBackend a s = Finished s' \<and> sched_inv s' c \<and> pooled s' = pooled s - {b} \<and>
    sc_backends s' = (sc_backends s)(a := None) \<and> same_lists s s' \<and>
    sc_next s' = sc_next s \<and> sc_tunnels s' = sc_tunnels s \<and> sc_backendSeq s' = sc_backendSeq s \<and>
    pl_leastweight (sc_pool s') = pl_leastweight (sc_pool s) \<and>
    (\<forall>r. bk_address (sc_mem s' r) = bk_address (sc_mem s r) \<and> bk_weight (sc_mem s' r) = bk_weight (sc_mem s r))"
proof -
  from remove_backend_ok[OF inv sched_invD(8)[OF inv a]] obtain p m where
    r: "remove_backend b s = Finished (s\<lparr>sc_pool := p, sc_mem := m\<rparr>)"
    "sched_inv (s\<lparr>sc_pool := p, sc_mem := m\<rparr>) c" "pool_frame (sc_pool s) (sc_mem s) p m"
    "set (pl_backends p) = pooled s - {b}" "bk_index (m b) = - 1" by blast
  have addr: "bk_address (sc_mem s b) = a" by (rule sched_invD(7)[OF inv a])
  let ?t = "s\<lparr>sc_pool := p, sc_mem := m\<rparr>"
  let ?s = "?t\<lparr>sc_backends := (sc_backends s)(a := None)\<rparr>"
  have eqs: "placed ?s x = placed ?t x" "session_ok ?s y = session_ok ?t y" for x y
    by (simp_all add: placed_def session_ok_def)
  have "bk_address (m r) \<noteq> a" if "r \<in> pooled s - {b}" for r
    using sched_invD(5)[OF inv, of r] that a r(3) by (auto simp: registered_def)
  then have "registered ?s r" if "r \<in> pooled ?s" for r
    using sched_invD(5)[OF r(2), of r] that r(4) by (simp add: registered_def)
  moreover have "card (dom (sc_backends ?s)) \<le> MaxForwarders"
    using sched_invD(3,4)[OF inv] card_mono[of "dom (sc_backends s)" "dom (sc_backends s) - {a}"] by simp
  ultimately have "sched_inv ?s c"
    using r(2) by (simp add: sched_inv_def eqs)
  then show ?thesis
    using r a addr by (intro exI[of _ ?s]) (simp add: RemoveBackend_def same_lists_def)
qed

end
