(* ===== verification/SchedulerEvents.thy ===== *)
theory SchedulerEvents
  imports SchedulerInv
begin

text \<open>
  The handlers for status messages and tunnel sessions, on states that satisfy the invariant:
  they finish, keep the invariant, and bring the register of backends in line with the message.
\<close>

subsection \<open>Requests in flight\<close>

text \<open>\<open>D\<close> are the requests whose forwarding has ended and that still wait in the \<open>done\<close> channel.\<close>

definition load :: "request list \<Rightarrow> sched \<Rightarrow> ref \<Rightarrow> nat" where
  "load D s r = count_list (map rq_backend (sc_running s @ D)) (Some r)"

lemma load_running:
  "sc_running s' = sc_running s @ [q\<lparr>rq_backend := Some b\<rparr>] \<Longrightarrow> load D s' = (load D s)(b := Suc (load D s b))"
  by (auto simp: load_def fun_eq_iff)

lemma load_done:
  "rq_backend q = Some b \<Longrightarrow> load D s = (load (q # D) s)(b := load (q # D) s b - 1)"
  by (auto simp: load_def fun_eq_iff)

lemma load_cong: "sc_running s' = sc_running s \<Longrightarrow> load D s' = load D s"
  by (simp add: load_def fun_eq_iff)

lemma dispatched_load: "dispatched q s (load D s) s' c' \<Longrightarrow> c' = load D s'"
  unfolding dispatched_def using load_running[where s = s and s' = s' and D = D] load_cong[where s = s and s' = s' and D = D] by auto

text \<open>What dispatching conserves: every connection is running, refused or pending.\<close>

definition conns :: "sched \<Rightarrow> nat multiset" where
  "conns s = mset (map rq_conn (sc_running s)) + mset (sc_rejected s) + mset (map rq_conn (sc_pending s))"

lemma dispatched_conns: "dispatched q s c s' c' \<Longrightarrow> conns s' = add_mset (rq_conn q) (conns s)"
  by (auto simp: dispatched_def conns_def)

lemma same_lists_conns: "same_lists s s' \<Longrightarrow> conns s' = conns s"
  by (simp add: same_lists_def conns_def)

lemma same_lists_load: "same_lists s s' \<Longrightarrow> load D s' = load D s"
  by (auto simp: same_lists_def intro: load_cong)

lemma same_lists_trans: "same_lists s t \<Longrightarrow> same_lists t u \<Longrightarrow> same_lists s u"
  by (simp add: same_lists_def)

lemma same_lists_refl [simp]: "same_lists s s"
  by (simp add: same_lists_def)

subsection \<open>Draining the pending list\<close>

text \<open>With a backend in the pool every pending request is dispatched, none is queued again.\<close>

lemma drain_loop:
  assumes "sched_inv s (load D s)" "pooled s \<noteq> {}"
  shows "\<exists>s'. for_each (dispatch env) qs s = Finished s' \<and> sched_inv s' (load D s') \<and>
    sched_frame s s' \<and> pooled s' = pooled s \<and> sc_pending s' = sc_pending s \<and>
    conns s' = mset (map rq_conn qs) + conns s \<and>
    set (map rq_backend (sc_running s')) \<subseteq> set (map rq_backend (sc_running s)) \<union> Some ` pooled s"
  using assms
proof (induction qs arbitrary: s)
  case Nil
  then show ?case by simp
next
  case (Cons q qs)
  from dispatch_ok[OF Cons.prems(1), of env q] obtain s1 c1 where
    s1: "dispatch env q s = Finished s1" "dispatched q s (load D s) s1 c1" by blast
  have c1: "c1 = load D s1" by (rule dispatched_load[OF s1(2)])
  have d: "sched_frame s s1" "pooled s1 = pooled s" "sched_inv s1 (load D s1)" "sc_pending s1 = sc_pending s"
    "set (map rq_backend (sc_running s1)) \<subseteq> set (map rq_backend (sc_running s)) \<union> Some ` pooled s"
    using s1(2) Cons.prems(2) unfolding dispatched_def c1 by auto
  from Cons.IH[OF d(3)] Cons.prems(2) d(2) obtain s2 where
    s2: "for_each (dispatch env) qs s1 = Finished s2" "sched_inv s2 (load D s2)" "sched_frame s1 s2"
    "pooled s2 = pooled s1" "sc_pending s2 = sc_pending s1" "conns s2 = mset (map rq_conn qs) + conns s1"
    "set (map rq_backend (sc_running s2)) \<subseteq> set (map rq_backend (sc_running s1)) \<union> Some ` pooled s1" by auto
  have "set (map rq_backend (sc_running s2)) \<subseteq> set (map rq_backend (sc_running s)) \<union> Some ` pooled s"
    using s2(7) d(5) unfolding d(2) by blast
  then show ?case
    using s1(1) s2 d dispatched_conns[OF s1(2)] sched_frame_trans[OF d(1) s2(3)]
    by (intro exI[of _ s2]) simp
qed

lemma conns_clear_pending: "conns s = mset (map rq_conn (sc_pending s)) + conns (s\<lparr>sc_pending := []\<rparr>)"
  by (simp add: conns_def)

lemma drain_ok:
  assumes inv: "sched_inv s (load D s)"
  shows "\<exists>s'. drain env s = Finished s' \<and> sched_inv s' (load D s') \<and> sched_frame s s' \<and>
    pooled s' = pooled s \<and> conns s' = conns s \<and>
    (pooled s \<noteq> {} \<longrightarrow> sc_pending s' = []) \<and>
    set (map rq_backend (sc_running s')) \<subseteq> set (map rq_backend (sc_running s)) \<union> Some ` pooled s"
proof (cases "sc_pending s \<noteq> [] \<and> pooled s \<noteq> {}")
  case True
  then have "pooled s \<noteq> {}" by simp
  from drain_loop[OF inv this, of env "sc_pending s"] obtain t where
    t: "for_each (dispatch env) (sc_pending s) s = Finished t" "sched_inv t (load D t)" "sched_frame s t"
    "pooled t = pooled s" "sc_pending t = sc_pending s" "conns t = mset (map rq_conn (sc_pending s)) + conns s"
    "set (map rq_backend (sc_running t)) \<subseteq> set (map rq_backend (sc_running s)) \<union> Some ` pooled s" by blast
  let ?t = "t\<lparr>sc_pending := []\<rparr>"
  have "drain env s = Finished ?t" using True t(1) by (simp add: drain_def)
  moreover have "conns ?t = conns s"
    using t(6) conns_clear_pending[of t] by (simp add: t(5))
  moreover have "sched_inv ?t (load D ?t)" using t(2) by (simp add: load_cong[of ?t t])
  moreover have "sched_frame s ?t" using t(3) by (simp add: sched_frame_def)
  ultimately show ?thesis using t(4,7) by (intro exI[of _ ?t]) simp
next
  case False
  then show ?thesis using inv by (auto simp: drain_def)
qed

subsection \<open>A failed tunnel connection\<close>

lemma sched_inv_slot:
  assumes inv: "sched_inv s c" and b: "b < sc_next s"
  shows "sched_inv (upd_backend b (set_slot i f) s) c"
proof -
  have "set_slot i f (sc_mem s b) =
      (sc_mem s b)\<lparr>bk_count := bk_count (sc_mem s b),
        bk_tunnel := (bk_tunnel (sc_mem s b))[i := f (bk_tunnel (sc_mem s b) ! i)]\<rparr>"
    by (simp add: set_slot_def)
  then show ?thesis
    using sched_inv_slots[OF inv b, of "(bk_tunnel (sc_mem s b))[i := f (bk_tunnel (sc_mem s b) ! i)]"
        "bk_count (sc_mem s b)"] by (simp add: upd_backend_def)
qed

lemma handle_fail_ok:
  assumes inv: "sched_inv s c" and x: "session_ok s x"
  shows "\<exists>s'. handle_fail x s = Finished s' \<and> sched_inv s' c \<and> sched_frame s s' \<and> sc_pool s' = sc_pool s \<and>
    sc_pending s' = sc_pending s \<and> sc_running s' = sc_running s \<and> sc_rejected s' = sc_rejected s \<and>
    tn_switching (bk_tunnel (sc_mem s' (ss_backend x)) ! unat (ss_connindex x)) \<and>
    sc_creating s' = sc_creating s @
      (if tn_switching (bk_tunnel (sc_mem s (ss_backend x)) ! unat (ss_connindex x)) then [] else [x])"
proof -
  let ?b = "ss_backend x" and ?i = "unat (ss_connindex x)"
  have b: "?b < sc_next s" and "?i < unat (sc_tunnels s)" using x by (simp_all add: session_ok_def)
  then have i: "?i < length (bk_tunnel (sc_mem s ?b))"
    using sched_invD(11,12)[OF inv b] by (simp add: backend_wf_def)
  show ?thesis
  proof (cases "tn_switching (bk_tunnel (sc_mem s ?b) ! ?i)")
    case True
    then show ?thesis using inv i by (simp add: handle_fail_def)
  next
    case False
    let ?s = "upd_backend ?b (set_slot ?i (\<lambda>t. t\<lparr>tn_switching := True\<rparr>)) s"
    have "session_ok ?s x" using x by (simp add: session_ok_def upd_backend_def)
    then have "sched_inv (?s\<lparr>sc_creating := sc_creating ?s @ [x]\<rparr>) c"
      by (intro sched_inv_creating sched_inv_slot[OF inv b]) simp
    then show ?thesis
      using False i by (simp add: handle_fail_def Let_def sched_frame_def upd_backend_def)
  qed
qed

subsection \<open>A new tunnel connection\<close>

text \<open>The connection is installed and the one it replaces is closed.\<close>

lemma switch_ok:
  assumes inv: "sched_inv s c" and x: "session_ok s x" and t: "ss_spdy x = Some t"
  shows "\<exists>s1. handle_new env x s =
      (if sc_backends s1 (bk_address (sc_mem s1 (ss_backend x))) = None
       then and_then (AddBackend (ss_backend x) s1) (drain env) else Finished s1) \<and>
    sched_inv s1 c \<and> sc_pool s1 = sc_pool s \<and> sc_backends s1 = sc_backends s \<and> same_lists s s1 \<and>
    sc_next s1 = sc_next s \<and> sc_tunnels s1 = sc_tunnels s \<and>
    (\<forall>r. bk_address (sc_mem s1 r) = bk_address (sc_mem s r) \<and> bk_weight (sc_mem s1 r) = bk_weight (sc_mem s r)) \<and>
    sc_spdyClosed s1 = sc_spdyClosed s @
      (case tn_conn (bk_tunnel (sc_mem s (ss_backend x)) ! unat (ss_connindex x)) of None \<Rightarrow> [] | Some k \<Rightarrow> [k]) \<and>
    bk_tunnel (sc_mem s1 (ss_backend x)) ! unat (ss_connindex x) =
      \<lparr>tn_conn = tn_conn t, tn_tcpAddr = tn_tcpAddr t, tn_switching = False\<rparr>"
proof -
  let ?b = "ss_backend x" and ?i = "unat (ss_connindex x)"
  let ?f = "\<lambda>s. s\<lparr>tn_conn := tn_conn t, tn_tcpAddr := tn_tcpAddr t, tn_switching := False\<rparr>"
  let ?closed = "case tn_conn (bk_tunnel (sc_mem s ?b) ! ?i) of None \<Rightarrow> [] | Some k \<Rightarrow> [k]"
  let ?s1 = "(upd_backend ?b (set_slot ?i ?f) s)\<lparr>sc_spdyClosed := sc_spdyClosed s @ ?closed\<rparr>"
  have b: "?b < sc_next s" and "?i < unat (sc_tunnels s)" using x by (simp_all add: session_ok_def)
  then have i: "?i < length (bk_tunnel (sc_mem s ?b))"
    using sched_invD(11,12)[OF inv b] by (simp add: backend_wf_def)
  have "sched_inv ?s1 c" using sched_inv_slot[OF inv b] by simp
  then show ?thesis
    using i t
    by (intro exI[of _ ?s1])
      (simp add: handle_new_def SwitchSpdyConn_def upd_backend_def same_lists_def Let_def)
qed

lemma handle_new_ok:
  assumes inv: "sched_inv s (load D s)" and x: "session_ok s x" and t: "ss_spdy x = Some t"
    and room: "sc_backends s (bk_address (sc_mem s (ss_backend x))) = None \<Longrightarrow>
      card (dom (sc_backends s)) < MaxForwarders"
  shows "\<exists>s'. handle_new env x s = Finished s' \<and> sched_inv s' (load D s') \<and> conns s' = conns s \<and>
    sc_next s' = sc_next s \<and> sc_tunnels s' = sc_tunnels s \<and>
    set (map rq_backend (sc_running s')) \<subseteq> set (map rq_backend (sc_running s)) \<union> Some ` pooled s' \<and>
    (\<forall>r. bk_address (sc_mem s' r) = bk_address (sc_mem s r)) \<and>
    pl_leastweight (sc_pool s') = pl_leastweight (sc_pool s) \<and>
    (let a = bk_address (sc_mem s (ss_backend x)) in
     if sc_backends s a = None
     then sc_backends s' = (sc_backends s)(a \<mapsto> ss_backend x) \<and> pooled s' = insert (ss_backend x) (pooled s) \<and>
       sc_pending s' = []
     else sc_backends s' = sc_backends s \<and> pooled s' = pooled s \<and> same_lists s s')"
proof -
  let ?b = "ss_backend x"
  from switch_ok[OF inv x t, of env] obtain s1 where s1: "handle_new env x s =
      (if sc_backends s1 (bk_address (sc_mem s1 ?b)) = None
       then and_then (AddBackend ?b s1) (drain env) else Finished s1)"
    "sched_inv s1 (load D s)" "sc_pool s1 = sc_pool s" "sc_backends s1 = sc_backends s" "same_lists s s1"
    "sc_next s1 = sc_next s" "sc_tunnels s1 = sc_tunnels s"
    "\<forall>r. bk_address (sc_mem s1 r) = bk_address (sc_mem s r) \<and> bk_weight (sc_mem s1 r) = bk_weight (sc_mem s r)" by blast
  let ?a = "bk_address (sc_mem s ?b)"
  have ld: "load D s1 = load D s" by (rule same_lists_load[OF s1(5)])
  show ?thesis
  proof (cases "sc_backends s ?a = None")
    case False
    then show ?thesis
      using s1 ld same_lists_conns[OF s1(5)]
      by (intro exI[of _ s1]) (auto simp: same_lists_def)
  next
    case True
    have b: "?b < sc_next s1" using x s1(6) by (simp add: session_ok_def)
    have "?b \<notin> pooled s1"
      using sched_invD(5)[OF s1(2), of ?b] True s1(4,8) by (auto simp: registered_def)
    from AddBackend_ok[OF s1(2) b this] room[OF True] True s1(4,8) obtain s2 where
      s2: "AddBackend ?b s1 = Finished s2" "sched_inv s2 (load D s)" "pooled s2 = insert ?b (pooled s1)"
      "sc_backends s2 = (sc_backends s1)(?a \<mapsto> ?b)" "same_lists s1 s2" "sc_next s2 = sc_next s1"
      "sc_tunnels s2 = sc_tunnels s1" "\<forall>r. bk_address (sc_mem s2 r) = bk_address (sc_mem s1 r)"
      "pl_leastweight (sc_pool s2) = pl_leastweight (sc_pool s1)" by auto
    have ld2: "load D s2 = load D s" using same_lists_load[OF s2(5)] ld by simp
    from drain_ok[of s2 D env] s2(2,3) ld2 obtain s3 where
      s3: "drain env s2 = Finished s3" "sched_inv s3 (load D s3)" "sched_frame s2 s3" "pooled s3 = pooled s2"
      "conns s3 = conns s2" "sc_pending s3 = []"
      "set (map rq_backend (sc_running s3)) \<subseteq> set (map rq_backend (sc_running s2)) \<union> Some ` pooled s2" by auto
    have "handle_new env x s = Finished s3"
      using s1(1,4,8) True s2(1) s3(1) by simp
    moreover have "conns s3 = conns s"
      using s3(5) same_lists_conns[OF s2(5)] same_lists_conns[OF s1(5)] by simp
    moreover have "sc_running s2 = sc_running s" using s1(5) s2(5) by (simp add: same_lists_def)
    ultimately show ?thesis
      using s1 s2 s3 True by (intro exI[of _ s3]) (auto simp: sched_frame_def Let_def)
  qed
qed

subsection \<open>A status message: the known backends\<close>

definition known_frame :: "sched \<Rightarrow> sched \<Rightarrow> bool" where
  "known_frame s t \<longleftrightarrow> same_lists s t \<and> sc_next t = sc_next s \<and> sc_tunnels t = sc_tunnels s \<and>
     sc_backendSeq t = sc_backendSeq s \<and> pl_leastweight (sc_pool t) = pl_leastweight (sc_pool s) \<and>
     (\<forall>r. bk_address (sc_mem t r) = bk_address (sc_mem s r) \<and> bk_weight (sc_mem t r) = bk_weight (sc_mem s r))"

lemma known_frame_refl [simp]: "known_frame s s"
  by (simp add: known_frame_def)

lemma known_frame_trans: "known_frame s t \<Longrightarrow> known_frame t u \<Longrightarrow> known_frame s u"
  by (simp add: known_frame_def same_lists_def)

text \<open>One round: a backend the message does not name leaves the register and the pool, one that it
  names is in the pool afterwards.\<close>

lemma status_known_step:
  assumes inv: "sched_inv s c" and a: "sc_backends s a = Some b"
  shows "\<exists>t. status_known a (s, st) = Finished (t, st(a := None)) \<and> sched_inv t c \<and> known_frame s t \<and>
    (if st a = None then sc_backends t = (sc_backends s)(a := None) \<and> pooled t = pooled s - {b}
     else sc_backends t = sc_backends s \<and> pooled t = insert b (pooled s))"
proof (cases "st a")
  case None
  from RemoveBackend_ok[OF inv a] obtain t where
    "RemoveBackend a s = Finished t" "sched_inv t c" "pooled t = pooled s - {b}"
    "sc_backends t = (sc_backends s)(a := None)" "known_frame s t" by (auto simp: known_frame_def)
  moreover have "st(a := None) = st" using None by (simp add: fun_eq_iff)
  ultimately show ?thesis
    using a None by (intro exI[of _ t]) (simp add: status_known_def)
next
  case (Some v)
  show ?thesis
  proof (cases "b \<in> pooled s")
    case True
    then have "bk_index (sc_mem s b) \<noteq> - 1"
      using pool_inv_index[OF sched_invD(1)[OF inv] True] by simp
    then show ?thesis
      using a Some inv True by (intro exI[of _ s]) (auto simp: status_known_def)
  next
    case False
    then have "bk_index (sc_mem s b) = - 1"
      using sched_invD(8)[OF inv a] by (simp add: placed_def)
    moreover have "sc_backends s (bk_address (sc_mem s b)) = Some b"
      using a sched_invD(7)[OF inv a] by simp
    from push_backend_ok[OF inv this False] obtain p m where
      "push_backend b s = Finished (s\<lparr>sc_pool := p, sc_mem := m\<rparr>)"
      "sched_inv (s\<lparr>sc_pool := p, sc_mem := m\<rparr>) c" "pool_frame (sc_pool s) (sc_mem s) p m"
      "set (pl_backends p) = insert b (pooled s)" by blast
    ultimately show ?thesis
      using a Some by (intro exI[of _ "s\<lparr>sc_pool := p, sc_mem := m\<rparr>"])
        (simp add: status_known_def known_frame_def same_lists_def)
  qed
qed

lemma status_known_loop:
  assumes "sched_inv s c" "distinct ks" "set ks \<subseteq> dom (sc_backends s)"
  shows "\<exists>t. for_each status_known ks (s, st) = Finished (t, st |` (- set ks)) \<and> sched_inv t c \<and>
    known_frame s t \<and> sc_backends t = sc_backends s |` (- (set ks - dom st)) \<and>
    (\<forall>a \<in> set ks \<inter> dom st. the (sc_backends s a) \<in> pooled t) \<and>
    (\<forall>r \<in> pooled s. bk_address (sc_mem s r) \<notin> set ks \<longrightarrow> r \<in> pooled t)"
  using assms
proof (induction ks arbitrary: s st)
  case Nil
  then show ?case by (auto simp: restrict_map_def)
next
  case (Cons a ks)
  from Cons.prems obtain b where a: "sc_backends s a = Some b" by auto
  from status_known_step[where st = st, OF Cons.prems(1) a] obtain s1 where
    s1: "status_known a (s, st) = Finished (s1, st(a := None))" "sched_inv s1 c" "known_frame s s1"
    "if st a = None then sc_backends s1 = (sc_backends s)(a := None) \<and> pooled s1 = pooled s - {b}
     else sc_backends s1 = sc_backends s \<and> pooled s1 = insert b (pooled s)" by blast
  have ks: "distinct ks" "a \<notin> set ks" "set ks \<subseteq> dom (sc_backends s1)"
    using Cons.prems s1(4) by (auto split: if_splits)
  from Cons.IH[where st = "st(a := None)", OF s1(2) ks(1,3)] obtain t where
    t: "for_each status_known ks (s1, st(a := None)) = Finished (t, st(a := None) |` (- set ks))"
    "sched_inv t c" "known_frame s1 t" "sc_backends t = sc_backends s1 |` (- (set ks - dom (st(a := None))))"
    "\<forall>a' \<in> set ks \<inter> dom (st(a := None)). the (sc_backends s1 a') \<in> pooled t"
    "\<forall>r \<in> pooled s1. bk_address (sc_mem s1 r) \<notin> set ks \<longrightarrow> r \<in> pooled t" by blast
  have addr: "bk_address (sc_mem s1 r) = bk_address (sc_mem s r)" for r
    using s1(3) by (simp add: known_frame_def)
  have st: "st(a := None) |` (- set ks) = st |` (- set (a # ks))"
    by (auto simp: restrict_map_def fun_eq_iff)
  have regs: "sc_backends t = sc_backends s |` (- (set (a # ks) - dom st))"
    using t(4) s1(4) ks(2) by (auto simp: restrict_map_def fun_eq_iff split: if_splits)
  have b: "bk_address (sc_mem s b) = a" by (rule sched_invD(7)[OF Cons.prems(1) a])
  have in_t: "the (sc_backends s a') \<in> pooled t" if "a' \<in> set (a # ks) \<inter> dom st" for a'
  proof (cases "a' = a")
    case True
    then have "b \<in> pooled s1" using that s1(4) by auto
    with t(6) True a b ks(2) addr show ?thesis by simp
  next
    case False
    then have "the (sc_backends s1 a') \<in> pooled t" using that t(5) by auto
    then show ?thesis using False s1(4) by (simp split: if_splits)
  qed
  have kept: "r \<in> pooled t" if "r \<in> pooled s" "bk_address (sc_mem s r) \<notin> set (a # ks)" for r
  proof -
    have "r \<noteq> b" using that(2) b by auto
    then have "r \<in> pooled s1" using that(1) s1(4) by (auto split: if_splits)
    then show ?thesis using t(6) that(2) addr by simp
  qed
  show ?case
    using s1(1) t(1,2) known_frame_trans[OF s1(3) t(3)] regs in_t kept st
    by (intro exI[of _ t]) auto
qed

text \<open>After the loop the register holds the backends that the message names, all in the pool.\<close>

lemma status_known_ok:
  assumes inv: "sched_inv s c" and ks: "enumerates ks (sc_backends s)"
  shows "\<exists>t. for_each status_known ks (s, st) = Finished (t, st |` (- dom (sc_backends s))) \<and> sched_inv t c \<and>
    known_frame s t \<and> sc_backends t = sc_backends s |` dom st \<and> pooled t = ran (sc_backends t)"
proof -
  from ks have d: "distinct ks" "set ks = dom (sc_backends s)" by (auto simp: enumerates_def)
  then have "set ks \<subseteq> dom (sc_backends s)" by simp
  from status_known_loop[where st = st, OF inv d(1) this] obtain t where
    t: "for_each status_known ks (s, st) = Finished (t, st |` (- dom (sc_backends s)))" "sched_inv t c"
    "known_frame s t" "sc_backends t = sc_backends s |` (- (dom (sc_backends s) - dom st))"
    "\<forall>a \<in> dom (sc_backends s) \<inter> dom st. the (sc_backends s a) \<in> pooled t"
    unfolding d(2) by blast
  have regs: "sc_backends t = sc_backends s |` dom st"
    using t(4) by (auto simp: restrict_map_def fun_eq_iff)
  moreover have "pooled t = ran (sc_backends t)"
  proof
    show "pooled t \<subseteq> ran (sc_backends t)"
      using sched_invD(5)[OF t(2)] by (auto simp: registered_def intro: ranI)
    show "ran (sc_backends t) \<subseteq> pooled t"
    proof
      fix r assume "r \<in> ran (sc_backends t)"
      then obtain a where "sc_backends s a = Some r" "a \<in> dom st"
        by (auto simp: ran_def regs restrict_map_def split: if_splits)
      with t(5) show "r \<in> pooled t" by force
    qed
  qed
  ultimately show ?thesis using t(1,2,3) by blast
qed

subsection \<open>A status message: the new backends\<close>

lemma new_backend_ok:
  assumes inv: "sched_inv s c" and nb: "new_backend a w s = (r, t)"
  shows "r = sc_next s" "sched_inv t c" "same_lists s t" "sc_next t = Suc (sc_next s)" "sc_pool t = sc_pool s"
    "sc_backends t = sc_backends s" "sc_tunnels t = sc_tunnels s" "sc_backendSeq t = sc_backendSeq s"
    "bk_address (sc_mem t r) = a" "bk_weight (sc_mem t r) = w" "r \<notin> pooled s"
    "\<And>x. x < sc_next s \<Longrightarrow> sc_mem t x = sc_mem s x"
proof -
  have t: "r = sc_next s" "t = s\<lparr>sc_mem := (sc_mem s)(r := FailChan (NewBackend a (sc_tunnels s) w)), sc_next := r + 1\<rparr>"
    using nb by (auto simp: new_backend_def Let_def)
  have nt: "sc_next t = Suc (sc_next s)" "sc_backends t = sc_backends s" using t by simp_all
  have old: "sc_mem t x = sc_mem s x" if "x < sc_next s" for x using t that by simp
  have c0: "c r = 0" using sched_invD(9)[OF inv, of r] t(1) by (cases "c r") auto
  have rp: "r \<notin> pooled s" using pooled_backend[OF inv, of r] t(1) by auto
  have pinv: "pool_inv (sc_pool t) (sc_mem t)"
    unfolding t(2) using rp by (simp, intro pool_inv_cong[OF sched_invD(1)[OF inv]]) auto
  have lt: "x < sc_next s" if "x \<in> pooled s \<or> sc_backends s a' = Some x \<or> 0 < c x" for x a'
    using that pooled_backend[OF inv] sched_invD(6,9)[OF inv] by auto
  have reg: "registered t x" if "x \<in> pooled t" for x
  proof -
    have "x \<in> pooled s" using that t(2) by simp
    then show ?thesis
      using sched_invD(5)[OF inv, of x] lt[of x] t by (auto simp: registered_def)
  qed
  have pl: "placed t x" if "placed s x" "x < sc_next s" for x
    using that old[of x] t by (auto simp: placed_def)
  have wf: "backend_wf (sc_mem t x) \<and> bk_tunnels (sc_mem t x) = sc_tunnels t \<and>
      unat (bk_ongoing (sc_mem t x)) = c x \<and> c x \<le> unat MaxForwardersPerBackend" if "x < sc_next t" for x
  proof (cases "x = r")
    case True
    then show ?thesis using c0 t(2) by (simp, simp add: FailChan_def NewBackend_def)
  next
    case False
    then have "x < sc_next s" using that t by simp
    then show ?thesis using sched_invD(11-14)[OF inv, of x] old[of x] t(2) by simp
  qed
  have "\<forall>a x. sc_backends t a = Some x \<longrightarrow> x < sc_next t \<and> bk_address (sc_mem t x) = a \<and> placed t x"
    using sched_invD(6,7,8)[OF inv] old pl nt less_SucI by metis
  moreover have "\<forall>x. 0 < c x \<longrightarrow> x < sc_next t \<and> placed t x"
    using sched_invD(9,10)[OF inv] pl nt less_SucI by metis
  moreover have "\<forall>x \<in> set (sc_creating t). session_ok t x"
    using sched_invD(15)[OF inv] t by (force simp: session_ok_def)
  ultimately show "sched_inv t c"
    using pinv reg wf sched_invD(2-4)[OF inv] t(2) by (simp add: sched_inv_def)
  show "r = sc_next s" "same_lists s t" "sc_next t = Suc (sc_next s)" "sc_pool t = sc_pool s"
    "sc_backends t = sc_backends s" "sc_tunnels t = sc_tunnels s" "sc_backendSeq t = sc_backendSeq s"
    "bk_address (sc_mem t r) = a" "bk_weight (sc_mem t r) = w" "r \<notin> pooled s"
    "\<And>x. x < sc_next s \<Longrightarrow> sc_mem t x = sc_mem s x"
    using t rp old by (simp_all add: same_lists_def FailChan_def NewBackend_def)
qed

text \<open>\<open>grown s as sh t\<close>: \<open>t\<close> has one more backend per address of \<open>as\<close>, numbered from
  \<open>sc_next s\<close> on, of weight 0 with \<open>-shuffle\<close> and of consecutive weights without.\<close>

definition grown :: "sched \<Rightarrow> string list \<Rightarrow> bool \<Rightarrow> sched \<Rightarrow> bool" where
  "grown s as sh t \<longleftrightarrow>
     sc_next t = sc_next s + length as \<and> sc_tunnels t = sc_tunnels s \<and>
     pl_leastweight (sc_pool t) = pl_leastweight (sc_pool s) \<and>
     (\<forall>r < sc_next s. bk_address (sc_mem t r) = bk_address (sc_mem s r) \<and>
        bk_weight (sc_mem t r) = bk_weight (sc_mem s r)) \<and>
     sc_backendSeq t = (if sh then sc_backendSeq s else sc_backendSeq s + of_nat (length as)) \<and>
     (\<forall>i < length as. bk_address (sc_mem t (sc_next s + i)) = as ! i \<and>
        bk_weight (sc_mem t (sc_next s + i)) = (if sh then 0 else sc_backendSeq s + of_nat (Suc i))) \<and>
     sc_pending t = sc_pending s \<and> sc_running t = sc_running s \<and> sc_rejected t = sc_rejected s"

lemma grown_Nil [simp]: "grown s [] sh s"
  by (simp add: grown_def)

lemma grown_Cons:
  assumes "sc_next s1 = Suc (sc_next s)" "sc_tunnels s1 = sc_tunnels s" "same_lists s s1 \<or>
      sc_pending s1 = sc_pending s \<and> sc_running s1 = sc_running s \<and> sc_rejected s1 = sc_rejected s"
    "pl_leastweight (sc_pool s1) = pl_leastweight (sc_pool s)"
    "\<forall>r < sc_next s. bk_address (sc_mem s1 r) = bk_address (sc_mem s r) \<and>
       bk_weight (sc_mem s1 r) = bk_weight (sc_mem s r)"
    "sc_backendSeq s1 = (if sh then sc_backendSeq s else sc_backendSeq s + 1)"
    "bk_address (sc_mem s1 (sc_next s)) = a"
    "bk_weight (sc_mem s1 (sc_next s)) = (if sh then 0 else sc_backendSeq s + 1)"
    and g: "grown s1 as sh t"
  shows "grown s (a # as) sh t"
proof -
  have "bk_address (sc_mem t (sc_next s + i)) = (a # as) ! i \<and>
      bk_weight (sc_mem t (sc_next s + i)) = (if sh then 0 else sc_backendSeq s + of_nat (Suc i))"
    if "i < length (a # as)" for i
  proof (cases i)
    case 0
    then show ?thesis using assms by (simp add: grown_def)
  next
    case (Suc j)
    then have "j < length as" using that by simp
    then show ?thesis using g assms(1,6) Suc unfolding grown_def by (auto simp: algebra_simps split: if_splits)
  qed
  then show ?thesis
    using assms by (auto simp: grown_def same_lists_def algebra_simps less_Suc_eq)
qed

text \<open>Without tunnels the new backends go into the register and into the pool at once.\<close>

lemma status_new_loop:
  assumes "sched_inv s c" "sc_tunnels s = 0" "distinct as" "set as \<inter> dom (sc_backends s) = {}"
    "card (dom (sc_backends s)) + length as \<le> MaxForwarders"
  shows "\<exists>t. for_each (status_new sh) as s = Finished t \<and> sched_inv t c \<and> grown s as sh t \<and>
    sc_creating t = sc_creating s \<and> dom (sc_backends t) = dom (sc_backends s) \<union> set as \<and>
    (\<forall>a \<in> dom (sc_backends s). sc_backends t a = sc_backends s a) \<and>
    pooled t = pooled s \<union> {sc_next s ..< sc_next s + length as}"
  using assms
proof (induction as arbitrary: s)
  case Nil
  then show ?case by simp
next
  case (Cons a as)
  let ?w = "if sh then 0 else sc_backendSeq s + 1" and ?seq = "if sh then sc_backendSeq s else sc_backendSeq s + 1"
  let ?s0 = "s\<lparr>sc_backendSeq := ?seq\<rparr>"
  obtain r s1 where nb: "new_backend a ?w ?s0 = (r, s1)" by (cases "new_backend a ?w ?s0")
  have inv0: "sched_inv ?s0 c" using Cons.prems(1) by simp
  note n = new_backend_ok[OF inv0 nb]
  have eq: "status_new sh a s = AddBackend r s1"
  proof (cases sh)
    case True
    then have "?s0 = s" by simp
    then show ?thesis using nb n(7) True Cons.prems(2) by (simp add: status_new_def)
  next
    case False
    then show ?thesis using nb n(7) Cons.prems(2) by (simp add: status_new_def nextBackendSequence_def Let_def)
  qed
  have "r < sc_next s1" "r \<notin> pooled s1" "sc_backends s1 (bk_address (sc_mem s1 r)) = None"
    "card (dom (sc_backends s1)) < MaxForwarders"
    using n Cons.prems(4,5) by auto
  from AddBackend_ok[OF n(2) this] obtain s2 where
    s2: "AddBackend r s1 = Finished s2" "sched_inv s2 c" "pooled s2 = insert r (pooled s1)"
    "sc_backends s2 = (sc_backends s1)(a \<mapsto> r)" "same_lists s1 s2" "sc_next s2 = sc_next s1"
    "sc_tunnels s2 = sc_tunnels s1" "sc_backendSeq s2 = sc_backendSeq s1"
    "pl_leastweight (sc_pool s2) = pl_leastweight (sc_pool s1)"
    "\<forall>x. bk_address (sc_mem s2 x) = bk_address (sc_mem s1 x) \<and> bk_weight (sc_mem s2 x) = bk_weight (sc_mem s1 x)"
    unfolding n(9) by blast
  have c2: "card (dom (sc_backends s2)) = Suc (card (dom (sc_backends s)))"
    using s2(4) n(6) Cons.prems(4) sched_invD(3)[OF Cons.prems(1)] by auto
  have pre: "sc_tunnels s2 = 0" "distinct as" "set as \<inter> dom (sc_backends s2) = {}"
    "card (dom (sc_backends s2)) + length as \<le> MaxForwarders"
    using Cons.prems s2(4,7) n(6,7) c2 by auto
  from Cons.IH[OF s2(2) pre] obtain t where
    t: "for_each (status_new sh) as s2 = Finished t" "sched_inv t c" "grown s2 as sh t"
    "sc_creating t = sc_creating s2" "dom (sc_backends t) = dom (sc_backends s2) \<union> set as"
    "\<forall>a \<in> dom (sc_backends s2). sc_backends t a = sc_backends s2 a"
    "pooled t = pooled s2 \<union> {sc_next s2 ..< sc_next s2 + length as}" by blast
  have "grown s (a # as) sh t"
  proof (rule grown_Cons[OF _ _ _ _ _ _ _ _ t(3)])
    show "sc_next s2 = Suc (sc_next s)" "sc_tunnels s2 = sc_tunnels s"
      "pl_leastweight (sc_pool s2) = pl_leastweight (sc_pool s)"
      "bk_address (sc_mem s2 (sc_next s)) = a"
      "bk_weight (sc_mem s2 (sc_next s)) = (if sh then 0 else sc_backendSeq s + 1)"
      "sc_backendSeq s2 = (if sh then sc_backendSeq s else sc_backendSeq s + 1)"
      using n s2 by simp_all
    show "\<forall>r < sc_next s. bk_address (sc_mem s2 r) = bk_address (sc_mem s r) \<and>
       bk_weight (sc_mem s2 r) = bk_weight (sc_mem s r)"
      using n(12) s2(10) by simp
    show "same_lists s s2 \<or> sc_pending s2 = sc_pending s \<and> sc_running s2 = sc_running s \<and> sc_rejected s2 = sc_rejected s"
      using n(3) s2(5) by (simp add: same_lists_def)
  qed
  moreover have "sc_creating t = sc_creating s" using t(4) s2(5) n(3) by (simp add: same_lists_def)
  moreover have "dom (sc_backends t) = dom (sc_backends s) \<union> set (a # as)" using t(5) s2(4) n(6) by auto
  moreover have "\<forall>x \<in> dom (sc_backends s). sc_backends t x = sc_backends s x"
    using t(6) s2(4) n(6) Cons.prems(4) by auto
  moreover have "{sc_next s ..< sc_next s + length (a # as)} =
      insert (sc_next s) {Suc (sc_next s) ..< Suc (sc_next s) + length as}" by auto
  then have "pooled t = pooled s \<union> {sc_next s ..< sc_next s + length (a # as)}"
    using t(7) s2(3,6) n(1,4,5) by simp
  ultimately show ?case
    using eq s2(1) t(1,2) by (intro exI[of _ t]) simp
qed

text \<open>With tunnels nothing is registered: one session per tunnel is started for each address, and
  the backend is registered by the first session that comes back.\<close>

definition tunnel_sessions :: "ref \<Rightarrow> uint \<Rightarrow> spdy_session list" where
  "tunnel_sessions r n = map (\<lambda>i. NewSpdySession r (of_nat i)) [0..<unat n]"

lemma tunnel_sessions_ok:
  assumes "x \<in> set (tunnel_sessions r (sc_tunnels s))" "r < sc_next s"
  shows "session_ok s x"
  using assms by (auto simp: tunnel_sessions_def session_ok_def NewSpdySession_def unat_of_nat_small)

lemma status_new_tunnel_loop:
  assumes "sched_inv s c" "0 < sc_tunnels s"
  shows "\<exists>t. for_each (status_new sh) as s = Finished t \<and> sched_inv t c \<and> grown s as sh t \<and>
    sc_creating t = sc_creating s @
      concat (map (\<lambda>i. tunnel_sessions (sc_next s + i) (sc_tunnels s)) [0..<length as]) \<and>
    sc_backends t = sc_backends s \<and> pooled t = pooled s"
  using assms
proof (induction as arbitrary: s)
  case Nil
  then show ?case by simp
next
  case (Cons a as)
  let ?w = "if sh then 0 else sc_backendSeq s + 1" and ?seq = "if sh then sc_backendSeq s else sc_backendSeq s + 1"
  let ?s0 = "s\<lparr>sc_backendSeq := ?seq\<rparr>"
  obtain r s1 where nb: "new_backend a ?w ?s0 = (r, s1)" by (cases "new_backend a ?w ?s0")
  have inv0: "sched_inv ?s0 c" using Cons.prems(1) by simp
  note n = new_backend_ok[OF inv0 nb]
  let ?s2 = "s1\<lparr>sc_creating := sc_creating s1 @ tunnel_sessions r (sc_tunnels s1)\<rparr>"
  have eq: "status_new sh a s = Finished ?s2"
  proof (cases sh)
    case True
    then have "?s0 = s" by simp
    then show ?thesis using nb n(7) True Cons.prems(2) by (simp add: status_new_def tunnel_sessions_def)
  next
    case False
    then show ?thesis using nb n(7) Cons.prems(2)
      by (simp add: status_new_def nextBackendSequence_def Let_def tunnel_sessions_def)
  qed
  have inv2: "sched_inv ?s2 c"
    using tunnel_sessions_ok n(1,4) by (intro sched_inv_creating[OF n(2)]) simp
  have "0 < sc_tunnels ?s2" using Cons.prems(2) n(7) by simp
  from Cons.IH[OF inv2 this] obtain t where
    t: "for_each (status_new sh) as ?s2 = Finished t" "sched_inv t c" "grown ?s2 as sh t"
    "sc_creating t = sc_creating ?s2 @
      concat (map (\<lambda>i. tunnel_sessions (sc_next ?s2 + i) (sc_tunnels ?s2)) [0..<length as])"
    "sc_backends t = sc_backends ?s2" "pooled t = pooled ?s2" by blast
  have "grown s (a # as) sh t"
  proof (rule grown_Cons[OF _ _ _ _ _ _ _ _ t(3)])
    show "sc_next ?s2 = Suc (sc_next s)" "sc_tunnels ?s2 = sc_tunnels s"
      "pl_leastweight (sc_pool ?s2) = pl_leastweight (sc_pool s)"
      "bk_address (sc_mem ?s2 (sc_next s)) = a"
      "bk_weight (sc_mem ?s2 (sc_next s)) = (if sh then 0 else sc_backendSeq s + 1)"
      "sc_backendSeq ?s2 = (if sh then sc_backendSeq s else sc_backendSeq s + 1)"
      using n by simp_all
    show "\<forall>x < sc_next s. bk_address (sc_mem ?s2 x) = bk_address (sc_mem s x) \<and>
       bk_weight (sc_mem ?s2 x) = bk_weight (sc_mem s x)"
      using n(12) by simp
    show "same_lists s ?s2 \<or>
        sc_pending ?s2 = sc_pending s \<and> sc_running ?s2 = sc_running s \<and> sc_rejected ?s2 = sc_rejected s"
      using n(3) by (simp add: same_lists_def)
  qed
  moreover have "sc_creating t = sc_creating s @
      concat (map (\<lambda>i. tunnel_sessions (sc_next s + i) (sc_tunnels s)) [0..<length (a # as)])"
    using t(4) n(1,3,4,7) by (simp add: same_lists_def upt_conv_Cons map_Suc_upt[symmetric] o_def del: upt_Suc)
  ultimately show ?case
    using eq t(1,2,5,6) n(5,6) by (intro exI[of _ t]) simp
qed

subsection \<open>A status message as a whole\<close>

lemma arrange_mset:
  assumes "is_perm perm (length addrs)"
  shows "mset (arrange sh perm addrs) = mset addrs"
  using assms by (simp add: arrange_def Shuffle_mset)

text \<open>What the message says about the register of a scheduler without tunnels: \<open>known\<close> and \<open>fresh\<close>
  are orders in which Go may visit the two maps.\<close>

definition status_args :: "sched \<Rightarrow> string list \<Rightarrow> string list \<Rightarrow> nat list \<Rightarrow> (string \<rightharpoonup> int) \<Rightarrow> bool" where
  "status_args s known fresh perm st \<longleftrightarrow>
     enumerates known (sc_backends s) \<and> enumerates fresh (st |` (- dom (sc_backends s))) \<and>
     is_perm perm (length fresh) \<and> finite (dom st) \<and> card (dom st) \<le> MaxForwarders"

lemma status_argsD:
  assumes "status_args s known fresh perm st"
  shows "distinct (arrange sh perm fresh)" "set (arrange sh perm fresh) = dom st - dom (sc_backends s)"
    "length (arrange sh perm fresh) = length fresh"
proof -
  have m: "mset (arrange sh perm fresh) = mset fresh" "distinct fresh" "set fresh = dom st - dom (sc_backends s)"
    using assms by (auto simp: status_args_def enumerates_def arrange_mset)
  then show "distinct (arrange sh perm fresh)" "set (arrange sh perm fresh) = dom st - dom (sc_backends s)"
    "length (arrange sh perm fresh) = length fresh"
    by (metis mset_eq_imp_distinct_iff, metis mset_eq_setD, metis mset_eq_length)
qed

lemma status_direct:
  assumes inv: "sched_inv s c" and z: "sc_tunnels s = 0" and args: "status_args s known fresh perm st"
  shows "\<exists>s1 t. handle_status sh known fresh perm st s = Finished t \<and> sched_inv t c \<and>
    known_frame s s1 \<and> grown s1 (arrange sh perm fresh) sh t \<and> sc_creating t = sc_creating s \<and>
    dom (sc_backends t) = dom st \<and> pooled t = ran (sc_backends t) \<and>
    (\<forall>a \<in> dom (sc_backends s) \<inter> dom st. sc_backends t a = sc_backends s a)"
proof -
  from status_known_ok[where st = st, OF inv] args obtain s1 where
    s1: "for_each status_known known (s, st) = Finished (s1, st |` (- dom (sc_backends s)))" "sched_inv s1 c"
    "known_frame s s1" "sc_backends s1 = sc_backends s |` dom st" "pooled s1 = ran (sc_backends s1)"
    unfolding status_args_def by blast
  let ?as = "arrange sh perm fresh"
  have fin: "finite (dom st)" using args by (simp add: status_args_def)
  have as: "distinct ?as" "set ?as = dom st - dom (sc_backends s)" "length ?as = length fresh"
    using status_argsD[OF args] by blast+
  have dom1: "dom (sc_backends s1) = dom (sc_backends s) \<inter> dom st" by (auto simp: s1(4) restrict_map_def split: if_splits)
  have "set ?as \<inter> dom (sc_backends s1) = {}" using as(2) dom1 by auto
  moreover have "card (dom (sc_backends s1)) + length ?as = card (dom st)"
  proof -
    have "length ?as = card (dom st - dom (sc_backends s))" using as(1,2) distinct_card by metis
    moreover have "card (dom st) = card (dom (sc_backends s) \<inter> dom st) + card (dom st - dom (sc_backends s))"
      using fin by (subst card_Un_disjoint[symmetric]) (auto intro: arg_cong[where f = card])
    ultimately show ?thesis by (simp add: dom1)
  qed
  then have "card (dom (sc_backends s1)) + length ?as \<le> MaxForwarders"
    using args by (simp add: status_args_def)
  moreover have "sc_tunnels s1 = 0" using s1(3) z by (simp add: known_frame_def)
  ultimately obtain t where
    t: "for_each (status_new sh) ?as s1 = Finished t" "sched_inv t c" "grown s1 ?as sh t"
    "sc_creating t = sc_creating s1" "dom (sc_backends t) = dom (sc_backends s1) \<union> set ?as"
    "\<forall>a \<in> dom (sc_backends s1). sc_backends t a = sc_backends s1 a"
    "pooled t = pooled s1 \<union> {sc_next s1 ..< sc_next s1 + length ?as}"
    using status_new_loop[OF s1(2) _ as(1)] by blast
  have "ran (sc_backends t) \<subseteq> pooled t"
  proof
    fix r assume "r \<in> ran (sc_backends t)"
    then obtain a where a: "sc_backends t a = Some r" by (auto simp: ran_def)
    show "r \<in> pooled t"
    proof (cases "a \<in> dom (sc_backends s1)")
      case True
      then have "r \<in> ran (sc_backends s1)" using a t(6) by (metis ranI)
      then show ?thesis using s1(5) t(7) by simp
    next
      case False
      then have "a \<in> set ?as" using a t(5) by blast
      then obtain i where i: "i < length ?as" "?as ! i = a" by (auto simp: in_set_conv_nth)
      have "sc_next s1 + i \<in> pooled t" using i t(7) by simp
      moreover have "bk_address (sc_mem t (sc_next s1 + i)) = a" using t(3) i by (simp add: grown_def)
      ultimately show ?thesis using sched_invD(5)[OF t(2)] a by (metis option.inject registered_def)
    qed
  qed
  moreover have "pooled t \<subseteq> ran (sc_backends t)"
    using sched_invD(5)[OF t(2)] by (auto simp: registered_def intro: ranI)
  moreover have "dom (sc_backends t) = dom st" using t(5) as(2) dom1 by auto
  moreover have "sc_backends t a = sc_backends s a" if "a \<in> dom (sc_backends s) \<inter> dom st" for a
    using that t(6) dom1 by (simp add: s1(4))
  moreover have "handle_status sh known fresh perm st s = Finished t"
    using s1(1) t(1) by (simp add: handle_status_def)
  moreover have "sc_creating t = sc_creating s" using t(4) s1(3) by (simp add: known_frame_def same_lists_def)
  ultimately show ?thesis
    using t(2,3) s1(3) by (intro exI[of _ s1] exI[of _ t]) auto
qed

text \<open>With tunnels the register loses the backends that the message does not name; the others come
  with the sessions started here.\<close>

lemma status_tunnels:
  assumes inv: "sched_inv s c" and z: "0 < sc_tunnels s" and args: "status_args s known fresh perm st"
  shows "\<exists>s1 t. handle_status sh known fresh perm st s = Finished t \<and> sched_inv t c \<and>
    known_frame s s1 \<and> grown s1 (arrange sh perm fresh) sh t \<and>
    sc_creating t = sc_creating s @
      concat (map (\<lambda>i. tunnel_sessions (sc_next s + i) (sc_tunnels s)) [0..<length fresh]) \<and>
    sc_backends t = sc_backends s |` dom st \<and> pooled t = ran (sc_backends t)"
proof -
  from status_known_ok[where st = st, OF inv] args obtain s1 where
    s1: "for_each status_known known (s, st) = Finished (s1, st |` (- dom (sc_backends s)))" "sched_inv s1 c"
    "known_frame s s1" "sc_backends s1 = sc_backends s |` dom st" "pooled s1 = ran (sc_backends s1)"
    unfolding status_args_def by blast
  let ?as = "arrange sh perm fresh"
  have f: "sc_next s1 = sc_next s" "sc_tunnels s1 = sc_tunnels s" "sc_creating s1 = sc_creating s"
    using s1(3) by (simp_all add: known_frame_def same_lists_def)
  have "0 < sc_tunnels s1" using z f by simp
  from status_new_tunnel_loop[OF s1(2) this] obtain t where
    t: "for_each (status_new sh) ?as s1 = Finished t" "sched_inv t c" "grown s1 ?as sh t"
    "sc_creating t = sc_creating s1 @
      concat (map (\<lambda>i. tunnel_sessions (sc_next s1 + i) (sc_tunnels s1)) [0..<length ?as])"
    "sc_backends t = sc_backends s1" "pooled t = pooled s1" by blast
  have "handle_status sh known fresh perm st s = Finished t"
    using s1(1) t(1) by (simp add: handle_status_def)
  then show ?thesis
    using s1(3,4,5) t(2-6) status_argsD(3)[OF args, of sh] f by (intro exI[of _ s1] exI[of _ t]) simp
qed

lemma handle_status_ok:
  assumes inv: "sched_inv s c" and args: "status_args s known fresh perm st"
  shows "\<exists>s1 t. handle_status sh known fresh perm st s = Finished t \<and> sched_inv t c \<and>
    known_frame s s1 \<and> grown s1 (arrange sh perm fresh) sh t"
proof (cases "sc_tunnels s = 0")
  case True
  show ?thesis using status_direct[OF inv True args, of sh] by blast
next
  case False
  then have "0 < sc_tunnels s" by (simp add: word_gt_0)
  then show ?thesis using status_tunnels[OF inv _ args, of sh] by blast
qed

end
