(* ===== verification/GoStrings.thy ===== *)
theory GoStrings
  imports Prelude
begin

text \<open>
  The functions of Go's packages \<open>strings\<close> and \<open>strconv\<close> that the program calls, on strings of
  ASCII bytes: \<open>SplitN\<close> and \<open>Split\<close> with a separator that is not empty, \<open>Fields\<close>, \<open>Itoa\<close> and
  \<open>Atoi\<close> for 64-bit \<open>int\<close>.
\<close>

subsection \<open>Splitting\<close>

text \<open>What is before and after the first occurrence of the separator.\<close>

fun cut :: "'a list \<Rightarrow> 'a list \<Rightarrow> ('a list \<times> 'a list) option" where
  "cut sep [] = (if sep = [] then Some ([], []) else None)"
| "cut sep (c # s) =
    (if take (length sep) (c # s) = sep then Some ([], drop (length sep) (c # s))
     else map_option (\<lambda>(a, b). (c # a, b)) (cut sep s))"

fun SplitN :: "'a list \<Rightarrow> 'a list \<Rightarrow> nat \<Rightarrow> 'a list list" where
  "SplitN s sep 0 = []"
| "SplitN s sep (Suc 0) = [s]"
| "SplitN s sep (Suc (Suc n)) =
    (case cut sep s of None \<Rightarrow> [s] | Some (a, b) \<Rightarrow> a # SplitN b sep (Suc n))"

definition Split :: "'a list \<Rightarrow> 'a list \<Rightarrow> 'a list list" where
  "Split s sep = SplitN s sep (Suc (length s))"

fun join :: "'a list \<Rightarrow> 'a list list \<Rightarrow> 'a list" where
  "join sep [] = []"
| "join sep [x] = x"
| "join sep (x # y # xs) = x @ sep @ join sep (y # xs)"

lemma cut_eq: "cut sep s = Some (a, b) \<Longrightarrow> s = a @ sep @ b"
proof (induction s arbitrary: a b)
  case Nil
  then show ?case by (auto split: if_splits)
next
  case (Cons c s)
  show ?case
  proof (cases "take (length sep) (c # s) = sep")
    case True
    then have "a = []" "b = drop (length sep) (c # s)" using Cons.prems by auto
    then show ?thesis using True append_take_drop_id[of "length sep" "c # s"] by simp
  next
    case False
    then obtain a' where "cut sep s = Some (a', b)" "a = c # a'" using Cons.prems by auto
    then show ?thesis using Cons.IH by simp
  qed
qed

lemma cut_None: "sep \<noteq> [] \<Longrightarrow> cut sep s = None \<longleftrightarrow> (\<forall>a b. s \<noteq> a @ sep @ b)"
proof (induction s)
  case (Cons c s)
  show ?case
  proof (cases "take (length sep) (c # s) = sep")
    case True
    then have "c # s = [] @ sep @ drop (length sep) (c # s)"
      using append_take_drop_id[of "length sep" "c # s"] by simp
    with True show ?thesis by (metis cut.simps(2) option.distinct(1))
  next
    case False
    have "(\<exists>a b. c # s = a @ sep @ b) \<longleftrightarrow> (\<exists>a b. s = a @ sep @ b)"
    proof
      assume "\<exists>a b. c # s = a @ sep @ b"
      then obtain a b where ab: "c # s = a @ sep @ b" by blast
      then have "a \<noteq> []" using False by (cases a) (metis append_Nil append_eq_conv_conj, simp)
      then show "\<exists>a b. s = a @ sep @ b" using ab by (cases a) auto
    next
      assume "\<exists>a b. s = a @ sep @ b"
      then show "\<exists>a b. c # s = a @ sep @ b" by (metis append_Cons)
    qed
    then show ?thesis using False Cons by auto
  qed
qed simp

text \<open>A separator whose first character does not occur before it is found at that place.\<close>

lemma cut_first: "c \<notin> set a \<Longrightarrow> cut (c # sep) (a @ (c # sep) @ b) = Some (a, b)"
  by (induction a) auto

lemma SplitN_nonempty [simp]: "SplitN s sep (Suc n) \<noteq> []"
  by (cases n) (auto split: option.splits)

lemma SplitN_join: "join sep (SplitN s sep (Suc n)) = s"
proof (induction n arbitrary: s)
  case (Suc n)
  show ?case
  proof (cases "cut sep s")
    case (Some p)
    then obtain a b where p: "cut sep s = Some (a, b)" by (cases p) simp
    obtain y ys where y: "SplitN b sep (Suc n) = y # ys"
      by (cases "SplitN b sep (Suc n)") (use SplitN_nonempty in blast)+
    then have "join sep (SplitN s sep (Suc (Suc n))) = a @ sep @ b" using Suc.IH[of b] by (simp add: p)
    then show ?thesis using cut_eq[OF p] by simp
  qed simp
qed simp

lemma SplitN_length: "length (SplitN s sep n) \<le> n"
  by (induction s sep n rule: SplitN.induct) (auto split: option.splits)

lemma Split_join: "join sep (Split s sep) = s"
  by (simp add: Split_def SplitN_join)

lemma cut_char: "cut [c] s = (if c \<in> set s then Some (takeWhile (\<lambda>x. x \<noteq> c) s, tl (dropWhile (\<lambda>x. x \<noteq> c) s)) else None)"
  by (induction s) auto

lemma Split_hd: "hd (Split s [c]) = takeWhile (\<lambda>x. x \<noteq> c) s"
proof (cases "c \<in> set s")
  case True
  then obtain n where "length s = Suc n" by (cases s) auto
  with True show ?thesis by (simp add: Split_def cut_char)
next
  case False
  then have "takeWhile (\<lambda>x. x \<noteq> c) s = s" by (auto simp: takeWhile_eq_all_conv)
  moreover have "Split s [c] = [s]" using False by (cases "length s") (simp_all add: Split_def cut_char)
  ultimately show ?thesis by (simp only: list.sel)
qed

lemma SplitN_char_parts:
  "length s < n \<Longrightarrow> \<forall>p \<in> set (SplitN s [c] n). c \<notin> set p"
proof (induction s "[c]" n rule: SplitN.induct)
  case (3 s n)
  show ?case
  proof (cases "c \<in> set s")
    case True
    let ?b = "tl (dropWhile (\<lambda>x. x \<noteq> c) s)"
    have cut: "cut [c] s = Some (takeWhile (\<lambda>x. x \<noteq> c) s, ?b)" using True by (simp add: cut_char)
    have "length ?b < Suc n"
      using "3.prems" True length_dropWhile_le[of "\<lambda>x. x \<noteq> c" s] by (cases s) auto
    with "3.hyps"[OF cut refl] have "\<forall>p \<in> set (SplitN ?b [c] (Suc n)). c \<notin> set p" by simp
    then show ?thesis by (auto simp: cut dest: set_takeWhileD)
  next
    case False
    then show ?thesis by (simp add: cut_char)
  qed
qed auto

text \<open>Splitting undoes joining when the separator is in no part.\<close>

lemma SplitN_join_char:
  "xs \<noteq> [] \<Longrightarrow> \<forall>x \<in> set xs. c \<notin> set x \<Longrightarrow> length xs \<le> n \<Longrightarrow> SplitN (join [c] xs) [c] n = xs"
proof (induction xs arbitrary: n)
  case (Cons x xs)
  show ?case
  proof (cases xs)
    case Nil
    then have "cut [c] x = None" using Cons.prems by (simp add: cut_char)
    moreover obtain m where "n = Suc m" using Cons.prems(3) by (cases n) auto
    ultimately show ?thesis using Nil by (cases m) auto
  next
    case (Cons y ys)
    then obtain m where n: "n = Suc (Suc m)" using Cons.prems(3) by (cases n; cases "n - 1") auto
    have "cut [c] (x @ [c] @ join [c] xs) = Some (x, join [c] xs)" using Cons.prems(2) by (intro cut_first) simp
    moreover have "SplitN (join [c] xs) [c] (Suc m) = xs" using Cons.IH[of "Suc m"] Cons.prems Cons n by simp
    ultimately show ?thesis by (simp add: n Cons)
  qed
qed simp

lemma length_join: "length xs \<le> Suc (length (join [c] xs))"
  by (induction "[c]" xs rule: join.induct) auto

lemma Split_join_char: "xs \<noteq> [] \<Longrightarrow> \<forall>x \<in> set xs. c \<notin> set x \<Longrightarrow> Split (join [c] xs) [c] = xs"
  unfolding Split_def by (rule SplitN_join_char) (use length_join in auto)

lemma Split_parts: "p \<in> set (Split s [c]) \<Longrightarrow> c \<notin> set p"
  using SplitN_char_parts[of s "Suc (length s)" c] by (auto simp: Split_def)

subsection \<open>Fields\<close>

definition is_space :: "char \<Rightarrow> bool" where
  "is_space c \<longleftrightarrow> c = CHR '' '' \<or> (9 \<le> (of_char c :: nat) \<and> (of_char c :: nat) \<le> 13)"

function Fields :: "string \<Rightarrow> string list" where
  "Fields s = (case dropWhile is_space s of [] \<Rightarrow> []
     | c # s' \<Rightarrow> takeWhile (\<lambda>x. \<not> is_space x) (c # s') # Fields (dropWhile (\<lambda>x. \<not> is_space x) s'))"
  by pat_completeness auto
termination
proof (relation "measure length", simp)
  fix s c s'
  assume "dropWhile is_space s = c # s'"
  then have "length s' < length s" using length_dropWhile_le[of is_space s] by simp
  then show "(dropWhile (\<lambda>x. \<not> is_space x) s', s) \<in> measure length"
    using length_dropWhile_le[of "\<lambda>x. \<not> is_space x" s'] by simp
qed

declare Fields.simps [simp del]

lemma Fields_parts: "p \<in> set (Fields s) \<Longrightarrow> p \<noteq> [] \<and> (\<forall>c \<in> set p. \<not> is_space c)"
proof (induction s rule: Fields.induct)
  case (1 s)
  show ?case
  proof (cases "dropWhile is_space s")
    case Nil
    then have "Fields s = []" by (subst Fields.simps) (simp only: list.case)
    then show ?thesis using "1.prems" by simp
  next
    case (Cons c s')
    then have c: "\<not> is_space c" by (metis dropWhile_eq_Cons_conv)
    let ?w = "takeWhile (\<lambda>x. \<not> is_space x) (c # s')" and ?r = "dropWhile (\<lambda>x. \<not> is_space x) s'"
    have "Fields s = ?w # Fields ?r" using Cons by (subst Fields.simps) (simp only: list.case)
    then have "p = ?w \<or> p \<in> set (Fields ?r)" using "1.prems" by simp
    then show ?thesis
    proof
      assume "p = ?w"
      moreover have "?w \<noteq> []" using c by simp
      ultimately show ?thesis by (metis set_takeWhileD)
    next
      assume "p \<in> set (Fields ?r)"
      then show ?thesis by (rule "1.IH"[OF Cons])
    qed
  qed
qed

subsection \<open>Decimal numbers\<close>

definition digit :: "nat \<Rightarrow> char" where
  "digit n = char_of (48 + n)"

definition digit_value :: "char \<Rightarrow> nat option" where
  "digit_value c = (let n = (of_char c :: nat) in if 48 \<le> n \<and> n \<le> 57 then Some (n - 48) else None)"

function decimal :: "nat \<Rightarrow> string" where
  "decimal n = (if n < 10 then [digit n] else decimal (n div 10) @ [digit (n mod 10)])"
  by pat_completeness auto
termination by (relation "measure id") auto

declare decimal.simps [simp del]

definition Itoa :: "int \<Rightarrow> string" where
  "Itoa i = (if i < 0 then CHR ''-'' # decimal (nat (- i)) else decimal (nat i))"

fun digits_value :: "nat \<Rightarrow> string \<Rightarrow> nat option" where
  "digits_value acc [] = Some acc"
| "digits_value acc (c # s) =
    (case digit_value c of None \<Rightarrow> None | Some d \<Rightarrow> digits_value (10 * acc + d) s)"

text \<open>\<open>None\<close> is the error: an empty number, another character, or a value out of range.\<close>

definition Atoi :: "string \<Rightarrow> int option" where
  "Atoi s =
    (let (neg, ds) = (case s of [] \<Rightarrow> (False, s)
         | c # s' \<Rightarrow> if c = CHR ''-'' then (True, s') else if c = CHR ''+'' then (False, s') else (False, s)) in
     if ds = [] then None
     else case digits_value 0 ds of
       None \<Rightarrow> None
     | Some n \<Rightarrow> let i = (if neg then - int n else int n) in
         if - (2 ^ 63) \<le> i \<and> i < 2 ^ 63 then Some i else None)"

lemma digit_value_digit [simp]: "n < 10 \<Longrightarrow> digit_value (digit n) = Some n"
  by (simp add: digit_value_def digit_def Let_def)

lemma digits_value_append:
  "digits_value acc (s @ t) = (case digits_value acc s of None \<Rightarrow> None | Some n \<Rightarrow> digits_value n t)"
  by (induction s arbitrary: acc) (auto split: option.splits)

lemma digits_value_decimal: "digits_value 0 (decimal n) = Some n"
proof (induction n rule: decimal.induct)
  case (1 n)
  then show ?case by (subst decimal.simps) (simp add: digits_value_append)
qed

lemma decimal_nonempty [simp]: "decimal n \<noteq> []"
  by (subst decimal.simps) simp

lemma hd_decimal: "digit_value (hd (decimal n)) \<noteq> None"
proof (induction n rule: decimal.induct)
  case (1 n)
  then show ?case by (subst decimal.simps) simp
qed

lemma decimal_no_sign: "hd (decimal n) \<noteq> CHR ''-''" "hd (decimal n) \<noteq> CHR ''+''"
  using hd_decimal[of n] by (auto simp: digit_value_def Let_def)

lemma Atoi_Itoa_eq:
  assumes "- (2 ^ 63) \<le> i" "i < 2 ^ 63"
  shows "Atoi (Itoa i) = Some i"
proof (cases "i < 0")
  case True
  then show ?thesis using assms by (simp add: Atoi_def Itoa_def digits_value_decimal)
next
  case False
  obtain c s where s: "decimal (nat i) = c # s" by (cases "decimal (nat i)") (use decimal_nonempty in blast)+
  have "c \<noteq> CHR ''-''" "c \<noteq> CHR ''+''" using decimal_no_sign[of "nat i"] s by simp_all
  then show ?thesis
    using assms False digits_value_decimal[of "nat i"] s by (simp add: Atoi_def Itoa_def)
qed

end
