(* ===== verification/Forwarder.thy ===== *)
theory Forwarder
  imports Scheduler GoStrings
begin

text \<open>
  What runs in the goroutine of a request and in the goroutine that sets up a tunnel: the search
  for a tunnel connection that can open a stream (\<open>ForwarderNewConnection\<close>, engine/native/backend.go),
  the forwarding itself (\<open>run\<close> and \<open>sockCopy\<close>, scheduler.go) and the creation of tunnel sessions
  (spdy.go). The network is an argument: what \<open>CreateStream\<close>, \<open>Dial\<close>, \<open>NewConnection\<close> and \<open>Ping\<close>
  answer. The slots are shared with other goroutines, which may change them before a slot is read
  and again before the compare-and-swap.
\<close>

subsection \<open>State\<close>

datatype upstream = Stream nat | Tcp nat

datatype endpoint = Client nat | Upstream upstream

record forward_env =
  fe_create :: "nat \<Rightarrow> nat \<Rightarrow> string + nat"
  fe_read :: "nat \<Rightarrow> conn_tunnel list \<Rightarrow> conn_tunnel list"
  fe_swap :: "nat \<Rightarrow> conn_tunnel list \<Rightarrow> conn_tunnel list"
  fe_dial :: "string \<Rightarrow> go_error + nat"

record forwarding =
  fw_slots :: "conn_tunnel list"
  fw_found :: bool
  fw_conn :: "nat option"
  fw_err :: "string option"
  fw_closed :: "nat list"
  fw_failed :: "spdy_session list"

definition forward_start :: "backend \<Rightarrow> forwarding" where
  "forward_start b = \<lparr>fw_slots = bk_tunnel b, fw_found = False, fw_conn = None,
     fw_err = Some ''No stream sesssion exist'', fw_closed = [], fw_failed = []\<rparr>"

subsection \<open>Looking for a tunnel connection\<close>

text \<open>\<open>CompareAndSwapPointer(&tunnel[k].conn, c, nil)\<close>\<close>

definition take_off :: "nat \<Rightarrow> nat \<Rightarrow> conn_tunnel list \<Rightarrow> bool \<times> conn_tunnel list" where
  "take_off k c ts =
    (if tn_conn (ts ! k) = Some c then (True, ts[k := (ts ! k)\<lparr>tn_conn := None\<rparr>]) else (False, ts))"

text \<open>\<open>index := (cnt + i) % b.tunnels\<close>\<close>

definition slot_index :: "uint \<Rightarrow> uint \<Rightarrow> nat \<Rightarrow> uint" where
  "slot_index tunnels cnt i = (cnt + of_nat i) mod tunnels"

fun forward_slots ::
  "forward_env \<Rightarrow> ref \<Rightarrow> uint \<Rightarrow> uint \<Rightarrow> nat list \<Rightarrow> forwarding \<Rightarrow> forwarding outcome"
where
  "forward_slots env r tunnels cnt [] f = Finished f"
| "forward_slots env r tunnels cnt (i # is) f =
    (let index = slot_index tunnels cnt i; k = unat index; ts = fe_read env i (fw_slots f) in
     if \<not> k < length ts then Panicked IndexOutOfRange f
     else case tn_conn (ts ! k) of
       None \<Rightarrow> forward_slots env r tunnels cnt is (f\<lparr>fw_slots := ts\<rparr>)
     | Some c \<Rightarrow>
         (case fe_create env i c of
           Inr st \<Rightarrow> Finished (f\<lparr>fw_slots := ts, fw_found := True, fw_conn := Some st, fw_err := None\<rparr>)
         | Inl e \<Rightarrow>
             (case take_off k c (fe_swap env i ts) of
               (True, ts') \<Rightarrow> forward_slots env r tunnels cnt is
                 (f\<lparr>fw_slots := ts', fw_found := True, fw_conn := None, fw_err := Some e,
                    fw_closed := fw_closed f @ [c], fw_failed := fw_failed f @ [NewSpdySession r index]\<rparr>)
             | (False, ts') \<Rightarrow> forward_slots env r tunnels cnt is
                 (f\<lparr>fw_slots := ts', fw_found := True, fw_conn := None, fw_err := Some e\<rparr>))))"

definition dial_tcp :: "forward_env \<Rightarrow> string \<Rightarrow> go_error + upstream option" where
  "dial_tcp env addr = map_sum id (\<lambda>c. Some (Tcp c)) (fe_dial env addr)"

text \<open>\<open>req.backend\<close> is the backend \<open>b\<close> itself. The second component is the pair that is returned,
  \<open>None\<close> being a nil connection.\<close>

definition ForwarderNewConnection ::
  "forward_env \<Rightarrow> ref \<Rightarrow> backend \<Rightarrow> (forwarding \<times> (go_error + upstream option)) outcome"
where
  "ForwarderNewConnection env r b =
    (if bk_tunnels b \<le> 0 then Finished (forward_start b, dial_tcp env (bk_address b))
     else map_outcome (\<lambda>f. (f, case fw_err f of
            Some _ \<Rightarrow> dial_tcp env (bk_address b)
          | None \<Rightarrow> Inr (map_option Stream (fw_conn f))))
        (forward_slots env r (bk_tunnels b) (bk_count b) [0..<unat (bk_tunnels b)] (forward_start b)))"

subsection \<open>Forwarding a request\<close>

text \<open>The two results of \<open>sockCopy\<close> in the order in which they arrive; a copy that failed sets
  \<open>req.err\<close> to the outer \<open>err\<close>, which is nil here.\<close>

fun run_end :: "go_error + go_error option list \<Rightarrow> request \<Rightarrow> request" where
  "run_end (Inl e) req = req\<lparr>rq_err := Some e\<rparr>"
| "run_end (Inr rs) req = fold (\<lambda>r q. if r \<noteq> None then q\<lparr>rq_err := None\<rparr> else q) rs req"

text \<open>\<open>sockCopy\<close> closes its destination when the copy ends.\<close>

definition sockCopy :: "endpoint \<Rightarrow> go_error option \<Rightarrow> endpoint list \<times> go_error option" where
  "sockCopy dst res = ([dst], res)"

definition run ::
  "forward_env \<Rightarrow> go_error option \<times> go_error option \<Rightarrow> ref \<Rightarrow> backend \<Rightarrow> request \<Rightarrow>
   (forwarding \<times> endpoint list \<times> request) outcome"
where
  "run env copies r b req =
    (case ForwarderNewConnection env r b of
       Panicked p (f, _) \<Rightarrow> Panicked p (f, [], req)
     | Finished (f, Inl e) \<Rightarrow> Finished (f, [], run_end (Inl e) req)
     | Finished (f, Inr None) \<Rightarrow> Panicked NilPointer (f, [], req)
     | Finished (f, Inr (Some srv)) \<Rightarrow>
         (let (cl1, r1) = sockCopy (Client (rq_conn req)) (fst copies);
              (cl2, r2) = sockCopy (Upstream srv) (snd copies) in
          Finished (f, cl1 @ cl2, run_end (Inr [r1, r2]) req)))"

subsection \<open>Creating a tunnel session\<close>

text \<open>What a successful \<open>DialTimeout\<close> returns: the connection, its local address when that is a
  TCP address, and what \<open>NewConnection\<close> and \<open>Ping\<close> will say.\<close>

record peer =
  pr_conn :: nat
  pr_tcpAddr :: "string option"
  pr_spdy :: "string + nat"
  pr_ping :: "string option"

definition NewConnTunnel :: "peer option \<Rightarrow> conn_tunnel option" where
  "NewConnTunnel conn =
    (case conn of
       None \<Rightarrow> None
     | Some p \<Rightarrow>
         (case pr_tcpAddr p of
            None \<Rightarrow> None
          | Some tcpaddr \<Rightarrow>
              (case pr_spdy p of
                 Inl e \<Rightarrow> None
               | Inr spdy \<Rightarrow>
                   if pr_ping p \<noteq> None then None
                   else Some \<lparr>tn_conn = Some spdy, tn_tcpAddr = Some tcpaddr, tn_switching = False\<rparr>)))"

definition NewStreamConn :: "(string \<Rightarrow> string + peer) \<Rightarrow> string \<Rightarrow> string \<Rightarrow> string + conn_tunnel option" where
  "NewStreamConn dial addr port =
    (case dial (addr @ '':'' @ port) of
       Inl err \<Rightarrow> Inl err
     | Inr conn \<Rightarrow> Inr (NewConnTunnel (Some conn)))"

text \<open>The loop sleeps a second after each attempt that fails; \<open>dial n\<close> is the network at attempt \<open>n\<close>.
  \<open>None\<close>: it never ends.\<close>

partial_function (option) create_session ::
  "(nat \<Rightarrow> string \<Rightarrow> string + peer) \<Rightarrow> string \<Rightarrow> string \<Rightarrow> spdy_session \<Rightarrow> nat \<Rightarrow> spdy_session option"
where
  "create_session dial port address req n =
    (case NewStreamConn (dial n) (hd (Split address '':'')) port of
       Inr conn \<Rightarrow> Some (req\<lparr>ss_spdy := conn\<rparr>)
     | Inl _ \<Rightarrow> create_session dial port address req (Suc n))"

definition CreateSpdySession ::
  "(nat \<Rightarrow> string \<Rightarrow> string + peer) \<Rightarrow> string \<Rightarrow> mem \<Rightarrow> spdy_session \<Rightarrow> spdy_session option"
where
  "CreateSpdySession dial port m req = create_session dial port (bk_address (m (ss_backend req))) req 0"

lemma create_session_step:
  "NewStreamConn (dial n) (hd (Split address '':'')) port = Inl e \<Longrightarrow>
   create_session dial port address req n = create_session dial port address req (Suc n)"
  "NewStreamConn (dial n) (hd (Split address '':'')) port = Inr t \<Longrightarrow>
   create_session dial port address req n = Some (req\<lparr>ss_spdy := t\<rparr>)"
  by (simp_all add: create_session.simps)

lemma create_session_reach:
  "(\<And>j. n \<le> j \<Longrightarrow> j < n + d \<Longrightarrow> \<exists>e. NewStreamConn (dial j) (hd (Split address '':'')) port = Inl e) \<Longrightarrow>
   create_session dial port address req n = create_session dial port address req (n + d)"
proof (induction d arbitrary: n)
  case (Suc d)
  from Suc.prems[of n] obtain e where "NewStreamConn (dial n) (hd (Split address '':'')) port = Inl e" by auto
  then have "create_session dial port address req n = create_session dial port address req (Suc n)"
    by (rule create_session_step)
  also have "\<dots> = create_session dial port address req (Suc n + d)"
    using Suc.prems by (intro Suc.IH) simp
  finally show ?case by simp
qed simp

text \<open>A result can only come from an attempt whose dial succeeded, all those before it having failed.\<close>

lemma create_session_result:
  "create_session dial port address req n = Some x \<Longrightarrow>
   \<exists>m t. n \<le> m \<and> NewStreamConn (dial m) (hd (Split address '':'')) port = Inr t \<and> x = req\<lparr>ss_spdy := t\<rparr> \<and>
     (\<forall>j. n \<le> j \<and> j < m \<longrightarrow> isl (NewStreamConn (dial j) (hd (Split address '':'')) port))"
proof (induction dial port address req n x
    rule: create_session.raw_induct[rotated, consumes 1, case_names step])
  case (step f dial port address req n x)
  show ?case
  proof (cases "NewStreamConn (dial n) (hd (Split address '':'')) port")
    case (Inl e)
    with step(2) have "f dial port address req (Suc n) = Some x" by simp
    from step(1)[OF this] obtain m t where m: "Suc n \<le> m"
      "NewStreamConn (dial m) (hd (Split address '':'')) port = Inr t" "x = req\<lparr>ss_spdy := t\<rparr>"
      "\<forall>j. Suc n \<le> j \<and> j < m \<longrightarrow> isl (NewStreamConn (dial j) (hd (Split address '':'')) port)" by blast
    have "isl (NewStreamConn (dial j) (hd (Split address '':'')) port)" if "n \<le> j" "j < m" for j
      using m(4) Inl that by (cases "j = n") auto
    then show ?thesis using m by (intro exI[of _ m] exI[of _ t]) simp
  next
    case (Inr t)
    with step(2) show ?thesis by (intro exI[of _ n] exI[of _ t]) auto
  qed
qed

text \<open>It returns exactly if some attempt gets a connection.\<close>

lemma CreateSpdySession_iff:
  "CreateSpdySession dial port m req = Some x \<longleftrightarrow>
    (\<exists>n t. NewStreamConn (dial n) (hd (Split (bk_address (m (ss_backend req))) '':'')) port = Inr t \<and>
       x = req\<lparr>ss_spdy := t\<rparr> \<and>
       (\<forall>j < n. isl (NewStreamConn (dial j) (hd (Split (bk_address (m (ss_backend req))) '':'')) port)))"
proof
  assume "CreateSpdySession dial port m req = Some x"
  then show "\<exists>n t. NewStreamConn (dial n) (hd (Split (bk_address (m (ss_backend req))) '':'')) port = Inr t \<and>
      x = req\<lparr>ss_spdy := t\<rparr> \<and>
      (\<forall>j < n. isl (NewStreamConn (dial j) (hd (Split (bk_address (m (ss_backend req))) '':'')) port))"
    using create_session_result unfolding CreateSpdySession_def by blast
next
  assume "\<exists>n t. NewStreamConn (dial n) (hd (Split (bk_address (m (ss_backend req))) '':'')) port = Inr t \<and>
      x = req\<lparr>ss_spdy := t\<rparr> \<and>
      (\<forall>j < n. isl (NewStreamConn (dial j) (hd (Split (bk_address (m (ss_backend req))) '':'')) port))"
  then obtain n t where n: "NewStreamConn (dial n) (hd (Split (bk_address (m (ss_backend req))) '':'')) port = Inr t"
    "x = req\<lparr>ss_spdy := t\<rparr>"
    "\<forall>j < n. isl (NewStreamConn (dial j) (hd (Split (bk_address (m (ss_backend req))) '':'')) port)" by blast
  have "create_session dial port (bk_address (m (ss_backend req))) req 0 =
      create_session dial port (bk_address (m (ss_backend req))) req (0 + n)"
    using n(3) by (intro create_session_reach) (auto simp: isl_def)
  then show "CreateSpdySession dial port m req = Some x"
    using create_session_step(2)[where dial = dial and n = n, OF n(1)] n(2) by (simp add: CreateSpdySession_def)
qed

subsection \<open>The order in which the slots are tried\<close>

definition slot_order :: "uint \<Rightarrow> uint \<Rightarrow> nat list" where
  "slot_order tunnels cnt = map (\<lambda>i. unat (slot_index tunnels cnt i)) [0..<unat tunnels]"

lemma slot_order_nth:
  assumes "unat cnt + unat tunnels \<le> 2 ^ 64" "i < unat tunnels"
  shows "slot_order tunnels cnt ! i = (unat cnt + i) mod unat tunnels"
proof -
  have "unat (of_nat i :: uint) = i" using assms(2) by (rule unat_of_nat_small)
  moreover have "unat (cnt + of_nat i) = unat cnt + unat (of_nat i :: uint)"
    using assms calculation by (intro unat_add_lem[THEN iffD1]) simp
  ultimately show ?thesis using assms(2) by (simp add: slot_order_def slot_index_def unat_mod)
qed

lemma length_slot_order [simp]: "length (slot_order tunnels cnt) = unat tunnels"
  by (simp add: slot_order_def)

lemma rotation_inj:
  assumes "(a + i) mod n = (a + j) mod n" "i < n" "j < (n :: nat)" "i \<le> j"
  shows "i = j"
proof -
  have "n dvd (a + j) - (a + i)"
    using assms by (subst mod_eq_dvd_iff_nat[symmetric]) auto
  then have "n dvd j - i" by simp
  then show ?thesis using assms dvd_imp_le[of n "j - i"] by (cases "j - i = 0") auto
qed

lemma slot_order_distinct:
  assumes "unat cnt + unat tunnels \<le> 2 ^ 64"
  shows "distinct (slot_order tunnels cnt)"
  unfolding distinct_conv_nth
proof (intro allI impI)
  fix i j
  assume ij: "i < length (slot_order tunnels cnt)" "j < length (slot_order tunnels cnt)" "i \<noteq> j"
  show "slot_order tunnels cnt ! i \<noteq> slot_order tunnels cnt ! j"
    using ij rotation_inj[of "unat cnt" i "unat tunnels" j] rotation_inj[of "unat cnt" j "unat tunnels" i]
    by (cases "i \<le> j") (auto simp: slot_order_nth[OF assms])
qed

lemma slot_order_set:
  assumes "unat cnt + unat tunnels \<le> 2 ^ 64"
  shows "set (slot_order tunnels cnt) = {..<unat tunnels}"
proof (rule card_subset_eq)
  show "set (slot_order tunnels cnt) \<subseteq> {..<unat tunnels}"
  proof
    fix x assume "x \<in> set (slot_order tunnels cnt)"
    then obtain i where "i < unat tunnels" "x = (unat cnt + i) mod unat tunnels"
      using slot_order_nth[OF assms] by (metis in_set_conv_nth length_slot_order)
    then show "x \<in> {..<unat tunnels}" by simp
  qed
  show "card (set (slot_order tunnels cnt)) = card {..<unat tunnels}"
    using distinct_card[OF slot_order_distinct[OF assms]] by simp
qed simp

subsection \<open>What the search finds\<close>

text \<open>The other goroutines replace the content of slots, they never change their number.\<close>

definition env_ok :: "forward_env \<Rightarrow> bool" where
  "env_ok env \<longleftrightarrow> (\<forall>i ts. length (fe_read env i ts) = length ts \<and> length (fe_swap env i ts) = length ts)"

lemma take_off_length [simp]: "length (snd (take_off k c ts)) = length ts"
  by (simp add: take_off_def)

lemma forward_slots_finishes:
  assumes "env_ok env" "length (fw_slots f) = unat tunnels" "0 < tunnels"
  shows "\<exists>f'. forward_slots env r tunnels cnt is f = Finished f' \<and> length (fw_slots f') = unat tunnels \<and>
    (fw_err f' = None \<longrightarrow> fw_err f = None \<or> fw_conn f' \<noteq> None)"
  using assms(2)
proof (induction "is" arbitrary: f)
  case Nil
  then show ?case by simp
next
  case (Cons i "is")
  let ?k = "unat (slot_index tunnels cnt i)" and ?ts = "fe_read env i (fw_slots f)"
  have k: "?k < unat tunnels" using assms(3) by (simp add: slot_index_def unat_mod word_gt_0 unat_gt_0)
  have len: "length ?ts = unat tunnels" "length (fe_swap env i ts) = length ts" for ts
    using assms(1) Cons.prems by (simp_all add: env_ok_def)
  show ?case
  proof (cases "tn_conn (?ts ! ?k)")
    case None
    from Cons.IH[of "f\<lparr>fw_slots := ?ts\<rparr>"] len show ?thesis using None k by (simp add: Let_def)
  next
    case (Some c)
    show ?thesis
    proof (cases "fe_create env i c")
      case (Inr st)
      then show ?thesis using Some k len by (simp add: Let_def)
    next
      case (Inl e)
      obtain sw ts' where tk: "take_off ?k c (fe_swap env i ?ts) = (sw, ts')" by (cases "take_off ?k c (fe_swap env i ?ts)")
      then have "length ts' = unat tunnels" using take_off_length[of ?k c "fe_swap env i ?ts"] len by simp
      then show ?thesis
        using Cons.IH[of "f\<lparr>fw_slots := ts', fw_found := True, fw_conn := None, fw_err := Some e,
                fw_closed := fw_closed f @ [c], fw_failed := fw_failed f @ [NewSpdySession r (slot_index tunnels cnt i)]\<rparr>"]
          Cons.IH[of "f\<lparr>fw_slots := ts', fw_found := True, fw_conn := None, fw_err := Some e\<rparr>"]
          Some Inl k len tk
        by (cases sw) (auto simp: Let_def)
    qed
  qed
qed

text \<open>Without interference: \<open>opens ts i\<close> says that attempt \<open>i\<close> finds a connection in its slot and
  can open a stream on it. The attempts before the first such one empty the slots they find
  connected, close those connections and report them.\<close>

definition slot_of :: "uint \<Rightarrow> uint \<Rightarrow> nat \<Rightarrow> nat" where
  "slot_of tunnels cnt i = unat (slot_index tunnels cnt i)"

definition opens :: "forward_env \<Rightarrow> uint \<Rightarrow> uint \<Rightarrow> conn_tunnel list \<Rightarrow> nat \<Rightarrow> bool" where
  "opens env tunnels cnt ts i \<longleftrightarrow>
    (case tn_conn (ts ! slot_of tunnels cnt i) of None \<Rightarrow> False | Some c \<Rightarrow> \<not> isl (fe_create env i c))"

definition broken_attempts :: "forward_env \<Rightarrow> uint \<Rightarrow> uint \<Rightarrow> conn_tunnel list \<Rightarrow> nat list \<Rightarrow> nat list" where
  "broken_attempts env tunnels cnt ts is =
    filter (\<lambda>i. tn_conn (ts ! slot_of tunnels cnt i) \<noteq> None) (takeWhile (\<lambda>i. \<not> opens env tunnels cnt ts i) is)"

definition empty_slot :: "nat \<Rightarrow> conn_tunnel list \<Rightarrow> conn_tunnel list" where
  "empty_slot k ts = ts[k := (ts ! k)\<lparr>tn_conn := None\<rparr>]"

definition quiet :: "forward_env \<Rightarrow> bool" where
  "quiet env \<longleftrightarrow> (\<forall>i ts. fe_read env i ts = ts \<and> fe_swap env i ts = ts)"

lemma quiet_ok: "quiet env \<Longrightarrow> env_ok env"
  by (simp add: quiet_def env_ok_def)

lemma empty_slot_other [simp]: "j \<noteq> k \<Longrightarrow> empty_slot k ts ! j = ts ! j"
  by (simp add: empty_slot_def)

lemma length_empty_slot [simp]: "length (empty_slot k ts) = length ts"
  by (simp add: empty_slot_def)

lemma broken_attempts_cong:
  assumes "\<And>i. i \<in> set is \<Longrightarrow> ts ! slot_of tunnels cnt i = us ! slot_of tunnels cnt i"
  shows "broken_attempts env tunnels cnt ts is = broken_attempts env tunnels cnt us is"
    "\<And>i. i \<in> set is \<Longrightarrow> opens env tunnels cnt ts i = opens env tunnels cnt us i"
proof -
  show o: "\<And>i. i \<in> set is \<Longrightarrow> opens env tunnels cnt ts i = opens env tunnels cnt us i"
    by (simp add: opens_def assms)
  then have tw: "takeWhile (\<lambda>i. \<not> opens env tunnels cnt ts i) is = takeWhile (\<lambda>i. \<not> opens env tunnels cnt us i) is"
    by (intro takeWhile_cong) auto
  show "broken_attempts env tunnels cnt ts is = broken_attempts env tunnels cnt us is"
    unfolding broken_attempts_def tw by (rule filter_cong[OF refl]) (metis assms set_takeWhileD)
qed

definition found_stream :: "forward_env \<Rightarrow> uint \<Rightarrow> uint \<Rightarrow> conn_tunnel list \<Rightarrow> nat list \<Rightarrow> nat option" where
  "found_stream env tunnels cnt ts is =
    (case dropWhile (\<lambda>i. \<not> opens env tunnels cnt ts i) is of
       [] \<Rightarrow> None
     | j # _ \<Rightarrow> Some (projr (fe_create env j (the (tn_conn (ts ! slot_of tunnels cnt j))))))"

lemma found_stream_cong:
  assumes "\<And>i. i \<in> set is \<Longrightarrow> ts ! slot_of tunnels cnt i = us ! slot_of tunnels cnt i"
  shows "found_stream env tunnels cnt ts is = found_stream env tunnels cnt us is"
proof -
  have dw: "dropWhile (\<lambda>i. \<not> opens env tunnels cnt ts i) is = dropWhile (\<lambda>i. \<not> opens env tunnels cnt us i) is"
    by (intro dropWhile_cong) (simp_all add: broken_attempts_cong(2)[of "is", OF assms])
  have "j \<in> set is" if "dropWhile (\<lambda>i. \<not> opens env tunnels cnt us i) is = j # js" for j js
    using that by (metis list.set_intros(1) set_dropWhileD)
  then show ?thesis
    unfolding found_stream_def dw
    by (cases "dropWhile (\<lambda>i. \<not> opens env tunnels cnt us i) is") (simp_all only: list.case assms)
qed

lemma forward_slots_quiet:
  assumes q: "quiet env" and T: "0 < tunnels"
    and "length (fw_slots f) = unat tunnels" "distinct (map (slot_of tunnels cnt) is)"
    "fw_err f \<noteq> None"
  shows "\<exists>f'. forward_slots env r tunnels cnt is f = Finished f' \<and>
    (let b = broken_attempts env tunnels cnt (fw_slots f) is in
     fw_slots f' = fold (\<lambda>i. empty_slot (slot_of tunnels cnt i)) b (fw_slots f) \<and>
     fw_closed f' = fw_closed f @ map (\<lambda>i. the (tn_conn (fw_slots f ! slot_of tunnels cnt i))) b \<and>
     fw_failed f' = fw_failed f @ map (\<lambda>i. NewSpdySession r (slot_index tunnels cnt i)) b \<and>
     (case found_stream env tunnels cnt (fw_slots f) is of
        None \<Rightarrow> fw_err f' \<noteq> None
      | Some st \<Rightarrow> fw_err f' = None \<and> fw_conn f' = Some st))"
  using assms(3-)
proof (induction "is" arbitrary: f)
  case Nil
  then show ?case by (simp add: broken_attempts_def found_stream_def)
next
  case (Cons i "is")
  let ?k = "slot_of tunnels cnt i" and ?ts = "fw_slots f"
  have k: "?k < unat tunnels" using T by (simp add: slot_of_def slot_index_def unat_mod word_gt_0 unat_gt_0)
  have rd: "fe_read env i ts = ts" "fe_swap env i ts = ts" for ts using q by (simp_all add: quiet_def)
  have d: "distinct (map (slot_of tunnels cnt) is)" using Cons.prems by simp
  show ?case
  proof (cases "tn_conn (?ts ! ?k)")
    case None
    then have "\<not> opens env tunnels cnt ?ts i" by (simp add: opens_def)
    moreover have "forward_slots env r tunnels cnt (i # is) f = forward_slots env r tunnels cnt is f"
      using None k Cons.prems(1) by (simp add: Let_def rd slot_of_def[symmetric])
    ultimately show ?thesis
      using Cons.IH[of f] d None Cons.prems
      by (simp add: broken_attempts_def found_stream_def)
  next
    case (Some c)
    show ?thesis
    proof (cases "fe_create env i c")
      case (Inr st)
      then have "opens env tunnels cnt ?ts i" using Some by (simp add: opens_def)
      then show ?thesis
        using Some Inr k Cons.prems(1)
        by (simp add: Let_def rd slot_of_def[symmetric] broken_attempts_def found_stream_def)
    next
      case (Inl e)
      let ?f = "f\<lparr>fw_slots := empty_slot ?k ?ts, fw_found := True, fw_conn := None, fw_err := Some e,
        fw_closed := fw_closed f @ [c], fw_failed := fw_failed f @ [NewSpdySession r (slot_index tunnels cnt i)]\<rparr>"
      have "\<not> opens env tunnels cnt ?ts i" using Some Inl by (simp add: opens_def)
      moreover have "forward_slots env r tunnels cnt (i # is) f = forward_slots env r tunnels cnt is ?f"
        using Some Inl k Cons.prems(1)
        by (simp add: Let_def rd slot_of_def[symmetric] take_off_def empty_slot_def)
      moreover have same: "empty_slot ?k ?ts ! slot_of tunnels cnt j = ?ts ! slot_of tunnels cnt j" if "j \<in> set is" for j
        using that Cons.prems(2) by (intro empty_slot_other) (metis distinct.simps(2) image_eqI list.simps(9) set_map)
      moreover have "empty_slot ?k ?ts ! slot_of tunnels cnt j = ?ts ! slot_of tunnels cnt j"
        if "j \<in> set (broken_attempts env tunnels cnt ?ts is)" for j
        using same that by (auto simp: broken_attempts_def dest: set_takeWhileD)
      moreover have "broken_attempts env tunnels cnt (empty_slot ?k ?ts) is = broken_attempts env tunnels cnt ?ts is"
        "found_stream env tunnels cnt (empty_slot ?k ?ts) is = found_stream env tunnels cnt ?ts is"
        using same by (simp_all cong: broken_attempts_cong(1) found_stream_cong)
      moreover have "broken_attempts env tunnels cnt ?ts (i # is) = i # broken_attempts env tunnels cnt ?ts is"
        "found_stream env tunnels cnt ?ts (i # is) = found_stream env tunnels cnt ?ts is"
        using calculation(1) Some by (simp_all add: broken_attempts_def found_stream_def)
      ultimately show ?thesis
        using Cons.IH[of ?f] d Cons.prems(1) Some by (simp add: Let_def del: forward_slots.simps cong: map_cong)
    qed
  qed
qed

subsection \<open>Properties\<close>

text \<open>\<open>ForwarderNewConnection\<close> tries every slot of the backend exactly once, from the slot that the
  request's number selects on (as long as the 64-bit request counter does not wrap within the loop).\<close>

theorem slots_tried_once:
  assumes "unat cnt + unat tunnels \<le> 2 ^ 64" "0 < tunnels"
  shows "map (\<lambda>i. unat (slot_index tunnels cnt i)) [0..<unat tunnels] =
      map (\<lambda>i. (unat cnt + i) mod unat tunnels) [0..<unat tunnels] \<and>
    distinct (map (\<lambda>i. unat (slot_index tunnels cnt i)) [0..<unat tunnels]) \<and>
    set (map (\<lambda>i. unat (slot_index tunnels cnt i)) [0..<unat tunnels]) = {..<unat tunnels}"
proof -
  have "slot_order tunnels cnt = map (\<lambda>i. (unat cnt + i) mod unat tunnels) [0..<unat tunnels]"
    using slot_order_nth[OF assms(1)] by (intro nth_equalityI) auto
  then show ?thesis
    using slot_order_distinct[OF assms(1)] slot_order_set[OF assms(1)] unfolding slot_order_def by blast
qed

theorem slots_tried_once_witness:
  "map (\<lambda>i. unat (slot_index 3 4 i)) [0..<unat (3 :: uint)] = map (\<lambda>i. (4 + i) mod 3) [0..<3]"
  using slots_tried_once[of 4 3] by simp

text \<open>C17. Whatever the other goroutines do to the slots meanwhile, \<open>ForwarderNewConnection\<close> does not
  panic and does not return a nil connection without an error.\<close>

theorem forwarder_returns:
  assumes "backend_wf b" "env_ok env"
  shows "\<exists>f res. ForwarderNewConnection env r b = Finished (f, res) \<and> res \<noteq> Inr None"
proof (cases "bk_tunnels b = 0")
  case True
  then show ?thesis by (auto simp: ForwarderNewConnection_def dial_tcp_def map_sum_def split: sum.splits)
next
  case False
  then have T: "0 < bk_tunnels b" by (simp add: word_gt_0)
  have "length (fw_slots (forward_start b)) = unat (bk_tunnels b)"
    using assms(1) by (simp add: forward_start_def backend_wf_def)
  from forward_slots_finishes[OF assms(2) this T, of r "bk_count b" "[0..<unat (bk_tunnels b)]"] obtain f where
    f: "forward_slots env r (bk_tunnels b) (bk_count b) [0..<unat (bk_tunnels b)] (forward_start b) = Finished f"
    "fw_err f = None \<longrightarrow> fw_conn f \<noteq> None" by (auto simp: forward_start_def)
  have "dial_tcp env a \<noteq> Inr None" for a by (cases "fe_dial env a") (auto simp: dial_tcp_def)
  then show ?thesis
    using f False by (auto simp: ForwarderNewConnection_def split: option.splits)
qed

definition ex_net :: forward_env where
  "ex_net = \<lparr>fe_create = (\<lambda>i c. Inl ''reset''), fe_read = (\<lambda>_ ts. ts), fe_swap = (\<lambda>_ ts. ts),
     fe_dial = (\<lambda>a. Inr 11)\<rparr>"

lemma ex_net_ok [simp]: "env_ok ex_net" "quiet ex_net"
  by (simp_all add: env_ok_def quiet_def ex_net_def)

lemma ex_tunnels_wf [simp]: "backend_wf ex_tunnels"
  by (simp add: backend_wf_def ex_tunnels_def FailChan_def NewBackend_def)

theorem forwarder_returns_witness:
  "\<exists>f res. ForwarderNewConnection ex_net 0 ex_tunnels = Finished (f, res) \<and> res \<noteq> Inr None"
  by (rule forwarder_returns) simp_all

text \<open>C18. Without interference the connection is a stream of the first slot, in that order, on whose
  connection a stream can be opened; the connected slots before it are emptied, their connections
  closed and one failed session is reported for each. If there is no such slot, all connected slots
  are emptied and the server is dialled.\<close>

theorem forwarder_takes_first_working_tunnel:
  assumes "backend_wf b" "quiet env" "0 < bk_tunnels b"
    and "unat (bk_count b) + unat (bk_tunnels b) \<le> 2 ^ 64"
  shows "\<exists>f. let is = [0..<unat (bk_tunnels b)];
      br = broken_attempts env (bk_tunnels b) (bk_count b) (bk_tunnel b) is in
    ForwarderNewConnection env r b = Finished (f,
      case found_stream env (bk_tunnels b) (bk_count b) (bk_tunnel b) is of
        Some st \<Rightarrow> Inr (Some (Stream st))
      | None \<Rightarrow> dial_tcp env (bk_address b)) \<and>
    fw_slots f = fold (\<lambda>i. empty_slot (slot_of (bk_tunnels b) (bk_count b) i)) br (bk_tunnel b) \<and>
    fw_closed f = map (\<lambda>i. the (tn_conn (bk_tunnel b ! slot_of (bk_tunnels b) (bk_count b) i))) br \<and>
    fw_failed f = map (\<lambda>i. NewSpdySession r (slot_index (bk_tunnels b) (bk_count b) i)) br"
proof -
  let ?is = "[0..<unat (bk_tunnels b)]"
  have "map (slot_of (bk_tunnels b) (bk_count b)) ?is = slot_order (bk_tunnels b) (bk_count b)"
    by (simp add: slot_order_def slot_of_def)
  then have d: "distinct (map (slot_of (bk_tunnels b) (bk_count b)) ?is)"
    using slot_order_distinct[OF assms(4)] by simp
  have s: "length (fw_slots (forward_start b)) = unat (bk_tunnels b)" "fw_err (forward_start b) \<noteq> None"
    "fw_slots (forward_start b) = bk_tunnel b" "fw_closed (forward_start b) = []" "fw_failed (forward_start b) = []"
    using assms(1) by (simp_all add: forward_start_def backend_wf_def)
  from forward_slots_quiet[OF assms(2,3) s(1) d s(2), of r] obtain f where
    f: "forward_slots env r (bk_tunnels b) (bk_count b) ?is (forward_start b) = Finished f"
    "fw_slots f = fold (\<lambda>i. empty_slot (slot_of (bk_tunnels b) (bk_count b) i))
       (broken_attempts env (bk_tunnels b) (bk_count b) (bk_tunnel b) ?is) (bk_tunnel b)"
    "fw_closed f = map (\<lambda>i. the (tn_conn (bk_tunnel b ! slot_of (bk_tunnels b) (bk_count b) i)))
       (broken_attempts env (bk_tunnels b) (bk_count b) (bk_tunnel b) ?is)"
    "fw_failed f = map (\<lambda>i. NewSpdySession r (slot_index (bk_tunnels b) (bk_count b) i))
       (broken_attempts env (bk_tunnels b) (bk_count b) (bk_tunnel b) ?is)"
    "case found_stream env (bk_tunnels b) (bk_count b) (bk_tunnel b) ?is of
        None \<Rightarrow> fw_err f \<noteq> None | Some st \<Rightarrow> fw_err f = None \<and> fw_conn f = Some st"
    unfolding s by (auto simp: Let_def)
  have "\<not> bk_tunnels b \<le> 0" using assms(3) by (simp add: word_gt_0)
  then have "ForwarderNewConnection env r b = Finished (f,
      case found_stream env (bk_tunnels b) (bk_count b) (bk_tunnel b) ?is of
        Some st \<Rightarrow> Inr (Some (Stream st)) | None \<Rightarrow> dial_tcp env (bk_address b))"
    using f(1,5) by (auto simp: ForwarderNewConnection_def split: option.splits)
  then show ?thesis using f(2-4) by (intro exI[of _ f]) (simp add: Let_def)
qed

theorem forwarder_takes_first_working_tunnel_witness:
  "\<exists>f. ForwarderNewConnection ex_net 0 ex_tunnels = Finished (f, Inr (Some (Tcp 11))) \<and>
     fw_closed f = [3] \<and> map ss_connindex (fw_failed f) = [0]"
proof -
  have T: "0 < bk_tunnels ex_tunnels" "unat (bk_count ex_tunnels) + unat (bk_tunnels ex_tunnels) \<le> 2 ^ 64"
    by (simp_all add: ex_tunnels_def FailChan_def NewBackend_def)
  have c: "found_stream ex_net 2 0 (bk_tunnel ex_tunnels) [0..<2] = None"
    "broken_attempts ex_net 2 0 (bk_tunnel ex_tunnels) [0..<2] = [0]"
    "dial_tcp ex_net (bk_address ex_tunnels) = Inr (Some (Tcp 11))" by code_simp+
  have e: "bk_tunnels ex_tunnels = 2" "bk_count ex_tunnels = 0" "unat (2 :: uint) = 2"
    "tn_conn (bk_tunnel ex_tunnels ! slot_of 2 0 0) = Some 3" by code_simp+
  show ?thesis
    using forwarder_takes_first_working_tunnel[OF ex_tunnels_wf ex_net_ok(2) T, of 0]
    by (auto simp: Let_def e c NewSpdySession_def slot_index_def)
qed

text \<open>\<open>CreateSpdySession\<close> hands over a session exactly if one of its dials succeeds: the tunnel is
  what \<open>NewConnTunnel\<close> makes of the first connection, nil if the connection is no TCP connection, if
  the SPDY set-up fails or if the first ping fails. It never retries after such a failure.\<close>

theorem session_of_first_connection:
  "CreateSpdySession dial port m req = Some x \<longleftrightarrow>
    (\<exists>n p. dial n (takeWhile (\<lambda>c. c \<noteq> CHR '':'') (bk_address (m (ss_backend req))) @ '':'' @ port) = Inr p \<and>
       (\<forall>j < n. isl (dial j (takeWhile (\<lambda>c. c \<noteq> CHR '':'') (bk_address (m (ss_backend req))) @ '':'' @ port))) \<and>
       x = req\<lparr>ss_spdy := (if pr_tcpAddr p = None \<or> isl (pr_spdy p) \<or> pr_ping p \<noteq> None then None
         else Some \<lparr>tn_conn = Some (projr (pr_spdy p)), tn_tcpAddr = pr_tcpAddr p, tn_switching = False\<rparr>)\<rparr>)"
proof -
  let ?a = "takeWhile (\<lambda>c. c \<noteq> CHR '':'') (bk_address (m (ss_backend req)))"
  have tun: "NewConnTunnel (Some p) = (if pr_tcpAddr p = None \<or> isl (pr_spdy p) \<or> pr_ping p \<noteq> None then None
      else Some \<lparr>tn_conn = Some (projr (pr_spdy p)), tn_tcpAddr = pr_tcpAddr p, tn_switching = False\<rparr>)" for p
    by (auto simp: NewConnTunnel_def split: option.splits sum.splits)
  have conn: "NewStreamConn (dial j) ?a port = Inr t \<longleftrightarrow>
      (\<exists>p. dial j (?a @ '':'' @ port) = Inr p \<and> t = NewConnTunnel (Some p))" for j t
    by (auto simp: NewStreamConn_def split: sum.splits)
  have isl: "isl (NewStreamConn (dial j) ?a port) = isl (dial j (?a @ '':'' @ port))" for j
    by (simp add: NewStreamConn_def split: sum.splits)
  show ?thesis
    unfolding CreateSpdySession_iff Split_hd isl conn tun[symmetric] by blast
qed

theorem session_of_first_connection_witness:
  "CreateSpdySession (\<lambda>n a. if n = 0 then Inl ''refused'' else
      Inr \<lparr>pr_conn = 4, pr_tcpAddr = Some a, pr_spdy = Inr 5, pr_ping = Some ''eof''\<rparr>) ''6900''
     (\<lambda>_. ex_tunnels) (NewSpdySession 0 1) = Some ((NewSpdySession 0 1)\<lparr>ss_spdy := None\<rparr>)"
  by (subst session_of_first_connection, rule exI[of _ 1]) simp

end
