(* ===== verification/SchedulerSystem.thy ===== *)
theory SchedulerSystem
  imports SchedulerEvents Forwarder
begin

text \<open>
  The scheduler with the goroutines around it: the accept loops that send on \<open>job\<close>, the goroutine
  of each request (\<open>run\<close>), the goroutines that create tunnel sessions, the wrangler that sends the
  status. The three channels are queues; a goroutine that is blocked on a full channel is an
  element of the queue behind the buffer, which Go serves in the same order. One step of the
  relation is one case of the scheduler's \<open>select\<close>, or one visible action of a goroutine. A panic
  in a case is recovered, so the state reached is the one the next step starts from.

  \<open>U\<close> is the set of configured servers: the wrangler reports directors, and directors are made
  from the configuration.
\<close>

subsection \<open>State and steps\<close>

record system =
  sy_sched :: sched
  sy_done :: "request list"
  sy_ready :: "spdy_session list"
  sy_fail :: "spdy_session list"
  sy_accepted :: "nat list"
  sy_ended :: "nat list"

definition start :: "bool \<Rightarrow> uint \<Rightarrow> system" where
  "start lw tunnels = \<lparr>sy_sched = NewScheduler lw tunnels, sy_done = [], sy_ready = [], sy_fail = [],
     sy_accepted = [], sy_ended = []\<rparr>"

text \<open>\<open>finish\<close> dispatches the request again exactly in this case; otherwise the request ends.\<close>

definition retried :: "request \<Rightarrow> bool" where
  "retried q \<longleftrightarrow> rq_err q = Some (OpError ''dial'')"

inductive work_step :: "bool \<Rightarrow> system \<Rightarrow> system \<Rightarrow> bool" for shuffle where
  accept: "work_step shuffle y
    (y\<lparr>sy_sched := final_state (schedule_event shuffle env
          (EvJob \<lparr>rq_conn = k, rq_backend = None, rq_err = None\<rparr>) (sy_sched y)),
       sy_accepted := sy_accepted y @ [k]\<rparr>)"
| run_ends: "sc_running (sy_sched y) = qs @ q # qs' \<Longrightarrow> work_step shuffle y
    (y\<lparr>sy_sched := (sy_sched y)\<lparr>sc_running := qs @ qs'\<rparr>, sy_done := sy_done y @ [run_end res q]\<rparr>)"
| take_done: "sy_done y = q # ds \<Longrightarrow> work_step shuffle y
    (y\<lparr>sy_sched := final_state (schedule_event shuffle env (EvDone q) (sy_sched y)), sy_done := ds,
       sy_ended := sy_ended y @ (if retried q then [] else [rq_conn q])\<rparr>)"
| connected: "sc_creating (sy_sched y) = xs @ x # xs' \<Longrightarrow>
    CreateSpdySession net port (sc_mem (sy_sched y)) x = Some x' \<Longrightarrow> work_step shuffle y
    (y\<lparr>sy_sched := (sy_sched y)\<lparr>sc_creating := xs @ xs'\<rparr>, sy_ready := sy_ready y @ [x']\<rparr>)"
| take_ready: "sy_ready y = x # xs \<Longrightarrow> work_step shuffle y
    (y\<lparr>sy_sched := final_state (schedule_event shuffle env (EvNew x) (sy_sched y)), sy_ready := xs\<rparr>)"
| stream_fails: "q \<in> set (sc_running (sy_sched y)) \<Longrightarrow> rq_backend q = Some b \<Longrightarrow>
    unat index < unat (bk_tunnels (sc_mem (sy_sched y) b)) \<Longrightarrow>
    take_off (unat index) c (bk_tunnel (sc_mem (sy_sched y) b)) = (True, ts) \<Longrightarrow> work_step shuffle y
    (y\<lparr>sy_sched := upd_backend b (\<lambda>x. x\<lparr>bk_tunnel := ts\<rparr>) (sy_sched y),
       sy_fail := sy_fail y @ [NewSpdySession b index]\<rparr>)"
| take_fail: "sy_fail y = x # xs \<Longrightarrow> work_step shuffle y
    (y\<lparr>sy_sched := final_state (schedule_event shuffle env (EvFail x) (sy_sched y)), sy_fail := xs\<rparr>)"

text \<open>One step of it all: the scheduler, its listeners and its goroutines at work, or a status message.\<close>

inductive system_step :: "bool \<Rightarrow> string set \<Rightarrow> system \<Rightarrow> system \<Rightarrow> bool" for shuffle U where
  work: "work_step shuffle y z \<Longrightarrow> system_step shuffle U y z"
| status: "status_args (sy_sched y) known fresh perm st \<Longrightarrow> dom st \<subseteq> U \<Longrightarrow> system_step shuffle U y
    (y\<lparr>sy_sched := final_state (schedule_event shuffle env (EvStatus known fresh perm st) (sy_sched y))\<rparr>)"

inductive reachable :: "bool \<Rightarrow> string set \<Rightarrow> bool \<Rightarrow> uint \<Rightarrow> system \<Rightarrow> bool" for shuffle U lw tunnels where
  init: "reachable shuffle U lw tunnels (start lw tunnels)"
| step: "reachable shuffle U lw tunnels y \<Longrightarrow> system_step shuffle U y z \<Longrightarrow> reachable shuffle U lw tunnels z"

subsection \<open>Invariant\<close>

definition in_flight :: "system \<Rightarrow> request list" where
  "in_flight y = sc_running (sy_sched y) @ sy_done y"

definition system_inv :: "string set \<Rightarrow> bool \<Rightarrow> uint \<Rightarrow> system \<Rightarrow> bool" where
  "system_inv U lw tunnels y \<longleftrightarrow>
     sched_inv (sy_sched y) (load (sy_done y) (sy_sched y)) \<and>
     sc_tunnels (sy_sched y) = tunnels \<and> pl_leastweight (sc_pool (sy_sched y)) = lw \<and>
     (\<forall>q \<in> set (in_flight y). rq_backend q \<noteq> None) \<and>
     (\<forall>x \<in> set (sy_ready y) \<union> set (sy_fail y). session_ok (sy_sched y) x) \<and>
     (\<forall>r < sc_next (sy_sched y). bk_address (sc_mem (sy_sched y) r) \<in> U) \<and>
     mset (sy_accepted y) = conns (sy_sched y) + mset (map rq_conn (sy_done y)) + mset (sy_ended y)"

lemma load_pos:
  assumes "q \<in> set (sc_running s @ D)" "rq_backend q = Some b"
  shows "0 < load D s b"
  using assms by (auto simp: load_def count_list_0_iff neq0_conv[symmetric] image_iff) force+

lemma start_inv: "system_inv U lw tunnels (start lw tunnels)"
proof -
  have "pool_inv \<lparr>pl_backends = [], pl_leastweight = lw, pl_cap = MaxForwarders\<rparr> (\<lambda>_. NewBackend '''' 0 0)"
    by (simp add: pool_inv_def pool_ok_def heap_list_def)
  then show ?thesis
    by (simp add: system_inv_def start_def NewScheduler_def sched_inv_def load_def conns_def in_flight_def)
qed

lemma take_off_True:
  assumes "take_off k c ts = (True, us)"
  shows "us = ts[k := (ts ! k)\<lparr>tn_conn := None\<rparr>]" "length us = length ts"
  using assms by (auto simp: take_off_def split: if_splits)

lemma CreateSpdySession_same:
  "CreateSpdySession net port m x = Some x' \<Longrightarrow> ss_backend x' = ss_backend x \<and> ss_connindex x' = ss_connindex x"
  by (auto simp: CreateSpdySession_iff)

lemma run_end_same [simp]: "rq_conn (run_end res q) = rq_conn q" "rq_backend (run_end res q) = rq_backend q"
proof -
  let ?P = "\<lambda>x. rq_conn x = rq_conn q \<and> rq_backend x = rq_backend q"
  have "?P (run_end res q)"
  proof (cases res)
    case (Inr rs)
    have "?P (fold (\<lambda>r q. if r \<noteq> None then q\<lparr>rq_err := None\<rparr> else q) rs q)"
      by (rule fold_invariant[where Q = "\<lambda>_. True"]) auto
    then show ?thesis by (simp only: Inr run_end.simps)
  qed simp
  then show "rq_conn (run_end res q) = rq_conn q" "rq_backend (run_end res q) = rq_backend q" by auto
qed

text \<open>Facts about sessions and backends that survive a handler.\<close>

lemma session_ok_mono:
  "session_ok s x \<Longrightarrow> sc_next s \<le> sc_next t \<Longrightarrow> sc_tunnels t = sc_tunnels s \<Longrightarrow> session_ok t x"
  by (simp add: session_ok_def)

lemma running_some:
  assumes "set (map rq_backend (sc_running t)) \<subseteq> set (map rq_backend (sc_running (sy_sched y))) \<union> Some ` A"
    and "system_inv U lw n y" and q: "q \<in> set (sc_running t)"
  shows "rq_backend q \<noteq> None"
proof -
  have "rq_backend q \<in> set (map rq_backend (sc_running (sy_sched y))) \<union> Some ` A"
    using assms(1) q by auto
  moreover have "None \<notin> set (map rq_backend (sc_running (sy_sched y)))"
  proof -
    have "rq_backend x \<noteq> None" if "x \<in> set (sc_running (sy_sched y))" for x
      using assms(2) that by (simp add: system_inv_def in_flight_def)
    then show ?thesis by force
  qed
  ultimately show ?thesis by (metis UnE imageE option.distinct(1))
qed

lemma accept_inv:
  assumes "system_inv U lw n y" and req: "rq_conn q = k"
  shows "\<exists>t. dispatch env q (sy_sched y) = Finished t \<and>
    system_inv U lw n (y\<lparr>sy_sched := t, sy_accepted := sy_accepted y @ [k]\<rparr>)"
proof -
  let ?s = "sy_sched y" and ?D = "sy_done y"
  have inv: "sched_inv ?s (load ?D ?s)" using assms by (simp add: system_inv_def)
  from dispatch_ok[OF inv, of env q] obtain t c' where
    t: "dispatch env q ?s = Finished t" "dispatched q ?s (load ?D ?s) t c'" by blast
  have c': "c' = load ?D t" by (rule dispatched_load[OF t(2)])
  have f: "sched_frame ?s t" "sched_inv t (load ?D t)"
    using t(2) unfolding dispatched_def c' by blast+
  have "set (map rq_backend (sc_running t)) \<subseteq> set (map rq_backend (sc_running ?s)) \<union> Some ` pooled ?s"
    using t(2) unfolding dispatched_def by auto
  then have b: "rq_backend x \<noteq> None" if "x \<in> set (sc_running t)" for x
    using running_some[OF _ assms(1) that] by blast
  have "system_inv U lw n (y\<lparr>sy_sched := t, sy_accepted := sy_accepted y @ [k]\<rparr>)"
    using assms(1) f b dispatched_conns[OF t(2)] req
    by (auto simp: system_inv_def in_flight_def sched_frame_def session_ok_def)
  then show ?thesis using t(1) by blast
qed

lemma done_inv:
  assumes y: "system_inv U lw n y" "sy_done y = q # ds"
  shows "\<exists>t. finish env q (sy_sched y) = Finished t \<and>
    system_inv U lw n (y\<lparr>sy_sched := t, sy_done := ds,
      sy_ended := sy_ended y @ (if retried q then [] else [rq_conn q])\<rparr>)"
proof -
  let ?s = "sy_sched y"
  have inv: "sched_inv ?s (load (q # ds) ?s)" using y by (simp add: system_inv_def)
  have "rq_backend q \<noteq> None" using y by (simp add: system_inv_def in_flight_def)
  then obtain b where b: "rq_backend q = Some b" by blast
  have pos: "0 < load (q # ds) ?s b" by (rule load_pos[where q = q]) (simp_all add: b)
  have ld: "(load (q # ds) ?s)(b := load (q # ds) ?s b - 1) = load ds ?s"
    using load_done[OF b, of ds ?s] by simp
  have keep: "system_inv U lw n (y\<lparr>sy_sched := t, sy_done := ds, sy_ended := sy_ended y @ [rq_conn q]\<rparr>)"
    if "sched_inv t (load ds ?s)" "sched_frame ?s t" "same_lists ?s t" for t
  proof -
    have "load ds t = load ds ?s" by (rule same_lists_load[OF that(3)])
    then show ?thesis
      using that y same_lists_conns[OF that(3)]
      by (auto simp: system_inv_def in_flight_def sched_frame_def session_ok_def same_lists_def)
  qed
  show ?thesis
  proof (cases "rq_err q")
    case None
    from finish_success[OF inv b None pos, of env] ld obtain t where
      "finish env q ?s = Finished t" "sched_inv t (load ds ?s)" "sched_frame ?s t" "same_lists ?s t" by auto
    moreover have "\<not> retried q" using None by (simp add: retried_def)
    ultimately show ?thesis using keep by (intro exI[of _ t]) simp
  next
    case (Some e)
    from finish_failure[OF inv b Some pos, of env] ld obtain s1 where
      s1: "sched_inv s1 (load ds ?s)" "sched_frame ?s s1" "same_lists ?s s1"
      "finish env q ?s = (if e = OpError ''dial'' then dispatch env q s1 else Finished s1)" by auto
    show ?thesis
    proof (cases "retried q")
      case False
      then have "e \<noteq> OpError ''dial''" using Some by (simp add: retried_def)
      then show ?thesis using s1 keep[OF s1(1-3)] False by (intro exI[of _ s1]) simp
    next
      case True
      then have e: "e = OpError ''dial''" using Some by (simp add: retried_def)
      let ?y = "y\<lparr>sy_sched := s1, sy_done := ds, sy_accepted := remove1 (rq_conn q) (sy_accepted y)\<rparr>"
      have "system_inv U lw n ?y"
        using y s1(1-3) same_lists_load[OF s1(3), of ds] same_lists_conns[OF s1(3)]
        by (auto simp: system_inv_def in_flight_def sched_frame_def session_ok_def same_lists_def)
      from accept_inv[OF this refl, of env q] obtain t where
        t: "dispatch env q s1 = Finished t"
        "system_inv U lw n (?y\<lparr>sy_sched := t, sy_accepted := sy_accepted ?y @ [rq_conn q]\<rparr>)" by auto
      have "rq_conn q \<in># mset (sy_accepted y)" using y by (simp add: system_inv_def)
      then have "mset (remove1 (rq_conn q) (sy_accepted y) @ [rq_conn q]) = mset (sy_accepted y)" by simp
      then have "system_inv U lw n (y\<lparr>sy_sched := t, sy_done := ds\<rparr>)"
        using t(2) by (simp add: system_inv_def in_flight_def)
      then show ?thesis using s1(4) e t(1) True by (intro exI[of _ t]) simp
    qed
  qed
qed

lemma run_ends_inv:
  assumes y: "system_inv U lw n y" "sc_running (sy_sched y) = qs @ q # qs'"
  shows "system_inv U lw n (y\<lparr>sy_sched := (sy_sched y)\<lparr>sc_running := qs @ qs'\<rparr>, sy_done := sy_done y @ [run_end res q]\<rparr>)"
proof -
  let ?s = "(sy_sched y)\<lparr>sc_running := qs @ qs'\<rparr>" and ?D = "sy_done y @ [run_end res q]"
  have "load ?D ?s = load (sy_done y) (sy_sched y)"
    using y(2) by (auto simp: load_def fun_eq_iff)
  then show ?thesis
    using y by (auto simp: system_inv_def in_flight_def session_ok_def conns_def)
qed

lemma status_inv:
  assumes y: "system_inv U lw n y" "status_args (sy_sched y) known fresh perm st" "dom st \<subseteq> U"
  shows "\<exists>t. handle_status sh known fresh perm st (sy_sched y) = Finished t \<and> system_inv U lw n (y\<lparr>sy_sched := t\<rparr>)"
proof -
  let ?s = "sy_sched y"
  have inv: "sched_inv ?s (load (sy_done y) ?s)" using y by (simp add: system_inv_def)
  from handle_status_ok[OF inv y(2), of sh] obtain s1 t where
    t: "handle_status sh known fresh perm st ?s = Finished t" "sched_inv t (load (sy_done y) ?s)"
    "known_frame ?s s1" "grown s1 (arrange sh perm fresh) sh t" by blast
  have same: "sc_running t = sc_running ?s" "conns t = conns ?s" "sc_tunnels t = sc_tunnels ?s" "sc_next ?s \<le> sc_next t"
    "pl_leastweight (sc_pool t) = pl_leastweight (sc_pool ?s)"
    using t(3,4) by (simp_all add: known_frame_def grown_def same_lists_def conns_def)
  have "bk_address (sc_mem t r) \<in> U" if "r < sc_next t" for r
  proof (cases "r < sc_next ?s")
    case True
    then show ?thesis using y(1) t(3,4) by (auto simp: system_inv_def known_frame_def grown_def)
  next
    case False
    define i where "i = r - sc_next s1"
    have "i < length (arrange sh perm fresh)" "r = sc_next s1 + i"
      using False that t(3,4) by (auto simp: i_def known_frame_def grown_def)
    then have "bk_address (sc_mem t r) \<in> set (arrange sh perm fresh)"
      using t(4) by (auto simp: grown_def)
    then show ?thesis using status_argsD(2)[OF y(2), of sh] y(3) by auto
  qed
  moreover have "session_ok t x" if "session_ok ?s x" for x
    by (rule session_ok_mono[OF that same(4,3)])
  moreover have "load (sy_done y) t = load (sy_done y) ?s" by (rule load_cong[OF same(1)])
  ultimately have "system_inv U lw n (y\<lparr>sy_sched := t\<rparr>)"
    using y(1) t(2) same by (auto simp: system_inv_def in_flight_def)
  then show ?thesis using t(1) by blast
qed

lemma connected_inv:
  assumes y: "system_inv U lw n y" "sc_creating (sy_sched y) = xs @ x # xs'"
    "CreateSpdySession net port (sc_mem (sy_sched y)) x = Some x'"
  shows "system_inv U lw n (y\<lparr>sy_sched := (sy_sched y)\<lparr>sc_creating := xs @ xs'\<rparr>, sy_ready := sy_ready y @ [x']\<rparr>)"
proof -
  let ?s = "(sy_sched y)\<lparr>sc_creating := xs @ xs'\<rparr>"
  have inv: "sched_inv (sy_sched y) (load (sy_done y) (sy_sched y))" using y by (simp add: system_inv_def)
  then have "sched_inv ?s (load (sy_done y) (sy_sched y))"
    using y(2) by (auto simp: sched_inv_def placed_def registered_def session_ok_def)
  moreover have "session_ok ?s x'"
    using sched_invD(15)[OF inv, of x] CreateSpdySession_same[OF y(3)] y(2) by (simp add: session_ok_def)
  moreover have "load (sy_done y) ?s = load (sy_done y) (sy_sched y)" by (rule load_cong) simp
  ultimately show ?thesis
    using y(1) by (auto simp: system_inv_def in_flight_def session_ok_def conns_def)
qed

lemma register_room:
  assumes y: "system_inv U lw n y" and x: "session_ok (sy_sched y) x" and U: "finite U" "card U \<le> MaxForwarders"
    and new: "sc_backends (sy_sched y) (bk_address (sc_mem (sy_sched y) (ss_backend x))) = None"
  shows "card (dom (sc_backends (sy_sched y))) < MaxForwarders"
proof -
  let ?s = "sy_sched y"
  have inv: "sched_inv ?s (load (sy_done y) ?s)" and inU: "\<forall>r < sc_next ?s. bk_address (sc_mem ?s r) \<in> U"
    using y by (simp_all add: system_inv_def)
  have "a \<in> U" if "sc_backends ?s a = Some r" for a r
    using sched_invD(6,7)[OF inv that] inU by metis
  moreover have "bk_address (sc_mem ?s (ss_backend x)) \<in> U"
    using inU x by (simp add: session_ok_def)
  ultimately have "dom (sc_backends ?s) \<subset> U" using new by auto
  then have "card (dom (sc_backends ?s)) < card U" by (rule psubset_card_mono[OF U(1)])
  then show ?thesis using U(2) by simp
qed

lemma ready_inv:
  assumes y: "system_inv U lw n y" "sy_ready y = x # xs" and U: "finite U" "card U \<le> MaxForwarders"
  shows "(case ss_spdy x of
      None \<Rightarrow> \<not> finished (handle_new env x (sy_sched y))
    | Some _ \<Rightarrow> finished (handle_new env x (sy_sched y))) \<and>
    system_inv U lw n (y\<lparr>sy_sched := final_state (handle_new env x (sy_sched y)), sy_ready := xs\<rparr>)"
proof -
  let ?s = "sy_sched y"
  have inv: "sched_inv ?s (load (sy_done y) ?s)" and x: "session_ok ?s x"
    using y by (simp_all add: system_inv_def)
  have b: "ss_backend x < sc_next ?s" using x by (simp add: session_ok_def)
  show ?thesis
  proof (cases "ss_spdy x")
    case None
    have i: "unat (ss_connindex x) < length (bk_tunnel (sc_mem ?s (ss_backend x)))"
      using sched_invD(11,12)[OF inv b] x by (simp add: backend_wf_def session_ok_def)
    let ?cl = "case tn_conn (bk_tunnel (sc_mem ?s (ss_backend x)) ! unat (ss_connindex x)) of None \<Rightarrow> [] | Some k \<Rightarrow> [k]"
    have "handle_new env x ?s = Panicked NilPointer (?s\<lparr>sc_spdyClosed := sc_spdyClosed ?s @ ?cl\<rparr>)"
      using None i by (simp add: handle_new_def SwitchSpdyConn_def Let_def)
    moreover have "load (sy_done y) (?s\<lparr>sc_spdyClosed := sc_spdyClosed ?s @ ?cl\<rparr>) = load (sy_done y) ?s"
      by (rule load_cong) simp
    ultimately show ?thesis
      using None y by (auto simp: system_inv_def in_flight_def session_ok_def conns_def)
  next
    case (Some t)
    from handle_new_ok[OF inv x Some register_room[OF y(1) x U], of env] obtain t where
      t: "handle_new env x ?s = Finished t" "sched_inv t (load (sy_done y) t)" "conns t = conns ?s"
      "sc_next t = sc_next ?s" "sc_tunnels t = sc_tunnels ?s"
      "set (map rq_backend (sc_running t)) \<subseteq> set (map rq_backend (sc_running ?s)) \<union> Some ` pooled t"
      "\<forall>r. bk_address (sc_mem t r) = bk_address (sc_mem ?s r)"
      "pl_leastweight (sc_pool t) = pl_leastweight (sc_pool ?s)" by blast
    have "rq_backend q \<noteq> None" if "q \<in> set (sc_running t)" for q
      by (rule running_some[OF t(6) y(1) that])
    then show ?thesis
      using Some t y by (auto simp: system_inv_def in_flight_def session_ok_def)
  qed
qed

lemma stream_fails_inv:
  assumes y: "system_inv U lw n y" "q \<in> set (sc_running (sy_sched y))" "rq_backend q = Some b"
    "unat index < unat (bk_tunnels (sc_mem (sy_sched y) b))"
    "take_off (unat index) c (bk_tunnel (sc_mem (sy_sched y) b)) = (True, ts)"
  shows "system_inv U lw n (y\<lparr>sy_sched := upd_backend b (\<lambda>x. x\<lparr>bk_tunnel := ts\<rparr>) (sy_sched y),
       sy_fail := sy_fail y @ [NewSpdySession b index]\<rparr>)"
proof -
  let ?s = "sy_sched y" and ?t = "upd_backend b (\<lambda>x. x\<lparr>bk_tunnel := ts\<rparr>) (sy_sched y)"
  have inv: "sched_inv ?s (load (sy_done y) ?s)" using y by (simp add: system_inv_def)
  have "0 < load (sy_done y) ?s b" using y(2,3) by (intro load_pos[where q = q]) simp_all
  then have b: "b < sc_next ?s" by (rule sched_invD(9)[OF inv])
  have "sched_inv ?t (load (sy_done y) ?s)"
    using sched_inv_slots[OF inv b take_off_True(2)[OF y(5)], of "bk_count (sc_mem ?s b)"]
    by (simp add: upd_backend_def)
  moreover have "load (sy_done y) ?t = load (sy_done y) ?s" by (rule load_cong) (simp add: upd_backend_def)
  moreover have "session_ok ?t (NewSpdySession b index)"
    using b y(4) sched_invD(12)[OF inv b] by (simp add: session_ok_def NewSpdySession_def upd_backend_def)
  ultimately show ?thesis
    using y(1) by (auto simp: system_inv_def in_flight_def session_ok_def conns_def upd_backend_def)
qed

lemma fail_inv:
  assumes y: "system_inv U lw n y" "sy_fail y = x # xs"
  shows "\<exists>t. handle_fail x (sy_sched y) = Finished t \<and> system_inv U lw n (y\<lparr>sy_sched := t, sy_fail := xs\<rparr>)"
proof -
  let ?s = "sy_sched y"
  have inv: "sched_inv ?s (load (sy_done y) ?s)" and x: "session_ok ?s x"
    using y by (simp_all add: system_inv_def)
  from handle_fail_ok[OF inv x] obtain t where
    t: "handle_fail x ?s = Finished t" "sched_inv t (load (sy_done y) ?s)" "sched_frame ?s t"
    "sc_pending t = sc_pending ?s" "sc_running t = sc_running ?s" "sc_rejected t = sc_rejected ?s" "sc_pool t = sc_pool ?s" by blast
  have "load (sy_done y) t = load (sy_done y) ?s" by (rule load_cong[OF t(5)])
  then have "system_inv U lw n (y\<lparr>sy_sched := t, sy_fail := xs\<rparr>)"
    using y t by (auto simp: system_inv_def in_flight_def session_ok_def conns_def sched_frame_def)
  then show ?thesis using t(1) by blast
qed

subsection \<open>Reachable states\<close>

inductive_cases reachableE: "reachable shuffle U lw tunnels y"

text \<open>The step rules read backwards, one fact per kind of step.\<close>

inductive_cases work_stepE: "work_step shuffle y z"
inductive_cases system_stepE: "system_step shuffle U y z"

lemma work_step_inv:
  assumes "work_step shuffle y z" "system_inv U lw n y" "finite U" "card U \<le> MaxForwarders"
  shows "system_inv U lw n z"
  using assms
proof (induction rule: work_step.induct)
  case (accept y k env)
  then show ?case
    using accept_inv[of U lw n y "\<lparr>rq_conn = k, rq_backend = None, rq_err = None\<rparr>" k env] by auto
next
  case (run_ends y qs q qs' res)
  then show ?case using run_ends_inv by blast
next
  case (take_done y q ds env)
  from done_inv[OF take_done(2,1), of env] obtain t where
    "finish env q (sy_sched y) = Finished t"
    "system_inv U lw n (y\<lparr>sy_sched := t, sy_done := ds,
       sy_ended := sy_ended y @ (if retried q then [] else [rq_conn q])\<rparr>)" by blast
  then show ?case by (simp only: schedule_event.simps final_state.simps)
next
  case (connected y xs x xs' net port x')
  then show ?case using connected_inv by blast
next
  case (take_ready y x xs env)
  then show ?case using ready_inv[of U lw n y x xs env] by (simp only: schedule_event.simps)
next
  case (stream_fails q y b index c ts)
  then show ?case using stream_fails_inv by blast
next
  case (take_fail y x xs env)
  then show ?case using fail_inv[of U lw n y x xs] by auto
qed

lemma system_step_inv:
  assumes "system_step shuffle U y z" "system_inv U lw n y" "finite U" "card U \<le> MaxForwarders"
  shows "system_inv U lw n z"
  using assms(1)
proof cases
  case work
  then show ?thesis by (rule work_step_inv[OF _ assms(2-4)])
next
  case (status known fresh perm st env)
  then show ?thesis using status_inv[OF assms(2), of known fresh perm st shuffle] by auto
qed

text \<open>Without tunnels there is no session, and no goroutine that waits for one.\<close>

lemma no_tunnel_no_session:
  assumes "system_inv U lw 0 y" "sched_inv (sy_sched y) c"
  shows "sc_creating (sy_sched y) = []" "sy_ready y = []" "sy_fail y = []"
proof -
  have no: "\<not> session_ok (sy_sched y) x" for x using assms(1) by (simp add: session_ok_def system_inv_def)
  have "set (sc_creating (sy_sched y)) = {}" using sched_invD(15)[OF assms(2)] no by (intro equals0I) metis
  moreover have "\<forall>x \<in> set (sy_ready y) \<union> set (sy_fail y). session_ok (sy_sched y) x"
    using assms(1) by (simp add: system_inv_def)
  then have "set (sy_ready y) \<union> set (sy_fail y) = {}" by (metis ex_in_conv no)
  ultimately show "sc_creating (sy_sched y) = []" "sy_ready y = []" "sy_fail y = []" by simp_all
qed

lemma reachable_inv:
  assumes "reachable shuffle U lw tunnels y" "finite U" "card U \<le> MaxForwarders"
  shows "system_inv U lw tunnels y"
  using assms by (induction rule: reachable.induct) (auto intro: start_inv system_step_inv)

lemmas reachable_sched = reachable_inv[unfolded system_inv_def]

text \<open>What the scheduler may be handed in a state.\<close>

definition pending_event :: "system \<Rightarrow> string set \<Rightarrow> event \<Rightarrow> bool" where
  "pending_event y U ev \<longleftrightarrow>
    (case ev of
       EvDone q \<Rightarrow> \<exists>ds. sy_done y = q # ds
     | EvStatus known fresh perm st \<Rightarrow> status_args (sy_sched y) known fresh perm st \<and> dom st \<subseteq> U
     | EvFail x \<Rightarrow> \<exists>xs. sy_fail y = x # xs
     | EvNew x \<Rightarrow> \<exists>xs. sy_ready y = x # xs
     | EvJob q \<Rightarrow> True)"

definition nil_session :: "event \<Rightarrow> bool" where
  "nil_session ev \<longleftrightarrow> (case ev of EvNew x \<Rightarrow> ss_spdy x = None | _ \<Rightarrow> False)"

lemma pending_event_finishes:
  assumes y: "system_inv U lw n y" and U: "finite U" "card U \<le> MaxForwarders" and ev: "pending_event y U ev"
  shows "finished (schedule_event shuffle env ev (sy_sched y)) \<longleftrightarrow> \<not> nil_session ev"
proof (cases ev)
  case (EvDone q)
  then show ?thesis using done_inv[OF y, of q _ env] ev by (auto simp: pending_event_def nil_session_def)
next
  case (EvStatus known fresh perm st)
  then show ?thesis using status_inv[OF y, of known fresh perm st shuffle] ev
    by (auto simp: pending_event_def nil_session_def)
next
  case (EvFail x)
  then show ?thesis using fail_inv[OF y] ev by (fastforce simp: pending_event_def nil_session_def)
next
  case (EvNew x)
  then show ?thesis using ready_inv[OF y _ U, of x _ env] ev
    by (auto simp: pending_event_def nil_session_def split: option.splits)
next
  case (EvJob q)
  then show ?thesis using accept_inv[OF y refl, of env q] by (auto simp: nil_session_def)
qed

end
