(* ===== verification/SchedulerExample.thy ===== *)
theory SchedulerExample
  imports SchedulerSystem
begin

text \<open>
  Two runs of the scheduler, step by step, on which the properties are applied: one without
  tunnels in which a dial fails and the request is forwarded to the other server, one with a
  tunnel whose set-up fails after the connection was made.
\<close>

subsection \<open>Without tunnels: a dial fails\<close>

definition ex_env :: sched_env where
  "ex_env = \<lparr>en_peek = (\<lambda>_. 0), en_now = 0, en_now' = 0\<rparr>"

definition ex_servers :: "string set" where
  "ex_servers = {''a'', ''b''}"

definition ex_message :: "string \<rightharpoonup> int" where
  "ex_message = [''a'' \<mapsto> 1, ''b'' \<mapsto> 1]"

definition ex_backend :: "string \<Rightarrow> int \<Rightarrow> uint \<Rightarrow> uint \<Rightarrow> uint64 \<Rightarrow> backend" where
  "ex_backend a i w n k = (FailChan (NewBackend a 0 w))\<lparr>bk_index := i, bk_ongoing := n, bk_count := k\<rparr>"

definition ex_sched :: "ref list \<Rightarrow> backend \<Rightarrow> backend \<Rightarrow> request list \<Rightarrow> sched" where
  "ex_sched bs a b rs =
    \<lparr>sc_pool = \<lparr>pl_backends = bs, pl_leastweight = False, pl_cap = MaxForwarders\<rparr>,
     sc_mem = (\<lambda>_. NewBackend '''' 0 0)(0 := a, 1 := b),
     sc_next = 2, sc_backendSeq = 2, sc_backends = [''a'' \<mapsto> 0, ''b'' \<mapsto> 1],
     sc_pending = [], sc_tunnels = 0, sc_checkTime = 0, sc_running = rs, sc_creating = [],
     sc_rejected = [], sc_spdyClosed = []\<rparr>"

definition ex_request :: "ref option \<Rightarrow> go_error option \<Rightarrow> request" where
  "ex_request b e = \<lparr>rq_conn = 7, rq_backend = b, rq_err = e\<rparr>"

definition ex_up :: system where
  "ex_up = (start False 0)\<lparr>sy_sched := ex_sched [0, 1] (ex_backend ''a'' 0 1 0 0) (ex_backend ''b'' 1 2 0 0) []\<rparr>"

definition ex_accepted :: system where
  "ex_accepted = ex_up\<lparr>sy_accepted := [7],
     sy_sched := ex_sched [1, 0] (ex_backend ''a'' 1 1 1 1) (ex_backend ''b'' 0 2 0 0) [ex_request (Some 0) None]\<rparr>"

definition ex_dial_failed :: system where
  "ex_dial_failed = ex_accepted\<lparr>sy_done := [ex_request (Some 0) (Some (OpError ''dial''))],
     sy_sched := ex_sched [1, 0] (ex_backend ''a'' 1 1 1 1) (ex_backend ''b'' 0 2 0 0) []\<rparr>"

definition ex_retried :: system where
  "ex_retried = ex_accepted\<lparr>sy_sched := ex_sched [1] (ex_backend ''a'' (- 1) 1 0 1) (ex_backend ''b'' 0 2 1 1)
     [ex_request (Some 1) (Some (OpError ''dial''))]\<rparr>"

definition ex_copied :: system where
  "ex_copied = ex_accepted\<lparr>sy_done := [ex_request (Some 1) (Some (OpError ''dial''))],
     sy_sched := ex_sched [1] (ex_backend ''a'' (- 1) 1 0 1) (ex_backend ''b'' 0 2 1 1) []\<rparr>"

lemmas ex_defs = dispatch_def PoolPop_def heap_pop_def pool_Len_def pool_Less_def pool_Swap_def pool_Pop_def
  push_backend_def PoolPush_def heap_push_def pool_Push_def set_pool_def set_index_def list_swap_def
  PoolRemove_def heap_remove_def remove_backend_def dec_ongoing_def finish_def
  inc_ongoing_def upd_backend_def check_stream_id_def SpdyCheckStreamId_def MaxForwardersPerBackend_def
  MaxForwarders_def ex_backend_def NewBackend_def FailChan_def ex_sched_def Let_def heap_up.simps heap_down.simps
  start_def NewScheduler_def handle_status_def status_new_def arrange_def new_backend_def
  nextBackendSequence_def AddBackend_def ex_message_def ex_env_def ex_request_def

lemma ex_sort: "sort [''a'', ''b''] = [''a'', ''b'']"
  by code_simp

lemma ex_is_perm [simp]: "is_perm [0, Suc 0] 2" "is_perm [0] (Suc 0)"
  by (auto simp: is_perm_def numeral_2_eq_2)

lemma ex_servers_ok [simp]: "finite ex_servers" "card ex_servers \<le> MaxForwarders"
  by (simp_all add: ex_servers_def MaxForwarders_def)

lemma ex_status_args: "status_args (sy_sched (start False 0)) [] [''a'', ''b''] [0, 1] ex_message"
  by (auto simp: status_args_def enumerates_def start_def NewScheduler_def ex_message_def
      MaxForwarders_def numeral_2_eq_2[symmetric])

lemma ex_up_eq: "schedule_event False ex_env (EvStatus [] [''a'', ''b''] [0, 1] ex_message) (sy_sched (start False 0)) =
    Finished (sy_sched ex_up)"
  by (simp add: ex_up_def ex_defs ex_sort fun_eq_iff)

lemma ex_accepted_eq: "schedule_event False ex_env (EvJob (ex_request None None)) (sy_sched ex_up) =
    Finished (sy_sched ex_accepted)"
  by (simp add: ex_up_def ex_accepted_def ex_defs fun_eq_iff)

lemma ex_retried_eq: "schedule_event False ex_env (EvDone (ex_request (Some 0) (Some (OpError ''dial''))))
    (sy_sched ex_dial_failed) = Finished (sy_sched ex_retried)"
  by (simp add: ex_dial_failed_def ex_accepted_def ex_retried_def ex_defs fun_eq_iff)

lemma ex_up_reachable: "reachable False ex_servers False 0 ex_up"
proof -
  have "system_step False ex_servers (start False 0)
      (start False 0\<lparr>sy_sched := final_state (schedule_event False ex_env
        (EvStatus [] [''a'', ''b''] [0, 1] ex_message) (sy_sched (start False 0)))\<rparr>)"
    by (rule system_step.status[OF ex_status_args]) (simp add: ex_message_def ex_servers_def)
  then have "system_step False ex_servers (start False 0) ex_up"
    by (simp only: ex_up_eq final_state.simps) (simp add: ex_up_def)
  then show ?thesis by (rule reachable.step[OF reachable.init])
qed

lemma ex_accepted_reachable: "reachable False ex_servers False 0 ex_accepted"
proof -
  have "system_step False ex_servers ex_up
      (ex_up\<lparr>sy_sched := final_state (schedule_event False ex_env
          (EvJob \<lparr>rq_conn = 7, rq_backend = None, rq_err = None\<rparr>) (sy_sched ex_up)),
        sy_accepted := sy_accepted ex_up @ [7]\<rparr>)"
    by (rule system_step.work, rule work_step.accept)
  then have "system_step False ex_servers ex_up ex_accepted"
    by (simp only: ex_accepted_eq[unfolded ex_request_def] final_state.simps)
      (simp add: ex_up_def ex_accepted_def start_def)
  then show ?thesis by (rule reachable.step[OF ex_up_reachable])
qed

lemma ex_dial_failed_reachable: "reachable False ex_servers False 0 ex_dial_failed"
proof -
  have "system_step False ex_servers ex_accepted
      (ex_accepted\<lparr>sy_sched := (sy_sched ex_accepted)\<lparr>sc_running := [] @ []\<rparr>,
        sy_done := sy_done ex_accepted @ [run_end (Inl (OpError ''dial'')) (ex_request (Some 0) None)]\<rparr>)"
    by (rule system_step.work, rule work_step.run_ends) (simp add: ex_accepted_def ex_sched_def)
  then have "system_step False ex_servers ex_accepted ex_dial_failed"
    by (simp add: ex_accepted_def ex_dial_failed_def ex_sched_def ex_request_def ex_up_def start_def)
  then show ?thesis by (rule reachable.step[OF ex_accepted_reachable])
qed

lemma ex_retried_reachable: "reachable False ex_servers False 0 ex_retried"
proof -
  have "sy_done ex_dial_failed = [ex_request (Some 0) (Some (OpError ''dial''))]"
    by (simp add: ex_dial_failed_def)
  from system_step.work[OF work_step.take_done[OF this, of False ex_env], of ex_servers]
  have "system_step False ex_servers ex_dial_failed ex_retried"
    by (simp only: ex_retried_eq final_state.simps)
      (simp add: ex_dial_failed_def ex_retried_def ex_accepted_def ex_up_def start_def retried_def ex_request_def)
  then show ?thesis by (rule reachable.step[OF ex_dial_failed_reachable])
qed

lemma ex_copied_reachable: "reachable False ex_servers False 0 ex_copied"
proof -
  have "system_step False ex_servers ex_retried
      (ex_retried\<lparr>sy_sched := (sy_sched ex_retried)\<lparr>sc_running := [] @ []\<rparr>,
        sy_done := sy_done ex_retried @
          [run_end (Inr [None, None]) (ex_request (Some 1) (Some (OpError ''dial'')))]\<rparr>)"
    by (rule system_step.work, rule work_step.run_ends) (simp add: ex_retried_def ex_sched_def)
  then have "system_step False ex_servers ex_retried ex_copied"
    by (simp add: ex_accepted_def ex_retried_def ex_copied_def ex_sched_def ex_request_def ex_up_def start_def)
  then show ?thesis by (rule reachable.step[OF ex_retried_reachable])
qed

subsection \<open>With a tunnel: the ping of the new connection fails\<close>

definition ex_session :: "conn_tunnel option \<Rightarrow> spdy_session" where
  "ex_session t = \<lparr>ss_backend = 0, ss_spdy = t, ss_connindex = 0\<rparr>"

definition ex_tunnel :: conn_tunnel where
  "ex_tunnel = \<lparr>tn_conn = Some 5, tn_tcpAddr = Some ''l'', tn_switching = False\<rparr>"

definition ex_tsched :: "spdy_session list \<Rightarrow> sched" where
  "ex_tsched cr = (sy_sched (start False 1))\<lparr>sc_mem := (\<lambda>_. NewBackend '''' 0 0)(0 := FailChan (NewBackend ''a'' 1 1)),
     sc_next := 1, sc_backendSeq := 1, sc_creating := cr\<rparr>"

definition ex_peer :: "string option \<Rightarrow> peer" where
  "ex_peer ping = \<lparr>pr_conn = 4, pr_tcpAddr = Some ''l'', pr_spdy = Inr 5, pr_ping = ping\<rparr>"

definition ex_creating :: system where
  "ex_creating = (start False 1)\<lparr>sy_sched := ex_tsched [ex_session None]\<rparr>"

definition ex_pinged :: "conn_tunnel option \<Rightarrow> system" where
  "ex_pinged t = (start False 1)\<lparr>sy_sched := ex_tsched [], sy_ready := [ex_session t]\<rparr>"

lemma ex_creating_reachable: "reachable False ex_servers False 1 ex_creating"
proof -
  have args: "status_args (sy_sched (start False 1)) [] [''a''] [0] [''a'' \<mapsto> 1]"
    by (auto simp: status_args_def enumerates_def start_def NewScheduler_def MaxForwarders_def)
  have "schedule_event False ex_env (EvStatus [] [''a''] [0] [''a'' \<mapsto> 1]) (sy_sched (start False 1)) =
      Finished (ex_tsched [ex_session None])"
    by (simp add: ex_tsched_def ex_session_def ex_defs NewSpdySession_def)
  then have "system_step False ex_servers (start False 1) ex_creating"
    using system_step.status[OF args, of ex_servers False ex_env]
    by (simp add: ex_creating_def ex_servers_def)
  then show ?thesis by (rule reachable.step[OF reachable.init])
qed

lemma ex_pinged_reachable:
  fixes ping :: "string option"
  assumes "t = None \<and> ping \<noteq> None \<or> t = Some ex_tunnel \<and> ping = None"
  shows "reachable False ex_servers False 1 (ex_pinged t)"
proof -
  let ?net = "\<lambda>n addr. Inr (ex_peer ping)"
  have "NewStreamConn (?net 0) (hd (Split ''a'' '':'')) ''6900'' = Inr t"
    using assms by (auto simp: NewStreamConn_def NewConnTunnel_def ex_peer_def ex_tunnel_def)
  from create_session_step(2)[of ?net 0, OF this]
  have "CreateSpdySession ?net ''6900'' (sc_mem (sy_sched ex_creating)) (ex_session None) = Some (ex_session t)"
    by (simp add: CreateSpdySession_def ex_session_def ex_creating_def ex_tsched_def FailChan_def NewBackend_def)
  from system_step.work[OF work_step.connected[OF _ this, of "[]" "[]" False], of ex_servers]
  have "system_step False ex_servers ex_creating (ex_pinged t)"
    by (simp add: ex_creating_def ex_tsched_def ex_pinged_def start_def)
  then show ?thesis by (rule reachable.step[OF ex_creating_reachable])
qed

end
