(* ===== verification/SchedulerProps.thy ===== *)
theory SchedulerProps
  imports SchedulerExample
begin

text \<open>
  What holds in every state the scheduler can reach together with the goroutines around it, for a
  configuration of at most 8192 servers.
\<close>

subsection \<open>Counting\<close>

lemma reachable_load:
  assumes "reachable shuffle U lw tunnels y" "finite U" "card U \<le> MaxForwarders"
  shows "sched_inv (sy_sched y) (load (sy_done y) (sy_sched y))"
  using reachable_inv[OF assms] by (simp add: system_inv_def)

text \<open>C1. A backend's \<open>ongoing\<close> counter is, at every moment, the number of requests being forwarded
  to it or forwarded and not yet taken from the \<open>done\<close> channel. It is at most 4096, so it neither
  overflows nor is ever decreased below zero.\<close>

theorem ongoing_counts_requests:
  assumes "reachable shuffle U lw tunnels y" "finite U" "card U \<le> MaxForwarders"
    and "r < sc_next (sy_sched y)"
  shows "unat (bk_ongoing (sc_mem (sy_sched y) r)) = count_list (map rq_backend (in_flight y)) (Some r) \<and>
    bk_ongoing (sc_mem (sy_sched y) r) \<le> MaxForwardersPerBackend"
proof -
  have "unat (bk_ongoing (sc_mem (sy_sched y) r)) = load (sy_done y) (sy_sched y) r"
    "load (sy_done y) (sy_sched y) r \<le> unat MaxForwardersPerBackend"
    using sched_invD(13,14)[OF reachable_load[OF assms(1-3)] assms(4)] by auto
  then show ?thesis by (simp add: load_def in_flight_def word_le_nat_alt)
qed

theorem ongoing_counts_requests_witness:
  "unat (bk_ongoing (sc_mem (sy_sched ex_accepted) 0)) = 1 \<and>
   count_list (map rq_backend (in_flight ex_accepted)) (Some 0) = 1"
  using ongoing_counts_requests[OF ex_accepted_reachable ex_servers_ok, of 0]
  by (simp add: ex_accepted_def ex_sched_def in_flight_def ex_request_def ex_up_def start_def)

text \<open>C2. No connection is lost or duplicated: those accepted so far are, as a multiset, the ones being
  forwarded, waiting in the \<open>done\<close> channel, waiting for a backend, refused, and ended.\<close>

theorem connections_conserved:
  assumes "reachable shuffle U lw tunnels y" "finite U" "card U \<le> MaxForwarders"
  shows "mset (sy_accepted y) =
    mset (map rq_conn (sc_running (sy_sched y))) + mset (map rq_conn (sy_done y)) +
    mset (map rq_conn (sc_pending (sy_sched y))) + mset (sc_rejected (sy_sched y)) + mset (sy_ended y)"
  using reachable_inv[OF assms] by (simp add: system_inv_def conns_def)

theorem connections_conserved_witness:
  "mset (sy_accepted ex_copied) = mset (map rq_conn (sc_running (sy_sched ex_copied))) +
    mset (map rq_conn (sy_done ex_copied)) + mset (map rq_conn (sc_pending (sy_sched ex_copied))) +
    mset (sc_rejected (sy_sched ex_copied)) + mset (sy_ended ex_copied) \<and>
   sy_accepted ex_copied = [7]"
  using connections_conserved[OF ex_copied_reachable ex_servers_ok]
  by (simp add: ex_copied_def ex_accepted_def)

subsection \<open>Panics\<close>

text \<open>C6. Of all the events the scheduler may be handed in a reachable state, exactly those panic that
  deliver a session whose tunnel is nil; in particular the pool never runs out of its capacity and
  no position taken from a backend is out of the pool's range.\<close>

theorem panics_only_on_nil_session:
  assumes "reachable shuffle U lw tunnels y" "finite U" "card U \<le> MaxForwarders"
    and "pending_event y U ev"
  shows "finished (schedule_event shuffle env ev (sy_sched y)) \<longleftrightarrow> \<not> nil_session ev"
  by (rule pending_event_finishes[OF reachable_inv[OF assms(1-3)] assms(2-4)])

theorem panics_only_on_nil_session_witness:
  "finished (schedule_event False ex_env (EvDone (ex_request (Some 1) (Some (OpError ''dial'')))) (sy_sched ex_copied)) \<and>
   \<not> finished (schedule_event False ex_env (EvNew (ex_session None)) (sy_sched (ex_pinged None)))"
proof
  have "pending_event ex_copied ex_servers (EvDone (ex_request (Some 1) (Some (OpError ''dial''))))"
    by (simp add: pending_event_def ex_copied_def)
  from panics_only_on_nil_session[OF ex_copied_reachable ex_servers_ok this]
  show "finished (schedule_event False ex_env (EvDone (ex_request (Some 1) (Some (OpError ''dial'')))) (sy_sched ex_copied))"
    by (simp add: nil_session_def)
  have "pending_event (ex_pinged None) ex_servers (EvNew (ex_session None))"
    by (simp add: pending_event_def ex_pinged_def)
  from panics_only_on_nil_session[OF ex_pinged_reachable[of _ "Some ''eof''"] ex_servers_ok this]
  show "\<not> finished (schedule_event False ex_env (EvNew (ex_session None)) (sy_sched (ex_pinged None)))"
    by (simp add: nil_session_def ex_session_def)
qed

text \<open>What a session without a tunnel does: the connection that its slot held is closed, then the
  handler panics and leaves every backend as it was, the slot's \<open>switching\<close> mark included; while
  the mark is set, no failure of that slot starts a new session.\<close>

theorem nil_session_leaves_slot:
  assumes "session_ok s x" "sched_inv s c" "ss_spdy x = None"
    and "tn_switching (bk_tunnel (sc_mem s (ss_backend x)) ! unat (ss_connindex x))"
    and "ss_backend z = ss_backend x" "ss_connindex z = ss_connindex x"
  shows "\<exists>s'. handle_new env x s = Panicked NilPointer s' \<and> sc_mem s' = sc_mem s \<and>
    sc_backends s' = sc_backends s \<and>
    sc_spdyClosed s' = sc_spdyClosed s @
      (case tn_conn (bk_tunnel (sc_mem s (ss_backend x)) ! unat (ss_connindex x)) of None \<Rightarrow> [] | Some k \<Rightarrow> [k]) \<and>
    handle_fail z s' = Finished s'"
proof -
  have b: "ss_backend x < sc_next s" using assms(1) by (simp add: session_ok_def)
  have "unat (ss_connindex x) < length (bk_tunnel (sc_mem s (ss_backend x)))"
    using sched_invD(11,12)[OF assms(2) b] assms(1) by (simp add: backend_wf_def session_ok_def)
  then show ?thesis
    using assms(3-) by (simp add: handle_new_def SwitchSpdyConn_def handle_fail_def Let_def)
qed

definition ex_switching :: sched where
  "ex_switching = upd_backend 0 (set_slot 0 (\<lambda>t. t\<lparr>tn_conn := Some 9, tn_switching := True\<rparr>)) (sy_sched (ex_pinged None))"

lemma ex_switching_inv: "sched_inv ex_switching (load [] (sy_sched (ex_pinged None)))"
proof -
  have "sched_inv (sy_sched (ex_pinged None)) (load [] (sy_sched (ex_pinged None)))"
    using reachable_load[OF ex_pinged_reachable[of None "Some ''eof''"] ex_servers_ok]
    by (simp add: ex_pinged_def start_def)
  then show ?thesis
    unfolding ex_switching_def by (rule sched_inv_slot) (simp add: ex_pinged_def ex_tsched_def)
qed

lemma ex_switching_slot:
  "session_ok ex_switching (ex_session None)" "tn_switching (bk_tunnel (sc_mem ex_switching 0) ! 0)"
  "tn_conn (bk_tunnel (sc_mem ex_switching 0) ! 0) = Some 9"
  by (simp_all add: session_ok_def ex_session_def ex_switching_def upd_backend_def ex_pinged_def ex_tsched_def
      start_def NewScheduler_def set_slot_def FailChan_def NewBackend_def)

theorem nil_session_leaves_slot_witness:
  "\<exists>s'. handle_new ex_env (ex_session None) ex_switching = Panicked NilPointer s' \<and>
     sc_spdyClosed s' = [9] \<and> handle_fail (ex_session None) s' = Finished s'"
proof -
  have "tn_switching (bk_tunnel (sc_mem ex_switching (ss_backend (ex_session None))) !
      unat (ss_connindex (ex_session None)))"
    using ex_switching_slot by (simp add: ex_session_def)
  from nil_session_leaves_slot[OF ex_switching_slot(1) ex_switching_inv _ this refl refl, of ex_env]
  obtain s' where s': "handle_new ex_env (ex_session None) ex_switching = Panicked NilPointer s'"
    "sc_spdyClosed s' = sc_spdyClosed ex_switching @ (case tn_conn (bk_tunnel (sc_mem ex_switching
        (ss_backend (ex_session None))) ! unat (ss_connindex (ex_session None))) of None \<Rightarrow> [] | Some k \<Rightarrow> [k])"
    "handle_fail (ex_session None) s' = Finished s'" by (auto simp: ex_session_def)
  then have "sc_spdyClosed s' = [9]"
    using ex_switching_slot(3)
    by (simp add: ex_session_def) (simp add: ex_switching_def upd_backend_def ex_pinged_def ex_tsched_def
      start_def NewScheduler_def)
  with s' show ?thesis by blast
qed

subsection \<open>Choosing a backend\<close>

lemma key_of_le:
  "key_of lw a \<le> key_of lw b \<longleftrightarrow> (if lw then bk_weight a \<le> bk_weight b else bk_ongoing a \<le> bk_ongoing b)"
  by (simp add: key_of_def)

text \<open>C7. A request that arrives while the pool is not empty goes to a backend of the pool that carries
  the fewest requests, or in failover mode to one of least weight, unless that backend already
  carries 4096: then the connection is closed. Nothing else happens to the queues.\<close>

theorem dispatch_picks_least:
  assumes "reachable shuffle U lw tunnels y" "finite U" "card U \<le> MaxForwarders"
    and "pooled (sy_sched y) \<noteq> {}"
  shows "\<exists>t. \<exists>b \<in> pooled (sy_sched y). dispatch env q (sy_sched y) = Finished t \<and>
    (\<forall>r \<in> pooled (sy_sched y).
       if lw then bk_weight (sc_mem (sy_sched y) b) \<le> bk_weight (sc_mem (sy_sched y) r)
       else bk_ongoing (sc_mem (sy_sched y) b) \<le> bk_ongoing (sc_mem (sy_sched y) r)) \<and>
    pooled t = pooled (sy_sched y) \<and> sc_pending t = sc_pending (sy_sched y) \<and>
    (if bk_ongoing (sc_mem (sy_sched y) b) \<ge> MaxForwardersPerBackend
     then sc_rejected t = sc_rejected (sy_sched y) @ [rq_conn q] \<and> sc_running t = sc_running (sy_sched y)
     else sc_rejected t = sc_rejected (sy_sched y) \<and>
          sc_running t = sc_running (sy_sched y) @ [q\<lparr>rq_backend := Some b\<rparr>])"
proof -
  have lw: "pl_leastweight (sc_pool (sy_sched y)) = lw"
    using reachable_inv[OF assms(1-3)] by (simp add: system_inv_def)
  from dispatch_ok[OF reachable_load[OF assms(1-3)], of env q] obtain t c' where
    t: "dispatch env q (sy_sched y) = Finished t"
    "dispatched q (sy_sched y) (load (sy_done y) (sy_sched y)) t c'" by blast
  from t(2) assms(4) obtain b where b: "b \<in> pooled (sy_sched y)"
    "\<forall>r \<in> pooled (sy_sched y). key_of lw (sc_mem (sy_sched y) b) \<le> key_of lw (sc_mem (sy_sched y) r)"
    "pooled t = pooled (sy_sched y)" "sc_pending t = sc_pending (sy_sched y)"
    "MaxForwardersPerBackend \<le> bk_ongoing (sc_mem (sy_sched y) b) \<and> sc_running t = sc_running (sy_sched y) \<and>
       sc_rejected t = sc_rejected (sy_sched y) @ [rq_conn q] \<or>
     bk_ongoing (sc_mem (sy_sched y) b) < MaxForwardersPerBackend \<and>
       sc_running t = sc_running (sy_sched y) @ [q\<lparr>rq_backend := Some b\<rparr>] \<and> sc_rejected t = sc_rejected (sy_sched y)"
    unfolding dispatched_def lw by auto
  then show ?thesis
    using t(1) by (intro exI[of _ t] bexI[of _ b]) (auto simp: key_of_le)
qed

theorem dispatch_picks_least_witness:
  "\<exists>t. \<exists>b \<in> {0, 1}. dispatch ex_env (ex_request None None) (sy_sched ex_accepted) = Finished t \<and>
    bk_ongoing (sc_mem (sy_sched ex_accepted) b) \<le> bk_ongoing (sc_mem (sy_sched ex_accepted) 1) \<and>
    pooled t = {0, 1}"
proof -
  have "pooled (sy_sched ex_accepted) = {0, 1}" by (auto simp: ex_accepted_def ex_sched_def)
  then show ?thesis
    using dispatch_picks_least[OF ex_accepted_reachable ex_servers_ok, of ex_env "ex_request None None"] by auto
qed

text \<open>C12. With connections balanced by number, a connection is refused only when every backend of the
  pool carries 4096 requests; in failover mode the test is of the least weight alone.\<close>

theorem refused_iff_all_full:
  assumes "reachable shuffle U False tunnels y" "finite U" "card U \<le> MaxForwarders"
    and "pooled (sy_sched y) \<noteq> {}" and "dispatch env q (sy_sched y) = Finished t"
  shows "sc_rejected t \<noteq> sc_rejected (sy_sched y) \<longleftrightarrow>
    (\<forall>r \<in> pooled (sy_sched y). bk_ongoing (sc_mem (sy_sched y) r) = MaxForwardersPerBackend)"
proof -
  from dispatch_ok[OF reachable_load[OF assms(1-3)], of env q] assms(5) obtain c' where
    t: "dispatched q (sy_sched y) (load (sy_done y) (sy_sched y)) t c'" by auto
  have lw: "pl_leastweight (sc_pool (sy_sched y)) = False"
    using reachable_inv[OF assms(1-3)] by (simp add: system_inv_def)
  have le: "bk_ongoing (sc_mem (sy_sched y) r) \<le> MaxForwardersPerBackend" if "r \<in> pooled (sy_sched y)" for r
    using sched_invD(13,14)[OF reachable_load[OF assms(1-3)]] pooled_backend[OF reachable_load[OF assms(1-3)] that]
    by (simp add: word_le_nat_alt)
  from t assms(4) obtain b where b: "b \<in> pooled (sy_sched y)"
    "\<forall>r \<in> pooled (sy_sched y). bk_ongoing (sc_mem (sy_sched y) b) \<le> bk_ongoing (sc_mem (sy_sched y) r)"
    "MaxForwardersPerBackend \<le> bk_ongoing (sc_mem (sy_sched y) b) \<and>
       sc_rejected t = sc_rejected (sy_sched y) @ [rq_conn q] \<or>
     bk_ongoing (sc_mem (sy_sched y) b) < MaxForwardersPerBackend \<and> sc_rejected t = sc_rejected (sy_sched y)"
    unfolding dispatched_def lw key_of_le by auto
  show ?thesis
  proof (cases "MaxForwardersPerBackend \<le> bk_ongoing (sc_mem (sy_sched y) b)")
    case True
    have "bk_ongoing (sc_mem (sy_sched y) r) = MaxForwardersPerBackend" if "r \<in> pooled (sy_sched y)" for r
      by (rule antisym[OF le[OF that] order_trans[OF True bspec[OF b(2) that]]])
    moreover have "sc_rejected t = sc_rejected (sy_sched y) @ [rq_conn q]"
      using b(3) leD[OF True] by blast
    ultimately show ?thesis by simp
  next
    case False
    then have "bk_ongoing (sc_mem (sy_sched y) b) \<noteq> MaxForwardersPerBackend" by auto
    moreover have "sc_rejected t = sc_rejected (sy_sched y)" using b(3) False by blast
    ultimately show ?thesis using b(1) by auto
  qed
qed

theorem refused_iff_all_full_witness:
  "\<exists>t. dispatch ex_env (ex_request None None) (sy_sched ex_accepted) = Finished t \<and> sc_rejected t = []"
proof -
  obtain t where t: "dispatch ex_env (ex_request None None) (sy_sched ex_accepted) = Finished t"
    using dispatch_ok[OF reachable_load[OF ex_accepted_reachable ex_servers_ok]] by blast
  have p: "pooled (sy_sched ex_accepted) \<noteq> {}" and r: "1 \<in> pooled (sy_sched ex_accepted)"
    "bk_ongoing (sc_mem (sy_sched ex_accepted) 1) \<noteq> MaxForwardersPerBackend" "sc_rejected (sy_sched ex_accepted) = []"
    by (simp_all add: ex_accepted_def ex_sched_def ex_backend_def MaxForwardersPerBackend_def)
  from refused_iff_all_full[OF ex_accepted_reachable ex_servers_ok p t] r have "sc_rejected t = []" by auto
  with t show ?thesis by blast
qed

subsection \<open>Status messages\<close>








text \<open>In failover mode with \<open>-shuffle=false\<close> the servers are tried in the order of their addresses:
  after the first status message a request goes to the server with the least one.\<close>

theorem failover_prefers_least_address:
  assumes "status_args (sy_sched (start True 0)) known fresh perm st" "dom st \<noteq> {}"
  shows "\<exists>t t' b. handle_status False known fresh perm st (sy_sched (start True 0)) = Finished t \<and>
    dispatch env q t = Finished t' \<and> sc_running t' = [q\<lparr>rq_backend := Some b\<rparr>] \<and>
    bk_address (sc_mem t' b) = Min (dom st)"
proof -
  let ?s = "sy_sched (start True 0)"
  define as where "as = sort fresh"
  have inv: "sched_inv ?s (load [] ?s)"
    using start_inv[of UNIV True 0] by (simp add: system_inv_def start_def)
  have s: "sc_tunnels ?s = 0" "sc_next ?s = 0" "sc_backendSeq ?s = 0" "sc_running ?s = []" "sc_rejected ?s = []"
    "pl_leastweight (sc_pool ?s)" "sc_pending ?s = []" "sc_backends ?s = Map.empty"
    by (simp_all add: start_def NewScheduler_def)
  have z: "load [] ?s r = 0" for r by (simp add: load_def s)
  have as: "distinct as" "set as = dom st" "sorted as"
    using status_argsD(1,2)[OF assms(1), of False] s by (simp_all add: arrange_def as_def)
  from status_direct[OF inv s(1) assms(1), of False] obtain s1 t where
    t: "handle_status False known fresh perm st ?s = Finished t" "sched_inv t (load [] ?s)" "known_frame ?s s1"
    "grown s1 as False t" "dom (sc_backends t) = dom st" "pooled t = ran (sc_backends t)"
    by (auto simp: arrange_def as_def)
  have f: "sc_next t = length as" "sc_running t = []" "pl_leastweight (sc_pool t)"
    "\<And>i. i < length as \<Longrightarrow> bk_address (sc_mem t i) = as ! i \<and> bk_weight (sc_mem t i) = of_nat (Suc i)"
    using t(3,4) s by (auto simp: grown_def known_frame_def same_lists_def)
  have len: "length as = card (dom st)" using as(1,2) distinct_card by metis
  then have small: "length as \<le> 8192" using assms(1) by (simp add: status_args_def MaxForwarders_def)
  have ne: "as \<noteq> []" using as(2) assms(2) by (metis empty_set)
  have in_pool: "0 \<in> pooled t"
  proof -
    have "as ! 0 \<in> set as" using ne by simp
    then have "as ! 0 \<in> dom (sc_backends t)" using as(2) t(5) by simp
    then obtain r where r: "sc_backends t (as ! 0) = Some r" by auto
    have "r < length as" using sched_invD(6)[OF t(2) r] f(1) by simp
    moreover have "as ! r = as ! 0" using sched_invD(7)[OF t(2) r] f(4) calculation by simp
    ultimately have "r = 0" using as(1) ne by (simp add: nth_eq_iff_index_eq)
    then show ?thesis using r t(6) by (auto intro: ranI)
  qed
  from dispatch_ok[OF t(2), of env q] obtain t' c' where
    d: "dispatch env q t = Finished t'" "dispatched q t (load [] ?s) t' c'" by blast
  from d(2) in_pool f(2,3) obtain b where b: "b \<in> pooled t"
    "bk_weight (sc_mem t b) \<le> bk_weight (sc_mem t 0)" "sched_frame t t'"
    "MaxForwardersPerBackend \<le> bk_ongoing (sc_mem t b) \<or> sc_running t' = [q\<lparr>rq_backend := Some b\<rparr>]"
    unfolding dispatched_def by (auto simp: key_of_le)
  have lt: "b < sc_next t" by (rule pooled_backend[OF t(2) b(1)])
  have "bk_ongoing (sc_mem t b) = 0"
    using sched_invD(13)[OF t(2) lt] z by (simp add: unat_eq_zero)
  then have "sc_running t' = [q\<lparr>rq_backend := Some b\<rparr>]"
    using b(4) by (simp add: MaxForwardersPerBackend_def)
  moreover have "b = 0"
  proof -
    have "(of_nat (Suc b) :: uint) \<le> 1" using b(2) f(1,4) lt ne by simp
    moreover have "unat (of_nat (Suc b) :: uint) = Suc b"
      using lt f(1) small by (intro unat_of_nat_small[where x = 10000]) simp
    ultimately show ?thesis by (simp add: word_le_nat_alt)
  qed
  moreover have "bk_address (sc_mem t' 0) = Min (dom st)"
  proof -
    have "bk_address (sc_mem t' 0) = as ! 0" using b(3) f(4)[of 0] ne by (simp add: sched_frame_def)
    also have "\<dots> = Min (set as)" using ne as(3) by (cases as) (auto simp: Min_insert2)
    finally show ?thesis by (simp add: as(2))
  qed
  ultimately show ?thesis using t(1) d(1) by blast
qed

theorem failover_prefers_least_address_witness:
  "\<exists>t t' b. handle_status False [] [''b'', ''a''] [0, Suc 0] ex_message (sy_sched (start True 0)) = Finished t \<and>
    dispatch ex_env (ex_request None None) t = Finished t' \<and> bk_address (sc_mem t' b) = ''a''"
proof -
  have "status_args (sy_sched (start True 0)) [] [''b'', ''a''] [0, Suc 0] ex_message"
    by (auto simp: status_args_def enumerates_def start_def NewScheduler_def ex_message_def
      MaxForwarders_def numeral_2_eq_2[symmetric])
  moreover have "dom ex_message \<noteq> {}" "Min (dom ex_message) = ''a''"
  proof -
    have "Min {''a'', ''b''} = ''a''" by code_simp
    then show "dom ex_message \<noteq> {}" "Min (dom ex_message) = ''a''"
      by (simp_all add: ex_message_def insert_commute)
  qed
  ultimately show ?thesis
    using failover_prefers_least_address[of "[]" "[''b'', ''a'']" "[0, Suc 0]" ex_message ex_env "ex_request None None"]
    by metis
qed

subsection \<open>Waiting requests\<close>

text \<open>C13. When the first working session of a server that is not registered arrives, the server enters
  the register and the pool and no request is left waiting: each of those that waited is being
  forwarded or has been refused.\<close>

theorem first_session_drains:
  assumes "reachable shuffle U lw tunnels y" "finite U" "card U \<le> MaxForwarders"
    and "sy_ready y = x # xs" "ss_spdy x = Some tn"
    and "sc_backends (sy_sched y) (bk_address (sc_mem (sy_sched y) (ss_backend x))) = None"
  shows "\<exists>t. handle_new env x (sy_sched y) = Finished t \<and>
    sc_backends t = (sc_backends (sy_sched y))(bk_address (sc_mem (sy_sched y) (ss_backend x)) \<mapsto> ss_backend x) \<and>
    pooled t = insert (ss_backend x) (pooled (sy_sched y)) \<and> sc_pending t = [] \<and>
    mset (map rq_conn (sc_running t)) + mset (sc_rejected t) =
      mset (map rq_conn (sc_running (sy_sched y))) + mset (sc_rejected (sy_sched y)) +
      mset (map rq_conn (sc_pending (sy_sched y)))"
proof -
  note inv = reachable_load[OF assms(1-3)]
  have y: "system_inv U lw tunnels y" by (rule reachable_inv[OF assms(1-3)])
  then have x: "session_ok (sy_sched y) x" using assms(4) by (simp add: system_inv_def)
  let ?a = "bk_address (sc_mem (sy_sched y) (ss_backend x))"
  note room = register_room[OF y x assms(2,3)]
  from handle_new_ok[OF inv x assms(5) room, of env] assms(6) obtain t where
    t: "handle_new env x (sy_sched y) = Finished t" "conns t = conns (sy_sched y)"
    "sc_backends t = (sc_backends (sy_sched y))(?a \<mapsto> ss_backend x)"
    "pooled t = insert (ss_backend x) (pooled (sy_sched y))" "sc_pending t = []" by (auto simp: Let_def)
  then show ?thesis by (intro exI[of _ t]) (simp add: conns_def)
qed

theorem first_session_drains_witness:
  "\<exists>t. handle_new ex_env (ex_session (Some ex_tunnel)) (sy_sched (ex_pinged (Some ex_tunnel))) = Finished t \<and>
     sc_backends t = [''a'' \<mapsto> 0] \<and> pooled t = {0}"
proof -
  let ?y = "ex_pinged (Some ex_tunnel)"
  have r: "reachable False ex_servers False 1 ?y" by (rule ex_pinged_reachable[of _ None]) simp
  have a: "bk_address (sc_mem (sy_sched ?y) (ss_backend (ex_session (Some ex_tunnel)))) = ''a''"
    "sc_backends (sy_sched ?y) = Map.empty" "pooled (sy_sched ?y) = {}"
    by (simp_all add: ex_pinged_def ex_tsched_def ex_session_def FailChan_def NewBackend_def start_def NewScheduler_def)
  have "sy_ready ?y = [ex_session (Some ex_tunnel)]" "ss_spdy (ex_session (Some ex_tunnel)) = Some ex_tunnel"
    by (simp_all add: ex_pinged_def ex_session_def)
  from first_session_drains[OF r ex_servers_ok this, of ex_env] show ?thesis
    unfolding a by (auto simp: ex_session_def)
qed

lemma dispatched_pending:
  "dispatched q s c t c' \<Longrightarrow> \<exists>qs. sc_pending t = sc_pending s @ qs"
  unfolding dispatched_def by auto

text \<open>Without tunnels no session is ever under way.\<close>

text \<open>What finishing a request does to the pending ones: it may add the request, and takes none off.\<close>

lemma finish_keeps_pending:
  assumes inv: "sched_inv s c" and b: "rq_backend q = Some b" and pos: "0 < c b"
  shows "\<exists>t. finish env q s = Finished t \<and> (\<exists>qs. sc_pending t = sc_pending s @ qs)"
proof (cases "rq_err q")
  case None
  from finish_success[OF inv b None pos, of env] obtain t where
    "finish env q s = Finished t" "same_lists s t" by blast
  then show ?thesis by (simp add: same_lists_def)
next
  case (Some e)
  from finish_failure[OF inv b Some pos, of env] obtain s1 where
    s1: "sched_inv s1 (c(b := c b - 1))" "same_lists s s1"
    "finish env q s = (if e = OpError ''dial'' then dispatch env q s1 else Finished s1)" by blast
  from dispatch_ok[OF s1(1), of env q] obtain t c' where
    t: "dispatch env q s1 = Finished t" "dispatched q s1 (c(b := c b - 1)) t c'" by blast
  have "sc_pending s1 = sc_pending s" using s1(2) by (simp add: same_lists_def)
  then show ?thesis using s1(3) t(1) dispatched_pending[OF t(2)] by simp
qed

text \<open>C34. Without tunnels no step ever takes a request off the pending list: a request that arrives
  while no server is in the pool waits for ever, also after servers have come up.\<close>

theorem pending_never_drained:
  assumes "reachable shuffle U lw 0 y" "finite U" "card U \<le> MaxForwarders"
    and "system_step shuffle U y z"
  shows "\<exists>qs. sc_pending (sy_sched z) = sc_pending (sy_sched y) @ qs"
proof -
  have y: "system_inv U lw 0 y" by (rule reachable_inv[OF assms(1-3)])
  note inv = reachable_load[OF assms(1-3)]
  note none = no_tunnel_no_session[OF y inv]
  from assms(4) show ?thesis
  proof (cases rule: system_step.cases)
    case work
    then show ?thesis
    proof cases
      case (accept k env)
      from dispatch_ok[OF inv, of env "\<lparr>rq_conn = k, rq_backend = None, rq_err = None\<rparr>"] obtain t c' where
        "dispatch env \<lparr>rq_conn = k, rq_backend = None, rq_err = None\<rparr> (sy_sched y) = Finished t"
        "dispatched \<lparr>rq_conn = k, rq_backend = None, rq_err = None\<rparr> (sy_sched y) (load (sy_done y) (sy_sched y)) t c'"
        by blast
      then show ?thesis using dispatched_pending accept by fastforce
    next
      case (take_done q ds env)
      from y take_done(2) obtain b where b: "rq_backend q = Some b" by (auto simp: system_inv_def in_flight_def)
      have "0 < load (sy_done y) (sy_sched y) b" using take_done(2) b by (intro load_pos[where q = q]) simp_all
      from finish_keeps_pending[OF inv b this, of env] show ?thesis using take_done(1) by auto
    qed (simp_all add: none upd_backend_def)
  next
    case (status known fresh perm st env)
    from handle_status_ok[OF inv status(2), of shuffle] obtain s1 t where
      "handle_status shuffle known fresh perm st (sy_sched y) = Finished t"
      "known_frame (sy_sched y) s1" "grown s1 (arrange shuffle perm fresh) shuffle t" by blast
    then show ?thesis using status(1) by (simp add: known_frame_def grown_def same_lists_def)
  qed
qed

theorem pending_never_drained_witness:
  "\<exists>qs. sc_pending (sy_sched ex_retried) = sc_pending (sy_sched ex_dial_failed) @ qs"
proof -
  have "sy_done ex_dial_failed = [ex_request (Some 0) (Some (OpError ''dial''))]"
    by (simp add: ex_dial_failed_def)
  from system_step.work[OF work_step.take_done[OF this, of False ex_env], of ex_servers]
  have "system_step False ex_servers ex_dial_failed ex_retried"
    by (simp only: ex_retried_eq final_state.simps)
      (simp add: ex_dial_failed_def ex_retried_def ex_accepted_def ex_up_def start_def retried_def ex_request_def)
  from pending_never_drained[OF ex_dial_failed_reachable ex_servers_ok this] show ?thesis .
qed

subsection \<open>Errors\<close>

text \<open>Where a request goes when there is a server.\<close>

lemma dispatched_picks:
  "dispatched q s c t c' \<Longrightarrow> pooled s \<noteq> {} \<Longrightarrow> \<exists>b \<in> pooled s.
    (\<forall>r \<in> pooled s. key_of (pl_leastweight (sc_pool s)) (sc_mem s b) \<le> key_of (pl_leastweight (sc_pool s)) (sc_mem s r)) \<and>
    sc_pending t = sc_pending s \<and>
    (MaxForwardersPerBackend \<le> bk_ongoing (sc_mem s b) \<and> sc_running t = sc_running s \<and>
       sc_rejected t = sc_rejected s @ [rq_conn q] \<or>
     bk_ongoing (sc_mem s b) < MaxForwardersPerBackend \<and> sc_running t = sc_running s @ [q\<lparr>rq_backend := Some b\<rparr>] \<and>
       sc_rejected t = sc_rejected s)"
  unfolding dispatched_def by blast

lemma finish_error:
  assumes "reachable shuffle U lw tunnels y" "finite U" "card U \<le> MaxForwarders"
    and "sy_done y = q # ds" "rq_err q = Some (OpError ''dial'')" "rq_backend q = Some b"
  shows "\<exists>s1 c c' t. finish env q (sy_sched y) = Finished t \<and> pooled s1 = pooled (sy_sched y) - {b} \<and>
    pooled t = pooled (sy_sched y) - {b} \<and> same_lists (sy_sched y) s1 \<and> dispatched q s1 c t c' \<and>
    (\<forall>r \<in> pooled s1. key_of lw (sc_mem s1 r) = key_of lw (sc_mem (sy_sched y) r) \<and>
       bk_ongoing (sc_mem s1 r) = bk_ongoing (sc_mem (sy_sched y) r)) \<and> pl_leastweight (sc_pool s1) = lw"
proof -
  note inv = reachable_load[OF assms(1-3)]
  let ?c = "load (sy_done y) (sy_sched y)"
  have "0 < ?c b" using assms(4,6) by (intro load_pos[where q = q]) simp_all
  from finish_failure[OF inv assms(6,5) this, of env] obtain s1 where
    s1: "sched_inv s1 (?c(b := ?c b - 1))" "pooled s1 = pooled (sy_sched y) - {b}" "sched_frame (sy_sched y) s1"
    "same_lists (sy_sched y) s1" "finish env q (sy_sched y) = dispatch env q s1" by auto
  from dispatch_ok[OF s1(1), of env q] obtain t c' where
    t: "dispatch env q s1 = Finished t" "dispatched q s1 (?c(b := ?c b - 1)) t c'" by blast
  have on: "bk_ongoing (sc_mem s1 r) = bk_ongoing (sc_mem (sy_sched y) r)" if "r \<in> pooled s1" for r
  proof -
    have r: "r \<in> pooled (sy_sched y)" "r \<noteq> b" using that s1(2) by auto
    then show ?thesis
      using sched_invD(13)[OF inv] sched_invD(13)[OF s1(1)] pooled_backend[OF inv r(1)] pooled_backend[OF s1(1) that]
      by (simp add: word_unat_eq_iff)
  qed
  have lw: "pl_leastweight (sc_pool s1) = lw"
    using reachable_inv[OF assms(1-3)] s1(3) by (simp add: system_inv_def sched_frame_def)
  moreover have "key_of lw (sc_mem s1 r) = key_of lw (sc_mem (sy_sched y) r)" if "r \<in> pooled s1" for r
    using on[OF that] s1(3) by (simp add: key_of_def sched_frame_def)
  moreover have "pooled t = pooled (sy_sched y) - {b}" using t(2) s1(2) by (simp add: dispatched_def)
  ultimately show ?thesis using s1(2,4,5) t on by (intro exI[of _ s1] exI[of _ t]) auto
qed

text \<open>C14. A request whose dial failed is never retried on the same server: the server leaves the
  pool, and the request goes to the one of those left that comes first, with the fewest requests or in failover mode with
  the least weight. Only if that one carries 4096 requests is the connection closed, and only if no server is left does
  the request wait.\<close>

theorem failed_dial_is_retried_elsewhere:
  assumes "reachable shuffle U lw tunnels y" "finite U" "card U \<le> MaxForwarders"
    and "sy_done y = q # ds" "rq_err q = Some (OpError ''dial'')" "rq_backend q = Some b"
  shows "\<exists>t. finish env q (sy_sched y) = Finished t \<and> pooled t = pooled (sy_sched y) - {b} \<and>
    (if pooled (sy_sched y) - {b} = {}
     then sc_pending t = sc_pending (sy_sched y) @ [q] \<and> sc_running t = sc_running (sy_sched y) \<and>
       sc_rejected t = sc_rejected (sy_sched y)
     else sc_pending t = sc_pending (sy_sched y) \<and>
       (\<exists>b' \<in> pooled (sy_sched y) - {b}.
          (\<forall>r \<in> pooled (sy_sched y) - {b}.
             if lw then bk_weight (sc_mem (sy_sched y) b') \<le> bk_weight (sc_mem (sy_sched y) r)
             else bk_ongoing (sc_mem (sy_sched y) b') \<le> bk_ongoing (sc_mem (sy_sched y) r)) \<and>
          (if bk_ongoing (sc_mem (sy_sched y) b') \<ge> MaxForwardersPerBackend
           then sc_rejected t = sc_rejected (sy_sched y) @ [rq_conn q] \<and> sc_running t = sc_running (sy_sched y)
           else sc_rejected t = sc_rejected (sy_sched y) \<and>
                sc_running t = sc_running (sy_sched y) @ [q\<lparr>rq_backend := Some b'\<rparr>])))"
proof -
  let ?s = "sy_sched y"
  define R where R: "R = pooled (sy_sched y) - {b}"
  from finish_error[OF assms, of env, folded R] obtain s1 c c' t where
    t: "finish env q ?s = Finished t" "dispatched q s1 c t c'" and p: "pooled t = R" and s1: "pooled s1 = R" "same_lists ?s s1"
    "\<forall>r \<in> R. key_of lw (sc_mem s1 r) = key_of lw (sc_mem ?s r) \<and> bk_ongoing (sc_mem s1 r) = bk_ongoing (sc_mem ?s r)"
    "pl_leastweight (sc_pool s1) = lw" by auto
  have l: "sc_pending s1 = sc_pending ?s" "sc_running s1 = sc_running ?s" "sc_rejected s1 = sc_rejected ?s"
    using s1(2) by (simp_all add: same_lists_def)
  show ?thesis
  proof (cases "R = {}")
    case True
    then show ?thesis using t p l s1(1) unfolding R[symmetric] by (intro exI[of _ t]) (auto simp: dispatched_def)
  next
    case False
    with dispatched_picks[OF t(2)] obtain b' where b': "b' \<in> R" "\<forall>r \<in> R. key_of lw (sc_mem s1 b') \<le> key_of lw (sc_mem s1 r)"
      "sc_pending t = sc_pending ?s"
      "MaxForwardersPerBackend \<le> bk_ongoing (sc_mem s1 b') \<and> sc_running t = sc_running ?s \<and>
         sc_rejected t = sc_rejected ?s @ [rq_conn q] \<or>
       bk_ongoing (sc_mem s1 b') < MaxForwardersPerBackend \<and>
         sc_running t = sc_running ?s @ [q\<lparr>rq_backend := Some b'\<rparr>] \<and> sc_rejected t = sc_rejected ?s"
      unfolding s1(1,4) l by blast
    have "\<forall>r \<in> R. key_of lw (sc_mem ?s b') \<le> key_of lw (sc_mem ?s r)" using b'(1,2) s1(3) by metis
    then have least: "\<forall>r \<in> R. if lw then bk_weight (sc_mem ?s b') \<le> bk_weight (sc_mem ?s r)
        else bk_ongoing (sc_mem ?s b') \<le> bk_ongoing (sc_mem ?s r)" by (simp only: key_of_le)
    have on: "bk_ongoing (sc_mem s1 b') = bk_ongoing (sc_mem ?s b')" using b'(1) s1(3) by blast
    have goes: "if bk_ongoing (sc_mem ?s b') \<ge> MaxForwardersPerBackend
        then sc_rejected t = sc_rejected ?s @ [rq_conn q] \<and> sc_running t = sc_running ?s
        else sc_rejected t = sc_rejected ?s \<and> sc_running t = sc_running ?s @ [q\<lparr>rq_backend := Some b'\<rparr>]" 
      using b'(4)[unfolded on] by (simp only: not_le[symmetric] split: if_split) blast
    show ?thesis unfolding R[symmetric]
      by (rule exI[of _ t]) (simp only: False if_False, intro conjI t(1) p b'(3) bexI[OF _ b'(1)] least goes)
  qed
qed

theorem failed_dial_is_retried_elsewhere_witness:
  "\<exists>t. finish ex_env (ex_request (Some 0) (Some (OpError ''dial''))) (sy_sched ex_dial_failed) = Finished t \<and>
     pooled t = {1} \<and> pooled (sy_sched ex_dial_failed) = {0, 1}"
proof -
  have p: "pooled (sy_sched ex_dial_failed) = {0, 1}" by (auto simp: ex_dial_failed_def ex_sched_def)
  have "sy_done ex_dial_failed = [ex_request (Some 0) (Some (OpError ''dial''))]"
    "rq_err (ex_request (Some 0) (Some (OpError ''dial''))) = Some (OpError ''dial'')"
    "rq_backend (ex_request (Some 0) (Some (OpError ''dial''))) = Some 0"
    by (simp_all add: ex_dial_failed_def ex_request_def)
  from failed_dial_is_retried_elsewhere[OF ex_dial_failed_reachable ex_servers_ok this, of ex_env] show ?thesis
    unfolding p by auto
qed

text \<open>C35. The error of a failed dial stays with the request: when the retry succeeds and both copies
  end without error, the request is treated as failed again. The server that served it leaves the
  pool, and the request, whose connections are closed, is dispatched once more or waits.\<close>

theorem successful_retry_counts_as_failure:
  assumes "reachable shuffle U lw tunnels y" "finite U" "card U \<le> MaxForwarders"
    and "sy_done y = run_end (Inr [None, None]) q # ds"
    and "rq_err q = Some (OpError ''dial'')" "rq_backend q = Some b"
  shows "\<exists>t. finish env (run_end (Inr [None, None]) q) (sy_sched y) = Finished t \<and> b \<notin> pooled t \<and>
    conns t = add_mset (rq_conn q) (conns (sy_sched y))"
proof -
  have q: "run_end (Inr [None, None]) q = q" by simp
  from finish_error[OF assms(1-3) assms(4)[unfolded q] assms(5,6), of env] obtain t where
    t: "finish env q (sy_sched y) = Finished t" "pooled t = pooled (sy_sched y) - {b}" by metis
  have "system_inv U lw tunnels y" by (rule reachable_inv[OF assms(1-3)])
  from done_inv[OF this assms(4)[unfolded q], of env] t(1) assms(5)
  have "system_inv U lw tunnels (y\<lparr>sy_sched := t, sy_done := ds\<rparr>)" by (simp add: retried_def)
  then have "conns t + mset (map rq_conn ds) + mset (sy_ended y) =
      conns (sy_sched y) + mset (map rq_conn (sy_done y)) + mset (sy_ended y)"
    using \<open>system_inv U lw tunnels y\<close> by (simp add: system_inv_def)
  then have "conns t = add_mset (rq_conn q) (conns (sy_sched y))"
    using assms(4) by (simp add: q)
  with t show ?thesis by (simp add: q)
qed

theorem successful_retry_counts_as_failure_witness:
  "\<exists>t. finish ex_env (ex_request (Some 1) (Some (OpError ''dial''))) (sy_sched ex_copied) = Finished t \<and>
     1 \<notin> pooled t \<and> 1 \<in> pooled (sy_sched ex_copied)"
proof -
  let ?q = "ex_request (Some 1) (Some (OpError ''dial''))"
  have "sy_done ex_copied = [run_end (Inr [None, None]) ?q]" "rq_err ?q = Some (OpError ''dial'')"
    "rq_backend ?q = Some 1" by (simp_all add: ex_copied_def ex_request_def)
  from successful_retry_counts_as_failure[OF ex_copied_reachable ex_servers_ok this, of ex_env]
  show ?thesis by (auto simp: ex_copied_def ex_sched_def)
qed

text \<open>An error of a copy never reaches the scheduler: it clears the request's error instead.\<close>

theorem copy_errors_clear_the_error:
  "rq_err (run_end (Inr rs) q) = (if \<exists>e. Some e \<in> set rs then None else rq_err q)"
proof (induction rs arbitrary: q)
  case (Cons r rs)
  show ?case
  proof (cases r)
    case None
    then show ?thesis using Cons[of q] by simp
  next
    case (Some e)
    then show ?thesis using Cons[of "q\<lparr>rq_err := None\<rparr>"] by (auto split: if_splits)
  qed
qed simp

subsection \<open>The event loop\<close>

text \<open>C36. \<open>EventLoop\<close> handles every event it is given, in order; an event that panics is the only one
  whose handling is cut short, and the next event is handled from the state reached by then.\<close>

theorem EventLoop_handles_all:
  "EventLoop shuffle evs s = fold (\<lambda>(env, ev) s. final_state (schedule_event shuffle env ev s)) evs s"
proof (induction evs arbitrary: s rule: length_induct)
  case (1 evs)
  let ?f = "fold (\<lambda>(env, ev) s. final_state (schedule_event shuffle env ev s))"
  have run: "?f (fst (Schedule shuffle es s)) (snd (Schedule shuffle es s)) = ?f es s" for es s
    by (induction shuffle es s rule: Schedule.induct) (auto split: outcome.splits)
  show ?case
  proof (cases "evs = []")
    case True
    then show ?thesis by (simp add: EventLoop.simps)
  next
    case False
    obtain rest s' where p: "Schedule shuffle evs s = (rest, s')" by (cases "Schedule shuffle evs s")
    then have "length rest < length evs" using Schedule_shrinks[of rest s' shuffle evs s] False by simp
    then have "EventLoop shuffle rest s' = ?f rest s'" using 1 by blast
    then show ?thesis using False p run[of evs s] by (subst EventLoop.simps) simp
  qed
qed

end
