(* ===== verification/Config.thy ===== *)
theory Config
  imports GoStrings
begin

text \<open>
  config/config.go and config/listen.go: the configuration record, loading it and turning its
  listen URLs into addresses. The file system and the JSON decoder are arguments: \<open>decode\<close> gets the
  record with its defaults and returns what it has made of it and its error.
\<close>

subsection \<open>The configuration\<close>

record configuration =
  cf_Service :: string
  cf_ExtCommand :: string
  cf_User :: string
  cf_Pass :: string
  cf_Addr :: string
  cf_Port :: string
  cf_Listen :: "string list"
  cf_Backend :: "string list"

definition DEFAULT_UNIX_SOCKET :: string where
  "DEFAULT_UNIX_SOCKET = ''/var/lib/mysql/mysql.sock''"

definition CheckFile :: "(string \<Rightarrow> string option) \<Rightarrow> string \<Rightarrow> string option" where
  "CheckFile stat cfg =
    (if take 1 cfg = ''/'' then stat cfg
     else Some (''config file need to be specified with absolute path - '' @ cfg))"

definition AddListen :: "string \<Rightarrow> configuration \<Rightarrow> configuration" where
  "AddListen l c = c\<lparr>cf_Listen := cf_Listen c @ [l]\<rparr>"

definition default_config :: configuration where
  "default_config = \<lparr>cf_Service = ''galera'', cf_ExtCommand = '''', cf_User = '''', cf_Pass = '''',
     cf_Addr = ''127.0.0.1'', cf_Port = ''3306'', cf_Listen = [], cf_Backend = []\<rparr>"

definition LoadConfig ::
  "(string \<Rightarrow> string + 'f) \<Rightarrow> ('f \<Rightarrow> configuration \<Rightarrow> configuration \<times> string option) \<Rightarrow> string \<Rightarrow>
   configuration option \<times> string option"
where
  "LoadConfig open_file decode configFile =
    (case open_file configFile of
       Inl err \<Rightarrow> (None, Some err)
     | Inr file \<Rightarrow>
         (case decode file default_config of
            (config, err) \<Rightarrow>
              if cf_Addr config \<noteq> '''' then
                let tcpAddr = ''tcp://'' @ cf_Addr config @ '':'' @ cf_Port config in
                (Some (AddListen tcpAddr config), err)
              else (Some config, err)))"

text \<open>\<open>fmt.Sprintf("%v")\<close> of a slice of strings: the elements between brackets, separated by blanks.\<close>

definition show_slice :: "string list \<Rightarrow> string" where
  "show_slice xs = ''['' @ join '' '' xs @ '']''"

definition ListenInfo :: "configuration \<Rightarrow> string" where
  "ListenInfo c = ''Listen on '' @ show_slice (cf_Listen c) @ '', backend: '' @ show_slice (cf_Backend c)"

subsection \<open>Listen addresses\<close>

record listen_addr =
  la_Net :: string
  la_Addr :: string

fun parse_listen :: "string list \<Rightarrow> listen_addr list \<Rightarrow> listen_addr list \<times> string option" where
  "parse_listen [] laddrs = (laddrs, None)"
| "parse_listen (l # ls) laddrs =
    (let parts = SplitN l ''://'' 2 in
     if length parts \<noteq> 2 then (laddrs, Some (''incorrect listen addr '' @ l))
     else
       let net = parts ! 0; laddr = parts ! 1;
           laddr = (if net = ''unix'' \<and> (laddr = ''/'' \<or> laddr = ''default'') then DEFAULT_UNIX_SOCKET else laddr) in
       parse_listen ls (laddrs @ [\<lparr>la_Net = net, la_Addr = laddr\<rparr>]))"

definition GetListenAddrs :: "configuration \<Rightarrow> listen_addr list \<times> string option" where
  "GetListenAddrs c = parse_listen (cf_Listen c) []"

definition Listen :: "(string \<Rightarrow> string \<Rightarrow> string + nat) \<Rightarrow> listen_addr \<Rightarrow> string + nat" where
  "Listen net_listen l = net_listen (la_Net l) (la_Addr l)"

text \<open>The URL an address comes from, and one URL read.\<close>

definition listen_url :: "listen_addr \<Rightarrow> string" where
  "listen_url a = la_Net a @ ''://'' @ la_Addr a"

definition has_scheme :: "string \<Rightarrow> bool" where
  "has_scheme l \<longleftrightarrow> cut ''://'' l \<noteq> None"

definition read_url :: "string \<Rightarrow> listen_addr" where
  "read_url l = (case cut ''://'' l of
     None \<Rightarrow> \<lparr>la_Net = '''', la_Addr = ''''\<rparr>
   | Some (n, a) \<Rightarrow> \<lparr>la_Net = n,
       la_Addr = (if n = ''unix'' \<and> (a = ''/'' \<or> a = ''default'') then DEFAULT_UNIX_SOCKET else a)\<rparr>)"

lemma SplitN_two: "SplitN l sep 2 = (case cut sep l of None \<Rightarrow> [l] | Some (a, b) \<Rightarrow> [a, b])"
  by (auto simp: numeral_2_eq_2 split: option.splits)

lemma parse_listen_Cons:
  "parse_listen (l # ls) laddrs =
    (if has_scheme l then parse_listen ls (laddrs @ [read_url l])
     else (laddrs, Some (''incorrect listen addr '' @ l)))"
  by (auto simp: SplitN_two has_scheme_def read_url_def split: option.splits)

lemma parse_listen_eq:
  "parse_listen ls laddrs =
    (laddrs @ map read_url (takeWhile has_scheme ls),
     case dropWhile has_scheme ls of [] \<Rightarrow> None | l # _ \<Rightarrow> Some (''incorrect listen addr '' @ l))"
  by (induction ls arbitrary: laddrs) (simp_all only: parse_listen_Cons, auto)

subsection \<open>Properties\<close>

text \<open>\<open>GetListenAddrs\<close> inverts the writing of addresses as URLs: for addresses whose network name has
  no colon it gives back the addresses, the default socket in place of \<open>unix:///\<close> and
  \<open>unix://default\<close>; an entry without \<open>://\<close> ends the list with an error.\<close>

theorem GetListenAddrs_roundtrip:
  assumes "\<forall>a \<in> set as. CHR '':'' \<notin> set (la_Net a)"
    and "cf_Listen c = map listen_url as @ rest"
  shows "GetListenAddrs c =
    (map (\<lambda>a. if la_Net a = ''unix'' \<and> (la_Addr a = ''/'' \<or> la_Addr a = ''default'')
               then a\<lparr>la_Addr := DEFAULT_UNIX_SOCKET\<rparr> else a) as @ map read_url (takeWhile has_scheme rest),
     case dropWhile has_scheme rest of [] \<Rightarrow> None | l # _ \<Rightarrow> Some (''incorrect listen addr '' @ l))"
proof -
  have url: "cut ''://'' (listen_url a) = Some (la_Net a, la_Addr a)" if "a \<in> set as" for a
    using assms(1) that cut_first[of "CHR '':''" "la_Net a" "''//''" "la_Addr a"] by (simp add: listen_url_def)
  then have ok: "\<forall>l \<in> set (map listen_url as). has_scheme l" by (simp add: has_scheme_def)
  have "read_url (listen_url a) = (if la_Net a = ''unix'' \<and> (la_Addr a = ''/'' \<or> la_Addr a = ''default'')
      then a\<lparr>la_Addr := DEFAULT_UNIX_SOCKET\<rparr> else a)" if "a \<in> set as" for a
    using url[OF that] by (auto simp: read_url_def)
  moreover have "takeWhile has_scheme (map listen_url as @ rest) = map listen_url as @ takeWhile has_scheme rest"
    "dropWhile has_scheme (map listen_url as @ rest) = dropWhile has_scheme rest"
    using ok by (intro takeWhile_append2 dropWhile_append2; blast)+
  ultimately show ?thesis by (simp add: GetListenAddrs_def assms(2) parse_listen_eq)
qed

theorem GetListenAddrs_roundtrip_witness:
  "GetListenAddrs (default_config\<lparr>cf_Listen := [''tcp://h:1'', ''unix:///'', ''x'', ''tcp://k:2'']\<rparr>) =
    ([\<lparr>la_Net = ''tcp'', la_Addr = ''h:1''\<rparr>, \<lparr>la_Net = ''unix'', la_Addr = DEFAULT_UNIX_SOCKET\<rparr>],
     Some ''incorrect listen addr x'')"
  by (subst GetListenAddrs_roundtrip
      [where as = "[\<lparr>la_Net = ''tcp'', la_Addr = ''h:1''\<rparr>, \<lparr>la_Net = ''unix'', la_Addr = ''/''\<rparr>]"
         and rest = "[''x'', ''tcp://k:2'']"])
    (simp_all add: listen_url_def has_scheme_def)

lemma LoadConfig_default:
  assumes "open_file f = Inr file" "decode file default_config = (default_config\<lparr>cf_Backend := bs\<rparr>, None)"
  shows "\<exists>c. LoadConfig open_file decode f = (Some c, None) \<and> cf_Backend c = bs \<and>
    GetListenAddrs c = ([\<lparr>la_Net = ''tcp'', la_Addr = ''127.0.0.1:3306''\<rparr>], None)"
  using assms
  by (simp add: LoadConfig_def default_config_def AddListen_def GetListenAddrs_def parse_listen_eq
      has_scheme_def read_url_def)

end
