(* ===== verification/Health.thy ===== *)
theory Health
  imports Config "HOL-Library.AList"
begin

text \<open>
  wrangler/tcp.go, http.go, ext.go and galera.go: the health drivers. A driver keeps the list of
  servers it was given (\<open>Director\<close>) and builds the map of the servers that answer. One goroutine
  probes each server and the results are taken in the order of their arrival, so the answers of the
  outside world are indexed by the goroutine and the arrival order is an argument. The network, the
  external command and the database are arguments too. A Go map is an association list of distinct
  keys.
\<close>

subsection \<open>Shared by the drivers\<close>

definition FlagDown :: int where "FlagDown = 0"
definition FlagUp :: int where "FlagUp = 1"

type_synonym flags = "(string \<times> int) list"
type_synonym error = "string option"

definition empty_directory :: string where
  "empty_directory = ''Empty directory server list\<newline>''"

definition add_error :: "string \<Rightarrow> string" where
  "add_error b = ''Error to add backend '' @ b @ ''\<newline>''"

record backend_status =
  bs_backend :: string
  bs_err :: error

text \<open>The loop that takes the workers' results.\<close>

fun collect :: "backend_status list \<Rightarrow> flags \<Rightarrow> flags" where
  "collect [] m = m"
| "collect (r # rs) m =
    (if bs_err r = None then collect rs (AList.update (bs_backend r) FlagUp m) else collect rs m)"

text \<open>One worker per address, worker \<open>i\<close> probing with \<open>probe i\<close>; results in arrival order.\<close>

definition arrivals :: "(nat \<Rightarrow> string \<Rightarrow> error) \<Rightarrow> nat list \<Rightarrow> string list \<Rightarrow> backend_status list" where
  "arrivals probe order addrs = map (\<lambda>i. \<lparr>bs_backend = addrs ! i, bs_err = probe i (addrs ! i)\<rparr>) order"

definition arrival_order :: "nat list \<Rightarrow> nat \<Rightarrow> bool" where
  "arrival_order order n \<longleftrightarrow> mset order = mset [0..<n]"

definition active :: "(nat \<Rightarrow> string \<Rightarrow> error) \<Rightarrow> string list \<Rightarrow> string set" where
  "active probe addrs = {addrs ! i | i. i < length addrs \<and> probe i (addrs ! i) = None}"

lemma collect_map:
  "map_of (collect rs m) =
    (\<lambda>a. if \<exists>r \<in> set rs. bs_backend r = a \<and> bs_err r = None then Some FlagUp else map_of m a)"
  by (induction rs arbitrary: m) (auto simp: update_conv' fun_eq_iff)

lemma collect_distinct: "distinct (map fst m) \<Longrightarrow> distinct (map fst (collect rs m))"
  by (induction rs arbitrary: m) (auto simp: distinct_update)

lemma collect_arrivals:
  assumes "arrival_order order (length addrs)"
  shows "map_of (collect (arrivals probe order addrs) m) =
    (\<lambda>a. if a \<in> active probe addrs then Some FlagUp else map_of m a)"
proof -
  have "set order = {0..<length addrs}" using mset_eq_setD[of order "[0..<length addrs]"] assms by (simp add: arrival_order_def)
  then have "(\<exists>r \<in> set (arrivals probe order addrs). bs_backend r = a \<and> bs_err r = None) \<longleftrightarrow>
      a \<in> active probe addrs" for a
    by (auto simp: arrivals_def active_def)
  then show ?thesis by (simp add: collect_map)
qed

subsection \<open>TCP, HTTP and external command\<close>

record health_tcp = ht_Director :: "string list"
record health_http = hh_Director :: "string list"
record health_ext = he_Director :: "string list"
  he_ExtCommand :: string

definition NewHealthTcp :: health_tcp where "NewHealthTcp = \<lparr>ht_Director = []\<rparr>"
definition NewHealthHTTP :: health_http where "NewHealthHTTP = \<lparr>hh_Director = []\<rparr>"
definition NewHealthExt :: "string \<Rightarrow> health_ext" where
  "NewHealthExt cmd = \<lparr>he_Director = [], he_ExtCommand = cmd\<rparr>"

definition tcp_AddDirector :: "string \<Rightarrow> health_tcp \<Rightarrow> health_tcp \<times> error" where
  "tcp_AddDirector b h = (h\<lparr>ht_Director := ht_Director h @ [b]\<rparr>, Some (add_error b))"

definition http_AddDirector :: "string \<Rightarrow> health_http \<Rightarrow> health_http \<times> error" where
  "http_AddDirector b h = (h\<lparr>hh_Director := hh_Director h @ [b]\<rparr>, Some (add_error b))"

definition ext_AddDirector :: "string \<Rightarrow> health_ext \<Rightarrow> health_ext \<times> error" where
  "ext_AddDirector b h = (h\<lparr>he_Director := he_Director h @ [b]\<rparr>, Some (add_error b))"

text \<open>A probe of each kind, over the answers of \<open>net.DialTimeout\<close> (network, address, nanoseconds),
  \<open>http.Get\<close> and the command's exit.\<close>

definition tcpProbe :: "(string \<Rightarrow> string \<Rightarrow> nat \<Rightarrow> error) \<Rightarrow> string \<Rightarrow> error" where
  "tcpProbe dial addr = dial ''tcp'' addr 1000000000"

definition httpProbe :: "(string \<Rightarrow> error) \<Rightarrow> string \<Rightarrow> error" where
  "httpProbe get addr = get (''http://'' @ addr @ ''/'')"

definition extProbe :: "(string list \<Rightarrow> error) \<Rightarrow> string \<Rightarrow> string \<Rightarrow> error" where
  "extProbe command cmd addr = command [cmd, addr]"

definition tcp_BuildActiveBackends ::
  "(nat \<Rightarrow> string \<Rightarrow> string \<Rightarrow> nat \<Rightarrow> error) \<Rightarrow> nat list \<Rightarrow> health_tcp \<Rightarrow> flags \<times> error"
where
  "tcp_BuildActiveBackends dial order t =
    (if ht_Director t = [] then ([], Some empty_directory)
     else (collect (arrivals (\<lambda>i. tcpProbe (dial i)) order (ht_Director t)) [], None))"

definition http_BuildActiveBackends ::
  "(nat \<Rightarrow> string \<Rightarrow> error) \<Rightarrow> nat list \<Rightarrow> health_http \<Rightarrow> flags \<times> error"
where
  "http_BuildActiveBackends get order t =
    (if hh_Director t = [] then ([], Some empty_directory)
     else (collect (arrivals (\<lambda>i. httpProbe (get i)) order (hh_Director t)) [], None))"

definition ext_BuildActiveBackends ::
  "(nat \<Rightarrow> string list \<Rightarrow> error) \<Rightarrow> nat list \<Rightarrow> health_ext \<Rightarrow> flags \<times> error"
where
  "ext_BuildActiveBackends command order t =
    (if he_Director t = [] then ([], Some empty_directory)
     else (collect (arrivals (\<lambda>i. extProbe (command i) (he_ExtCommand t)) order (he_Director t)) [], None))"

subsection \<open>Galera\<close>

record galera =
  ga_User :: string
  ga_Pass :: string
  ga_Director :: "string list"

definition NewGalera :: "string \<Rightarrow> string \<Rightarrow> galera" where
  "NewGalera user pass = \<lparr>ga_User = user, ga_Pass = pass, ga_Director = []\<rparr>"

definition galera_AddDirector :: "string \<Rightarrow> galera \<Rightarrow> galera \<times> error" where
  "galera_AddDirector b c = (c\<lparr>ga_Director := ga_Director c @ [b]\<rparr>, Some (add_error b))"

definition WsrepAddresses :: string where "WsrepAddresses = ''wsrep_incoming_addresses''"
definition WsrepConnected :: string where "WsrepConnected = ''wsrep_connected''"

text \<open>The SQL driver: \<open>sql.Open\<close> of a data source name, and \<open>db.Query\<close> on it, which fails or gives the
  rows as \<open>Scan\<close> leaves them in \<open>key\<close> and \<open>value\<close>.\<close>

record database =
  db_open :: "string \<Rightarrow> error"
  db_query :: "string \<Rightarrow> string \<Rightarrow> string + (string \<times> string) list"

definition dsn :: "string \<Rightarrow> string \<Rightarrow> string \<Rightarrow> string" where
  "dsn user pass host = user @ '':'' @ pass @ ''@tcp('' @ host @ '')/?timeout=1s''"

definition wsrep_query :: string where
  "wsrep_query = ''show status like 'wsrep_%'' @ [CHR 0x27]"

fun scan_rows :: "(string \<times> string) list \<Rightarrow> (string \<times> string) list \<Rightarrow> (string \<times> string) list" where
  "scan_rows [] status = status"
| "scan_rows ((key, value) # rows) status =
    scan_rows rows (if map_of status key \<noteq> None then AList.update key value status else status)"

definition galeraProbe ::
  "database \<Rightarrow> string \<Rightarrow> string \<Rightarrow> string \<Rightarrow> (string \<times> string) list \<times> error"
where
  "galeraProbe db user pass host =
    (let wsrep_status = [(WsrepConnected, ''''), (WsrepAddresses, '''')];
         d = dsn user pass host in
     case db_open db d of
       Some e \<Rightarrow> (wsrep_status, Some e)
     | None \<Rightarrow>
         (case db_query db d wsrep_query of
            Inl e \<Rightarrow> (wsrep_status, Some e)
          | Inr rows \<Rightarrow>
              let status = scan_rows rows wsrep_status in
              (status, if map_of status WsrepConnected = Some ''ON'' then None
                       else Some ''Galera Not Connected'')))"

text \<open>What the database answers the probe of director \<open>i\<close> and worker \<open>i\<close>, and the order in which the
  workers' results arrive. At most one director starts workers in a round.\<close>

record galera_env =
  ge_director :: "nat \<Rightarrow> database"
  ge_worker :: "nat \<Rightarrow> database"
  ge_order :: "nat list"

definition galera_worker :: "galera_env \<Rightarrow> galera \<Rightarrow> nat \<Rightarrow> string \<Rightarrow> error" where
  "galera_worker env c = (\<lambda>i addr. snd (galeraProbe (ge_worker env i) (ga_User c) (ga_Pass c) addr))"

text \<open>The loop over the directors from index \<open>i\<close> on, with \<open>n\<close> of them left. \<open>range\<close> reads the slice's array
  while the body exchanges elements of it.\<close>

fun galera_directors :: "galera_env \<Rightarrow> nat \<Rightarrow> nat \<Rightarrow> galera \<Rightarrow> flags \<Rightarrow> galera \<times> flags" where
  "galera_directors env i 0 c backends = (c, backends)"
| "galera_directors env i (Suc n) c backends =
    (let dirAddr = ga_Director c ! i in
     case galeraProbe (ge_director env i) (ga_User c) (ga_Pass c) dirAddr of
       (status, Some e) \<Rightarrow> galera_directors env (Suc i) n c backends
     | (status, None) \<Rightarrow>
         let backends1 = AList.update dirAddr FlagUp backends;
             c1 = (if i \<noteq> 0 then c\<lparr>ga_Director := list_swap (ga_Director c) 0 i\<rparr> else c) in
         case map_of status WsrepAddresses of
           None \<Rightarrow> galera_directors env (Suc i) n c1 backends1
         | Some v \<Rightarrow>
             if v \<noteq> '''' then
               let addrs = filter (\<lambda>addr. addr \<noteq> dirAddr) (Split v '','') in
               (c1, collect (arrivals (galera_worker env c1) (ge_order env) addrs) backends1)
             else galera_directors env (Suc i) n c1 backends1)"

definition galera_BuildActiveBackends :: "galera_env \<Rightarrow> galera \<Rightarrow> galera \<times> flags \<times> error" where
  "galera_BuildActiveBackends env c =
    (if ga_Director c = [] then (c, [], Some empty_directory)
     else case galera_directors env 0 (length (ga_Director c)) c [] of
       (c', backends) \<Rightarrow> (c', backends, None))"

text \<open>A node answers as connected: the connection opens, the query succeeds and the last row for
  \<open>wsrep_connected\<close> says \<open>ON\<close>.\<close>

definition last_row :: "string \<Rightarrow> (string \<times> string) list \<Rightarrow> string" where
  "last_row key rows = (case filter (\<lambda>r. fst r = key) rows of [] \<Rightarrow> '''' | rs \<Rightarrow> snd (last rs))"

definition connected :: "database \<Rightarrow> string \<Rightarrow> string \<Rightarrow> string \<Rightarrow> bool" where
  "connected db user pass host \<longleftrightarrow> db_open db (dsn user pass host) = None \<and>
    (case db_query db (dsn user pass host) wsrep_query of
       Inl e \<Rightarrow> False | Inr rows \<Rightarrow> last_row WsrepConnected rows = ''ON'')"

lemma scan_rows_map:
  "map_of (scan_rows rows status) key =
    (case map_of status key of
       None \<Rightarrow> None
     | Some v \<Rightarrow> Some (if \<exists>r \<in> set rows. fst r = key then last_row key rows else v))"
proof (induction rows arbitrary: status)
  case (Cons r rows)
  obtain k v where r: "r = (k, v)" by (cases r)
  have nil: "filter (\<lambda>r. fst r = key) rows = [] \<longleftrightarrow> \<not> (\<exists>r \<in> set rows. fst r = key)"
    by (auto simp: filter_empty_conv)
  show ?case
    using Cons.IH nil
    by (auto simp: r update_conv' last_row_def split: option.splits list.splits if_splits)
qed (auto split: option.splits)

lemma last_row_none: "\<not> (\<exists>r \<in> set rows. fst r = key) \<Longrightarrow> last_row key rows = ''''"
  by (auto simp: last_row_def filter_False)

lemma galeraProbe_connected:
  "snd (galeraProbe db user pass host) = None \<longleftrightarrow> connected db user pass host"
proof -
  have ne: "WsrepConnected \<noteq> WsrepAddresses" by (simp add: WsrepConnected_def WsrepAddresses_def)
  have "map_of (scan_rows rows [(WsrepConnected, ''''), (WsrepAddresses, '''')]) WsrepConnected =
      Some (last_row WsrepConnected rows)" for rows
    using last_row_none[of rows WsrepConnected] by (simp add: scan_rows_map)
  then show ?thesis
    by (simp add: galeraProbe_def connected_def Let_def split: option.splits sum.splits)
qed

subsection \<open>What a Galera round finds\<close>

text \<open>Director \<open>k\<close> answers as connected; the member list its status shows; the members its workers
  probe; the director is looked at, since none before it has shown members.\<close>

definition found :: "galera_env \<Rightarrow> galera \<Rightarrow> nat \<Rightarrow> bool" where
  "found env c k \<longleftrightarrow> connected (ge_director env k) (ga_User c) (ga_Pass c) (ga_Director c ! k)"

definition members :: "galera_env \<Rightarrow> galera \<Rightarrow> nat \<Rightarrow> string" where
  "members env c k =
    (case db_query (ge_director env k) (dsn (ga_User c) (ga_Pass c) (ga_Director c ! k)) wsrep_query of
       Inl e \<Rightarrow> '''' | Inr rows \<Rightarrow> last_row WsrepAddresses rows)"

definition peers :: "galera_env \<Rightarrow> galera \<Rightarrow> nat \<Rightarrow> string list" where
  "peers env c k = filter (\<lambda>a. a \<noteq> ga_Director c ! k) (Split (members env c k) '','')"

definition shows_members :: "galera_env \<Rightarrow> galera \<Rightarrow> nat \<Rightarrow> bool" where
  "shows_members env c k \<longleftrightarrow> found env c k \<and> members env c k \<noteq> ''''"

definition looked_at :: "galera_env \<Rightarrow> galera \<Rightarrow> nat \<Rightarrow> nat \<Rightarrow> bool" where
  "looked_at env c i k \<longleftrightarrow> i \<le> k \<and> (\<forall>j \<in> {i..<k}. \<not> shows_members env c j)"

definition with_first :: "nat \<Rightarrow> galera \<Rightarrow> galera" where
  "with_first i c = (if i \<noteq> 0 then c\<lparr>ga_Director := list_swap (ga_Director c) 0 i\<rparr> else c)"

lemma galeraProbe_addresses:
  "map_of (fst (galeraProbe (ge_director env k) (ga_User c) (ga_Pass c) (ga_Director c ! k))) WsrepAddresses =
    Some (if db_open (ge_director env k) (dsn (ga_User c) (ga_Pass c) (ga_Director c ! k)) = None
          then members env c k else '''')"
proof -
  have ne: "WsrepConnected \<noteq> WsrepAddresses" by (simp add: WsrepConnected_def WsrepAddresses_def)
  have "map_of (scan_rows rows [(WsrepConnected, ''''), (WsrepAddresses, '''')]) WsrepAddresses =
      Some (last_row WsrepAddresses rows)" for rows
    using last_row_none[of rows WsrepAddresses] ne by (simp add: scan_rows_map)
  then show ?thesis
    using ne by (simp add: galeraProbe_def members_def Let_def split: option.splits sum.splits)
qed

lemma galera_directors_Suc:
  "galera_directors env i (Suc n) c m =
    (if \<not> found env c i then galera_directors env (Suc i) n c m
     else if \<not> shows_members env c i then
       galera_directors env (Suc i) n (with_first i c) (AList.update (ga_Director c ! i) FlagUp m)
     else (with_first i c, collect (arrivals (galera_worker env c) (ge_order env) (peers env c i))
         (AList.update (ga_Director c ! i) FlagUp m)))"
proof -
  have w: "galera_worker env (with_first i c) = galera_worker env c"
    by (simp add: galera_worker_def with_first_def)
  obtain status e where p: "galeraProbe (ge_director env i) (ga_User c) (ga_Pass c) (ga_Director c ! i) = (status, e)"
    by (cases "galeraProbe (ge_director env i) (ga_User c) (ga_Pass c) (ga_Director c ! i)")
  have e: "e = None \<longleftrightarrow> found env c i"
    using galeraProbe_connected[of "ge_director env i" "ga_User c" "ga_Pass c" "ga_Director c ! i"]
    by (simp add: p found_def)
  have "map_of status WsrepAddresses = Some (members env c i)" if "found env c i"
    using galeraProbe_addresses[of env i c] that by (simp add: p found_def connected_def)
  then show ?thesis
    using e w
    by (cases e; simp only: galera_directors.simps Let_def with_first_def[symmetric] p prod.case option.case)
      (simp_all add: shows_members_def peers_def)
qed

lemma with_first_later [simp]:
  "k < length (ga_Director c) \<Longrightarrow> i < k \<Longrightarrow> ga_Director (with_first i c) ! k = ga_Director c ! k"
  by (cases "ga_Director c") (simp_all add: with_first_def nth_list_swap)

lemma with_first_same [simp]:
  "length (ga_Director (with_first i c)) = length (ga_Director c)"
  "ga_User (with_first i c) = ga_User c" "ga_Pass (with_first i c) = ga_Pass c"
  by (simp_all add: with_first_def)

lemma with_first_probes:
  assumes "i < k" "k < length (ga_Director c)"
  shows "found env (with_first i c) k = found env c k" "members env (with_first i c) k = members env c k"
    "peers env (with_first i c) k = peers env c k" "shows_members env (with_first i c) k = shows_members env c k"
  using assms by (simp_all add: found_def members_def peers_def shows_members_def)

lemma galera_worker_with_first [simp]: "galera_worker env (with_first i c) = galera_worker env c"
  by (simp add: galera_worker_def)

text \<open>The servers a round reports, from director \<open>i\<close> on.\<close>

definition reported :: "galera_env \<Rightarrow> galera \<Rightarrow> nat \<Rightarrow> string set" where
  "reported env c i =
    {ga_Director c ! k | k. k < length (ga_Director c) \<and> looked_at env c i k \<and> found env c k} \<union>
    {a. \<exists>k < length (ga_Director c). looked_at env c i k \<and> shows_members env c k \<and>
        a \<in> active (galera_worker env c) (peers env c k)}"

lemma looked_at_Suc:
  "looked_at env c i k \<longleftrightarrow> k = i \<or> \<not> shows_members env c i \<and> looked_at env c (Suc i) k"
proof (cases "k = i")
  case False
  have "i \<le> k \<Longrightarrow> {i..<k} = insert i {Suc i..<k}" using False by auto
  then show ?thesis using False by (auto simp: looked_at_def)
qed (auto simp: looked_at_def)

lemma reported_with_first:
  assumes "i < length (ga_Director c)"
  shows "reported env (with_first i c) (Suc i) = reported env c (Suc i)"
proof -
  have "k < length (ga_Director c) \<Longrightarrow> looked_at env (with_first i c) (Suc i) k \<longleftrightarrow> looked_at env c (Suc i) k" for k
    by (auto simp: looked_at_def with_first_probes)
  moreover have "k < length (ga_Director c) \<Longrightarrow> looked_at env c (Suc i) k \<Longrightarrow> i < k" for k
    by (simp add: looked_at_def)
  ultimately show ?thesis
    unfolding reported_def by (intro arg_cong2[where f = "(\<union>)"] Collect_cong) (force simp: with_first_probes)+
qed

lemma reported_Suc:
  assumes "i < length (ga_Director c)"
  shows "reported env c i =
    (if found env c i then {ga_Director c ! i} else {}) \<union>
    (if shows_members env c i then active (galera_worker env c) (peers env c i) else reported env c (Suc i))"
proof -
  have later: "shows_members env c i \<Longrightarrow> looked_at env c i k \<longleftrightarrow> k = i" for k
    by (subst looked_at_Suc) simp
  have other: "\<not> shows_members env c i \<Longrightarrow> looked_at env c i k \<longleftrightarrow> k = i \<or> looked_at env c (Suc i) k" for k
    by (subst looked_at_Suc) simp
  show ?thesis
  proof (cases "shows_members env c i")
    case True
    then have "found env c i" by (simp add: shows_members_def)
    with True assms show ?thesis unfolding reported_def later[OF True] by auto
  next
    case False
    with assms show ?thesis unfolding reported_def other[OF False] by auto
  qed
qed

lemma galera_directors_map:
  assumes "i + n = length (ga_Director c)"
    and "\<And>k. i \<le> k \<Longrightarrow> k < length (ga_Director c) \<Longrightarrow> shows_members env c k \<Longrightarrow>
      arrival_order (ge_order env) (length (peers env c k))"
  shows "map_of (snd (galera_directors env i n c m)) =
    (\<lambda>a. if a \<in> reported env c i then Some FlagUp else map_of m a)"
  using assms
proof (induction n arbitrary: i c m)
  case 0
  then have "reported env c i = {}" by (auto simp: reported_def looked_at_def)
  then show ?case by simp
next
  case (Suc n)
  then have i: "i < length (ga_Director c)" by simp
  note R = reported_Suc[OF i, of env]
  consider "\<not> found env c i" | "found env c i" "\<not> shows_members env c i" | "shows_members env c i"
    by (auto simp: shows_members_def)
  then show ?case
  proof cases
    case 1
    then have "\<not> shows_members env c i" by (simp add: shows_members_def)
    with 1 show ?thesis
      using Suc.IH[of "Suc i" c m] Suc.prems by (simp only: galera_directors_Suc R) simp
  next
    case 2
    let ?c = "with_first i c"
    have "map_of (snd (galera_directors env (Suc i) n ?c (AList.update (ga_Director c ! i) FlagUp m))) =
      (\<lambda>a. if a \<in> reported env ?c (Suc i) then Some FlagUp else map_of (AList.update (ga_Director c ! i) FlagUp m) a)"
      using Suc.prems by (intro Suc.IH) (simp_all add: with_first_probes)
    with 2 show ?thesis
      by (simp only: galera_directors_Suc R reported_with_first[OF i])
        (auto simp: update_conv' fun_eq_iff)
  next
    case 3
    then have "found env c i" by (simp add: shows_members_def)
    moreover have "arrival_order (ge_order env) (length (peers env c i))" using 3 Suc.prems i by simp
    ultimately show ?thesis
      using 3 by (simp only: galera_directors_Suc R) (auto simp: collect_arrivals update_conv' fun_eq_iff)
  qed
qed

lemma mset_with_first: "i < length (ga_Director c) \<Longrightarrow> mset (ga_Director (with_first i c)) = mset (ga_Director c)"
  by (cases "ga_Director c") (simp_all add: with_first_def)

lemma galera_directors_keeps:
  "i + n = length (ga_Director c) \<Longrightarrow>
   mset (ga_Director (fst (galera_directors env i n c m))) = mset (ga_Director c) \<and>
   ga_User (fst (galera_directors env i n c m)) = ga_User c \<and>
   ga_Pass (fst (galera_directors env i n c m)) = ga_Pass c"
proof (induction n arbitrary: i c m)
  case (Suc n)
  then show ?case
    using mset_with_first[of i c] Suc.IH[of "Suc i" c m]
      Suc.IH[of "Suc i" "with_first i c" "AList.update (ga_Director c ! i) FlagUp m"]
    by (simp del: galera_directors.simps(2) add: galera_directors_Suc)
qed simp

text \<open>The director a round ends with at the head: the last one that answered, of those looked at.\<close>

lemma hd_with_first: "i < length (ga_Director c) \<Longrightarrow> ga_Director (with_first i c) ! 0 = ga_Director c ! i"
  by (cases "ga_Director c") (auto simp: with_first_def nth_list_swap)

lemma galera_directors_head:
  assumes "i + n = length (ga_Director c)" "0 < length (ga_Director c)"
    "ga_Director c ! 0 \<in> S" "reported env c i \<subseteq> S"
  shows "ga_Director (fst (galera_directors env i n c m)) ! 0 \<in> S"
  using assms
proof (induction n arbitrary: i c m)
  case (Suc n)
  then have i: "i < length (ga_Director c)" by simp
  note R = reported_Suc[OF i, of env]
  have w: "ga_Director c ! i \<in> S" if "found env c i" using that Suc.prems(4) R by auto
  have r: "reported env c (Suc i) \<subseteq> S" if "\<not> shows_members env c i" using that Suc.prems(4) R by auto
  show ?case
    using Suc.IH[of "Suc i" c m] Suc.IH[of "Suc i" "with_first i c" "AList.update (ga_Director c ! i) FlagUp m"]
      Suc.prems i w r hd_with_first[OF i] reported_with_first[OF i, of env]
    by (auto simp del: galera_directors.simps(2) simp: galera_directors_Suc shows_members_def)
qed simp

lemma galera_directors_active_head:
  assumes "i + n = length (ga_Director c)" "reported env c i \<noteq> {}" "reported env c i \<subseteq> S"
  shows "ga_Director (fst (galera_directors env i n c m)) ! 0 \<in> S"
  using assms
proof (induction n arbitrary: i c m)
  case 0
  then show ?case by (auto simp: reported_def looked_at_def)
next
  case (Suc n)
  then have i: "i < length (ga_Director c)" by simp
  then have "0 < length (ga_Director c)" by linarith
  note R = reported_Suc[OF i, of env]
  show ?case
  proof (cases "found env c i")
    case True
    let ?m = "AList.update (ga_Director c ! i) FlagUp m"
    have hd: "ga_Director (with_first i c) ! 0 \<in> S" using True Suc.prems(3) R hd_with_first[OF i] by auto
    show ?thesis
    proof (cases "shows_members env c i")
      case False
      then have "reported env (with_first i c) (Suc i) \<subseteq> S"
        using Suc.prems(3) R reported_with_first[OF i, of env] by auto
      then have "ga_Director (fst (galera_directors env (Suc i) n (with_first i c) ?m)) ! 0 \<in> S"
        using Suc.prems(1) \<open>0 < length (ga_Director c)\<close> hd by (intro galera_directors_head) auto
      with True False show ?thesis by (simp del: galera_directors.simps(2) add: galera_directors_Suc)
    qed (use hd True in \<open>simp del: galera_directors.simps(2) add: galera_directors_Suc\<close>)
  next
    case False
    then have "\<not> shows_members env c i" by (simp add: shows_members_def)
    with False show ?thesis
      using Suc.IH[of "Suc i" c m] Suc.prems R by (simp del: galera_directors.simps(2) add: galera_directors_Suc)
  qed
qed

subsection \<open>Properties\<close>

text \<open>The TCP driver reports exactly the directors whose probe succeeded, each as up, in whatever order
  the probes come back; a server registered twice is up if one of its probes succeeds.\<close>

theorem tcp_reports_active:
  assumes "arrival_order order (length (ht_Director t))" "ht_Director t \<noteq> []"
  shows "map_of (fst (tcp_BuildActiveBackends dial order t)) =
    (\<lambda>a. if \<exists>i < length (ht_Director t). ht_Director t ! i = a \<and> dial i ''tcp'' a 1000000000 = None
         then Some FlagUp else None)"
  using assms by (auto simp: tcp_BuildActiveBackends_def collect_arrivals active_def tcpProbe_def fun_eq_iff)

theorem tcp_reports_active_witness:
  "map_of (fst (tcp_BuildActiveBackends (\<lambda>i net a t. if a = ''h:1'' \<and> i < 2 then None else Some ''refused'')
      [2, 0, 1] \<lparr>ht_Director = [''h:1'', ''h:2'', ''h:1'']\<rparr>)) ''h:1'' = Some FlagUp"
  by (subst tcp_reports_active) (auto simp: arrival_order_def upt_rec intro!: exI[of _ 0])

text \<open>C38. A Galera round reports, as up, the directors that answered as connected, up to and including
  the first whose status names members, and of those members the ones that answered as connected, in
  whatever order the answers come back.\<close>

theorem galera_reports_connected:
  assumes "ga_Director c \<noteq> []"
    and "\<forall>k < length (ga_Director c). shows_members env c k \<longrightarrow> arrival_order (ge_order env) (length (peers env c k))"
  shows "map_of (fst (snd (galera_BuildActiveBackends env c))) =
    (\<lambda>a. if (\<exists>k < length (ga_Director c). (\<forall>j < k. \<not> shows_members env c j) \<and> found env c k \<and>
             (ga_Director c ! k = a \<or> shows_members env c k \<and> a \<in> active (galera_worker env c) (peers env c k)))
         then Some FlagUp else None)"
proof -
  have "map_of (snd (galera_directors env 0 (length (ga_Director c)) c [])) =
      (\<lambda>a. if a \<in> reported env c 0 then Some FlagUp else map_of [] a)"
    using assms(2) by (intro galera_directors_map) auto
  moreover have "a \<in> reported env c 0 \<longleftrightarrow> (\<exists>k < length (ga_Director c). (\<forall>j < k. \<not> shows_members env c j) \<and>
      found env c k \<and> (ga_Director c ! k = a \<or> shows_members env c k \<and> a \<in> active (galera_worker env c) (peers env c k)))" for a
    by (auto simp: reported_def looked_at_def shows_members_def)
  ultimately show ?thesis
    using assms(1) by (auto simp: galera_BuildActiveBackends_def case_prod_beta fun_eq_iff)
qed

text \<open>A cluster of three, of which the last director is up and names the other two, one of them up.\<close>

definition ex_galera :: galera where
  "ex_galera = \<lparr>ga_User = ''u'', ga_Pass = ''p'', ga_Director = [''a:1'', ''b:1'']\<rparr>"

definition ex_db :: "string list \<Rightarrow> database" where
  "ex_db up = \<lparr>db_open = (\<lambda>d. None),
     db_query = (\<lambda>d q. if d \<in> set (map (dsn ''u'' ''p'') up)
       then Inr [(''wsrep_ready'', ''ON''), (WsrepConnected, ''ON''), (WsrepAddresses, ''a:1,b:1,c:1'')] else Inl ''down'')\<rparr>"

definition ex_genv :: galera_env where
  "ex_genv = \<lparr>ge_director = (\<lambda>i. ex_db [''b:1'', ''c:1'']), ge_worker = (\<lambda>i. ex_db [''b:1'', ''c:1'']), ge_order = [1, 0]\<rparr>"

lemma ex_galera_order: "arrival_order (ge_order ex_genv) 2"
  by (simp add: ex_genv_def arrival_order_def upt_rec)

lemma ex_galera_probes:
  "shows_members ex_genv ex_galera k \<Longrightarrow> k < length (ga_Director ex_galera) \<Longrightarrow> k = 1"
  "peers ex_genv ex_galera 1 = [''a:1'', ''c:1'']" "shows_members ex_genv ex_galera 1"
  "\<not> shows_members ex_genv ex_galera 0"
  "galera_worker ex_genv ex_galera 1 ''c:1'' = None"
proof -
  show zero: "\<not> shows_members ex_genv ex_galera 0" by code_simp
  show "shows_members ex_genv ex_galera 1" "peers ex_genv ex_galera 1 = [''a:1'', ''c:1'']"
    "galera_worker ex_genv ex_galera 1 ''c:1'' = None" by code_simp+
  show "k = 1" if "shows_members ex_genv ex_galera k" "k < length (ga_Director ex_galera)"
    using that zero by (auto simp: ex_galera_def less_Suc_eq)
qed

lemma ex_galera_orders:
  "\<forall>k < length (ga_Director ex_galera). shows_members ex_genv ex_galera k \<longrightarrow>
    arrival_order (ge_order ex_genv) (length (peers ex_genv ex_galera k))"
proof (intro allI impI)
  fix k assume "k < length (ga_Director ex_galera)" "shows_members ex_genv ex_galera k"
  then have "k = 1" using ex_galera_probes(1) by blast
  then show "arrival_order (ge_order ex_genv) (length (peers ex_genv ex_galera k))"
    using ex_galera_probes(2) ex_galera_order by (simp add: numeral_2_eq_2)
qed

theorem galera_reports_connected_witness:
  "map_of (fst (snd (galera_BuildActiveBackends ex_genv ex_galera))) ''c:1'' = Some FlagUp"
proof -
  note ex_galera_orders
  moreover have "\<exists>k < length (ga_Director ex_galera). (\<forall>j < k. \<not> shows_members ex_genv ex_galera j) \<and> found ex_genv ex_galera k \<and>
      (ga_Director ex_galera ! k = ''c:1'' \<or> shows_members ex_genv ex_galera k \<and>
       ''c:1'' \<in> active (galera_worker ex_genv ex_galera) (peers ex_genv ex_galera k))"
    using ex_galera_probes by (intro exI[of _ 1]) (auto simp: ex_galera_def active_def shows_members_def intro!: exI[of _ 1])
  moreover have "ga_Director ex_galera \<noteq> []" by (simp add: ex_galera_def)
  ultimately show ?thesis using galera_reports_connected[of ex_galera ex_genv] by simp
qed

text \<open>A Galera round only reorders its directors, and if it reports any server it ends with a
  reported one in front, which the next round asks first.\<close>

theorem galera_promotes_active:
  assumes "\<forall>k < length (ga_Director c). shows_members env c k \<longrightarrow> arrival_order (ge_order env) (length (peers env c k))"
    and "galera_BuildActiveBackends env c = (c', backends, err)"
  shows "mset (ga_Director c') = mset (ga_Director c) \<and>
    (\<forall>a \<in> dom (map_of backends). hd (ga_Director c') \<in> dom (map_of backends))"
proof (cases "ga_Director c = []")
  case False
  let ?r = "galera_directors env 0 (length (ga_Director c)) c []"
  have r: "c' = fst ?r" "backends = snd ?r"
    using assms(2) False by (auto simp: galera_BuildActiveBackends_def split: prod.splits)
  have "map_of (snd ?r) = (\<lambda>a. if a \<in> reported env c 0 then Some FlagUp else map_of [] a)"
    using assms(1) by (intro galera_directors_map) auto
  then have dom: "dom (map_of backends) = reported env c 0" by (auto simp: r split: if_splits)
  have m: "mset (ga_Director c') = mset (ga_Director c)"
    using galera_directors_keeps[of 0 "length (ga_Director c)" c env "[]"] by (simp add: r)
  then have "ga_Director c' \<noteq> []" using False by auto
  then have "hd (ga_Director c') \<in> reported env c 0" if "reported env c 0 \<noteq> {}"
    using galera_directors_active_head[of 0 "length (ga_Director c)" c env "reported env c 0" "[]"] that
    by (simp add: r hd_conv_nth)
  then show ?thesis using m by (auto simp: dom)
qed (use assms(2) in \<open>simp add: galera_BuildActiveBackends_def\<close>)

theorem galera_promotes_active_witness:
  "mset (ga_Director (fst (galera_BuildActiveBackends ex_genv ex_galera))) = {#''a:1'', ''b:1''#}"
proof -
  note ex_galera_orders
  moreover obtain c' b e where "galera_BuildActiveBackends ex_genv ex_galera = (c', b, e)"
    by (cases "galera_BuildActiveBackends ex_genv ex_galera")
  ultimately show ?thesis using galera_promotes_active[of ex_galera ex_genv c' b e] by (simp add: ex_galera_def)
qed

end
