(* ===== verification/Exec.thy ===== *)
theory Exec
  imports GoStrings
begin

text \<open>
  What the program asks of the operating system through utils/utils.go and utils/sandbox.go:
  external commands, the local addresses, the pid file. The system is an argument: the outcome of
  a command may depend on the commands run before it. \<open>os.Exit\<close> and \<open>log.Fatal\<close> end the process.
\<close>

subsection \<open>Results\<close>

datatype 'a exit = Returned 'a | Exited

fun and_exit :: "'a exit \<Rightarrow> ('a \<Rightarrow> 'b exit) \<Rightarrow> 'b exit" where
  "and_exit (Returned x) f = f x"
| "and_exit Exited f = Exited"

text \<open>A command is its argument vector. A shell answers a command with its output and an error, seeing
  the history; the history is the state the callers thread.\<close>

type_synonym argv = "string list"
type_synonym shell = "argv list \<Rightarrow> argv \<Rightarrow> string \<times> string option"

definition exec :: "shell \<Rightarrow> argv \<Rightarrow> argv list \<Rightarrow> (string \<times> string option) \<times> argv list" where
  "exec sh args h = (sh h args, h @ [args])"

subsection \<open>Commands\<close>

text \<open>\<open>args[0]\<close> panics on a command of blanks.\<close>

definition RunCommand :: "shell \<Rightarrow> string \<Rightarrow> argv list \<Rightarrow> string option \<times> argv list outcome" where
  "RunCommand sh cmd h =
    (let args = Fields cmd in
     if args = [] then (None, Panicked IndexOutOfRange h)
     else case exec sh args h of
       ((out, None), h') \<Rightarrow> (None, Finished h')
     | ((out, Some e), h') \<Rightarrow>
         (Some (''Err: '' @ e @ '' Output: '' @ out @ '', Cmd '' @ cmd), Finished h'))"

fun EnsureCommands :: "shell \<Rightarrow> string list \<Rightarrow> argv list \<Rightarrow> string option \<times> argv list outcome" where
  "EnsureCommands sh [] h = (None, Finished h)"
| "EnsureCommands sh (c # cs) h =
    (case RunCommand sh c h of
       (None, Finished h') \<Rightarrow> EnsureCommands sh cs h'
     | r \<Rightarrow> r)"

text \<open>The history after running the first \<open>n\<close> commands, and whether command \<open>n\<close> then succeeds.\<close>

definition ran_cmds :: "string list \<Rightarrow> argv list \<Rightarrow> argv list" where
  "ran_cmds cmds h = h @ map Fields cmds"

definition succeeds :: "shell \<Rightarrow> string \<Rightarrow> argv list \<Rightarrow> bool" where
  "succeeds sh c h \<longleftrightarrow> snd (sh h (Fields c)) = None"

lemma RunCommand_eq:
  "Fields c \<noteq> [] \<Longrightarrow> RunCommand sh c h =
    ((if succeeds sh c h then None
      else Some (''Err: '' @ the (snd (sh h (Fields c))) @ '' Output: '' @ fst (sh h (Fields c)) @ '', Cmd '' @ c)),
     Finished (h @ [Fields c]))"
  by (cases "sh h (Fields c)"; cases "snd (sh h (Fields c))")
    (auto simp: RunCommand_def exec_def succeeds_def Let_def)

definition step_ok :: "shell \<Rightarrow> string list \<Rightarrow> argv list \<Rightarrow> nat \<Rightarrow> bool" where
  "step_ok sh cmds h i \<longleftrightarrow> succeeds sh (cmds ! i) (ran_cmds (take i cmds) h)"

lemma step_ok_Cons:
  "step_ok sh (c # cs) h 0 \<longleftrightarrow> succeeds sh c h"
  "step_ok sh (c # cs) h (Suc i) \<longleftrightarrow> step_ok sh cs (h @ [Fields c]) i"
  by (simp_all add: step_ok_def ran_cmds_def)

lemma EnsureCommands_prefix:
  assumes "\<forall>c \<in> set cmds. Fields c \<noteq> []"
  shows "fst (EnsureCommands sh cmds h) = None \<and> snd (EnsureCommands sh cmds h) = Finished (ran_cmds cmds h) \<and>
      (\<forall>i < length cmds. step_ok sh cmds h i) \<or>
    fst (EnsureCommands sh cmds h) \<noteq> None \<and> (\<exists>m < length cmds. \<not> step_ok sh cmds h m \<and>
      (\<forall>i < m. step_ok sh cmds h i) \<and> snd (EnsureCommands sh cmds h) = Finished (ran_cmds (take (Suc m) cmds) h))"
  using assms
proof (induction cmds arbitrary: h)
  case Nil
  then show ?case by (simp add: ran_cmds_def)
next
  case (Cons c cs)
  then have c: "Fields c \<noteq> []" and cs: "\<forall>c \<in> set cs. Fields c \<noteq> []" by simp_all
  let ?h = "h @ [Fields c]"
  show ?case
  proof (cases "succeeds sh c h")
    case False
    then have "fst (EnsureCommands sh (c # cs) h) \<noteq> None"
      "snd (EnsureCommands sh (c # cs) h) = Finished (ran_cmds (take (Suc 0) (c # cs)) h)"
      using c by (simp_all add: RunCommand_eq ran_cmds_def)
    then show ?thesis using False by (intro disjI2 conjI exI[of _ 0]) (simp_all add: step_ok_Cons)
  next
    case True
    have e: "EnsureCommands sh (c # cs) h = EnsureCommands sh cs ?h"
      using c True by (simp add: RunCommand_eq)
    have r: "ran_cmds (c # ds) h = ran_cmds ds ?h" for ds by (simp add: ran_cmds_def)
    from Cons.IH[OF cs, of ?h] show ?thesis
    proof (elim disjE conjE exE)
      assume "fst (EnsureCommands sh cs ?h) = None" "snd (EnsureCommands sh cs ?h) = Finished (ran_cmds cs ?h)"
        "\<forall>i < length cs. step_ok sh cs ?h i"
      then show ?thesis
        using True by (intro disjI1) (simp add: e r All_less_Suc2 step_ok_Cons del: EnsureCommands.simps)
    next
      fix m
      assume "fst (EnsureCommands sh cs ?h) \<noteq> None" "m < length cs" "\<not> step_ok sh cs ?h m"
        "\<forall>i < m. step_ok sh cs ?h i" "snd (EnsureCommands sh cs ?h) = Finished (ran_cmds (take (Suc m) cs) ?h)"
      then show ?thesis
        using True by (intro disjI2 conjI exI[of _ "Suc m"]) (simp_all add: e r All_less_Suc2 step_ok_Cons del: EnsureCommands.simps)
    qed
  qed
qed

subsection \<open>Sandbox\<close>

record sandbox =
  sb_Name :: string
  sb_Network :: string
  sb_Command :: string
  sb_Args :: "string list"
  sb_Addr :: string

definition NewSandbox :: "string \<Rightarrow> string \<Rightarrow> string \<Rightarrow> sandbox" where
  "NewSandbox name network cmd =
    \<lparr>sb_Name = name, sb_Network = network, sb_Command = cmd, sb_Args = [], sb_Addr = ''''\<rparr>"

definition RunService :: "shell \<Rightarrow> sandbox \<Rightarrow> argv list \<Rightarrow> string option \<times> argv list outcome" where
  "RunService sh s h =
    (let cmdline = ''virt-sandbox-service create --network address='' @ sb_Addr s @ ''/24,source='' @
         sb_Network s @ '' '' @ sb_Name s @ '' -- '' @ sb_Command s in
     EnsureCommands sh [cmdline, ''virsh start '' @ sb_Name s] h)"

definition RunSandbox :: "shell \<Rightarrow> sandbox \<Rightarrow> argv list \<Rightarrow> string option \<times> argv list outcome" where
  "RunSandbox sh s h =
    (let cmdline = ''virt-sandbox --network address='' @ sb_Addr s @ ''/24,source='' @ sb_Network s @
         ''  -n '' @ sb_Name s @ '' '' @ sb_Command s in
     RunCommand sh cmdline h)"

subsection \<open>Local addresses\<close>

text \<open>An address of an interface: an \<open>IPNet\<close> with its IPv4 form (text, loopback) if it has one, or an
  address of another type, on which the assertion fails and the process ends.\<close>

datatype ifaddr = IPNet "(string \<times> bool) option" | OtherAddr

record iface =
  if_loopback :: bool
  if_addrs :: "ifaddr list option"

fun first_ip4 :: "ifaddr list \<Rightarrow> string option exit" where
  "first_ip4 [] = Returned None"
| "first_ip4 (OtherAddr # as) = Exited"
| "first_ip4 (IPNet None # as) = first_ip4 as"
| "first_ip4 (IPNet (Some (a, lo)) # as) = (if \<not> lo then Returned (Some a) else first_ip4 as)"

fun first_iface_ip4 :: "iface list \<Rightarrow> string exit" where
  "first_iface_ip4 [] = Returned ''''"
| "first_iface_ip4 (i # is) =
    (if if_loopback i then first_iface_ip4 is
     else case if_addrs i of
       None \<Rightarrow> first_iface_ip4 is
     | Some as \<Rightarrow> and_exit (first_ip4 as) (\<lambda>r. case r of Some a \<Rightarrow> Returned a | None \<Rightarrow> first_iface_ip4 is))"

text \<open>\<open>ifaces\<close> is empty when \<open>net.Interfaces\<close> fails: its error is dropped.\<close>

definition GetFirstIPAddr :: "iface list \<Rightarrow> string exit" where
  "GetFirstIPAddr ifaces = first_iface_ip4 ifaces"

text \<open>\<open>IsLoopback\<close> is false on the nil address, so an address without IPv4 form is passed over.\<close>

fun GetIPAddrs :: "ifaddr list \<Rightarrow> string list exit" where
  "GetIPAddrs [] = Returned []"
| "GetIPAddrs (OtherAddr # as) = Exited"
| "GetIPAddrs (IPNet None # as) = GetIPAddrs as"
| "GetIPAddrs (IPNet (Some (a, lo)) # as) = (if \<not> lo then Returned [a] else GetIPAddrs as)"

subsection \<open>The pid file\<close>

text \<open>The file system at the pid file's path: whether it exists, its content, and the errors that
  creating or opening it meets.\<close>

record pid_env =
  pe_create :: "string option"
  pe_open :: "string option"
  pe_alive :: "int \<Rightarrow> bool"
  pe_self :: int

text \<open>A number that does not parse is reported on the terminal and taken as pid 0.\<close>

definition read_pid :: "string \<Rightarrow> int" where
  "read_pid s = (case Atoi (take 8 s) of None \<Rightarrow> 0 | Some n \<Rightarrow> n)"

definition WritePid :: "pid_env \<Rightarrow> string option \<Rightarrow> string option \<times> string option" where
  "WritePid env file =
    (case file of
       None \<Rightarrow>
         (case pe_create env of
            Some e \<Rightarrow> (Some e, None)
          | None \<Rightarrow> (None, Some (Itoa (pe_self env))))
     | Some content \<Rightarrow>
         (case pe_open env of
            Some e \<Rightarrow> (Some e, Some content)
          | None \<Rightarrow>
              if content = '''' then (Some ''EOF'', Some content)
              else
                let pid = read_pid content in
                if pe_alive env pid then (Some (''pid: '' @ Itoa pid @ '' is running''), Some content)
                else case pe_create env of
                  Some e \<Rightarrow> (Some e, Some content)
                | None \<Rightarrow> (None, Some (Itoa (pe_self env)))))"

subsection \<open>Properties\<close>

text \<open>\<open>EnsureCommands\<close> runs the commands in order and stops at the first that fails: no command after
  it is run, none before it is left out, and an error is returned exactly if one failed.\<close>

theorem EnsureCommands_stops_at_failure:
  assumes "\<forall>c \<in> set cmds. Fields c \<noteq> []"
  shows "case EnsureCommands sh cmds h of
      (None, r) \<Rightarrow> r = Finished (h @ map Fields cmds) \<and>
        (\<forall>i < length cmds. succeeds sh (cmds ! i) (h @ map Fields (take i cmds)))
    | (Some e, r) \<Rightarrow> \<exists>m < length cmds. r = Finished (h @ map Fields (take (Suc m) cmds)) \<and>
        \<not> succeeds sh (cmds ! m) (h @ map Fields (take m cmds)) \<and>
        (\<forall>i < m. succeeds sh (cmds ! i) (h @ map Fields (take i cmds)))"
  using EnsureCommands_prefix[OF assms, of sh h]
  by (cases "EnsureCommands sh cmds h"; cases "fst (EnsureCommands sh cmds h)")
    (auto simp: ran_cmds_def step_ok_def)

theorem EnsureCommands_stops_at_failure_witness:
  "fst (EnsureCommands (\<lambda>h c. ('''', if h = [] then None else Some ''exit 1'')) [''a b'', ''c''] []) \<noteq> None"
proof -
  let ?sh = "\<lambda>h c. ('''', if h = [] then None else Some ''exit 1'')"
  have "\<forall>c \<in> set [''a b'', ''c'']. Fields c \<noteq> []" by code_simp
  from EnsureCommands_stops_at_failure[OF this, where sh = ?sh and h = "[]"]
  show ?thesis by (cases "EnsureCommands ?sh [''a b'', ''c''] []") (auto simp: succeeds_def split: option.splits)
qed

text \<open>C37. \<open>WritePid\<close> leaves the file of a running instance alone: if the file holds the number of a live
  process, as \<open>WritePid\<close> itself writes it, the call fails and the file is unchanged; if that process
  is gone, the file holds the own number afterwards.\<close>

theorem WritePid_exclusive:
  assumes "0 < pid" "pid < 10 ^ 8" "pe_open env = None" "pe_create env = None"
  shows "WritePid env (Some (Itoa pid)) =
    (if pe_alive env pid then (Some (''pid: '' @ Itoa pid @ '' is running''), Some (Itoa pid))
     else (None, Some (Itoa (pe_self env))))"
proof -
  have len: "length (decimal n) \<le> k" if "n < 10 ^ k" "0 < k" for n k
    using that
  proof (induction k arbitrary: n)
    case (Suc k)
    show ?case
    proof (cases "n < 10")
      case True
      then show ?thesis by (subst decimal.simps) simp
    next
      case False
      then have "0 < k" using Suc.prems by (cases k) auto
      moreover have "n div 10 < 10 ^ k" using Suc.prems(1) by (simp add: less_mult_imp_div_less)
      ultimately have "length (decimal (n div 10)) \<le> k" using Suc.IH by blast
      then show ?thesis using False by (subst decimal.simps) simp
    qed
  qed simp
  have "length (Itoa pid) \<le> 8" using assms(1,2) len[of "nat pid" 8] by (simp add: Itoa_def)
  moreover have "Atoi (Itoa pid) = Some pid" using assms(1,2) by (intro Atoi_Itoa_eq) auto
  moreover have "Itoa pid \<noteq> []" using assms(1) by (simp add: Itoa_def)
  ultimately show ?thesis
    using assms(3,4) by (simp add: WritePid_def read_pid_def Let_def)
qed

theorem WritePid_exclusive_witness:
  "WritePid \<lparr>pe_create = None, pe_open = None, pe_alive = (\<lambda>p. p = 42), pe_self = 7\<rparr> (Some (Itoa 42)) =
     (Some (''pid: '' @ Itoa 42 @ '' is running''), Some (Itoa 42))"
  by (subst WritePid_exclusive) simp_all

end
