(* ===== verification/Registry.thy ===== *)
theory Registry
  imports Prelude
begin

text \<open>
  The contract between a health report and whoever keeps a register of servers: the wrangler's
  table of servers that are up and the IPVS engine's table of installed servers both go through
  the keys they know, drop the ones the report no longer has, and put the ones they do not know.
  The locale states what dropping and putting must do to the register; its lemmas give the
  register after the two loops, whatever the order in which Go visits the keys.
\<close>

lemma fold_if: "fold (\<lambda>a s. if P a then f a s else s) ks s = fold f (filter P ks) s"
  by (induction ks arbitrary: s) auto

locale registry =
  fixes reg :: "'s \<Rightarrow> 'k \<rightharpoonup> 'v"
    and drop :: "'k \<Rightarrow> 's \<Rightarrow> 's"
    and put :: "'k \<Rightarrow> 's \<Rightarrow> 's"
    and val :: "'k \<Rightarrow> 'v"
  assumes reg_drop: "a \<in> dom (reg s) \<Longrightarrow> reg (drop a s) = (reg s)(a := None)"
    and reg_put: "a \<notin> dom (reg s) \<Longrightarrow> reg (put a s) = (reg s)(a \<mapsto> val a)"
begin

lemma reg_drops: "distinct ks \<Longrightarrow> set ks \<subseteq> dom (reg s) \<Longrightarrow> reg (fold drop ks s) = reg s |` (- set ks)"
proof (induction ks arbitrary: s)
  case (Cons k ks)
  then have "reg (drop k s) = (reg s)(k := None)" by (simp add: reg_drop)
  moreover from this have "reg (fold drop ks (drop k s)) = reg (drop k s) |` (- set ks)"
    using Cons.prems by (intro Cons.IH) auto
  ultimately show ?case by (auto simp: restrict_map_def fun_eq_iff)
qed (simp add: restrict_map_def)

lemma reg_puts:
  "distinct ks \<Longrightarrow> set ks \<inter> dom (reg s) = {} \<Longrightarrow>
   reg (fold put ks s) = (\<lambda>a. if a \<in> set ks then Some (val a) else reg s a)"
proof (induction ks arbitrary: s)
  case (Cons k ks)
  then have "reg (put k s) = (reg s)(k \<mapsto> val k)" by (simp add: reg_put disjoint_iff)
  moreover from this have "reg (fold put ks (put k s)) = (\<lambda>a. if a \<in> set ks then Some (val a) else reg (put k s) a)"
    using Cons.prems by (intro Cons.IH) (auto simp: disjoint_iff split: if_splits)
  ultimately show ?case using Cons.prems(1) by (auto simp: fun_eq_iff)
qed simp

text \<open>A second loop that looks each key up first puts the keys that are missing.\<close>

lemma puts_checked:
  "distinct ks \<Longrightarrow> fold (\<lambda>a s. if reg s a = None then put a s else s) ks s =
    fold put (filter (\<lambda>a. reg s a = None) ks) s"
proof (induction ks arbitrary: s)
  case (Cons k ks)
  show ?case
  proof (cases "reg s k")
    case None
    then have "reg (put k s) = (reg s)(k \<mapsto> val k)" by (simp add: reg_put domIff)
    then have "filter (\<lambda>a. reg (put k s) a = None) ks = filter (\<lambda>a. reg s a = None) ks"
      using Cons.prems by (intro filter_cong) auto
    then show ?thesis using Cons None by simp
  qed (use Cons in simp)
qed simp

text \<open>The two loops: afterwards the register has exactly the keys of the report, with the old entry
  where there was one.\<close>

lemma reg_aligned:
  assumes "enumerates known (reg s)" "distinct fresh" "set fresh = dom msg - dom (reg s)"
  shows "reg (fold put fresh (fold drop (filter (\<lambda>a. msg a = None) known) s)) =
    (\<lambda>a. if msg a = None then None else if reg s a = None then Some (val a) else reg s a)"
proof -
  let ?s = "fold drop (filter (\<lambda>a. msg a = None) known) s"
  have s: "reg ?s = reg s |` (- {a \<in> set known. msg a = None})"
    using assms(1) by (subst reg_drops) (auto simp: enumerates_def)
  then have "reg (fold put fresh ?s) = (\<lambda>a. if a \<in> set fresh then Some (val a) else reg ?s a)"
    using assms by (intro reg_puts) (auto simp: restrict_map_def split: if_splits)
  then show ?thesis
    using assms by (auto simp: s restrict_map_def fun_eq_iff enumerates_def domIff)
qed

lemma dom_aligned:
  assumes "enumerates known (reg s)" "distinct fresh" "set fresh = dom msg - dom (reg s)"
  shows "dom (reg (fold put fresh (fold drop (filter (\<lambda>a. msg a = None) known) s))) = dom msg"
  by (auto simp: reg_aligned[OF assms] split: if_splits)

lemma reg_aligned_checked:
  assumes "enumerates known (reg s)" "enumerates keys msg"
  shows "reg (fold (\<lambda>a s. if reg s a = None then put a s else s) keys
      (fold (\<lambda>a s. if msg a = None then drop a s else s) known s)) =
    (\<lambda>a. if msg a = None then None else if reg s a = None then Some (val a) else reg s a)"
proof -
  let ?s = "fold drop (filter (\<lambda>a. msg a = None) known) s"
  have s: "reg ?s = reg s |` (- {a \<in> set known. msg a = None})"
    using assms(1) by (subst reg_drops) (auto simp: enumerates_def)
  have d: "distinct keys" "distinct (filter (\<lambda>a. reg ?s a = None) keys)" using assms(2) by (auto simp: enumerates_def)
  moreover have "set (filter (\<lambda>a. reg ?s a = None) keys) = dom msg - dom (reg s)"
    using assms by (auto simp: s enumerates_def restrict_map_def domIff)
  ultimately show ?thesis
    using reg_aligned[OF assms(1), of "filter (\<lambda>a. reg ?s a = None) keys" msg]
    by (simp add: puts_checked fold_if)
qed

end

end
