(* ===== verification/Wrangler.thy ===== *)
theory Wrangler
  imports Health Exec Registry
begin

text \<open>
  wrangler/wrangler.go: the wrangler drives one of the four health drivers, keeps the table of the
  servers that are up and sends every report that names a server to the engine. Go's interface
  \<open>healthDriver\<close> is the locale \<open>health_driver\<close>, interpreted for each driver and for the value
  of the interface that \<open>NewWrangler\<close> chooses.
\<close>

subsection \<open>The interface\<close>

locale health_driver =
  fixes dirs :: "'d \<Rightarrow> string list"
    and add :: "string \<Rightarrow> 'd \<Rightarrow> 'd \<times> error"
    and build :: "'w \<Rightarrow> 'd \<Rightarrow> 'd \<times> flags \<times> error"
  assumes add_dirs: "dirs (fst (add b d)) = dirs d @ [b]"
    and build_dirs: "mset (dirs (fst (build w d))) = mset (dirs d)"
    and build_empty: "dirs d = [] \<Longrightarrow> snd (build w d) = ([], Some empty_directory)"
    and build_up: "dirs d \<noteq> [] \<Longrightarrow> \<exists>m. snd (build w d) = (m, None) \<and> distinct (map fst m) \<and> (\<forall>(a, f) \<in> set m. f = FlagUp)"
begin

lemma register: "dirs (fold (\<lambda>b d. fst (add b d)) bs d) = dirs d @ bs"
  by (induction bs arbitrary: d) (simp_all add: add_dirs)

lemma report:
  "\<exists>d' m err. build w d = (d', m, err) \<and> mset (dirs d') = mset (dirs d) \<and> distinct (map fst m) \<and>
    (\<forall>a f. map_of m a = Some f \<longrightarrow> f = FlagUp) \<and> (err = None \<longleftrightarrow> dirs d \<noteq> [])"
proof -
  obtain d' m err where b: "build w d = (d', m, err)" by (cases "build w d")
  then have "mset (dirs d') = mset (dirs d)" using build_dirs[of w d] by simp
  moreover have "distinct (map fst m)" "\<forall>(a, f) \<in> set m. f = FlagUp" "err = None \<longleftrightarrow> dirs d \<noteq> []"
    using build_empty[of d w] build_up[of d w] by (cases "dirs d = []"; auto simp: b)+
  moreover have "\<forall>a f. map_of m a = Some f \<longrightarrow> f = FlagUp"
    using \<open>\<forall>(a, f) \<in> set m. f = FlagUp\<close> map_of_SomeD by fastforce
  ultimately show ?thesis using b by blast
qed

end

lemma collect_up: "\<forall>(a, f) \<in> set m. f = FlagUp \<Longrightarrow> \<forall>(a, f) \<in> set (collect rs m). f = FlagUp"
proof (induction rs arbitrary: m)
  case (Cons r rs)
  have "\<forall>(a, f) \<in> set (AList.update k FlagUp m). f = FlagUp" for k
    using Cons.prems by (induction m) auto
  from Cons.IH[OF this] Cons.IH[OF Cons.prems] show ?case by simp
qed simp

lemma collect_report: "distinct (map fst (collect rs [])) \<and> (\<forall>(a, f) \<in> set (collect rs []). f = FlagUp)"
  using collect_distinct[of "[]" rs] collect_up[of "[]" rs] by simp

lemma galera_directors_report:
  "distinct (map fst m) \<Longrightarrow> \<forall>(a, f) \<in> set m. f = FlagUp \<Longrightarrow>
   distinct (map fst (snd (galera_directors env i n c m))) \<and>
   (\<forall>(a, f) \<in> set (snd (galera_directors env i n c m)). f = FlagUp)"
proof (induction n arbitrary: i c m)
  case (Suc n)
  let ?m = "AList.update (ga_Director c ! i) FlagUp m"
  have m: "distinct (map fst ?m)" "\<forall>(a, f) \<in> set ?m. f = FlagUp"
    using Suc.prems(1) collect_up[of m "[\<lparr>bs_backend = ga_Director c ! i, bs_err = None\<rparr>]"] Suc.prems(2)
    by (simp_all add: distinct_update)
  show ?case
    using Suc.IH[OF Suc.prems, of "Suc i" c] Suc.IH[OF m, of "Suc i" "with_first i c"] collect_distinct[OF m(1)] collect_up[OF m(2)]
    by (simp del: galera_directors.simps(2) add: galera_directors_Suc)
qed simp

type_synonym tcp_env = "(nat \<Rightarrow> string \<Rightarrow> string \<Rightarrow> nat \<Rightarrow> error) \<times> nat list"
type_synonym http_env = "(nat \<Rightarrow> string \<Rightarrow> error) \<times> nat list"
type_synonym ext_env = "(nat \<Rightarrow> string list \<Rightarrow> error) \<times> nat list"

interpretation tcp: health_driver ht_Director tcp_AddDirector
  "\<lambda>(dial, order) t. (t, tcp_BuildActiveBackends dial order t)"
  by unfold_locales
    (use collect_report in \<open>auto simp: tcp_AddDirector_def tcp_BuildActiveBackends_def split: prod.splits\<close>)

interpretation http: health_driver hh_Director http_AddDirector
  "\<lambda>(get, order) t. (t, http_BuildActiveBackends get order t)"
  by unfold_locales
    (use collect_report in \<open>auto simp: http_AddDirector_def http_BuildActiveBackends_def split: prod.splits\<close>)

interpretation ext: health_driver he_Director ext_AddDirector
  "\<lambda>(command, order) t. (t, ext_BuildActiveBackends command order t)"
  by unfold_locales
    (use collect_report in \<open>auto simp: ext_AddDirector_def ext_BuildActiveBackends_def split: prod.splits\<close>)

interpretation galera: health_driver ga_Director galera_AddDirector galera_BuildActiveBackends
proof unfold_locales
  fix w d
  show "mset (ga_Director (fst (galera_BuildActiveBackends w d))) = mset (ga_Director d)"
    using galera_directors_keeps[of 0 "length (ga_Director d)" d w "[]"]
    by (simp add: galera_BuildActiveBackends_def case_prod_beta)
  show "\<exists>m. snd (galera_BuildActiveBackends w d) = (m, None) \<and> distinct (map fst m) \<and> (\<forall>(a, f) \<in> set m. f = FlagUp)"
    if "ga_Director d \<noteq> []"
    using that galera_directors_report[of "[]" w 0 "length (ga_Director d)" d]
    by (simp add: galera_BuildActiveBackends_def case_prod_beta)
qed (auto simp: galera_AddDirector_def galera_BuildActiveBackends_def)
subsection \<open>The wrangler\<close>

datatype driver = Galera galera | HealthTcp health_tcp | HealthHTTP health_http | HealthExt health_ext

record health_env =
  hv_galera :: galera_env
  hv_tcp :: tcp_env
  hv_http :: http_env
  hv_ext :: ext_env

fun AddDirector :: "string \<Rightarrow> driver \<Rightarrow> driver \<times> error" where
  "AddDirector b (Galera c) = apfst Galera (galera_AddDirector b c)"
| "AddDirector b (HealthTcp t) = apfst HealthTcp (tcp_AddDirector b t)"
| "AddDirector b (HealthHTTP t) = apfst HealthHTTP (http_AddDirector b t)"
| "AddDirector b (HealthExt t) = apfst HealthExt (ext_AddDirector b t)"

fun BuildActiveBackends :: "health_env \<Rightarrow> driver \<Rightarrow> driver \<times> flags \<times> error" where
  "BuildActiveBackends env (Galera c) = apfst Galera (galera_BuildActiveBackends (hv_galera env) c)"
| "BuildActiveBackends env (HealthTcp t) = (HealthTcp t, tcp_BuildActiveBackends (fst (hv_tcp env)) (snd (hv_tcp env)) t)"
| "BuildActiveBackends env (HealthHTTP t) = (HealthHTTP t, http_BuildActiveBackends (fst (hv_http env)) (snd (hv_http env)) t)"
| "BuildActiveBackends env (HealthExt t) = (HealthExt t, ext_BuildActiveBackends (fst (hv_ext env)) (snd (hv_ext env)) t)"

fun directors :: "driver \<Rightarrow> string list" where
  "directors (Galera c) = ga_Director c"
| "directors (HealthTcp t) = ht_Director t"
| "directors (HealthHTTP t) = hh_Director t"
| "directors (HealthExt t) = he_Director t"

interpretation drv: health_driver directors AddDirector BuildActiveBackends
proof unfold_locales
  fix b w and d :: driver
  show "directors (fst (AddDirector b d)) = directors d @ [b]"
    by (cases d) (simp_all add: tcp.add_dirs http.add_dirs ext.add_dirs galera.add_dirs)
  show "mset (directors (fst (BuildActiveBackends w d))) = mset (directors d)"
    by (cases d) (simp_all add: galera.build_dirs)
  show "snd (BuildActiveBackends w d) = ([], Some empty_directory)" if "directors d = []"
    using that tcp.build_empty[of _ "hv_tcp w"] http.build_empty[of _ "hv_http w"] ext.build_empty[of _ "hv_ext w"]
    by (cases d) (auto simp: galera.build_empty case_prod_beta)
  show "\<exists>m. snd (BuildActiveBackends w d) = (m, None) \<and> distinct (map fst m) \<and> (\<forall>(a, f) \<in> set m. f = FlagUp)"
    if "directors d \<noteq> []"
    using that tcp.build_up[of _ "hv_tcp w"] http.build_up[of _ "hv_http w"] ext.build_up[of _ "hv_ext w"]
      galera.build_up[of _ "hv_galera w"]
    by (cases d) (auto simp: case_prod_beta)
qed

record wrangler =
  wr_healthExec :: driver
  wr_Backends :: flags

fun register_all :: "string list \<Rightarrow> driver \<Rightarrow> driver" where
  "register_all [] d = d"
| "register_all (b # bs) d = register_all bs (fst (AddDirector b d))"

definition new_driver :: "configuration \<Rightarrow> driver exit" where
  "new_driver c =
    (if cf_Service c = ''galera'' then Returned (Galera (NewGalera (cf_User c) (cf_Pass c)))
     else if cf_Service c = ''tcp'' then Returned (HealthTcp NewHealthTcp)
     else if cf_Service c = ''http'' then Returned (HealthHTTP NewHealthHTTP)
     else if cf_Service c = ''ext'' then
       (if cf_ExtCommand c = '''' then Exited else Returned (HealthExt (NewHealthExt (cf_ExtCommand c))))
     else Exited)"

definition NewWrangler :: "configuration \<Rightarrow> wrangler exit" where
  "NewWrangler c = and_exit (new_driver c) (\<lambda>hexec.
     Returned \<lparr>wr_healthExec = register_all (cf_Backend c) hexec, wr_Backends = []\<rparr>)"

text \<open>\<open>known\<close> and \<open>keys\<close> are the orders in which the two loops visit the table and the report.\<close>

definition take_down :: "string \<Rightarrow> wrangler \<Rightarrow> wrangler" where
  "take_down b w = w\<lparr>wr_Backends := AList.delete b (wr_Backends w)\<rparr>"

definition bring_up :: "flags \<Rightarrow> string \<Rightarrow> wrangler \<Rightarrow> wrangler" where
  "bring_up backends b w = w\<lparr>wr_Backends := AList.update b (the (map_of backends b)) (wr_Backends w)\<rparr>"

definition ValidBackends ::
  "health_env \<Rightarrow> string list \<Rightarrow> string list \<Rightarrow> wrangler \<Rightarrow> wrangler \<times> flags option"
where
  "ValidBackends env known keys w =
    (case BuildActiveBackends env (wr_healthExec w) of
       (hexec, backends, err) \<Rightarrow>
         let w = w\<lparr>wr_healthExec := hexec\<rparr> in
         case err of
           Some e \<Rightarrow> (w, None)
         | None \<Rightarrow>
             let w = fold (\<lambda>b w. if map_of backends b = None then take_down b w else w) known w;
                 w = fold (\<lambda>b w. if map_of (wr_Backends w) b = None then bring_up backends b w else w) keys w in
             (w, if length backends > 0 then Some backends else None))"

interpretation table: registry "\<lambda>w. map_of (wr_Backends w)" take_down "bring_up backends"
  "\<lambda>b. the (map_of backends b)" for backends
  by unfold_locales (simp_all add: take_down_def bring_up_def delete_conv' update_conv')

subsection \<open>The monitor\<close>

text \<open>One round of \<open>Monitor\<close>: the world of its probes and the map orders. A run of the loop is given the
  rounds that have come so far; what it does is the list of acts.\<close>

record round =
  rd_env :: health_env
  rd_known :: "string list"
  rd_keys :: "string list"

datatype act = Sent flags | Slept nat | TickerStarted nat

definition CheckInterval :: nat where "CheckInterval = 60"

definition one_round :: "round \<Rightarrow> wrangler \<Rightarrow> wrangler \<times> act list" where
  "one_round r w =
    (case ValidBackends (rd_env r) (rd_known r) (rd_keys r) w of
       (w', m) \<Rightarrow> (w', case m of None \<Rightarrow> [] | Some backends \<Rightarrow> [Sent backends]))"

fun monitor_ticks :: "round list \<Rightarrow> wrangler \<Rightarrow> wrangler \<times> act list" where
  "monitor_ticks [] w = (w, [])"
| "monitor_ticks (r # rs) w = (case one_round r w of (w1, as) \<Rightarrow> apsnd (\<lambda>bs. as @ bs) (monitor_ticks rs w1))"

fun Monitor :: "round list \<Rightarrow> wrangler \<Rightarrow> wrangler \<times> act list" where
  "Monitor [] w = (w, [])"
| "Monitor (r # rs) w =
    (case one_round r w of (w1, as) \<Rightarrow>
       if length (wr_Backends w1) > 0
       then apsnd (\<lambda>bs. as @ TickerStarted CheckInterval # bs) (monitor_ticks rs w1)
       else apsnd (\<lambda>bs. as @ Slept 1 # bs) (Monitor rs w1))"

subsection \<open>Lemmas\<close>

lemma register_all_fold: "register_all bs d = fold (\<lambda>b d. fst (AddDirector b d)) bs d"
  by (induction bs arbitrary: d) simp_all

lemma NewWrangler_directors:
  assumes "NewWrangler c = Returned w"
  shows "directors (wr_healthExec w) = cf_Backend c \<and> wr_Backends w = []"
proof -
  obtain d where d: "new_driver c = Returned d" "w = \<lparr>wr_healthExec = register_all (cf_Backend c) d, wr_Backends = []\<rparr>"
    using assms by (cases "new_driver c") (auto simp: NewWrangler_def)
  have "directors d = []"
    using d(1) by (auto simp: new_driver_def NewGalera_def NewHealthTcp_def NewHealthHTTP_def NewHealthExt_def split: if_splits)
  then show ?thesis using drv.register[of "cf_Backend c" d] by (simp add: d(2) register_all_fold)
qed

definition all_up :: "flags \<Rightarrow> bool" where
  "all_up m \<longleftrightarrow> (\<forall>a f. map_of m a = Some f \<longrightarrow> f = FlagUp)"

lemma round_none:
  assumes "BuildActiveBackends env (wr_healthExec w) = (d, backends, Some e)"
  shows "ValidBackends env known keys w = (w\<lparr>wr_healthExec := d\<rparr>, None)"
  using assms by (simp add: ValidBackends_def)

lemma table_frame [simp]:
  "wr_healthExec (take_down b w) = wr_healthExec w" "wr_healthExec (bring_up m b w) = wr_healthExec w"
  by (simp_all add: take_down_def bring_up_def)

lemma fold_frame: "(\<And>a s. g (f a s) = g s) \<Longrightarrow> g (fold f ks s) = g s"
  by (induction ks arbitrary: s) auto

lemma round_report:
  assumes "BuildActiveBackends env (wr_healthExec w) = (d, backends, None)"
    and "all_up (wr_Backends w)"
    and "enumerates known (map_of (wr_Backends w))" "enumerates keys (map_of backends)"
  shows "\<exists>w'. ValidBackends env known keys w = (w', if backends = [] then None else Some backends) \<and>
    wr_healthExec w' = d \<and> map_of (wr_Backends w') = map_of backends"
proof -
  let ?w = "w\<lparr>wr_healthExec := d\<rparr>"
  let ?w1 = "fold (\<lambda>b w. if map_of backends b = None then take_down b w else w) known ?w"
  let ?w2 = "fold (\<lambda>b w. if map_of (wr_Backends w) b = None then bring_up backends b w else w) keys ?w1"
  have up: "map_of backends a = Some f \<Longrightarrow> f = FlagUp" for a f
    using drv.report[of env "wr_healthExec w"] assms(1) by auto
  have "map_of (wr_Backends ?w2) = (\<lambda>a. if map_of backends a = None then None
      else if map_of (wr_Backends ?w) a = None then Some (the (map_of backends a)) else map_of (wr_Backends ?w) a)"
    using assms(3,4) by (intro table.reg_aligned_checked) simp_all
  moreover have "\<dots> a = map_of backends a" for a
    using up assms(2) by (cases "map_of backends a"; cases "map_of (wr_Backends w) a") (auto simp: all_up_def)
  ultimately have "map_of (wr_Backends ?w2) = map_of backends" by (simp only: fun_eq_iff simp_thms)
  moreover have "wr_healthExec ?w2 = d" by (subst fold_frame; simp add: fold_frame)+
  ultimately show ?thesis using assms(1) by (simp add: ValidBackends_def Let_def)
qed

text \<open>The reports of a run: what the driver finds in each round, an error counting as nothing.\<close>

fun reports :: "round list \<Rightarrow> driver \<Rightarrow> flags list" where
  "reports [] d = []"
| "reports (r # rs) d =
    (case BuildActiveBackends (rd_env r) d of (d', m, err) \<Rightarrow> (if err = None then m else []) # reports rs d')"

fun orders_ok :: "round list \<Rightarrow> wrangler \<Rightarrow> bool" where
  "orders_ok [] w = True"
| "orders_ok (r # rs) w \<longleftrightarrow>
    enumerates (rd_known r) (map_of (wr_Backends w)) \<and>
    enumerates (rd_keys r) (map_of (fst (snd (BuildActiveBackends (rd_env r) (wr_healthExec w))))) \<and>
    orders_ok rs (fst (one_round r w))"

lemma one_round_cases:
  assumes "all_up (wr_Backends w)" "orders_ok (r # rs) w"
  obtains w' m where "one_round r w = (w', if m = [] then [] else [Sent m])"
    "reports (r # rs) (wr_healthExec w) = m # reports rs (wr_healthExec w')"
    "map_of (wr_Backends w') = map_of m \<or> m = [] \<and> wr_Backends w' = wr_Backends w"
    "all_up (wr_Backends w')" "orders_ok rs w'"
proof -
  obtain d m err where b: "BuildActiveBackends (rd_env r) (wr_healthExec w) = (d, m, err)"
    by (cases "BuildActiveBackends (rd_env r) (wr_healthExec w)")
  show thesis
  proof (cases err)
    case None
    with b have b': "BuildActiveBackends (rd_env r) (wr_healthExec w) = (d, m, None)" by simp
    obtain w' where w': "ValidBackends (rd_env r) (rd_known r) (rd_keys r) w = (w', if m = [] then None else Some m)"
      "wr_healthExec w' = d" "map_of (wr_Backends w') = map_of m"
      using round_report[OF b' assms(1), of "rd_known r" "rd_keys r"] assms(2) b by auto
    have "\<forall>a f. map_of m a = Some f \<longrightarrow> f = FlagUp"
      using drv.report[of "rd_env r" "wr_healthExec w"] b' by auto
    then have "all_up (wr_Backends w')" by (simp add: all_up_def w'(3))
    moreover have "one_round r w = (w', if m = [] then [] else [Sent m])" using w'(1) by (simp add: one_round_def)
    ultimately show thesis using that[of w' m] assms(2) b' w' by auto
  next
    case (Some e)
    with b have "BuildActiveBackends (rd_env r) (wr_healthExec w) = (d, m, Some e)" by simp
    from round_none[of "rd_env r" w, OF this]
    have "one_round r w = (w\<lparr>wr_healthExec := d\<rparr>, [])" by (simp add: one_round_def)
    then show thesis using that[of "w\<lparr>wr_healthExec := d\<rparr>" "[]"] assms b Some by auto
  qed
qed

lemma monitor_ticks_acts:
  "all_up (wr_Backends w) \<Longrightarrow> orders_ok rs w \<Longrightarrow>
   snd (monitor_ticks rs w) = map Sent (filter (\<lambda>m. m \<noteq> []) (reports rs (wr_healthExec w)))"
proof (induction rs arbitrary: w)
  case (Cons r rs)
  from Cons.prems obtain w' m where r: "one_round r w = (w', if m = [] then [] else [Sent m])"
    "reports (r # rs) (wr_healthExec w) = m # reports rs (wr_healthExec w')"
    "all_up (wr_Backends w')" "orders_ok rs w'"
    by (rule one_round_cases)
  from Cons.IH[OF r(3,4)] r(1) show ?case
    unfolding r(2) by (simp add: case_prod_beta)
qed simp

subsection \<open>Properties\<close>

text \<open>What registering servers does to each driver: they are added to its directors, and nothing else changes.\<close>

lemma register_all_driver:
  "register_all bs (Galera g) = Galera (g\<lparr>ga_Director := ga_Director g @ bs\<rparr>)"
  "register_all bs (HealthTcp t) = HealthTcp (t\<lparr>ht_Director := ht_Director t @ bs\<rparr>)"
  "register_all bs (HealthHTTP h) = HealthHTTP (h\<lparr>hh_Director := hh_Director h @ bs\<rparr>)"
  "register_all bs (HealthExt e) = HealthExt (e\<lparr>he_Director := he_Director e @ bs\<rparr>)"
  by (induction bs arbitrary: g t h e)
    (simp_all add: galera_AddDirector_def tcp_AddDirector_def http_AddDirector_def ext_AddDirector_def)

text \<open>C39. A wrangler is made exactly for the services galera, tcp and http, and for the external service if it has a
  command. Its driver is that of the service, with the configured user and password or the command, and with the
  configured servers as its directors in their order; no server is known to be up. Any other configuration ends the
  process.\<close>

theorem NewWrangler_registers:
  "(NewWrangler c = Exited \<longleftrightarrow>
      cf_Service c \<notin> {''galera'', ''tcp'', ''http'', ''ext''} \<or> cf_Service c = ''ext'' \<and> cf_ExtCommand c = '''') \<and>
   (NewWrangler c = Returned w \<longleftrightarrow> wr_Backends w = [] \<and>
     (case wr_healthExec w of
        Galera g \<Rightarrow> cf_Service c = ''galera'' \<and> g = \<lparr>ga_User = cf_User c, ga_Pass = cf_Pass c, ga_Director = cf_Backend c\<rparr>
      | HealthTcp t \<Rightarrow> cf_Service c = ''tcp'' \<and> t = \<lparr>ht_Director = cf_Backend c\<rparr>
      | HealthHTTP h \<Rightarrow> cf_Service c = ''http'' \<and> h = \<lparr>hh_Director = cf_Backend c\<rparr>
      | HealthExt e \<Rightarrow> cf_Service c = ''ext'' \<and> cf_ExtCommand c \<noteq> '''' \<and>
          e = \<lparr>he_Director = cf_Backend c, he_ExtCommand = cf_ExtCommand c\<rparr>))"
proof (intro conjI)
  have w: "(w = \<lparr>wr_healthExec = d, wr_Backends = []\<rparr>) = (wr_Backends w = [] \<and> wr_healthExec w = d)" for d
    by (cases w) auto
  show "NewWrangler c = Returned w \<longleftrightarrow> wr_Backends w = [] \<and>
     (case wr_healthExec w of
        Galera g \<Rightarrow> cf_Service c = ''galera'' \<and> g = \<lparr>ga_User = cf_User c, ga_Pass = cf_Pass c, ga_Director = cf_Backend c\<rparr>
      | HealthTcp t \<Rightarrow> cf_Service c = ''tcp'' \<and> t = \<lparr>ht_Director = cf_Backend c\<rparr>
      | HealthHTTP h \<Rightarrow> cf_Service c = ''http'' \<and> h = \<lparr>hh_Director = cf_Backend c\<rparr>
      | HealthExt e \<Rightarrow> cf_Service c = ''ext'' \<and> cf_ExtCommand c \<noteq> '''' \<and>
          e = \<lparr>he_Director = cf_Backend c, he_ExtCommand = cf_ExtCommand c\<rparr>)"
    by (cases "wr_healthExec w")
      (auto simp: NewWrangler_def new_driver_def register_all_driver NewGalera_def NewHealthTcp_def NewHealthHTTP_def
        NewHealthExt_def w eq_commute[of _ w])
qed (simp add: NewWrangler_def new_driver_def)

theorem NewWrangler_registers_witness:
  "NewWrangler (default_config\<lparr>cf_Service := ''ext'', cf_Backend := [''a:1'']\<rparr>) = Exited \<and>
   NewWrangler (default_config\<lparr>cf_Service := ''galera'', cf_User := ''u'', cf_Pass := ''p'', cf_Backend := [''a:1'']\<rparr>) =
     Returned \<lparr>wr_healthExec = Galera \<lparr>ga_User = ''u'', ga_Pass = ''p'', ga_Director = [''a:1'']\<rparr>, wr_Backends = []\<rparr>"
  by (simp add: NewWrangler_registers[THEN conjunct1] NewWrangler_registers[THEN conjunct2] default_config_def)

text \<open>A round without error makes the wrangler's table the driver's report, in whatever order the two
  loops visit the keys, and sends the report if it names a server.\<close>

theorem ValidBackends_follows_report:
  assumes "BuildActiveBackends env (wr_healthExec w) = (d, backends, None)"
    and "all_up (wr_Backends w)"
    and "enumerates known (map_of (wr_Backends w))" "enumerates keys (map_of backends)"
  shows "map_of (wr_Backends (fst (ValidBackends env known keys w))) = map_of backends \<and>
    snd (ValidBackends env known keys w) = (if backends = [] then None else Some backends)"
  using round_report[OF assms] by auto

definition ex_wrangler :: wrangler where
  "ex_wrangler = \<lparr>wr_healthExec = HealthTcp \<lparr>ht_Director = [''a:1'', ''b:1'']\<rparr>, wr_Backends = [(''b:1'', FlagUp)]\<rparr>"

text \<open>Only the servers of \<open>up\<close> answer.\<close>

definition ex_health :: "string list \<Rightarrow> health_env" where
  "ex_health up = \<lparr>hv_galera = ex_genv,
     hv_tcp = (\<lambda>i net a t. if a \<in> set up then None else Some ''refused'', [1, 0]),
     hv_http = (\<lambda>i u. Some ''refused'', [1, 0]), hv_ext = (\<lambda>i c. Some ''exit status 1'', [1, 0])\<rparr>"

lemmas ex_defs = ex_wrangler_def ex_health_def tcp_BuildActiveBackends_def arrivals_def tcpProbe_def
  one_round_def ValidBackends_def take_down_def bring_up_def

theorem ValidBackends_follows_report_witness:
  "map_of (wr_Backends (fst (ValidBackends (ex_health [''a:1'']) [''b:1''] [''a:1''] ex_wrangler))) ''a:1'' = Some FlagUp"
proof -
  have b: "BuildActiveBackends (ex_health [''a:1'']) (wr_healthExec ex_wrangler) =
      (HealthTcp \<lparr>ht_Director = [''a:1'', ''b:1'']\<rparr>, [(''a:1'', FlagUp)], None)" by (simp add: ex_defs)
  have u: "all_up (wr_Backends ex_wrangler)" by (simp add: all_up_def ex_wrangler_def)
  have k: "enumerates [''b:1''] (map_of (wr_Backends ex_wrangler))" "enumerates [''a:1''] (map_of [(''a:1'', FlagUp)])"
    by (simp_all add: enumerates_def ex_wrangler_def)
  show ?thesis using ValidBackends_follows_report[OF b u k] by simp
qed

text \<open>The monitor of a new wrangler sleeps one second after every round that finds no server, sends
  the first report that names one, starts the ticker, and from then on sends every report that names
  a server; a round that finds none sends nothing.\<close>

theorem Monitor_acts:
  assumes "wr_Backends w = []" "orders_ok rs w"
  shows "snd (Monitor rs w) =
    (let ms = reports rs (wr_healthExec w); idle = takeWhile (\<lambda>m. m = []) ms in
     replicate (length idle) (Slept 1) @
     (case dropWhile (\<lambda>m. m = []) ms of [] \<Rightarrow> []
      | m # ms \<Rightarrow> Sent m # TickerStarted 60 # map Sent (filter (\<lambda>m. m \<noteq> []) ms)))"
  using assms
proof (induction rs arbitrary: w)
  case (Cons r rs)
  have "all_up (wr_Backends w)" by (simp add: Cons.prems(1) all_up_def)
  from one_round_cases[OF this Cons.prems(2)] obtain w' m where r:
    "one_round r w = (w', if m = [] then [] else [Sent m])"
    "reports (r # rs) (wr_healthExec w) = m # reports rs (wr_healthExec w')"
    "map_of (wr_Backends w') = map_of m \<or> m = [] \<and> wr_Backends w' = wr_Backends w"
    "all_up (wr_Backends w')" "orders_ok rs w'" by metis
  have len: "wr_Backends w' = [] \<longleftrightarrow> m = []"
    using r(3) Cons.prems(1) by (metis dom_map_of_conv_image_fst image_is_empty list.set_intros(1) map_of_eq_empty_iff)
  show ?case
  proof (cases "m = []")
    case True
    then show ?thesis using Cons.IH[OF _ r(5)] len r(1) unfolding r(2) by (simp add: case_prod_beta Let_def)
  next
    case False
    then show ?thesis
      using monitor_ticks_acts[OF r(4,5)] len r(1) unfolding r(2) by (simp add: case_prod_beta CheckInterval_def)
  qed
qed simp

lemma orders_ok_three:
  assumes "fst (one_round r0 w0) = w1" "fst (one_round r1 w1) = w2"
    "fst (snd (BuildActiveBackends (rd_env r0) (wr_healthExec w0))) = m0"
    "fst (snd (BuildActiveBackends (rd_env r1) (wr_healthExec w1))) = m1"
    "fst (snd (BuildActiveBackends (rd_env r2) (wr_healthExec w2))) = m2"
    "enumerates (rd_known r0) (map_of (wr_Backends w0))" "enumerates (rd_known r1) (map_of (wr_Backends w1))"
    "enumerates (rd_known r2) (map_of (wr_Backends w2))"
    "enumerates (rd_keys r0) (map_of m0)" "enumerates (rd_keys r1) (map_of m1)" "enumerates (rd_keys r2) (map_of m2)"
  shows "orders_ok [r0, r1, r2] w0"
  using assms by simp

definition ex_round :: "string list \<Rightarrow> string list \<Rightarrow> string list \<Rightarrow> round" where
  "ex_round up known keys = \<lparr>rd_env = ex_health up, rd_known = known, rd_keys = keys\<rparr>"

definition ex_rounds :: "round list" where
  "ex_rounds = [ex_round [] [] [], ex_round [''b:1''] [] [''b:1''], ex_round [] [''b:1''] []]"

definition ex_wrangler0 :: wrangler where
  "ex_wrangler0 = \<lparr>wr_healthExec = HealthTcp \<lparr>ht_Director = [''a:1'', ''b:1'']\<rparr>, wr_Backends = []\<rparr>"

lemmas ex_round_defs = ex_defs ex_round_def ex_wrangler0_def

lemma ex_rounds_ok: "orders_ok ex_rounds ex_wrangler0"
  unfolding ex_rounds_def
proof (rule orders_ok_three)
  show "fst (one_round (ex_round [] [] []) ex_wrangler0) = ex_wrangler0" by (simp add: ex_round_defs)
  show "fst (one_round (ex_round [''b:1''] [] [''b:1'']) ex_wrangler0) = ex_wrangler" by (simp add: ex_round_defs)
  show "fst (snd (BuildActiveBackends (rd_env (ex_round [] [] [])) (wr_healthExec ex_wrangler0))) = []" by (simp add: ex_round_defs)
  show "fst (snd (BuildActiveBackends (rd_env (ex_round [''b:1''] [] [''b:1''])) (wr_healthExec ex_wrangler0))) =
      [(''b:1'', FlagUp)]" by (simp add: ex_round_defs)
  show "fst (snd (BuildActiveBackends (rd_env (ex_round [] [''b:1''] [])) (wr_healthExec ex_wrangler))) = []" by (simp add: ex_round_defs)
qed (simp_all add: ex_round_def ex_wrangler_def ex_wrangler0_def enumerates_def)

theorem Monitor_acts_witness:
  "snd (Monitor ex_rounds ex_wrangler0) = [Slept 1, Sent [(''b:1'', FlagUp)], TickerStarted 60]"
proof -
  have r: "reports ex_rounds (wr_healthExec ex_wrangler0) = [[], [(''b:1'', FlagUp)], []]" by (simp add: ex_rounds_def ex_round_defs)
  have "wr_Backends ex_wrangler0 = []" by (simp add: ex_wrangler0_def)
  from Monitor_acts[OF this ex_rounds_ok] r show ?thesis by simp
qed

end
