(* ===== verification/Balancer.thy ===== *)
theory Balancer
  imports Wrangler SchedulerSystem Config
begin

text \<open>
  engine/native/native.go and the composition of the wrangler with the scheduler: the listeners and their
  accept loops, the group they are counted in, and the status channel between health checks and register.
\<close>

subsection \<open>Listening (native.go)\<close>

text \<open>What \<open>Accept\<close> returns: a connection, a temporary network error, any other error.\<close>

datatype accepted = Conn nat | TemporaryError | PermanentError

text \<open>The accept loop on the results so far: the connections sent as jobs, and whether it has returned,
  having called \<open>wgroup.Done\<close>.\<close>

fun accept_loop :: "accepted list \<Rightarrow> nat list \<times> bool" where
  "accept_loop [] = ([], False)"
| "accept_loop (Conn k # as) = apfst ((#) k) (accept_loop as)"
| "accept_loop (TemporaryError # as) = accept_loop as"
| "accept_loop (PermanentError # as) = ([], True)"

text \<open>The loop over the addresses: the listeners and the count of the wait group.\<close>

fun start_listeners ::
  "(string \<Rightarrow> string \<Rightarrow> string + nat) \<Rightarrow> listen_addr list \<Rightarrow> int \<Rightarrow> (nat list \<times> int) exit"
where
  "start_listeners net [] wg = Returned ([], wg)"
| "start_listeners net (a # as) wg =
    (case Listen net a of
       Inl err \<Rightarrow> Exited
     | Inr l \<Rightarrow> and_exit (start_listeners net as (wg + 1)) (\<lambda>(ls, wg). Returned (l # ls, wg)))"

definition NativeServe ::
  "(string \<Rightarrow> string \<Rightarrow> string + nat) \<Rightarrow> configuration \<Rightarrow> int \<Rightarrow> (nat list \<times> int) exit"
where
  "NativeServe net settings wg =
    (case GetListenAddrs settings of
       (addrs, Some err) \<Rightarrow> Exited
     | (addrs, None) \<Rightarrow> start_listeners net addrs wg)"

text \<open>The count after the loops have taken the given results.\<close>

definition wgroup_after :: "int \<Rightarrow> accepted list list \<Rightarrow> int" where
  "wgroup_after wg runs = wg - int (length (filter (\<lambda>as. snd (accept_loop as)) runs))"

text \<open>\<open>main.Server.Stop\<close> closes \<open>done\<close>, so that every \<open>Accept\<close> fails for good, and waits for the count
  to be zero.\<close>

definition stop_returns :: "int \<Rightarrow> accepted list list \<Rightarrow> bool" where
  "stop_returns wg runs \<longleftrightarrow> wgroup_after wg runs = 0"

lemma accept_loop_eq:
  "accept_loop as =
    (List.map_filter (\<lambda>a. case a of Conn k \<Rightarrow> Some k | _ \<Rightarrow> None) (takeWhile (\<lambda>a. a \<noteq> PermanentError) as),
     PermanentError \<in> set as)"
  by (induction as rule: accept_loop.induct) (auto simp: List.map_filter_simps)

lemma start_listeners_count:
  "start_listeners net as wg = Returned (ls, n) \<Longrightarrow> length ls = length as \<and> n = wg + int (length as)"
proof (induction as arbitrary: wg ls n)
  case (Cons a as)
  then obtain l ls' where "Listen net a = Inr l" "start_listeners net as (wg + 1) = Returned (ls', n)" "ls = l # ls'"
    by (cases "Listen net a"; cases "start_listeners net as (wg + 1)") auto
  with Cons.IH[of "wg + 1" ls' n] show ?case by simp
qed simp

lemma filter_all_count: "length runs = n \<Longrightarrow> (length (filter P runs) = n) = list_all P runs"
  by (induction runs arbitrary: n) (auto, metis Suc_n_not_le_n length_filter_le)

text \<open>
  \<open>Stop\<close> returns exactly when each of the listeners that were opened has seen its accept loop end: a
  loop ends with the first permanent error, and until then sends each connection it gets as a job, once
  and in order.
\<close>

theorem stop_waits_for_listeners:
  assumes "NativeServe net settings 0 = Returned (ls, wg)" "length runs = length ls"
  shows "stop_returns wg runs \<longleftrightarrow> list_all (\<lambda>as. PermanentError \<in> set as) runs"
proof -
  have "wg = int (length runs)"
    using assms start_listeners_count[of net _ 0 ls wg] by (auto simp: NativeServe_def split: prod.splits option.splits)
  then show ?thesis
    using filter_all_count[of runs "length runs" "\<lambda>as. PermanentError \<in> set as"] eq_commute[of "length runs"]
    by (simp add: stop_returns_def wgroup_after_def accept_loop_eq)
qed

theorem stop_waits_for_listeners_witness:
  "stop_returns 1 [[Conn 4, TemporaryError, PermanentError]]"
proof -
  let ?c = "default_config\<lparr>cf_Listen := [''tcp://:3306'']\<rparr>"
  have "NativeServe (\<lambda>n a. Inr 9) ?c 0 = Returned ([9], 1)"
    by (simp add: NativeServe_def GetListenAddrs_def parse_listen_Cons has_scheme_def cut.simps Listen_def default_config_def
        del: parse_listen.simps(2))
  from stop_waits_for_listeners[OF this, of "[[Conn 4, TemporaryError, PermanentError]]"] show ?thesis by simp
qed

subsection \<open>From the health checks to the register\<close>

fun sent :: "act list \<Rightarrow> flags list" where
  "sent [] = []"
| "sent (Sent m # as) = m # sent as"
| "sent (_ # as) = sent as"

lemma sent_append [simp]: "sent (as @ bs) = sent as @ sent bs"
  by (induction as rule: sent.induct) simp_all

lemma sent_Sent [simp]: "sent (map Sent ms) = ms"
  by (induction ms) simp_all

text \<open>The scheduler has handled the messages \<open>ms\<close> in this order, each with the orders in which it visits its maps. Before,
  between and after them it handles whatever else comes, and its goroutines work.\<close>

inductive served :: "bool \<Rightarrow> bool \<Rightarrow> uint \<Rightarrow> flags list \<Rightarrow> system \<Rightarrow> bool" for shuffle lw tunnels where
  new: "served shuffle lw tunnels [] (start lw tunnels)"
| works: "served shuffle lw tunnels ms y \<Longrightarrow> work_step shuffle y z \<Longrightarrow> served shuffle lw tunnels ms z"
| handles: "served shuffle lw tunnels ms y \<Longrightarrow> status_args (sy_sched y) known fresh perm (map_of m) \<Longrightarrow>
    served shuffle lw tunnels (ms @ [m])
      (y\<lparr>sy_sched := final_state (schedule_event shuffle env (EvStatus known fresh perm (map_of m)) (sy_sched y))\<rparr>)"

definition named :: "flags list \<Rightarrow> string set" where
  "named ms = (\<Union>m \<in> set ms. fst ` set m)"

lemma served_inv:
  "served sh lw n ms y \<Longrightarrow> named ms \<subseteq> U \<Longrightarrow> finite U \<Longrightarrow> card U \<le> MaxForwarders \<Longrightarrow> system_inv U lw n y"
proof (induction rule: served.induct)
  case new
  show ?case by (rule start_inv)
next
  case (works ms y z)
  then show ?case using work_step_inv by blast
next
  case (handles ms y known fresh perm m env)
  then have "system_inv U lw n y" "dom (map_of m) \<subseteq> U" by (auto simp: named_def dom_map_of_conv_image_fst)
  from status_inv[OF this(1) handles(2) this(2), of sh] show ?case by auto
qed

text \<open>Without tunnels nothing but a message changes the register.\<close>

lemma work_keeps_register:
  assumes y: "system_inv U lw 0 y" and z: "work_step sh y z"
  shows "sc_backends (sy_sched z) = sc_backends (sy_sched y)"
proof -
  have inv: "sched_inv (sy_sched y) (load (sy_done y) (sy_sched y))" using y by (simp add: system_inv_def)
  note none = no_tunnel_no_session[OF y inv]
  from z show ?thesis
  proof cases
    case (accept k env)
    from dispatch_ok[OF inv, of env "\<lparr>rq_conn = k, rq_backend = None, rq_err = None\<rparr>"] accept show ?thesis
      by (auto simp: dispatched_def sched_frame_def)
  next
    case (take_done q ds env)
    obtain b where b: "rq_backend q = Some b" using y take_done(2) by (auto simp: system_inv_def in_flight_def)
    have pos: "0 < load (sy_done y) (sy_sched y) b" using take_done(2) b by (intro load_pos[where q = q]) simp_all
    show ?thesis
    proof (cases "rq_err q")
      case None
      from finish_success[OF inv b None pos, of env] take_done(1) show ?thesis by (auto simp: sched_frame_def)
    next
      case (Some e)
      from finish_failure[OF inv b Some pos, of env] obtain s1 where s1: "sched_inv s1 ((load (sy_done y) (sy_sched y))(b := load (sy_done y) (sy_sched y) b - 1))"
        "sched_frame (sy_sched y) s1"
        "finish env q (sy_sched y) = (if e = OpError ''dial'' then dispatch env q s1 else Finished s1)" by blast
      from dispatch_ok[OF s1(1), of env q] s1(2,3) take_done(1) show ?thesis
        by (auto simp: dispatched_def sched_frame_def)
    qed
  qed (simp_all add: none upd_backend_def)
qed

lemma served_register:
  "served sh lw n ms y \<Longrightarrow> n = 0 \<Longrightarrow> finite (named ms) \<Longrightarrow> card (named ms) \<le> MaxForwarders \<Longrightarrow>
   dom (sc_backends (sy_sched y)) = (if ms = [] then {} else fst ` set (last ms))"
proof (induction rule: served.induct)
  case new
  show ?case by (simp add: start_def NewScheduler_def)
next
  case (works ms y z)
  have "system_inv (named ms) lw 0 y" using served_inv[OF works.hyps(1)] works.prems by simp
  then show ?case using works work_keeps_register by metis
next
  case (handles ms y known fresh perm m env)
  have sub: "named ms \<subseteq> named (ms @ [m])" by (auto simp: named_def)
  have "system_inv (named (ms @ [m])) lw n y" by (rule served_inv[OF handles.hyps(1) sub handles.prems(2,3)])
  then have inv: "sched_inv (sy_sched y) (load (sy_done y) (sy_sched y))" "sc_tunnels (sy_sched y) = 0"
    using handles.prems(1) by (simp_all add: system_inv_def)
  from status_direct[OF inv handles.hyps(2), of sh] obtain t where
    "handle_status sh known fresh perm (map_of m) (sy_sched y) = Finished t" "dom (sc_backends t) = dom (map_of m)" by blast
  then show ?case by (simp add: dom_map_of_conv_image_fst)
qed

lemma register_within:
  assumes "system_inv U lw n y"
  shows "dom (sc_backends (sy_sched y)) \<subseteq> U" "pooled (sy_sched y) \<subseteq> ran (sc_backends (sy_sched y))"
proof -
  have inv: "sched_inv (sy_sched y) (load (sy_done y) (sy_sched y))" and U: "\<forall>r < sc_next (sy_sched y). bk_address (sc_mem (sy_sched y) r) \<in> U"
    using assms by (simp_all add: system_inv_def)
  show "dom (sc_backends (sy_sched y)) \<subseteq> U"
  proof
    fix a assume "a \<in> dom (sc_backends (sy_sched y))"
    then obtain r where "sc_backends (sy_sched y) a = Some r" by blast
    then show "a \<in> U" using sched_invD(6,7)[OF inv] U by metis
  qed
  show "pooled (sy_sched y) \<subseteq> ran (sc_backends (sy_sched y))" using sched_invD(5)[OF inv] by (auto simp: registered_def intro: ranI)
qed

lemma Monitor_sent:
  "wr_Backends w = [] \<Longrightarrow> orders_ok rs w \<Longrightarrow>
   sent (snd (Monitor rs w)) = filter (\<lambda>m. m \<noteq> []) (reports rs (wr_healthExec w))"
proof (induction rs arbitrary: w)
  case (Cons r rs)
  have "all_up (wr_Backends w)" by (simp add: Cons.prems(1) all_up_def)
  from one_round_cases[OF this Cons.prems(2)] obtain w' m where r:
    "one_round r w = (w', if m = [] then [] else [Sent m])"
    "reports (r # rs) (wr_healthExec w) = m # reports rs (wr_healthExec w')"
    "all_up (wr_Backends w')" "orders_ok rs w'" by metis
  show ?case
    unfolding r(2) using Cons.IH[OF _ r(4)] monitor_ticks_acts[OF r(3,4)] r(1)
    by (cases "wr_Backends w' = []") (simp_all add: case_prod_beta)
qed simp

text \<open>
  C3. The health checks and the scheduler together. The messages \<open>ms\<close> that the scheduler has handled so far are the first
  of those that the monitor of a new wrangler sends, which are its reports in order, but for those that name no server.
  Without tunnels the register holds exactly the servers of the last message handled, whatever else the scheduler does:
  after a report that names none, the servers of the one before it stay registered. With tunnels, where a server is
  registered with its first session, it holds none that no message has named. Only registered servers are in the pool.
\<close>

theorem register_follows_health:
  assumes "NewWrangler c = Returned w" "orders_ok rs w"
    and "sent (snd (Monitor rs w)) = ms @ later" "served sh lw n ms y" "card (named ms) \<le> MaxForwarders"
  shows "ms = take (length ms) (filter (\<lambda>m. m \<noteq> []) (reports rs (wr_healthExec w))) \<and>
    (n = 0 \<longrightarrow> dom (sc_backends (sy_sched y)) = (if ms = [] then {} else fst ` set (last ms))) \<and>
    dom (sc_backends (sy_sched y)) \<subseteq> named ms \<and> pooled (sy_sched y) \<subseteq> ran (sc_backends (sy_sched y))"
proof -
  have fin: "finite (named ms)" by (simp add: named_def)
  have "filter (\<lambda>m. m \<noteq> []) (reports rs (wr_healthExec w)) = ms @ later"
    using Monitor_sent[OF _ assms(2)] NewWrangler_directors[OF assms(1)] assms(3) by simp
  then show ?thesis
    using served_register[OF assms(4) _ fin assms(5)] register_within[OF served_inv[OF assms(4) subset_refl fin assms(5)]] by simp
qed

definition ex_settings :: configuration where
  "ex_settings = default_config\<lparr>cf_Service := ''tcp'', cf_Backend := [''a:1'', ''b:1'']\<rparr>"

theorem register_follows_health_witness:
  "\<exists>y. served False False 0 (sent (snd (Monitor ex_rounds ex_wrangler0))) y \<and> sy_accepted y = [7] \<and>
    dom (sc_backends (sy_sched y)) = {''b:1''}"
proof -
  have w: "NewWrangler ex_settings = Returned ex_wrangler0"
    by (simp add: NewWrangler_def new_driver_def ex_settings_def default_config_def ex_wrangler0_def NewHealthTcp_def
        tcp_AddDirector_def)
  have r: "reports ex_rounds (wr_healthExec ex_wrangler0) = [[], [(''b:1'', FlagUp)], []]" by (simp add: ex_rounds_def ex_round_defs)
  have ms: "sent (snd (Monitor ex_rounds ex_wrangler0)) = [[(''b:1'', FlagUp)]]"
    using Monitor_sent[OF _ ex_rounds_ok] r by (simp add: ex_wrangler0_def)
  have "status_args (sy_sched (start False 0)) [] [''b:1''] [0] (map_of [(''b:1'', FlagUp)])"
    by (auto simp: status_args_def enumerates_def start_def NewScheduler_def MaxForwarders_def is_perm_def)
  from served.works[OF served.handles[OF served.new this, where shuffle = False] work_step.accept[where k = 7]]
  obtain y where y: "served False False 0 ([] @ [[(''b:1'', FlagUp)]]) y" "sy_accepted y = sy_accepted (start False 0) @ [7]"
    by (metis (no_types, lifting) system.select_convs(5) system.surjective system.update_convs(1) system.update_convs(5))
  have "card (named [[(''b:1'', FlagUp)]]) \<le> MaxForwarders" by (simp add: named_def MaxForwarders_def)
  from register_follows_health[OF w ex_rounds_ok _ y(1)[unfolded append_Nil] this, of "[]"] ms y show ?thesis
    by (intro exI[of _ y]) (simp add: start_def)
qed

end
