(* ===== verification/Ipvs.thy ===== *)
theory Ipvs
  imports Exec Registry
begin

text \<open>
  engine/ipvs/ipvs.go: the engine that installs the servers in the kernel's virtual server with
  \<open>ipvsadm\<close>. Its state is the register of the servers it has installed and the history of the
  commands it has run; a command's outcome comes from the shell of theory Exec. A deferred call runs
  when the event loop returns, and does not when the process exits.
\<close>

subsection \<open>State and commands\<close>

record ipvs =
  iv_Addr :: string
  iv_Port :: string
  iv_Scheduler :: string
  iv_backends :: "string \<rightharpoonup> string"
  iv_Persist :: int

type_synonym ipvs_state = "ipvs \<times> argv list"

definition IPvsLocalAddr :: string where "IPvsLocalAddr = ''127.1.1.1''"

definition NewIPvs :: "string \<Rightarrow> string \<Rightarrow> string \<Rightarrow> ipvs" where
  "NewIPvs addr port sch = \<lparr>iv_Addr = addr, iv_Port = port, iv_Scheduler = sch, iv_backends = Map.empty, iv_Persist = 300\<rparr>"

definition service :: "ipvs \<Rightarrow> string" where
  "service i = iv_Addr i @ '':'' @ iv_Port i"

definition runCommand :: "shell \<Rightarrow> string \<Rightarrow> argv list \<Rightarrow> string option \<times> argv list outcome" where
  "runCommand sh cmd h =
    (let args = Fields cmd in
     if args = [] then (None, Panicked IndexOutOfRange h)
     else case exec sh args h of
       ((output, None), h') \<Rightarrow> (None, Finished h')
     | ((output, Some err), h') \<Rightarrow>
         (Some (''Err: '' @ err @ '' Output: '' @ output @ '', Cmd '' @ cmd), Finished h'))"

fun ensureCommands :: "shell \<Rightarrow> string list \<Rightarrow> argv list \<Rightarrow> string option \<times> argv list outcome" where
  "ensureCommands sh [] h = (None, Finished h)"
| "ensureCommands sh (c # cs) h =
    (case runCommand sh c h of
       (None, Finished h') \<Rightarrow> ensureCommands sh cs h'
     | r \<Rightarrow> r)"

definition add_cmd :: "string \<Rightarrow> string \<Rightarrow> argv" where
  "add_cmd srv addr = [''ipvsadm'', ''-a'', ''-t'', srv, ''-r'', addr, ''-m'']"

definition del_cmd :: "string \<Rightarrow> string \<Rightarrow> argv" where
  "del_cmd srv addr = [''ipvsadm'', ''-d'', ''-t'', srv, ''-r'', addr]"

text \<open>A command that fails is logged and nothing else.\<close>

definition AddBackend :: "shell \<Rightarrow> string \<Rightarrow> ipvs_state \<Rightarrow> ipvs_state" where
  "AddBackend sh addr = (\<lambda>(i, h).
    case exec sh (add_cmd (service i) addr) h of
      (_, h') \<Rightarrow> (i\<lparr>iv_backends := (iv_backends i)(addr \<mapsto> addr)\<rparr>, h'))"

definition RemoveBackend :: "shell \<Rightarrow> string \<Rightarrow> ipvs_state \<Rightarrow> ipvs_state" where
  "RemoveBackend sh addr = (\<lambda>(i, h).
    if iv_backends i addr \<noteq> None then
      case exec sh (del_cmd (service i) addr) h of
        (_, h') \<Rightarrow> (i\<lparr>iv_backends := (iv_backends i)(addr := None)\<rparr>, h')
    else (i, h))"

interpretation iv: registry "\<lambda>s. iv_backends (fst s)" "RemoveBackend sh" "AddBackend sh" "\<lambda>a. a" for sh
  by unfold_locales (auto simp: RemoveBackend_def AddBackend_def exec_def split: prod.splits)

subsection \<open>The event loop\<close>

text \<open>The loop over the installed servers; the report loses those that stay.\<close>

fun check_known :: "shell \<Rightarrow> string list \<Rightarrow> ipvs_state \<Rightarrow> (string \<rightharpoonup> int) \<Rightarrow> ipvs_state \<times> (string \<rightharpoonup> int)" where
  "check_known sh [] s backends = (s, backends)"
| "check_known sh (addr # known) s backends =
    (if backends addr = None then check_known sh known (RemoveBackend sh addr s) backends
     else check_known sh known s (backends(addr := None)))"

text \<open>\<open>known\<close> and \<open>fresh\<close> are the orders in which the two loops visit the keys.\<close>

definition handle_report ::
  "shell \<Rightarrow> string list \<Rightarrow> string list \<Rightarrow> (string \<rightharpoonup> int) \<Rightarrow> ipvs_state \<Rightarrow> ipvs_state"
where
  "handle_report sh known fresh backends s =
    (case check_known sh known s backends of (s', rest) \<Rightarrow> fold (AddBackend sh) fresh s')"

datatype ipvs_event = Status "string list" "string list" "string \<rightharpoonup> int" | Done

text \<open>The loop with the events that have come so far; True if it has returned.\<close>

fun eventLoop :: "shell \<Rightarrow> ipvs_event list \<Rightarrow> ipvs_state \<Rightarrow> bool \<times> ipvs_state" where
  "eventLoop sh [] s = (False, s)"
| "eventLoop sh (Status known fresh backends # evs) s = eventLoop sh evs (handle_report sh known fresh backends s)"
| "eventLoop sh (Done # evs) s = (True, s)"

subsection \<open>The two schedulers\<close>

text \<open>A scheduler waits in its event loop, has returned with its deferred calls done, has panicked,
  or has ended the process.\<close>

datatype life = Waiting ipvs_state | Ended ipvs_state | Crashed "argv list" | ProcessExit "argv list"

definition AddLocalRoute :: "shell \<Rightarrow> string \<Rightarrow> string \<Rightarrow> argv list \<Rightarrow> argv list outcome" where
  "AddLocalRoute sh dst src h =
    and_then (snd (runCommand sh (''ip route add table local '' @ dst @ '' dev lo proto kernel scope host src '' @ src) h))
      (\<lambda>h. snd (runCommand sh ''ip route flush cache'' h))"

definition DeleteLocalRoute :: "shell \<Rightarrow> string \<Rightarrow> argv list \<Rightarrow> argv list outcome" where
  "DeleteLocalRoute sh dst h =
    and_then (snd (runCommand sh (''ip route delete table local '' @ dst) h))
      (\<lambda>h. snd (runCommand sh ''ip route flush cache'' h))"

definition end_life :: "ipvs \<Rightarrow> argv list outcome \<Rightarrow> life" where
  "end_life i r = (case r of Finished h \<Rightarrow> Ended (i, h) | Panicked _ h \<Rightarrow> Crashed h)"

definition LocalSchedule :: "shell \<Rightarrow> iface list \<Rightarrow> ipvs_event list \<Rightarrow> ipvs_state \<Rightarrow> life" where
  "LocalSchedule sh ifaces evs = (\<lambda>(i, h).
    case exec sh [''ipvsadm'', ''-A'', ''-t'', service i, ''-s'', iv_Scheduler i] h of
      ((_, Some err), h) \<Rightarrow> ProcessExit h
    | ((_, None), h) \<Rightarrow>
        (case GetFirstIPAddr ifaces of
           Exited \<Rightarrow> ProcessExit h
         | Returned useAddr \<Rightarrow>
             (case AddLocalRoute sh (iv_Addr i) useAddr h of
                Panicked _ h \<Rightarrow> Crashed h
              | Finished h \<Rightarrow>
                  (case eventLoop sh evs (i, h) of
                     (False, s) \<Rightarrow> Waiting s
                   | (True, (i, h)) \<Rightarrow> end_life i (snd (runCommand sh (''ipvsadm -D -t '' @ service i) h))))))"

definition snat_rule :: "ipvs \<Rightarrow> string \<Rightarrow> string" where
  "snat_rule i localAddr = ''POSTROUTING -m ipvs --vaddr '' @ iv_Addr i @ ''/32 --vport '' @ iv_Port i @
     '' -j SNAT --to '' @ localAddr"

definition RemoteSchedule :: "shell \<Rightarrow> iface list \<Rightarrow> ipvs_event list \<Rightarrow> ipvs_state \<Rightarrow> life" where
  "RemoteSchedule sh ifaces evs = (\<lambda>(i, h).
    case ensureCommands sh [''sysctl -w net.ipv4.ip_forward=1'', ''sysctl -w net.ipv4.vs.conntrack=1''] h of
      (_, Panicked _ h) \<Rightarrow> Crashed h
    | (Some err, Finished h) \<Rightarrow> ProcessExit h
    | (None, Finished h) \<Rightarrow>
        (case exec sh [''ipvsadm'', ''-A'', ''-t'', service i, ''-s'', iv_Scheduler i, ''-p'', Itoa (iv_Persist i)] h of
           ((_, Some err), h) \<Rightarrow> ProcessExit h
         | ((_, None), h) \<Rightarrow>
             (case GetFirstIPAddr ifaces of
                Exited \<Rightarrow> ProcessExit h
              | Returned localAddr \<Rightarrow>
                  (let rule = snat_rule i localAddr in
                   case snd (runCommand sh (''iptables -t nat -A '' @ rule) h) of
                     Panicked _ h \<Rightarrow> Crashed h
                   | Finished h \<Rightarrow>
                       (case eventLoop sh evs (i, h) of
                          (False, s) \<Rightarrow> Waiting s
                        | (True, (i, h)) \<Rightarrow>
                            end_life i (and_then (snd (runCommand sh (''iptables -t nat -D '' @ rule) h))
                              (\<lambda>h. snd (runCommand sh (''ipvsadm -D -t '' @ service i) h))))))))"
subsection \<open>Lemmas\<close>

lemma runCommand_RunCommand: "runCommand = RunCommand"
  by (simp add: fun_eq_iff runCommand_def RunCommand_def)

lemma ensureCommands_EnsureCommands: "ensureCommands sh cmds h = EnsureCommands sh cmds h"
  by (induction cmds arbitrary: h) (simp_all add: runCommand_RunCommand split: option.splits outcome.splits prod.splits)

lemma Fields_start: "\<not> is_space c \<Longrightarrow> Fields (c # s) \<noteq> []"
  by (subst Fields.simps) simp

lemma runCommand_history:
  "\<not> is_space c \<Longrightarrow> snd (runCommand sh (c # s) h) = Finished (h @ [Fields (c # s)])"
  using Fields_start[of c s] by (simp add: runCommand_RunCommand RunCommand_eq)

lemma is_space_letters [simp]: "\<not> is_space CHR ''i''" "\<not> is_space CHR ''s''"
  by (simp_all add: is_space_def)

lemma check_known_eq:
  "distinct known \<Longrightarrow>
   check_known sh known s backends =
     (fold (RemoveBackend sh) (filter (\<lambda>a. backends a = None) known) s, backends |` (- set known))"
proof (induction known arbitrary: s backends)
  case (Cons a known)
  have "filter (\<lambda>x. (backends(a := None)) x = None) known = filter (\<lambda>x. backends x = None) known"
    using Cons.prems by (intro filter_cong) auto
  moreover have "(backends(a := None)) |` (- set known) = backends |` (- set (a # known))"
    by (auto simp: restrict_map_def)
  moreover have "check_known sh known s (backends(a := None)) =
      (fold (RemoveBackend sh) (filter (\<lambda>x. (backends(a := None)) x = None) known) s, (backends(a := None)) |` (- set known))"
    using Cons.prems by (intro Cons.IH) simp
  ultimately have upd: "check_known sh known s (backends(a := None)) =
      (fold (RemoveBackend sh) (filter (\<lambda>x. backends x = None) known) s, backends |` (- set (a # known)))"
    by (simp only:)
  have gone: "check_known sh known (RemoveBackend sh a s) backends =
      (fold (RemoveBackend sh) (filter (\<lambda>x. backends x = None) known) (RemoveBackend sh a s), backends |` (- set known))"
    using Cons.prems by (intro Cons.IH) simp
  have "backends |` (- set known) = backends |` (- set (a # known))" if "backends a = None"
    using that by (auto simp: restrict_map_def)
  then show ?case
    by (cases "backends a = None") (simp_all only: check_known.simps upd gone, auto)
qed (simp add: restrict_map_def)

lemma service_AddBackend [simp]: "service (fst (AddBackend sh a s)) = service (fst s)"
  by (cases s) (simp add: AddBackend_def exec_def service_def)

lemma service_RemoveBackend [simp]: "service (fst (RemoveBackend sh a s)) = service (fst s)"
  by (cases s) (simp add: RemoveBackend_def exec_def service_def)

lemma AddBackends_history:
  "snd (fold (AddBackend sh) as s) = snd s @ map (add_cmd (service (fst s))) as"
proof (induction as arbitrary: s)
  case (Cons a as)
  have "snd (AddBackend sh a s) = snd s @ [add_cmd (service (fst s)) a]"
    by (cases s) (simp add: AddBackend_def exec_def)
  then show ?case using Cons[of "AddBackend sh a s"] by simp
qed simp

lemma RemoveBackends_history:
  "distinct as \<Longrightarrow> set as \<subseteq> dom (iv_backends (fst s)) \<Longrightarrow>
   snd (fold (RemoveBackend sh) as s) = snd s @ map (del_cmd (service (fst s))) as \<and>
   service (fst (fold (RemoveBackend sh) as s)) = service (fst s)"
proof (induction as arbitrary: s)
  case (Cons a as)
  have "snd (RemoveBackend sh a s) = snd s @ [del_cmd (service (fst s)) a]"
    using Cons.prems by (cases s) (auto simp: RemoveBackend_def exec_def)
  moreover have "set as \<subseteq> dom (iv_backends (fst (RemoveBackend sh a s)))"
    using Cons.prems by (cases s) (auto simp: RemoveBackend_def exec_def)
  ultimately show ?case using Cons.IH[of "RemoveBackend sh a s"] Cons.prems by simp
qed simp

lemma service_fold_Add [simp]: "service (fst (fold (AddBackend sh) as s)) = service (fst s)"
  by (induction as arbitrary: s) simp_all

text \<open>One report: its register, its commands.\<close>

definition report_orders :: "string list \<Rightarrow> string list \<Rightarrow> (string \<rightharpoonup> int) \<Rightarrow> ipvs_state \<Rightarrow> bool" where
  "report_orders known fresh backends s \<longleftrightarrow>
    enumerates known (iv_backends (fst s)) \<and> enumerates fresh (backends |` (- dom (iv_backends (fst s))))"

lemma handle_report_eq:
  assumes "report_orders known fresh backends s"
  shows "handle_report sh known fresh backends s =
    fold (AddBackend sh) fresh (fold (RemoveBackend sh) (filter (\<lambda>a. backends a = None) known) s)"
  using assms by (simp add: handle_report_def check_known_eq report_orders_def enumerates_def)

lemma report_orders_sets:
  assumes "report_orders known fresh backends s"
  shows "enumerates known (iv_backends (fst s))" "distinct fresh" "set fresh = dom backends - dom (iv_backends (fst s))"
    "distinct (filter (\<lambda>a. backends a = None) known)" "set (filter (\<lambda>a. backends a = None) known) \<subseteq> dom (iv_backends (fst s))"
  using assms by (auto simp: report_orders_def enumerates_def)

lemma handle_report_register:
  assumes "report_orders known fresh backends s"
  shows "dom (iv_backends (fst (handle_report sh known fresh backends s))) = dom backends"
  unfolding handle_report_eq[OF assms]
  using report_orders_sets[OF assms] by (intro iv.dom_aligned) auto

lemma handle_report_history:
  assumes "report_orders known fresh backends s"
  shows "snd (handle_report sh known fresh backends s) =
      snd s @ map (del_cmd (service (fst s))) (filter (\<lambda>a. backends a = None) known) @ map (add_cmd (service (fst s))) fresh \<and>
    service (fst (handle_report sh known fresh backends s)) = service (fst s)"
  unfolding handle_report_eq[OF assms]
  using RemoveBackends_history[OF report_orders_sets(4,5)[OF assms]] by (simp add: AddBackends_history)

subsection \<open>The kernel's table\<close>

text \<open>What a command does to the servers of the virtual server \<open>srv\<close> when it succeeds, and the servers
  there after a history.\<close>

definition effect :: "string \<Rightarrow> argv \<Rightarrow> string set \<Rightarrow> string set" where
  "effect srv c K =
    (if length c = 7 \<and> c = add_cmd srv (c ! 5) then insert (c ! 5) K
     else if length c = 6 \<and> c = del_cmd srv (c ! 5) then K - {c ! 5} else K)"

fun kernel :: "shell \<Rightarrow> string \<Rightarrow> argv list \<Rightarrow> argv list \<Rightarrow> string set \<Rightarrow> string set" where
  "kernel sh srv h [] K = K"
| "kernel sh srv h (c # cs) K = kernel sh srv (h @ [c]) cs (if snd (sh h c) = None then effect srv c K else K)"

lemma kernel_append: "kernel sh srv h (cs @ ds) K = kernel sh srv (h @ cs) ds (kernel sh srv h cs K)"
  by (induction cs arbitrary: h K) simp_all

lemma effect_add [simp]: "effect srv (add_cmd srv a) K = insert a K"
  by (simp add: effect_def add_cmd_def)

lemma effect_del [simp]: "effect srv (del_cmd srv a) K = K - {a}"
  by (simp add: effect_def add_cmd_def del_cmd_def)

lemma kernel_adds:
  "\<forall>h c. snd (sh h c) = None \<Longrightarrow> kernel sh srv h (map (add_cmd srv) as) K = K \<union> set as"
  by (induction as arbitrary: h K) auto

lemma kernel_dels:
  "\<forall>h c. snd (sh h c) = None \<Longrightarrow> kernel sh srv h (map (del_cmd srv) as) K = K - set as"
  by (induction as arbitrary: h K) auto

subsection \<open>Runs of the event loop\<close>

fun loop_orders :: "shell \<Rightarrow> ipvs_event list \<Rightarrow> ipvs_state \<Rightarrow> bool" where
  "loop_orders sh [] s = True"
| "loop_orders sh (Status known fresh backends # evs) s \<longleftrightarrow>
    report_orders known fresh backends s \<and> loop_orders sh evs (handle_report sh known fresh backends s)"
| "loop_orders sh (Done # evs) s = True"

fun last_report :: "ipvs_event list \<Rightarrow> string set \<Rightarrow> string set" where
  "last_report [] K = K"
| "last_report (Status known fresh backends # evs) K = last_report evs (dom backends)"
| "last_report (Done # evs) K = K"

lemma handle_report_kernel:
  assumes "report_orders known fresh backends s" "\<forall>h c. snd (sh h c) = None"
  shows "\<exists>cs. snd (handle_report sh known fresh backends s) = snd s @ cs \<and>
    kernel sh (service (fst s)) (snd s) cs (dom (iv_backends (fst s))) = dom backends"
proof -
  let ?gone = "filter (\<lambda>a. backends a = None) known"
  have "kernel sh (service (fst s)) (snd s)
      (map (del_cmd (service (fst s))) ?gone @ map (add_cmd (service (fst s))) fresh) (dom (iv_backends (fst s))) = dom backends"
    using report_orders_sets[OF assms(1)] kernel_adds[OF assms(2)] kernel_dels[OF assms(2)]
    by (auto simp: kernel_append enumerates_def)
  then show ?thesis using handle_report_history[OF assms(1)] by blast
qed

lemma eventLoop_kernel:
  assumes "loop_orders sh evs s" "\<forall>h c. snd (sh h c) = None"
  shows "\<exists>cs. snd (snd (eventLoop sh evs s)) = snd s @ cs \<and>
    kernel sh (service (fst s)) (snd s) cs (dom (iv_backends (fst s))) = last_report evs (dom (iv_backends (fst s))) \<and>
    dom (iv_backends (fst (snd (eventLoop sh evs s)))) = last_report evs (dom (iv_backends (fst s)))"
  using assms
proof (induction sh evs s rule: eventLoop.induct)
  case (2 sh known fresh backends evs s)
  then have o: "report_orders known fresh backends s" by simp
  let ?s = "handle_report sh known fresh backends s"
  obtain cs where cs: "snd ?s = snd s @ cs" "kernel sh (service (fst s)) (snd s) cs (dom (iv_backends (fst s))) = dom backends"
    using handle_report_kernel[OF o "2.prems"(2)] by blast
  have srv: "service (fst ?s) = service (fst s)" and reg: "dom (iv_backends (fst ?s)) = dom backends"
    using handle_report_history[OF o] handle_report_register[OF o] by auto
  from 2 obtain ds where ds: "snd (snd (eventLoop sh evs ?s)) = snd ?s @ ds"
    "kernel sh (service (fst ?s)) (snd ?s) ds (dom (iv_backends (fst ?s))) = last_report evs (dom (iv_backends (fst ?s)))"
    "dom (iv_backends (fst (snd (eventLoop sh evs ?s)))) = last_report evs (dom (iv_backends (fst ?s)))" by auto
  show ?case
    using ds cs by (intro exI[of _ "cs @ ds"]) (simp add: kernel_append srv reg)
qed auto

lemma eventLoop_frame:
  "loop_orders sh evs s \<Longrightarrow> service (fst (snd (eventLoop sh evs s))) = service (fst s) \<and>
   (\<exists>cs. snd (snd (eventLoop sh evs s)) = snd s @ cs \<and>
     (\<forall>c \<in> set cs. \<exists>a. c = add_cmd (service (fst s)) a \<or> c = del_cmd (service (fst s)) a))"
proof (induction sh evs s rule: eventLoop.induct)
  case (2 sh known fresh backends evs s)
  then have o: "report_orders known fresh backends s" by simp
  let ?s = "handle_report sh known fresh backends s"
  let ?ok = "\<lambda>c. \<exists>a. c = add_cmd (service (fst s)) a \<or> c = del_cmd (service (fst s)) a"
  have "service (fst ?s) = service (fst s) \<and> (\<exists>cs. snd ?s = snd s @ cs \<and> (\<forall>c \<in> set cs. ?ok c))"
    using handle_report_history[OF o, of sh] by auto
  then obtain cs where cs: "service (fst ?s) = service (fst s)" "snd ?s = snd s @ cs" "\<forall>c \<in> set cs. ?ok c" by blast
  from 2 obtain ds where "service (fst (snd (eventLoop sh evs ?s))) = service (fst ?s)"
    "snd (snd (eventLoop sh evs ?s)) = snd ?s @ ds"
    "\<forall>c \<in> set ds. \<exists>a. c = add_cmd (service (fst ?s)) a \<or> c = del_cmd (service (fst ?s)) a" by auto
  with cs show ?case by (intro conjI exI[of _ "cs @ ds"]) auto
qed auto

subsection \<open>Properties\<close>

text \<open>A status report makes the register hold exactly the servers of the report, and runs one
  \<open>ipvsadm -d\<close> for each server that is gone, then one \<open>ipvsadm -a\<close> for each new one, and none for a
  server that stays.\<close>

theorem ipvs_report_commands:
  assumes "enumerates known (iv_backends i)" "enumerates fresh (backends |` (- dom (iv_backends i)))"
    and "handle_report sh known fresh backends (i, h) = (i', h')"
  shows "dom (iv_backends i') = dom backends \<and>
    h' = h @ map (del_cmd (service i)) (filter (\<lambda>a. backends a = None) known) @ map (add_cmd (service i)) fresh"
proof -
  have o: "report_orders known fresh backends (i, h)" using assms(1,2) by (simp add: report_orders_def)
  show ?thesis using handle_report_register[OF o, of sh] handle_report_history[OF o, of sh] assms(3) by simp
qed

definition ex_ipvs :: ipvs where
  "ex_ipvs = \<lparr>iv_Addr = ''127.1.1.1'', iv_Port = ''3306'', iv_Scheduler = ''wlc'',
     iv_backends = [''a'' \<mapsto> ''a'', ''b'' \<mapsto> ''b''], iv_Persist = 300\<rparr>"

definition ex_report :: "string \<rightharpoonup> int" where "ex_report = [''b'' \<mapsto> 1, ''c'' \<mapsto> 1]"

lemma ex_report_orders:
  "enumerates [''b'', ''a''] (iv_backends ex_ipvs)" "enumerates [''c''] (ex_report |` (- dom (iv_backends ex_ipvs)))"
  by (auto simp: enumerates_def ex_ipvs_def ex_report_def restrict_map_def split: if_splits)

theorem ipvs_report_commands_witness:
  "snd (handle_report (\<lambda>h c. ('''', None)) [''b'', ''a''] [''c''] ex_report (ex_ipvs, [])) =
    [del_cmd ''127.1.1.1:3306'' ''a'', add_cmd ''127.1.1.1:3306'' ''c'']"
proof -
  obtain i' h' where r: "handle_report (\<lambda>h c. ('''', None)) [''b'', ''a''] [''c''] ex_report (ex_ipvs, []) = (i', h')"
    by (cases "handle_report (\<lambda>h c. ('''', None)) [''b'', ''a''] [''c''] ex_report (ex_ipvs, [])")
  have "filter (\<lambda>a. ex_report a = None) [''b'', ''a''] = [''a'']" "service ex_ipvs = ''127.1.1.1:3306''"
    by (simp_all add: ex_report_def service_def ex_ipvs_def)
  with ipvs_report_commands[OF ex_report_orders r] r show ?thesis by simp
qed

text \<open>C19. As long as \<open>ipvsadm\<close> succeeds, the register is the kernel's table: after any sequence of reports
  the commands run have installed exactly the servers the register holds, those of the last report.\<close>

theorem register_mirrors_kernel:
  assumes "loop_orders sh evs (i, h)" "iv_backends i = Map.empty" "\<forall>h c. snd (sh h c) = None"
    and "eventLoop sh evs (i, h) = (stopped, (i', h'))"
  shows "dom (iv_backends i') = kernel sh (service i) h (drop (length h) h') {} \<and>
    dom (iv_backends i') = last_report evs {}"
  using eventLoop_kernel[OF assms(1,3)] assms(2,4) by auto

theorem register_mirrors_kernel_witness:
  "\<exists>i' h'. eventLoop (\<lambda>h c. ('''', None)) [Status [] [''b'', ''c''] ex_report, Done] (ex_ipvs\<lparr>iv_backends := Map.empty\<rparr>, []) = (True, i', h') \<and>
     kernel (\<lambda>h c. ('''', None)) ''127.1.1.1:3306'' [] h' {} = {''b'', ''c''}"
proof -
  let ?sh = "\<lambda>h c. ('''', None)" let ?i = "ex_ipvs\<lparr>iv_backends := Map.empty\<rparr>"
  let ?evs = "[Status [] [''b'', ''c''] ex_report, Done]"
  obtain i' h' where r: "eventLoop ?sh ?evs (?i, []) = (True, (i', h'))" by (cases "snd (eventLoop ?sh ?evs (?i, []))") simp
  have "dom ex_report = {''b'', ''c''}" by (auto simp: ex_report_def)
  then have o: "loop_orders ?sh ?evs (?i, [])"
    by (auto simp: report_orders_def enumerates_def restrict_map_def domIff split: if_splits)
  have s: "service ?i = ''127.1.1.1:3306''" by (simp add: service_def ex_ipvs_def)
  have "dom (iv_backends i') = kernel ?sh (service ?i) [] (drop (length ([] :: argv list)) h') {} \<and>
      dom (iv_backends i') = last_report ?evs {}"
    by (rule register_mirrors_kernel[OF o _ _ r]) simp_all
  moreover have "last_report ?evs {} = {''b'', ''c''}" using \<open>dom ex_report = {''b'', ''c''}\<close> by simp
  ultimately have "kernel ?sh (service ?i) [] h' {} = {''b'', ''c''}" by (metis drop_0 list.size(3))
  with r show ?thesis by (simp only: s) blast
qed

text \<open>A server whose \<open>ipvsadm -a\<close> failed is taken for installed: it is in the register although the
  kernel does not have it, and the same report runs no command for it again.\<close>

theorem failed_add_never_retried:
  assumes "enumerates known (iv_backends i)" "enumerates [addr] (backends |` (- dom (iv_backends i)))"
    and "\<forall>a \<in> dom (iv_backends i). backends a \<noteq> None"
    and "snd (sh h (add_cmd (service i) addr)) = Some err"
    and "handle_report sh known [addr] backends (i, h) = (i', h')"
    and "enumerates known' (iv_backends i')"
  shows "iv_backends i' addr \<noteq> None \<and> kernel sh (service i) h (drop (length h) h') K = K \<and>
    snd (handle_report sh known' [] backends (i', h')) = h'"
proof -
  have o: "report_orders known [addr] backends (i, h)" using assms(1,2) by (simp add: report_orders_def)
  have "filter (\<lambda>a. backends a = None) known = []"
    using assms(1,3) by (auto simp: filter_empty_conv enumerates_def)
  then have h': "h' = h @ [add_cmd (service i) addr]" and d: "dom (iv_backends i') = dom backends"
    using handle_report_history[OF o, of sh] handle_report_register[OF o, of sh] assms(5) by auto
  have "set [addr] = dom (backends |` (- dom (iv_backends i)))" using assms(2) unfolding enumerates_def by blast
  then have "addr \<in> dom (backends |` (- dom (iv_backends i)))" by auto
  then have "addr \<in> dom backends" by auto
  then have reg: "iv_backends i' addr \<noteq> None" using d by auto
  have o': "report_orders known' [] backends (i', h')"
    using assms(6) d by (auto simp: report_orders_def enumerates_def restrict_map_def split: if_splits)
  have "filter (\<lambda>a. backends a = None) known' = []"
    using assms(6) d by (auto simp: filter_empty_conv enumerates_def)
  then show ?thesis using handle_report_history[OF o', of sh] assms(4) h' reg by simp
qed

theorem failed_add_never_retried_witness:
  "snd (handle_report (\<lambda>h c. ('''', Some ''exit status 2'')) [''c''] [] [''c'' \<mapsto> 1]
      (handle_report (\<lambda>h c. ('''', Some ''exit status 2'')) [] [''c''] [''c'' \<mapsto> 1] (ex_ipvs\<lparr>iv_backends := Map.empty\<rparr>, [])))
    = [add_cmd ''127.1.1.1:3306'' ''c'']"
proof -
  let ?sh = "\<lambda>h c. ('''', Some ''exit status 2'')" let ?i = "ex_ipvs\<lparr>iv_backends := Map.empty\<rparr>"
  let ?m = "[''c'' \<mapsto> 1] :: string \<rightharpoonup> int"
  have s: "service ?i = ''127.1.1.1:3306''" by (simp add: service_def ex_ipvs_def)
  have r: "handle_report ?sh [] [''c''] ?m (?i, []) = (?i\<lparr>iv_backends := [''c'' \<mapsto> ''c'']\<rparr>, [add_cmd (service ?i) ''c''])"
    by (simp add: handle_report_def AddBackend_def exec_def)
  have "snd (handle_report ?sh [''c''] [] ?m (?i\<lparr>iv_backends := [''c'' \<mapsto> ''c'']\<rparr>, [add_cmd (service ?i) ''c''])) =
      [add_cmd (service ?i) ''c'']"
    by (rule failed_add_never_retried[OF _ _ _ _ r, where err = "''exit status 2''", THEN conjunct2, THEN conjunct2])
      (auto simp: enumerates_def restrict_map_def split: if_splits)
  then show ?thesis by (simp only: r s)
qed

definition remote_setup :: "ipvs \<Rightarrow> argv list" where
  "remote_setup i = [Fields ''sysctl -w net.ipv4.ip_forward=1'', Fields ''sysctl -w net.ipv4.vs.conntrack=1'',
     [''ipvsadm'', ''-A'', ''-t'', service i, ''-s'', iv_Scheduler i, ''-p'', Itoa (iv_Persist i)]]"

lemma ensure_two:
  "ensureCommands sh [CHR ''s'' # a, CHR ''s'' # b] h =
    (case runCommand sh (CHR ''s'' # a) h of
       (None, _) \<Rightarrow> (case runCommand sh (CHR ''s'' # b) (h @ [Fields (CHR ''s'' # a)]) of
          (e, _) \<Rightarrow> (e, Finished (h @ [Fields (CHR ''s'' # a), Fields (CHR ''s'' # b)])))
     | (Some e, _) \<Rightarrow> (Some e, Finished (h @ [Fields (CHR ''s'' # a)])))"
  using runCommand_history[of "CHR ''s''" sh a h] runCommand_history[of "CHR ''s''" sh b "h @ [Fields (CHR ''s'' # a)]"]
  by (cases "runCommand sh (CHR ''s'' # a) h"; cases "runCommand sh (CHR ''s'' # b) (h @ [Fields (CHR ''s'' # a)])")
    (auto split: option.splits)

text \<open>What the remote scheduler does once the service is installed and the address known.\<close>

lemma remote_body:
  assumes "loop_orders sh evs (i, h1)"
  shows "\<exists>cs i'. eventLoop sh evs (i, h1) = (fst (eventLoop sh evs (i, h1)), (i', h1 @ cs)) \<and> service i' = service i \<and>
    (\<forall>c \<in> set cs. \<exists>a. c = add_cmd (service i) a \<or> c = del_cmd (service i) a)"
proof -
  obtain b i' h' where e: "eventLoop sh evs (i, h1) = (b, (i', h'))" by (cases "eventLoop sh evs (i, h1)") auto
  with eventLoop_frame[OF assms] show ?thesis by fastforce
qed

definition own_commands :: "ipvs \<Rightarrow> argv list \<Rightarrow> bool" where
  "own_commands i cs \<longleftrightarrow> (\<forall>c \<in> set cs. \<exists>a. c = add_cmd (service i) a \<or> c = del_cmd (service i) a)"

definition nat_cmd :: "string \<Rightarrow> ipvs \<Rightarrow> string \<Rightarrow> argv" where
  "nat_cmd opt i a = Fields (''iptables -t nat '' @ opt @ '' '' @ snat_rule i a)"

text \<open>The last part of \<open>RemoteSchedule\<close>, from the NAT rule on, over any three commands that do not panic.\<close>

definition rule_part :: "shell \<Rightarrow> ipvs_event list \<Rightarrow> string \<Rightarrow> string \<Rightarrow> (string \<Rightarrow> string) \<Rightarrow> ipvs_state \<Rightarrow> life" where
  "rule_part sh evs add_rule del_rule del_service = (\<lambda>(i, h).
    case snd (runCommand sh add_rule h) of
       Panicked _ h \<Rightarrow> Crashed h
     | Finished h \<Rightarrow>
         (case eventLoop sh evs (i, h) of
            (False, s) \<Rightarrow> Waiting s
          | (True, (i, h)) \<Rightarrow>
              end_life i (and_then (snd (runCommand sh del_rule h)) (\<lambda>h. snd (runCommand sh (del_service (service i)) h)))))"

lemma rule_part_history:
  assumes "loop_orders sh evs (i, h @ [A])"
    and "\<And>h. snd (runCommand sh add_rule h) = Finished (h @ [A])"
    and "\<And>h. snd (runCommand sh del_rule h) = Finished (h @ [D])"
    and "\<And>h. snd (runCommand sh (del_service (service i)) h) = Finished (h @ [S])"
  shows "\<exists>i' cs. own_commands i cs \<and>
    (rule_part sh evs add_rule del_rule del_service (i, h) = Waiting (i', h @ A # cs) \<or>
     rule_part sh evs add_rule del_rule del_service (i, h) = Ended (i', h @ A # cs @ [D, S]))"
proof -
  obtain cs i' where e: "eventLoop sh evs (i, h @ [A]) = (fst (eventLoop sh evs (i, h @ [A])), (i', (h @ [A]) @ cs))"
    "service i' = service i" "own_commands i cs"
    using remote_body[OF assms(1)] unfolding own_commands_def by blast
  have "rule_part sh evs add_rule del_rule del_service (i, h) =
      (if fst (eventLoop sh evs (i, h @ [A])) then Ended (i', h @ A # cs @ [D, S]) else Waiting (i', h @ A # cs))"
    unfolding rule_part_def prod.case assms(2) outcome.case
    by (subst e(1)) (simp add: assms(3,4) e(2) end_life_def split: bool.split)
  with e(3) show ?thesis by (metis (full_types))
qed

lemma RemoteSchedule_eq:
  "RemoteSchedule sh ifaces evs (i, h) =
    (case ensureCommands sh [''sysctl -w net.ipv4.ip_forward=1'', ''sysctl -w net.ipv4.vs.conntrack=1''] h of
      (_, Panicked _ h) \<Rightarrow> Crashed h
    | (Some err, Finished h) \<Rightarrow> ProcessExit h
    | (None, Finished h) \<Rightarrow>
        (case exec sh [''ipvsadm'', ''-A'', ''-t'', service i, ''-s'', iv_Scheduler i, ''-p'', Itoa (iv_Persist i)] h of
           ((_, Some err), h) \<Rightarrow> ProcessExit h
         | ((_, None), h) \<Rightarrow>
             (case GetFirstIPAddr ifaces of
                Exited \<Rightarrow> ProcessExit h
              | Returned a \<Rightarrow> rule_part sh evs (''iptables -t nat -A '' @ snat_rule i a)
                  (''iptables -t nat -D '' @ snat_rule i a) (\<lambda>srv. ''ipvsadm -D -t '' @ srv) (i, h))))"
  unfolding RemoteSchedule_def rule_part_def prod.case Let_def by (rule refl)

lemma remote_setup_history:
  obtains (failed) n where "RemoteSchedule sh ifaces evs (i, h) = ProcessExit (h @ take n (remote_setup i))"
  | (up) a where "RemoteSchedule sh ifaces evs (i, h) =
      rule_part sh evs (''iptables -t nat -A '' @ snat_rule i a) (''iptables -t nat -D '' @ snat_rule i a)
        (\<lambda>srv. ''ipvsadm -D -t '' @ srv) (i, h @ remote_setup i)"
proof -
  define c1 c2 :: string where "c1 = ''sysctl -w net.ipv4.ip_forward=1''" and "c2 = ''sysctl -w net.ipv4.vs.conntrack=1''"
  define A where "A = [''ipvsadm'', ''-A'', ''-t'', service i, ''-s'', iv_Scheduler i, ''-p'', Itoa (iv_Persist i)]"
  have rs: "remote_setup i = [Fields c1, Fields c2, A]" by (simp add: remote_setup_def c1_def c2_def A_def)
  have e2: "ensureCommands sh [c1, c2] h = (case runCommand sh c1 h of
       (None, _) \<Rightarrow> (case runCommand sh c2 (h @ [Fields c1]) of (e, _) \<Rightarrow> (e, Finished (h @ [Fields c1, Fields c2])))
     | (Some e, _) \<Rightarrow> (Some e, Finished (h @ [Fields c1])))"
    unfolding c1_def c2_def by (rule ensure_two)
  note eq = RemoteSchedule_eq[of sh ifaces evs i h, folded c1_def c2_def A_def]
  consider (one) e where "ensureCommands sh [c1, c2] h = (Some e, Finished (h @ [Fields c1]))"
    | (two) e where "ensureCommands sh [c1, c2] h = (Some e, Finished (h @ [Fields c1, Fields c2]))"
    | (ok) "ensureCommands sh [c1, c2] h = (None, Finished (h @ [Fields c1, Fields c2]))"
    unfolding e2
    by (cases "runCommand sh c1 h"; cases "fst (runCommand sh c1 h)"; cases "runCommand sh c2 (h @ [Fields c1])";
        cases "fst (runCommand sh c2 (h @ [Fields c1]))") simp_all
  then show thesis
  proof cases
    case one
    then show ?thesis by (intro failed[of 1]) (simp add: eq rs)
  next
    case two
    then show ?thesis by (intro failed[of 2]) (simp add: eq rs)
  next
    case ok
    let ?h = "h @ [Fields c1, Fields c2]"
    obtain out r where r: "sh ?h A = (out, r)" by (cases "sh ?h A")
    show ?thesis
    proof (cases r)
      case (Some e)
      with ok r show ?thesis by (intro failed[of 3]) (simp add: eq rs exec_def)
    next
      case None
      show ?thesis
      proof (cases "GetFirstIPAddr ifaces")
        case Exited
        with ok r None show ?thesis by (intro failed[of 3]) (simp add: eq rs exec_def)
      next
        case (Returned a)
        with ok r None have "RemoteSchedule sh ifaces evs (i, h) =
            rule_part sh evs (''iptables -t nat -A '' @ snat_rule i a) (''iptables -t nat -D '' @ snat_rule i a)
              (\<lambda>srv. ''ipvsadm -D -t '' @ srv) (i, h @ remote_setup i)"
          by (simp only: eq rs exec_def prod.case option.case outcome.case exit.case append_assoc append_Cons append_Nil)
        then show ?thesis by (rule up)
      qed
    qed
  qed
qed

text \<open>\<open>RemoteSchedule\<close> leaves nothing behind when it is told to stop: between its setup and its end it runs
  only \<open>-a\<close> and \<open>-d\<close> commands of its own service, and at the end it takes back the NAT rule and then
  the virtual service. It never panics. If the process exits, nothing is taken back: no NAT rule has
  been set by then, but the virtual service may be.\<close>

theorem RemoteSchedule_cleans_up:
  assumes "\<forall>h. loop_orders sh evs (i, h)"
  shows "case RemoteSchedule sh ifaces evs (i, h) of
      Crashed _ \<Rightarrow> False
    | ProcessExit h' \<Rightarrow> \<exists>n. h' = h @ take n (remote_setup i)
    | Waiting (i', h') \<Rightarrow> \<exists>a cs. own_commands i cs \<and> h' = h @ remote_setup i @ nat_cmd ''-A'' i a # cs
    | Ended (i', h') \<Rightarrow> \<exists>a cs. own_commands i cs \<and> h' = h @ remote_setup i @ nat_cmd ''-A'' i a # cs @
        [nat_cmd ''-D'' i a, Fields (''ipvsadm -D -t '' @ service i)]"
proof (cases rule: remote_setup_history[of sh ifaces evs i h])
  case failed
  then show ?thesis by auto
next
  case (up a)
  have r: "snd (runCommand sh (CHR ''i'' # c) h) = Finished (h @ [Fields (CHR ''i'' # c)])" for c h
    by (rule runCommand_history) simp
  have nat: "nat_cmd opt i a = Fields (CHR ''i'' # tl (''iptables -t nat '' @ opt @ '' '' @ snat_rule i a))" for opt
    by (simp add: nat_cmd_def)
  have "\<exists>i' cs. own_commands i cs \<and>
    (rule_part sh evs (''iptables -t nat -A '' @ snat_rule i a) (''iptables -t nat -D '' @ snat_rule i a)
       (\<lambda>srv. ''ipvsadm -D -t '' @ srv) (i, h @ remote_setup i) = Waiting (i', (h @ remote_setup i) @ nat_cmd ''-A'' i a # cs) \<or>
     rule_part sh evs (''iptables -t nat -A '' @ snat_rule i a) (''iptables -t nat -D '' @ snat_rule i a)
       (\<lambda>srv. ''ipvsadm -D -t '' @ srv) (i, h @ remote_setup i) =
         Ended (i', (h @ remote_setup i) @ nat_cmd ''-A'' i a # cs @ [nat_cmd ''-D'' i a, Fields (''ipvsadm -D -t '' @ service i)]))"
    using assms by (intro rule_part_history) (simp_all add: nat r)
  then obtain i' cs where c: "own_commands i cs"
    "RemoteSchedule sh ifaces evs (i, h) = Waiting (i', (h @ remote_setup i) @ nat_cmd ''-A'' i a # cs) \<or>
     RemoteSchedule sh ifaces evs (i, h) = Ended (i', (h @ remote_setup i) @ nat_cmd ''-A'' i a # cs @
       [nat_cmd ''-D'' i a, Fields (''ipvsadm -D -t '' @ service i)])"
    unfolding up by blast
  from c(2) show ?thesis
  proof
    assume w: "RemoteSchedule sh ifaces evs (i, h) = Waiting (i', (h @ remote_setup i) @ nat_cmd ''-A'' i a # cs)"
    show ?thesis unfolding w life.case prod.case append_assoc using c(1) by blast
  next
    assume w: "RemoteSchedule sh ifaces evs (i, h) = Ended (i', (h @ remote_setup i) @ nat_cmd ''-A'' i a # cs @
       [nat_cmd ''-D'' i a, Fields (''ipvsadm -D -t '' @ service i)])"
    show ?thesis unfolding w life.case prod.case append_assoc using c(1) by blast
  qed
qed

theorem RemoteSchedule_cleans_up_witness:
  "\<exists>i' h'. RemoteSchedule (\<lambda>h c. ('''', None)) [] [Done] (NewIPvs ''127.1.1.1'' ''3306'' ''wlc'', []) = Ended (i', h') \<and>
     last h' = Fields (''ipvsadm -D -t '' @ service (NewIPvs ''127.1.1.1'' ''3306'' ''wlc''))"
proof -
  let ?i = "NewIPvs ''127.1.1.1'' ''3306'' ''wlc''" let ?sh = "\<lambda>h c. ('''', None)"
  have "\<forall>h. loop_orders ?sh [Done] (?i, h)" by simp
  note * = RemoteSchedule_cleans_up[OF this, where ifaces = "[]" and h = "[]"]
  have "case RemoteSchedule ?sh [] [Done] (?i, []) of Ended _ \<Rightarrow> True | _ \<Rightarrow> False" by code_simp
  then obtain i' h' where e: "RemoteSchedule ?sh [] [Done] (?i, []) = Ended (i', h')"
    by (cases "RemoteSchedule ?sh [] [Done] (?i, [])") auto
  obtain a cs where "h' = [] @ remote_setup ?i @ nat_cmd ''-A'' ?i a # cs @
      [nat_cmd ''-D'' ?i a, Fields (''ipvsadm -D -t '' @ service ?i)]"
    using * unfolding e life.case prod.case by blast
  then have "last h' = Fields (''ipvsadm -D -t '' @ service ?i)" by (simp del: append.simps(2))
  with e show ?thesis by blast
qed

end
