(* ===== verification/Daemon.thy ===== *)
theory Daemon
  imports Exec
begin

text \<open>
  daemon/daemon.go, supervisor.go, logfile.go: turning the program into a background service. The same
  binary runs as the parent that exits, as the monitor that holds the pid file and as the worker that
  serves; which of them a process is, it reads off two environment variables. The answers of the
  operating system are the record \<open>os_env\<close>; a process is the record \<open>proc\<close> of what its calls change.
\<close>

subsection \<open>Processes\<close>

datatype signal = SIGHUP | SIGINT | SIGQUIT | SIGTERM | SIGCHLD

definition ENV_DAEMON :: string where "ENV_DAEMON = ''__GO_DAEMON_MODE''"
definition ENV_SUPERVISOR :: string where "ENV_SUPERVISOR = ''__GO_SUPERVISOR_MODE''"

type_synonym environ = "string \<rightharpoonup> string"

record command =
  cm_Path :: string
  cm_Args :: "string list"
  cm_Output :: "string option"

record log_file =
  lg_path :: string
  lg_open :: bool
  lg_offset :: nat

record daemon =
  dm_PidFile :: string
  dm_Foreground :: bool
  dm_Command :: command
  dm_Log :: log_file
  dm_hasHandler :: bool

record proc =
  pr_env :: environ
  pr_args :: "string list"
  pr_cwd :: string
  pr_notify :: "signal list"
  pr_files :: "string \<Rightarrow> string option"
  pr_started :: "(command \<times> environ) list"

text \<open>\<open>os_dir_missing f\<close>: the directory of \<open>f\<close> does not exist. \<open>os_start\<close>: the error of \<open>cmd.Start\<close> or the
  process number.\<close>

record os_env =
  os_pid :: pid_env
  os_dir_missing :: "string \<Rightarrow> bool"
  os_abs :: "string \<Rightarrow> string + string"
  os_setenv :: "string option"
  os_open :: "string \<Rightarrow> string option"
  os_seek :: "string + nat"
  os_start :: "string + nat"

definition Getenv :: "proc \<Rightarrow> string \<Rightarrow> string" where
  "Getenv p v = (case pr_env p v of None \<Rightarrow> '''' | Some x \<Rightarrow> x)"

definition Setenv :: "string \<Rightarrow> string \<Rightarrow> proc \<Rightarrow> proc" where
  "Setenv v x p = p\<lparr>pr_env := (pr_env p)(v \<mapsto> x)\<rparr>"

definition Notify :: "signal list \<Rightarrow> proc \<Rightarrow> proc" where
  "Notify sigs p = p\<lparr>pr_notify := pr_notify p @ sigs\<rparr>"

text \<open>A call that returns, or that ends the process.\<close>

datatype 'a ending = Runs 'a | Exits int proc

fun and_then_run :: "'a ending \<Rightarrow> ('a \<Rightarrow> 'b ending) \<Rightarrow> 'b ending" where
  "and_then_run (Runs x) f = f x"
| "and_then_run (Exits c p) f = Exits c p"

text \<open>\<open>unsetenv\<close> with \<open>UNSET_ENV = false\<close>: nothing is removed.\<close>

definition unsetenv :: "string \<Rightarrow> proc \<Rightarrow> string option \<times> proc" where
  "unsetenv v p = (None, p)"

subsection \<open>The log file (logfile.go)\<close>

definition path_Base :: "string \<Rightarrow> string" where
  "path_Base s =
    (if s = '''' then ''.''
     else let t = rev (dropWhile (\<lambda>c. c = CHR ''/'') (rev s)) in
       if t = '''' then ''/'' else rev (takeWhile (\<lambda>c. c \<noteq> CHR ''/'') (rev t)))"

definition LogOpen :: "os_env \<Rightarrow> log_file \<Rightarrow> string option \<times> log_file" where
  "LogOpen os l =
    (case os_open os (lg_path l) of
       Some e \<Rightarrow> (Some e, l)
     | None \<Rightarrow>
         (case os_seek os of
            Inl e \<Rightarrow> (Some e, l\<lparr>lg_open := True\<rparr>)
          | Inr n \<Rightarrow> (None, l\<lparr>lg_open := True, lg_offset := n\<rparr>)))"

text \<open>What \<open>Dump\<close> prints between its quotes, and whether it says that there is more.\<close>

definition LogDump :: "string \<Rightarrow> log_file \<Rightarrow> string \<times> bool" where
  "LogDump content l =
    (let new = drop (lg_offset l) content; n = min 2048 (length new) in
     (take n new @ replicate (2048 - n) (CHR 0x00), n = 2048))"

definition createLogfile :: "os_env \<Rightarrow> proc \<Rightarrow> daemon \<Rightarrow> string option \<times> daemon" where
  "createLogfile os p d =
    (let l = dm_Log d;
         l = (if lg_path l = '''' then l\<lparr>lg_path := ''/tmp/'' @ path_Base (hd (pr_args p)) @ ''.log''\<rparr> else l) in
     case LogOpen os l of (err, l) \<Rightarrow> (err, d\<lparr>dm_Log := l\<rparr>))"

subsection \<open>\<open>Daemon\<close>\<close>

definition setupPidfile :: "os_env \<Rightarrow> daemon \<Rightarrow> proc \<Rightarrow> proc ending" where
  "setupPidfile os d p =
    (if dm_PidFile d = '''' then Runs p
     else case WritePid (os_pid os) (pr_files p (dm_PidFile d)) of
       (err, file) \<Rightarrow>
         let p = p\<lparr>pr_files := (pr_files p)(dm_PidFile d := file)\<rparr> in
         if err \<noteq> None then Exits 1 p else Runs p)"

definition cleanPidfile :: "daemon \<Rightarrow> proc \<Rightarrow> proc" where
  "cleanPidfile d p =
    (if dm_PidFile d = '''' then p else p\<lparr>pr_files := (pr_files p)(dm_PidFile d := None)\<rparr>)"

definition child :: "os_env \<Rightarrow> daemon \<Rightarrow> proc \<Rightarrow> proc ending" where
  "child os d p = setupPidfile os d (p\<lparr>pr_cwd := ''/''\<rparr>)"

definition start_command :: "os_env \<Rightarrow> command \<Rightarrow> proc \<Rightarrow> (nat \<times> proc) option" where
  "start_command os cmd p =
    (case os_start os of Inl e \<Rightarrow> None | Inr n \<Rightarrow> Some (n, p\<lparr>pr_started := pr_started p @ [(cmd, pr_env p)]\<rparr>))"

definition create_file :: "string \<Rightarrow> proc \<Rightarrow> proc" where
  "create_file f p = (if pr_files p f = None then p\<lparr>pr_files := (pr_files p)(f := Some '''')\<rparr> else p)"

text \<open>\<open>parent\<close> waits a fifth of a second or for the end of the child, prints, and exits in any case.\<close>

definition parent :: "os_env \<Rightarrow> daemon \<Rightarrow> proc \<Rightarrow> proc ending" where
  "parent os d p =
    (let p = Notify [SIGCHLD] p;
         cmd = dm_Command d;
         (err, d) = createLogfile os p d;
         f = lg_path (dm_Log d);
         p = (if lg_open (dm_Log d) then create_file f p else p);
         cmd = (if err = None then cmd\<lparr>cm_Output := Some f\<rparr> else cmd) in
     case start_command os cmd p of
       Some (n, p) \<Rightarrow> Exits 0 p
     | None \<Rightarrow> Exits 1 p)"

text \<open>\<open>Sink\<close>: the error it returns, with the daemon and the process.\<close>

definition abs_pidfile :: "os_env \<Rightarrow> daemon \<Rightarrow> proc \<Rightarrow> (string option \<times> daemon) ending" where
  "abs_pidfile os d p =
    (if dm_PidFile d = '''' then Runs (None, d)
     else if os_dir_missing os (dm_PidFile d) then Runs (Some ''no such file or directory'', d)
     else case os_abs os (dm_PidFile d) of
       Inl e \<Rightarrow> Exits 1 p
     | Inr f \<Rightarrow> Runs (None, d\<lparr>dm_PidFile := f\<rparr>))"

definition set_mode :: "os_env \<Rightarrow> string \<Rightarrow> string \<Rightarrow> proc \<Rightarrow> proc ending" where
  "set_mode os v x p = (if os_setenv os = None then Runs (Setenv v x p) else Exits 1 p)"

definition DaemonSink :: "os_env \<Rightarrow> daemon \<Rightarrow> proc \<Rightarrow> (string option \<times> daemon \<times> proc) ending" where
  "DaemonSink os d p =
    (if \<not> dm_hasHandler d then Runs (Some ''Handler should be specified first'', d, p)
     else
       let p = Notify [SIGHUP, SIGINT, SIGQUIT, SIGTERM] p in
       and_then_run (abs_pidfile os d p) (\<lambda>(err, d).
         if err \<noteq> None then Runs (err, d, p)
         else if dm_Foreground d then and_then_run (setupPidfile os d p) (\<lambda>p. Runs (None, d, p))
         else case os_abs os (hd (pr_args p)) of
           Inl e \<Rightarrow> Exits 1 p
         | Inr f \<Rightarrow>
             let d = d\<lparr>dm_Command := \<lparr>cm_Path = f, cm_Args = pr_args p, cm_Output = None\<rparr>\<rparr>;
                 mode = Getenv p ENV_DAEMON in
             if mode = '''' then
               and_then_run (set_mode os ENV_DAEMON ''child'' p) (\<lambda>p.
               and_then_run (parent os d p) (\<lambda>p. Exits 1 p))
             else if mode = ''child'' then
               (case unsetenv ENV_DAEMON p of
                  (Some e, p) \<Rightarrow> Exits 1 p
                | (None, p) \<Rightarrow> and_then_run (child os d p) (\<lambda>p. Runs (None, d, p)))
             else Exits 1 p))"

subsection \<open>\<open>Supervisor\<close>\<close>

text \<open>The signals that arrive on the channel while a worker runs.\<close>

datatype worker_end = WorkerGone | MonitorExits | WorkerRuns

fun wait_worker :: "signal list \<Rightarrow> worker_end" where
  "wait_worker [] = WorkerRuns"
| "wait_worker (sig # sigs) =
    (if sig = SIGCHLD then WorkerGone else if sig = SIGTERM then MonitorExits else wait_worker sigs)"

text \<open>\<open>startWorker\<close> with the signals that arrive; the monitor's process and how the wait ended.\<close>

definition startWorker :: "os_env \<Rightarrow> daemon \<Rightarrow> signal list \<Rightarrow> proc \<Rightarrow> (worker_end \<times> proc) ending" where
  "startWorker os d sigs p =
    (case start_command os ((dm_Command d)\<lparr>cm_Output := Some ''stdout''\<rparr>) p of
       None \<Rightarrow> Exits 1 p
     | Some (n, p) \<Rightarrow> if wait_worker sigs = MonitorExits then Exits 0 p else Runs (wait_worker sigs, p))"

text \<open>The loop between two workers: the clock, in nanoseconds, is read before each sleep of a second; \<open>lag\<close>
  is what a sleep at that moment takes longer.\<close>

function restart_wait :: "int \<Rightarrow> (int \<Rightarrow> nat) \<Rightarrow> int \<Rightarrow> int" where
  "restart_wait start lag now =
    (if now - start > 5000000000 then now else restart_wait start lag (now + 1000000000 + int (lag now)))"
  by pat_completeness auto
termination
  by (relation "measure (\<lambda>(start, lag, now). nat (start + 5000000001 - now))") auto

declare restart_wait.simps [simp del]

text \<open>\<open>supervise\<close> with, for each worker, the signals that arrive, how long it runs and the lag of the sleeps
  after it: the moments at which workers are started, and the monitor's process.\<close>

fun supervise ::
  "os_env \<Rightarrow> daemon \<Rightarrow> (signal list \<times> nat \<times> (int \<Rightarrow> nat)) list \<Rightarrow> int \<Rightarrow> proc \<Rightarrow> int list \<times> proc ending"
where
  "supervise os d [] now p = ([], Runs p)"
| "supervise os d ((sigs, dur, lag) # rs) now p =
    (case startWorker os d sigs p of
       Exits c p \<Rightarrow> ([now], Exits c p)
     | Runs (WorkerGone, p) \<Rightarrow> apfst ((#) now) (supervise os d rs (restart_wait now lag (now + int dur)) p)
     | Runs (_, p) \<Rightarrow> ([now], Runs p))"

text \<open>\<open>Supervisor.Sink\<close>: it returns, or goes on to supervise with the daemon and process it has by then.\<close>

datatype sink = SinkReturns "string option" daemon proc | SinkSupervises daemon proc | SinkExits int proc

definition SupervisorSink :: "os_env \<Rightarrow> daemon \<Rightarrow> proc \<Rightarrow> sink" where
  "SupervisorSink os d p =
    (let mode = Getenv p ENV_SUPERVISOR in
     if mode = '''' then
       (case DaemonSink os d p of
          Exits c p \<Rightarrow> SinkExits c p
        | Runs (Some e, d, p) \<Rightarrow> SinkReturns (Some e) d p
        | Runs (None, d, p) \<Rightarrow>
            if dm_Foreground d then SinkReturns None d p
            else case set_mode os ENV_SUPERVISOR ''worker'' p of
              Exits c p \<Rightarrow> SinkExits c p
            | Runs p \<Rightarrow> SinkSupervises d (Notify [SIGCHLD] p))
     else if mode = ''worker'' then
       (case unsetenv ENV_SUPERVISOR p of
          (Some e, p) \<Rightarrow> SinkExits 1 p
        | (None, p) \<Rightarrow> SinkReturns None d p)
     else SinkExits 1 p)"

subsection \<open>Serving and stopping\<close>

definition NewDaemon :: daemon where
  "NewDaemon = \<lparr>dm_PidFile = '''', dm_Foreground = False,
     dm_Command = \<lparr>cm_Path = '''', cm_Args = [], cm_Output = None\<rparr>,
     dm_Log = \<lparr>lg_path = '''', lg_open = False, lg_offset = 0\<rparr>, dm_hasHandler = False\<rparr>"

text \<open>A handler that is given as a function stops by doing nothing; the processes do not tell the two kinds apart.\<close>

definition set_Handle :: "daemon \<Rightarrow> daemon" where
  "set_Handle d = d\<lparr>dm_hasHandler := True\<rparr>"

definition set_HandleFunc :: "daemon \<Rightarrow> daemon" where
  "set_HandleFunc d = d\<lparr>dm_hasHandler := True\<rparr>"

definition Handle :: "string \<Rightarrow> bool \<Rightarrow> daemon" where
  "Handle pidfile foreground = NewDaemon\<lparr>dm_hasHandler := True, dm_PidFile := pidfile, dm_Foreground := foreground\<rparr>"

definition HandleFunc :: "string \<Rightarrow> bool \<Rightarrow> daemon" where
  "HandleFunc pidfile foreground = Handle pidfile foreground"

text \<open>The same on the default daemon, which has no supervisor.\<close>

definition DaemonHandle :: "string \<Rightarrow> bool \<Rightarrow> daemon \<Rightarrow> daemon" where
  "DaemonHandle pidfile foreground d = d\<lparr>dm_hasHandler := True, dm_PidFile := pidfile, dm_Foreground := foreground\<rparr>"

definition DaemonHandleFunc :: "string \<Rightarrow> bool \<Rightarrow> daemon \<Rightarrow> daemon" where
  "DaemonHandleFunc pidfile foreground d = DaemonHandle pidfile foreground d"

text \<open>What a signal from outside does to a process: it reaches the channel if the process has asked for it,
  otherwise it ends the process (SIGCHLD apart), running nothing of the program.\<close>

datatype fate = Alive | Stopped proc | Killed

text \<open>\<open>WaitSignal\<close>: any signal stops the handler, removes the pid file and returns.\<close>

definition WaitSignal :: "daemon \<Rightarrow> signal \<Rightarrow> proc \<Rightarrow> fate" where
  "WaitSignal d sig p =
    (if sig \<in> set (pr_notify p) then Stopped (cleanPidfile d p)
     else if sig = SIGCHLD then Alive else Killed)"

text \<open>\<open>Start\<close> up to the signals that arrive while the handler serves: the error, or the fate.\<close>

fun serve_signals :: "daemon \<Rightarrow> signal list \<Rightarrow> proc \<Rightarrow> fate" where
  "serve_signals d [] p = Alive"
| "serve_signals d (sig # sigs) p =
    (case WaitSignal d sig p of Alive \<Rightarrow> serve_signals d sigs p | f \<Rightarrow> f)"

datatype started = StartErr string | Serving fate | Monitor daemon proc | ProcExits int proc

definition Start :: "os_env \<Rightarrow> daemon \<Rightarrow> signal list \<Rightarrow> proc \<Rightarrow> started" where
  "Start os d sigs p =
    (case SupervisorSink os d p of
       SinkReturns (Some e) d p \<Rightarrow> StartErr e
     | SinkReturns None d p \<Rightarrow> Serving (serve_signals d sigs p)
     | SinkSupervises d p \<Rightarrow> Monitor d p
     | SinkExits c p \<Rightarrow> ProcExits c p)"

text \<open>\<open>Start\<close> on a daemon without a supervisor.\<close>

definition DaemonStart :: "os_env \<Rightarrow> daemon \<Rightarrow> signal list \<Rightarrow> proc \<Rightarrow> started" where
  "DaemonStart os d sigs p =
    (case DaemonSink os d p of
       Runs (Some e, d, p) \<Rightarrow> StartErr e
     | Runs (None, d, p) \<Rightarrow> Serving (serve_signals d sigs p)
     | Exits c p \<Rightarrow> ProcExits c p)"

text \<open>\<open>RunWait\<close> calls \<open>recover\<close> before the handler and not in a deferred function, so a panic of the handler
  passes through it. \<open>runLoop\<close> starts the handler again as \<open>supervise\<close> does a worker.\<close>

datatype run_end = RunReturned | RunPanicked panic

definition RunWait :: "panic option \<Rightarrow> run_end" where
  "RunWait p = (case p of None \<Rightarrow> RunReturned | Some q \<Rightarrow> RunPanicked q)"

fun runLoop :: "(panic option \<times> nat \<times> (int \<Rightarrow> nat)) list \<Rightarrow> int \<Rightarrow> int list \<times> run_end" where
  "runLoop [] now = ([], RunReturned)"
| "runLoop ((r, dur, lag) # rs) now =
    (case RunWait r of
       RunPanicked q \<Rightarrow> ([now], RunPanicked q)
     | RunReturned \<Rightarrow> apfst ((#) now) (runLoop rs (restart_wait now lag (now + int dur))))"

text \<open>The error, always nil, and the course of the goroutine.\<close>

definition RunForever :: "(panic option \<times> nat \<times> (int \<Rightarrow> nat)) list \<Rightarrow> int \<Rightarrow> string option \<times> int list \<times> run_end" where
  "RunForever rs now = (None, runLoop rs now)"

definition RunOnce :: "panic option \<Rightarrow> string option \<times> run_end" where
  "RunOnce p = (None, RunWait p)"

subsection \<open>Lemmas\<close>

lemma restart_wait_after: "restart_wait start lag now > start + 5000000000 \<and> restart_wait start lag now \<ge> now"
proof (induction start lag now rule: restart_wait.induct)
  case (1 start lag now)
  then show ?case by (subst (1 2) restart_wait.simps) (cases "now - start > 5000000000"; simp)
qed

lemma restart_wait_soon:
  "\<forall>t. lag t \<le> L \<Longrightarrow> restart_wait start lag now \<le> max now (start + 5000000000) + 1000000000 + int L"
proof (induction start lag now rule: restart_wait.induct)
  case (1 start lag now)
  show ?case
  proof (cases "now - start > 5000000000")
    case True
    then show ?thesis by (subst restart_wait.simps) simp
  next
    case False
    let ?next = "now + 1000000000 + int (lag now)"
    have lag: "int (lag now) \<le> int L" using "1.prems" by simp
    show ?thesis
    proof (cases "?next - start > 5000000000")
      case True
      then have "restart_wait start lag now = ?next" using False by (simp add: restart_wait.simps)
      then show ?thesis using False lag by simp
    next
      case more: False
      then have "restart_wait start lag ?next \<le> start + 5000000000 + 1000000000 + int L" using 1 False by simp
      then show ?thesis using False by (simp add: restart_wait.simps[of start lag now])
    qed
  qed
qed

definition spawn :: "proc \<Rightarrow> proc" where
  "spawn p = (case last (pr_started p) of (cmd, env) \<Rightarrow>
     \<lparr>pr_env = env, pr_args = cm_Args cmd, pr_cwd = pr_cwd p, pr_notify = [], pr_files = pr_files p, pr_started = []\<rparr>)"

text \<open>The calls of the operating system succeed: the directory of the pid file exists, the working directory is known, so
  that paths can be made absolute, the environment can be set and processes started.\<close>

definition os_ok :: "os_env \<Rightarrow> string \<Rightarrow> bool" where
  "os_ok os pidfile \<longleftrightarrow> \<not> os_dir_missing os pidfile \<and> (\<forall>f. \<exists>g. os_abs os f = Inr g) \<and> os_setenv os = None \<and> (\<exists>n. os_start os = Inr n)"

definition abs_path :: "os_env \<Rightarrow> string \<Rightarrow> string" where
  "abs_path os f = projr (os_abs os f)"

lemma abs_pidfile_ok:
  "os_ok os (dm_PidFile d) \<Longrightarrow> abs_pidfile os d p =
    Runs (None, if dm_PidFile d = '''' then d else d\<lparr>dm_PidFile := abs_path os (dm_PidFile d)\<rparr>)"
  by (auto simp: abs_pidfile_def os_ok_def abs_path_def) (metis sum.sel(2) sum.simps(6))

lemma mode_strings: "ENV_DAEMON \<noteq> ENV_SUPERVISOR"
  by (simp add: ENV_DAEMON_def ENV_SUPERVISOR_def)

lemma Notify_fields [simp]:
  "pr_env (Notify sigs p) = pr_env p" "pr_args (Notify sigs p) = pr_args p" "pr_cwd (Notify sigs p) = pr_cwd p"
  "pr_notify (Notify sigs p) = pr_notify p @ sigs" "pr_files (Notify sigs p) = pr_files p"
  "pr_started (Notify sigs p) = pr_started p" "Getenv (Notify sigs p) v = Getenv p v"
  by (simp_all add: Notify_def Getenv_def)

lemma create_file_fields [simp]:
  "pr_env (create_file f p) = pr_env p" "pr_cwd (create_file f p) = pr_cwd p" "pr_started (create_file f p) = pr_started p"
  "pr_files p g \<noteq> None \<Longrightarrow> pr_files (create_file f p) g = pr_files p g"
  by (auto simp: create_file_def)

lemma Getenv_Setenv [simp]: "Getenv (Setenv v x p) w = (if w = v then x else Getenv p w)"
  by (simp add: Getenv_def Setenv_def)

definition log_path :: "proc \<Rightarrow> log_file \<Rightarrow> string" where
  "log_path p l = (if lg_path l = '''' then ''/tmp/'' @ path_Base (hd (pr_args p)) @ ''.log'' else lg_path l)"

lemma createLogfile_path: "createLogfile os p d = (err, d') \<Longrightarrow> lg_path (dm_Log d') = log_path p (dm_Log d)"
  by (auto simp: createLogfile_def LogOpen_def log_path_def Let_def split: prod.splits option.splits sum.splits if_splits)

text \<open>The process that starts the child touches no file but its log.\<close>

lemma parent_ok:
  assumes "os_ok os f"
  obtains p' cmd where "parent os d p = Exits 0 p'" "pr_started p' = pr_started p @ [(cmd, pr_env p)]"
    "cm_Args cmd = cm_Args (dm_Command d)" "pr_cwd p' = pr_cwd p"
    "\<And>g. g \<noteq> log_path p (dm_Log d) \<Longrightarrow> pr_files p' g = pr_files p g"
proof -
  obtain err d' where c: "createLogfile os (Notify [SIGCHLD] p) d = (err, d')" by fastforce
  obtain n where n: "os_start os = Inr n" using assms by (auto simp: os_ok_def)
  define q where "q = (if lg_open (dm_Log d') then create_file (lg_path (dm_Log d')) (Notify [SIGCHLD] p) else Notify [SIGCHLD] p)"
  define cmd where "cmd = (if err = None then (dm_Command d)\<lparr>cm_Output := Some (lg_path (dm_Log d'))\<rparr> else dm_Command d)"
  have q: "pr_env q = pr_env p" "pr_started q = pr_started p" "pr_cwd q = pr_cwd p" by (simp_all add: q_def)
  have "log_path (Notify [SIGCHLD] p) (dm_Log d) = log_path p (dm_Log d)" by (simp add: log_path_def)
  then have files: "pr_files q g = pr_files p g" if "g \<noteq> log_path p (dm_Log d)" for g
    using that createLogfile_path[OF c] by (simp add: q_def create_file_def)
  have "parent os d p = Exits 0 (q\<lparr>pr_started := pr_started q @ [(cmd, pr_env q)]\<rparr>)"
    unfolding parent_def Let_def c prod.case start_command_def n q_def cmd_def by simp
  then show ?thesis using that[of "q\<lparr>pr_started := pr_started q @ [(cmd, pr_env q)]\<rparr>" cmd] q files by (simp add: cmd_def)
qed

text \<open>The log of a daemon whose path has not been set.\<close>

definition default_log :: "proc \<Rightarrow> string" where
  "default_log p = ''/tmp/'' @ path_Base (hd (pr_args p)) @ ''.log''"

text \<open>The three processes.\<close>

lemma parent_process:
  assumes "os_ok os f" "Getenv p ENV_SUPERVISOR = ''''" "Getenv p ENV_DAEMON = ''''"
  obtains q cmd where "Start os (Handle f False) sigs p = ProcExits 0 q"
    "pr_started q = pr_started p @ [(cmd, (pr_env p)(ENV_DAEMON \<mapsto> ''child''))]" "cm_Args cmd = pr_args p" "pr_cwd q = pr_cwd p"
    "\<And>g. g \<noteq> default_log p \<Longrightarrow> pr_files q g = pr_files p g"
proof -
  obtain e where e: "os_abs os (hd (pr_args p)) = Inr e" using assms(1) by (auto simp: os_ok_def)
  have se: "os_setenv os = None" using assms(1) by (simp add: os_ok_def)
  let ?p = "Setenv ENV_DAEMON ''child'' (Notify [SIGHUP, SIGINT, SIGQUIT, SIGTERM] p)"
  let ?d = "(if f = '''' then Handle f False else (Handle f False)\<lparr>dm_PidFile := abs_path os f\<rparr>)
      \<lparr>dm_Command := \<lparr>cm_Path = e, cm_Args = pr_args p, cm_Output = None\<rparr>\<rparr>"
  define d P where dP: "d = ?d" "P = ?p"
  obtain q cmd where q: "parent os d P = Exits 0 q" "pr_started q = pr_started P @ [(cmd, pr_env P)]"
    "cm_Args cmd = cm_Args (dm_Command d)" "pr_cwd q = pr_cwd P" "\<forall>g. g \<noteq> log_path P (dm_Log d) \<longrightarrow> pr_files q g = pr_files P g"
    using parent_ok[OF assms(1), of d P] by blast
  note q = q[unfolded dP]
  have log: "log_path ?p (dm_Log ?d) = default_log p"
    by (simp add: log_path_def default_log_def Handle_def NewDaemon_def Setenv_def Notify_def)
  have "DaemonSink os (Handle f False) p = Exits 0 q"
    using q(1) e se assms(3)
    by (auto simp: DaemonSink_def Let_def abs_pidfile_ok assms(1) set_mode_def Handle_def NewDaemon_def)
  then show ?thesis using that[of q cmd] q(2-5) log assms(2)
    by (simp add: Start_def SupervisorSink_def Setenv_def Notify_def)
qed

lemma monitor_process:
  assumes "os_ok os f" "Getenv p ENV_SUPERVISOR = ''''" "Getenv p ENV_DAEMON = ''child''"
    and "f \<noteq> ''''" "WritePid (os_pid os) (pr_files p (abs_path os f)) = (None, Some pid)" "abs_path os f \<noteq> ''''"
  obtains d q where "Start os (Handle f False) sigs p = Monitor d q" "cm_Args (dm_Command d) = pr_args p"
    "pr_files q = (pr_files p)(abs_path os f := Some pid)" "pr_cwd q = ''/''" "pr_env q = (pr_env p)(ENV_SUPERVISOR \<mapsto> ''worker'')"
    "pr_started q = pr_started p"
proof -
  obtain e where e: "os_abs os (hd (pr_args p)) = Inr e" using assms(1) by (auto simp: os_ok_def)
  have se: "os_setenv os = None" using assms(1) by (simp add: os_ok_def)
  let ?p = "Notify [SIGHUP, SIGINT, SIGQUIT, SIGTERM] p"
  let ?d = "(Handle f False)\<lparr>dm_PidFile := abs_path os f, dm_Command := \<lparr>cm_Path = e, cm_Args = pr_args p, cm_Output = None\<rparr>\<rparr>"
  let ?q = "?p\<lparr>pr_cwd := ''/'', pr_files := (pr_files p)(abs_path os f := Some pid)\<rparr>"
  have "DaemonSink os (Handle f False) p = Runs (None, ?d, ?q)"
    using e assms(3-6)
    by (auto simp: DaemonSink_def Let_def abs_pidfile_ok assms(1) unsetenv_def child_def setupPidfile_def
        Handle_def NewDaemon_def)
  then have "Start os (Handle f False) sigs p = Monitor ?d (Notify [SIGCHLD] (Setenv ENV_SUPERVISOR ''worker'' ?q))"
    using assms(2) se by (simp add: Start_def SupervisorSink_def set_mode_def Handle_def NewDaemon_def)
  then show ?thesis using that by (simp add: Setenv_def Notify_def)
qed

lemma worker_process:
  "Getenv p ENV_SUPERVISOR = ''worker'' \<Longrightarrow> Start os d sigs p = Serving (serve_signals d sigs p)"
  by (simp add: Start_def SupervisorSink_def unsetenv_def)

lemma startWorker_quiet:
  "os_ok os f \<Longrightarrow> startWorker os d [] p =
    Runs (WorkerRuns, p\<lparr>pr_started := pr_started p @ [((dm_Command d)\<lparr>cm_Output := Some ''stdout''\<rparr>, pr_env p)]\<rparr>)"
  by (auto simp: startWorker_def start_command_def os_ok_def)

lemma supervise_starts:
  "sorted_wrt (\<lambda>a b. a + 5000000000 < b) (fst (supervise os d rs now p)) \<and>
   (\<forall>t \<in> set (fst (supervise os d rs now p)). now \<le> t)"
proof (induction rs arbitrary: now p)
  case (Cons r rs)
  obtain sigs dur lag where r: "r = (sigs, dur, lag)" by (cases r)
  show ?case
  proof (cases "\<exists>q. startWorker os d sigs p = Runs (WorkerGone, q)")
    case True
    then obtain q where q: "startWorker os d sigs p = Runs (WorkerGone, q)" by blast
    let ?now = "restart_wait now lag (now + int dur)"
    have now: "now + 5000000000 < ?now" using restart_wait_after by blast
    have "now + 5000000000 < t" if "t \<in> set (fst (supervise os d rs ?now q))" for t
      using Cons.IH[of ?now q] now that by fastforce
    then show ?thesis using Cons.IH[of ?now q] now by (fastforce simp: r q)
  next
    case False
    then show ?thesis by (auto simp: r split: ending.splits prod.splits worker_end.splits)
  qed
qed simp

subsection \<open>Properties\<close>

text \<open>
  C20. In background mode the process that is started ends at once, with success, having started one child
  with its own arguments; the child writes the pid file, moves to the root directory and becomes the
  monitor, and what the monitor starts serves. All three are the same program: the environment
  variables that each passes on tell them apart. The pid file can be written as the start finds it, which means
  that it is absent or left by a process that is gone, and it is not the log file, which the first process creates.
\<close>

theorem background_start:
  assumes "os_ok os1 f" "os_ok os2 f" "os_ok os3 f" "Getenv p ENV_SUPERVISOR = ''''" "Getenv p ENV_DAEMON = ''''"
    and "f \<noteq> ''''" "abs_path os2 f \<noteq> ''''" "abs_path os2 f \<noteq> default_log p"
    and "WritePid (os_pid os2) (pr_files p (abs_path os2 f)) = (None, Some pid)"
  shows "\<exists>q dm m w. Start os1 (Handle f False) [] p = ProcExits 0 q \<and> length (pr_started q) = Suc (length (pr_started p)) \<and>
    Start os2 (Handle f False) [] (spawn q) = Monitor dm m \<and> pr_files m (abs_path os2 f) = Some pid \<and> pr_cwd m = ''/'' \<and>
    startWorker os3 dm [] m = Runs (WorkerRuns, w) \<and>
    Start os4 (Handle f False) [] (spawn w) = Serving Alive \<and> pr_args (spawn w) = pr_args p"
proof -
  obtain q cmd where q: "Start os1 (Handle f False) [] p = ProcExits 0 q"
    "pr_started q = pr_started p @ [(cmd, (pr_env p)(ENV_DAEMON \<mapsto> ''child''))]" "cm_Args cmd = pr_args p"
    "pr_files q (abs_path os2 f) = pr_files p (abs_path os2 f)"
    using parent_process[OF assms(1,4,5), of "[]"] assms(8) by metis
  let ?c = "spawn q"
  have c: "pr_env ?c = (pr_env p)(ENV_DAEMON \<mapsto> ''child'')" "pr_args ?c = pr_args p" "pr_files ?c = pr_files q" "pr_started ?c = []"
    using q(2,3) by (simp_all add: spawn_def)
  then have modes: "Getenv ?c ENV_SUPERVISOR = ''''" "Getenv ?c ENV_DAEMON = ''child''"
    using assms(4) mode_strings by (auto simp: Getenv_def)
  have "WritePid (os_pid os2) (pr_files ?c (abs_path os2 f)) = (None, Some pid)"
    using assms(9) q(4) c(3) by simp
  from monitor_process[OF assms(2) modes assms(6) this assms(7)] obtain dm m where m:
    "Start os2 (Handle f False) [] ?c = Monitor dm m" "cm_Args (dm_Command dm) = pr_args ?c"
    "pr_files m = (pr_files ?c)(abs_path os2 f := Some pid)" "pr_cwd m = ''/''"
    "pr_env m = (pr_env ?c)(ENV_SUPERVISOR \<mapsto> ''worker'')" "pr_started m = pr_started ?c" by metis
  let ?w = "m\<lparr>pr_started := pr_started m @ [((dm_Command dm)\<lparr>cm_Output := Some ''stdout''\<rparr>, pr_env m)]\<rparr>"
  have "Getenv (spawn ?w) ENV_SUPERVISOR = ''worker''" "pr_args (spawn ?w) = pr_args p"
    using m(2,5) c(2) by (simp_all add: spawn_def Getenv_def)
  then show ?thesis using q m startWorker_quiet[OF assms(3), of dm m] worker_process[of "spawn ?w" os4 "Handle f False" "[]"]
    by auto
qed

definition ex_os :: os_env where
  "ex_os = \<lparr>os_pid = \<lparr>pe_create = None, pe_open = None, pe_alive = (\<lambda>n. False), pe_self = 42\<rparr>, os_dir_missing = (\<lambda>f. False),
     os_abs = (\<lambda>f. Inr (''/'' @ f)), os_setenv = None, os_open = (\<lambda>f. Some ''permission denied''), os_seek = Inr 0, os_start = Inr 7\<rparr>"

definition ex_proc :: "environ \<Rightarrow> proc" where
  "ex_proc env = \<lparr>pr_env = env, pr_args = [''gbalancer''], pr_cwd = ''/root'', pr_notify = [], pr_files = (\<lambda>f. None), pr_started = []\<rparr>"

lemma ex_os: "os_ok ex_os g" "abs_path ex_os f = ''/'' @ f" "file \<noteq> Some '''' \<Longrightarrow> WritePid (os_pid ex_os) file = (None, Some (Itoa 42))"
  by (auto simp: ex_os_def os_ok_def abs_path_def WritePid_def split: option.split)

lemma ex_proc: "Getenv (ex_proc Map.empty) v = ''''"
  by (simp add: ex_proc_def Getenv_def)



theorem background_start_witness:
  "\<exists>q dm m. Start ex_os (Handle ''gb.pid'' False) [] (ex_proc Map.empty) = ProcExits 0 q \<and>
     Start ex_os (Handle ''gb.pid'' False) [] (spawn q) = Monitor dm m \<and> pr_files m ''/gb.pid'' = Some (Itoa 42)"
  using background_start[OF ex_os(1)[of "''gb.pid''"] ex_os(1) ex_os(1) ex_proc ex_proc, where pid = "Itoa 42" and ?os4.0 = ex_os]
  by (auto simp: ex_os(2,3) default_log_def ex_proc_def path_Base_def)

text \<open>
  A worker asks for no signal, so the signal that the monitor passes on when it is told to terminate
  kills it before its handler is stopped, and the monitor leaves without removing the pid file.
\<close>

theorem background_term_skips_stop:
  assumes "Getenv w ENV_SUPERVISOR = ''worker''" "pr_notify w = []" "os_ok os f"
  shows "Start os' d (SIGTERM # sigs) w = Serving Killed \<and>
    (\<exists>m'. startWorker os d (SIGTERM # sigs) m = Exits 0 m' \<and> pr_files m' = pr_files m)"
  using worker_process[OF assms(1), of os' d "SIGTERM # sigs"] assms(2,3)
  by (auto simp: WaitSignal_def startWorker_def start_command_def os_ok_def)

theorem background_term_skips_stop_witness:
  "Start ex_os (Handle '''' False) [SIGTERM] (ex_proc [ENV_SUPERVISOR \<mapsto> ''worker'']) = Serving Killed"
  using background_term_skips_stop[of "ex_proc [ENV_SUPERVISOR \<mapsto> ''worker'']" ex_os "''''" ex_os "Handle '''' False" "[]"] ex_os(1)
  by (simp add: ex_proc_def Getenv_def)

text \<open>
  In the foreground the first signal but SIGCHLD stops the handler, and the pid file that the start has
  written is gone afterwards.
\<close>

theorem foreground_stops_cleanly:
  assumes "os_ok os f" "Getenv p ENV_SUPERVISOR = ''''" "f \<noteq> ''''" "abs_path os f \<noteq> ''''"
    and "WritePid (os_pid os) (pr_files p (abs_path os f)) = (None, Some pid)"
    and "sig \<in> {SIGHUP, SIGINT, SIGQUIT, SIGTERM}"
  shows "\<exists>q. Start os (Handle f True) (sig # sigs) p = Serving (Stopped q) \<and>
    pr_files q = (pr_files p)(abs_path os f := None)"
proof -
  let ?d = "(Handle f True)\<lparr>dm_PidFile := abs_path os f\<rparr>"
  let ?q = "(Notify [SIGHUP, SIGINT, SIGQUIT, SIGTERM] p)\<lparr>pr_files := (pr_files p)(abs_path os f := Some pid)\<rparr>"
  have "DaemonSink os (Handle f True) p = Runs (None, ?d, ?q)"
    using assms(3-5) by (auto simp: DaemonSink_def Let_def abs_pidfile_ok assms(1) setupPidfile_def Handle_def NewDaemon_def)
  then have "Start os (Handle f True) (sig # sigs) p = Serving (serve_signals ?d (sig # sigs) ?q)"
    using assms(2) by (simp add: Start_def SupervisorSink_def Handle_def)
  moreover have "serve_signals ?d (sig # sigs) ?q = Stopped (cleanPidfile ?d ?q)"
    using assms(6) by (auto simp: WaitSignal_def)
  ultimately show ?thesis using assms(4) by (simp add: cleanPidfile_def)
qed

theorem foreground_stops_cleanly_witness:
  "\<exists>q. Start ex_os (Handle ''gb.pid'' True) [SIGINT] (ex_proc Map.empty) = Serving (Stopped q) \<and> pr_files q ''/gb.pid'' = None"
  using foreground_stops_cleanly[OF ex_os(1) ex_proc, of "''gb.pid''" "Itoa 42" SIGINT "[]"]
  by (auto simp: ex_os(2,3) ex_proc_def)

text \<open>
  Without a supervisor the process in the background serves itself and has asked for the signals, so that there too the
  first of them stops the handler and removes the pid file.
\<close>

theorem daemon_stops_cleanly:
  assumes "os_ok os f" "Getenv p ENV_DAEMON = ''child''" "f \<noteq> ''''" "abs_path os f \<noteq> ''''"
    and "WritePid (os_pid os) (pr_files p (abs_path os f)) = (None, Some pid)"
    and "sig \<in> {SIGHUP, SIGINT, SIGQUIT, SIGTERM}"
  shows "\<exists>q. DaemonStart os (DaemonHandle f False NewDaemon) (sig # sigs) p = Serving (Stopped q) \<and>
    pr_cwd q = ''/'' \<and> pr_files q = (pr_files p)(abs_path os f := None)"
proof -
  let ?d = "DaemonHandle f False NewDaemon"
  obtain e where e: "os_abs os (hd (pr_args p)) = Inr e" using assms(1) by (auto simp: os_ok_def)
  let ?e = "?d\<lparr>dm_PidFile := abs_path os f, dm_Command := \<lparr>cm_Path = e, cm_Args = pr_args p, cm_Output = None\<rparr>\<rparr>"
  let ?q = "(Notify [SIGHUP, SIGINT, SIGQUIT, SIGTERM] p)\<lparr>pr_cwd := ''/'', pr_files := (pr_files p)(abs_path os f := Some pid)\<rparr>"
  have "DaemonSink os ?d p = Runs (None, ?e, ?q)"
    using e assms(2-5)
    by (auto simp: DaemonSink_def Let_def abs_pidfile_ok assms(1) unsetenv_def child_def setupPidfile_def
        DaemonHandle_def NewDaemon_def)
  then have "DaemonStart os ?d (sig # sigs) p = Serving (serve_signals ?e (sig # sigs) ?q)"
    by (simp add: DaemonStart_def)
  moreover have "serve_signals ?e (sig # sigs) ?q = Stopped (cleanPidfile ?e ?q)"
    using assms(6) by (auto simp: WaitSignal_def)
  ultimately show ?thesis using assms(4) by (simp add: cleanPidfile_def)
qed

theorem daemon_stops_cleanly_witness:
  "\<exists>q. DaemonStart ex_os (DaemonHandle ''gb.pid'' False NewDaemon) [SIGINT] (ex_proc [ENV_DAEMON \<mapsto> ''child'']) =
      Serving (Stopped q) \<and> pr_files q ''/gb.pid'' = None"
  using daemon_stops_cleanly[OF ex_os(1), of "ex_proc [ENV_DAEMON \<mapsto> ''child'']" "''gb.pid''" "Itoa 42" SIGINT "[]"]
  by (auto simp: ex_os(2,3) ex_proc_def Getenv_def)

text \<open>
  A handler that \<open>RunForever\<close> is given to restart on errors is not: its first panic ends the loop, and with the loop
  the process.
\<close>

theorem RunForever_dies_of_panic:
  "RunForever (map (\<lambda>(dur, lag). (None, dur, lag)) quiet @ (Some q, dur, lag) # rs) now =
    (None, fst (runLoop (map (\<lambda>(dur, lag). (None, dur, lag)) quiet @ [(Some q, dur, lag)]) now), RunPanicked q)"
proof -
  have "runLoop (map (\<lambda>(dur, lag). (None, dur, lag)) quiet @ (Some q, dur, lag) # rs) now =
    (fst (runLoop (map (\<lambda>(dur, lag). (None, dur, lag)) quiet @ [(Some q, dur, lag)]) now), RunPanicked q)"
    by (induction quiet arbitrary: now) (auto simp: RunWait_def split: prod.splits)
  then show ?thesis by (simp add: RunForever_def)
qed

text \<open>
  The monitor waits for the clock to pass five seconds after a start before it starts the next worker,
  whatever signals it gets, however short the workers run and however late its sleeps end; and it does
  start it, as the wait ends.
\<close>

theorem supervise_paces:
  "sorted_wrt (\<lambda>a b. a + 5000000000 < b) (fst (supervise os d rs now p))"
  using supervise_starts by blast

end
