(* ===== verification/Engine.thy ===== *)
theory Engine
  imports Balancer Ipvs Daemon
begin

text \<open>
  engine/engine.go and main.go: the choice of the engine, and the program from its flags to the service.
\<close>

datatype engine = RunsNative "nat list" | RunsLocal ipvs | RunsRemote ipvs

text \<open>The wrangler that monitors, the engine, and the count of the wait group.\<close>

definition EngineServe ::
  "bool \<Rightarrow> bool \<Rightarrow> (string \<Rightarrow> string \<Rightarrow> string + nat) \<Rightarrow> configuration \<Rightarrow> int \<Rightarrow> (wrangler \<times> engine \<times> int) exit"
where
  "EngineServe ipvsMode ipvsRemote net settings wg =
    and_exit (NewWrangler settings) (\<lambda>wgl.
      if ipvsMode then
        Returned (wgl, if ipvsRemote then RunsRemote (NewIPvs (cf_Addr settings) (cf_Port settings) ''wlc'')
          else RunsLocal (NewIPvs IPvsLocalAddr (cf_Port settings) ''wlc''), wg + 1)
      else and_exit (NativeServe net settings wg) (\<lambda>(ls, wg). Returned (wgl, RunsNative ls, wg)))"

text \<open>\<open>main\<close>: it exits with a code, or comes to what \<open>nestor.Start\<close> makes of the process.\<close>

datatype program = MainExits int | MainStarted configuration started

definition main ::
  "bool \<Rightarrow> bool \<Rightarrow> string \<Rightarrow> string \<Rightarrow> (string \<Rightarrow> string option) \<Rightarrow> (string \<Rightarrow> string + 'f) \<Rightarrow>
   ('f \<Rightarrow> configuration \<Rightarrow> configuration \<times> string option) \<Rightarrow> os_env \<Rightarrow> signal list \<Rightarrow> proc \<Rightarrow> program"
where
  "main printVersion daemonMode pidFile configFile stat open_file decode os sigs p =
    (if printVersion then MainExits 0
     else if daemonMode \<and> CheckFile stat configFile \<noteq> None then MainExits 1
     else case LoadConfig open_file decode configFile of
       (Some settings, None) \<Rightarrow>
         (case Start os (Handle pidFile (\<not> daemonMode)) sigs p of
            StartErr e \<Rightarrow> MainExits 1
          | st \<Rightarrow> MainStarted settings st)
     | _ \<Rightarrow> MainExits 1)"

lemma daemon_needs_absolute_path:
  "take 1 configFile \<noteq> ''/'' \<Longrightarrow> main False True pidFile configFile stat open_file decode os sigs p = MainExits 1"
  by (simp add: main_def CheckFile_def)

lemma EngineServe_counts:
  "EngineServe ipvsMode remote net settings 0 = Returned (w, e, wg) \<Longrightarrow>
   wg = (case e of RunsNative ls \<Rightarrow> int (length ls) | _ \<Rightarrow> 1)"
  by (cases "NewWrangler settings"; cases "NativeServe net settings 0")
    (auto simp: EngineServe_def NativeServe_def dest!: start_listeners_count split: if_splits prod.splits option.splits)

end
