(* ===== verification/Cluster.thy ===== *)
theory Cluster
  imports GoStrings
begin

text \<open>
  cluster/client.go: registration of a node and election of a leader through keys in etcd. The etcd
  client is the record \<open>etcd\<close> of its calls on the store, whose state \<open>'s\<close> others may change between two
  calls: a loop gets, for each turn, the state it finds.
\<close>

record 's etcd =
  et_Get :: "string \<Rightarrow> 's \<Rightarrow> string + string"
  et_Create :: "string \<Rightarrow> string \<Rightarrow> nat \<Rightarrow> 's \<Rightarrow> (string + nat) \<times> 's"
  et_CompareAndSwap :: "string \<Rightarrow> string \<Rightarrow> nat \<Rightarrow> string \<Rightarrow> nat \<Rightarrow> 's \<Rightarrow> (string + nat) \<times> 's"

record client =
  cl_ServiceName :: string
  cl_ClusterName :: string
  cl_IPAddress :: string
  cl_Pid :: string

definition Prefix :: "(string list \<Rightarrow> string) \<Rightarrow> client \<Rightarrow> string" where
  "Prefix path_Join l = path_Join [cl_ServiceName l, cl_ClusterName l]"

definition LeaderPath :: "(string list \<Rightarrow> string) \<Rightarrow> client \<Rightarrow> string" where
  "LeaderPath path_Join l = path_Join [Prefix path_Join l, ''leader'', ''id'']"

definition NodePath :: "(string list \<Rightarrow> string) \<Rightarrow> client \<Rightarrow> string" where
  "NodePath path_Join l = path_Join [Prefix path_Join l, ''node'', cl_IPAddress l]"

text \<open>\<open>signal0 pid\<close> is the error of sending signal 0; the result is the pid and the error.\<close>

definition FindInstance ::
  "'s etcd \<Rightarrow> (string list \<Rightarrow> string) \<Rightarrow> (int \<Rightarrow> string option) \<Rightarrow> client \<Rightarrow> 's \<Rightarrow> int \<times> string option"
where
  "FindInstance et path_Join signal0 l s =
    (case et_Get et (NodePath path_Join l) s of
       Inl err \<Rightarrow> (0, Some err)
     | Inr v \<Rightarrow> (case Atoi v of None \<Rightarrow> (0, Some ''invalid syntax'') | Some pid \<Rightarrow> (pid, signal0 pid)))"

text \<open>\<open>Lock\<close>: the error, or the index with which the goroutine that renews the lock starts.\<close>

definition Lock :: "'s etcd \<Rightarrow> string \<Rightarrow> string \<Rightarrow> nat \<Rightarrow> 's \<Rightarrow> (string + nat) \<times> 's" where
  "Lock et key v ttl s = et_Create et key v ttl s"

text \<open>The renewing goroutine on the states it finds, one for each third of the time to live: the index it
  holds, None if it has ended the process.\<close>

definition renew_turn :: "'s etcd \<Rightarrow> string \<Rightarrow> string \<Rightarrow> nat \<Rightarrow> nat \<Rightarrow> 's \<Rightarrow> nat option \<times> 's" where
  "renew_turn et key v ttl index s =
    (case et_CompareAndSwap et key v ttl v index s of (Inl err, s) \<Rightarrow> (None, s) | (Inr index', s) \<Rightarrow> (Some index', s))"

fun renew :: "'s etcd \<Rightarrow> string \<Rightarrow> string \<Rightarrow> nat \<Rightarrow> nat \<Rightarrow> 's list \<Rightarrow> nat option" where
  "renew et key v ttl index [] = Some index"
| "renew et key v ttl index (s # ss) =
    (case fst (renew_turn et key v ttl index s) of
       None \<Rightarrow> None
     | Some index' \<Rightarrow> renew et key v ttl index' ss)"

text \<open>A loop that has returned, or that sleeps after its last turn.\<close>

datatype 'a loop = Left_loop 'a | Sleeping

fun Register ::
  "'s etcd \<Rightarrow> (string list \<Rightarrow> string) \<Rightarrow> (int \<Rightarrow> string option) \<Rightarrow> client \<Rightarrow> nat \<Rightarrow> ('s \<times> 's) list \<Rightarrow> (int + nat) loop"
where
  "Register et path_Join signal0 l ttl [] = Sleeping"
| "Register et path_Join signal0 l ttl ((s, s') # ss) =
    (case FindInstance et path_Join signal0 l s of
       (existPid, None) \<Rightarrow> Left_loop (Inl existPid)
     | (_, Some err) \<Rightarrow>
         (case fst (Lock et (NodePath path_Join l) (cl_Pid l) ttl s') of
            Inr index \<Rightarrow> Left_loop (Inr index)
          | Inl err \<Rightarrow> Register et path_Join signal0 l ttl ss))"

fun BecomeLeader :: "'s etcd \<Rightarrow> (string list \<Rightarrow> string) \<Rightarrow> client \<Rightarrow> nat \<Rightarrow> 's list \<Rightarrow> nat loop" where
  "BecomeLeader et path_Join l ttl [] = Sleeping"
| "BecomeLeader et path_Join l ttl (s # ss) =
    (case fst (Lock et (LeaderPath path_Join l) (cl_IPAddress l) ttl s) of
       Inr index \<Rightarrow> Left_loop index
     | Inl err \<Rightarrow> BecomeLeader et path_Join l ttl ss)"

text \<open>A node becomes leader at the first state in which the key can be created.\<close>

lemma BecomeLeader_first:
  "BecomeLeader et path_Join l ttl ss =
    (case dropWhile (\<lambda>s. isl (fst (et_Create et (LeaderPath path_Join l) (cl_IPAddress l) ttl s))) ss of
       [] \<Rightarrow> Sleeping
     | s # _ \<Rightarrow> Left_loop (projr (fst (et_Create et (LeaderPath path_Join l) (cl_IPAddress l) ttl s))))"
  by (induction ss) (auto simp: Lock_def split: sum.splits)

text \<open>A node whose renewal fails does not go on.\<close>

lemma renew_stops:
  "renew et key v ttl index (ss @ s # ss') \<noteq> None \<Longrightarrow> \<exists>i. renew et key v ttl index ss = Some i \<and>
     \<not> isl (fst (et_CompareAndSwap et key v ttl v i s))"
  by (induction ss arbitrary: index) (auto simp: renew_turn_def split: option.splits sum.splits prod.splits)

end
