(* ===== verification/EtcdClient.thy ===== *)
theory EtcdClient
  imports Prelude GoStrings "HOL-Library.AList"
begin

text \<open>
  coreos/go-etcd/etcd: the client under cluster/client.go, from the requests with their retries over the machines
  of the etcd cluster to the calls on keys. The HTTP client, JSON, URLs and \<open>path.Join\<close> are arguments; a call
  takes the client and the world, which the requests change, and returns a result or an error with both. The
  recording of requests as curl commands is left out.
\<close>

subsection \<open>The world\<close>

record http_request =
  rq_method :: string
  rq_url :: string
  rq_values :: "(string \<times> string) list option"

text \<open>The body is None if reading it fails; the location is the scheme and the host of the header, if it parses.\<close>

record http_response =
  rp_StatusCode :: nat
  rp_Body :: "string option"
  rp_Header :: "string \<Rightarrow> string"
  rp_Location :: "(string \<times> string) option"

text \<open>The time of expiration is None if the node has none; a directory has nodes below it.\<close>

datatype node = Node (nd_Key: string) (nd_Value: string) (nd_Dir: bool) (nd_Expiration: "nat option") (nd_TTL: "64 word")
  (nd_Nodes: "node list") (nd_ModifiedIndex: uint64) (nd_CreatedIndex: uint64)

text \<open>The nodes of a directory, to be sorted by their keys.\<close>

type_synonym nodes = "node list"

definition nodes_Len :: "nodes \<Rightarrow> nat" where
  "nodes_Len ns = length ns"

definition nodes_Less :: "nodes \<Rightarrow> nat \<Rightarrow> nat \<Rightarrow> bool" where
  "nodes_Less ns i j \<longleftrightarrow> nd_Key (ns ! i) < nd_Key (ns ! j)"

definition nodes_Swap :: "nodes \<Rightarrow> nat \<Rightarrow> nat \<Rightarrow> nodes" where
  "nodes_Swap ns i j = list_swap ns i j"

record response =
  rs_Action :: string
  rs_Node :: "node option"
  rs_PrevNode :: "node option"
  rs_EtcdIndex :: uint64
  rs_RaftIndex :: uint64
  rs_RaftTerm :: uint64

record raw_response =
  rr_StatusCode :: nat
  rr_Body :: string
  rr_Header :: "string \<Rightarrow> string"

datatype etcd_fail = EtcdError nat string uint64 | OtherError string | EtcdPanic panic

record 'w etcd_env =
  ee_Do :: "http_request \<Rightarrow> 'w \<Rightarrow> (string + http_response) \<times> 'w"
  ee_url_ok :: "string \<Rightarrow> bool"
  ee_escape :: "string \<Rightarrow> string"
  ee_join :: "string list \<Rightarrow> string"
  ee_random :: "'w \<Rightarrow> nat"
  ee_ParseUint :: "string \<Rightarrow> uint64"
  ee_decode :: "string \<Rightarrow> string + response"
  ee_decode_error :: "string \<Rightarrow> string + nat \<times> string \<times> uint64"

subsection \<open>The machines\<close>

record etcd_cluster =
  ec_Leader :: string
  ec_Machines :: "string list"

definition NewCluster :: "string list \<Rightarrow> etcd_cluster" where
  "NewCluster machines =
    (let machines = (if machines = [] then [''http://127.0.0.1:4001''] else machines) in
     \<lparr>ec_Leader = machines ! 0, ec_Machines = machines\<rparr>)"

definition switchLeader :: "nat \<Rightarrow> etcd_cluster \<Rightarrow> etcd_cluster" where
  "switchLeader num cl = cl\<lparr>ec_Leader := ec_Machines cl ! num\<rparr>"

definition updateFromStr :: "string \<Rightarrow> etcd_cluster \<Rightarrow> etcd_cluster" where
  "updateFromStr machines cl = cl\<lparr>ec_Machines := Split machines '', ''\<rparr>"

definition updateLeader :: "string \<Rightarrow> etcd_cluster \<Rightarrow> etcd_cluster" where
  "updateLeader leader cl = cl\<lparr>ec_Leader := leader\<rparr>"

definition updateLeaderFromURL :: "string \<times> string \<Rightarrow> etcd_cluster \<Rightarrow> etcd_cluster" where
  "updateLeaderFromURL u cl =
    updateLeader (if fst u = '''' then ''http://'' @ snd u else fst u @ ''://'' @ snd u) cl"

subsection \<open>The client\<close>

definition STRONG_CONSISTENCY :: string where "STRONG_CONSISTENCY = ''STRONG''"
definition WEAK_CONSISTENCY :: string where "WEAK_CONSISTENCY = ''WEAK''"

text \<open>The HTTP client: whether it skips the verification, its certificate and its roots.\<close>

record http_client =
  hc_Insecure :: bool
  hc_Cert :: "(string \<times> string) option"
  hc_RootCAs :: "string list option"

record etcd_config =
  eg_CertFile :: string
  eg_KeyFile :: string
  eg_CaCertFile :: "string list"
  eg_Timeout :: nat
  eg_Consistency :: string

record etcd_client =
  ek_config :: etcd_config
  ek_cluster :: etcd_cluster
  ek_http :: "http_client option"

record 'w etcd_state =
  es_client :: etcd_client
  es_world :: 'w

type_synonym ('w, 'a) etcd_call = "'w etcd_state \<Rightarrow> (etcd_fail + 'a) \<times> 'w etcd_state"

definition initHTTPClient :: "etcd_client \<Rightarrow> etcd_client" where
  "initHTTPClient c = c\<lparr>ek_http := Some \<lparr>hc_Insecure = True, hc_Cert = None, hc_RootCAs = None\<rparr>\<rparr>"

text \<open>\<open>load\<close> is \<open>tls.LoadX509KeyPair\<close>, its error.\<close>

definition initHTTPSClient :: "(string \<Rightarrow> string \<Rightarrow> string option) \<Rightarrow> string \<Rightarrow> string \<Rightarrow> etcd_client \<Rightarrow> string option \<times> etcd_client" where
  "initHTTPSClient load cert key c =
    (if cert = '''' \<or> key = '''' then (Some ''Require both cert and key path'', c)
     else case load cert key of
       Some e \<Rightarrow> (Some e, c)
     | None \<Rightarrow> (None, c\<lparr>ek_http := Some \<lparr>hc_Insecure = True, hc_Cert = Some (cert, key), hc_RootCAs = None\<rparr>\<rparr>))"

definition NewClient :: "string list \<Rightarrow> etcd_client" where
  "NewClient machines =
    initHTTPClient
      \<lparr>ek_config = \<lparr>eg_CertFile = '''', eg_KeyFile = '''', eg_CaCertFile = [], eg_Timeout = 1, eg_Consistency = STRONG_CONSISTENCY\<rparr>,
       ek_cluster = NewCluster machines, ek_http = None\<rparr>"

text \<open>\<open>read\<close> gives the file, \<open>pem\<close> says whether it holds a certificate. The verification is switched on whether or not
  the first root could be added.\<close>

definition AddRootCA :: "(string \<Rightarrow> string + string) \<Rightarrow> (string \<Rightarrow> bool) \<Rightarrow> string \<Rightarrow> etcd_client \<Rightarrow> string option \<times> etcd_client" where
  "AddRootCA read pem caCert c =
    (case ek_http c of
       None \<Rightarrow> (Some ''Client has not been initialized yet!'', c)
     | Some h \<Rightarrow>
         (case read caCert of
            Inl e \<Rightarrow> (Some e, c)
          | Inr bs \<Rightarrow>
              let ok = pem bs;
                  h = (case hc_RootCAs h of
                         None \<Rightarrow> h\<lparr>hc_RootCAs := if ok then Some [bs] else None, hc_Insecure := False\<rparr>
                       | Some roots \<Rightarrow> h\<lparr>hc_RootCAs := Some (if ok then roots @ [bs] else roots)\<rparr>);
                  g = ek_config c in
              (if ok then None else Some ''Unable to load caCert'',
               c\<lparr>ek_http := Some h, ek_config := g\<lparr>eg_CaCertFile := eg_CaCertFile g @ [caCert]\<rparr>\<rparr>)))"

definition NewTLSClient ::
  "(string \<Rightarrow> string \<Rightarrow> string option) \<Rightarrow> (string \<Rightarrow> string + string) \<Rightarrow> (string \<Rightarrow> bool) \<Rightarrow> string list \<Rightarrow> string \<Rightarrow> string \<Rightarrow> string \<Rightarrow>
   string + string option \<times> etcd_client"
where
  "NewTLSClient load read pem machines cert key caCert =
    (let machines = (if machines = [] then [''https://127.0.0.1:4001''] else machines);
         c = \<lparr>ek_config = \<lparr>eg_CertFile = cert, eg_KeyFile = key, eg_CaCertFile = [], eg_Timeout = 1, eg_Consistency = STRONG_CONSISTENCY\<rparr>,
              ek_cluster = NewCluster machines, ek_http = None\<rparr> in
     case initHTTPSClient load cert key c of
       (Some e, c) \<Rightarrow> Inl e
     | (None, c) \<Rightarrow> Inr (AddRootCA read pem caCert c))"

fun add_roots :: "(string \<Rightarrow> string + string) \<Rightarrow> (string \<Rightarrow> bool) \<Rightarrow> string list \<Rightarrow> etcd_client \<Rightarrow> string + etcd_client" where
  "add_roots read pem [] c = Inr c"
| "add_roots read pem (ca # cas) c =
    (case AddRootCA read pem ca c of (Some e, c) \<Rightarrow> Inl e | (None, c) \<Rightarrow> add_roots read pem cas c)"

text \<open>\<open>decode\<close> is \<open>json.Unmarshal\<close> into the configuration and the cluster, of a document that has both: without a cluster
  the client is made all the same, and panics at its first request.\<close>

definition NewClientFromReader ::
  "(string \<Rightarrow> string \<Rightarrow> string option) \<Rightarrow> (string \<Rightarrow> string + string) \<Rightarrow> (string \<Rightarrow> bool) \<Rightarrow>
   (string \<Rightarrow> string + etcd_config \<times> etcd_cluster) \<Rightarrow> string + string \<Rightarrow> string + etcd_client"
where
  "NewClientFromReader load read pem decode contents =
    (case contents of
       Inl e \<Rightarrow> Inl e
     | Inr b \<Rightarrow>
         (case decode b of
            Inl e \<Rightarrow> Inl e
          | Inr (g, cl) \<Rightarrow>
              let c = \<lparr>ek_config = g, ek_cluster = cl, ek_http = None\<rparr> in
              (case (if eg_CertFile g = '''' then (None, initHTTPClient c)
                     else initHTTPSClient load (eg_CertFile g) (eg_KeyFile g) c) of
                 (Some e, c) \<Rightarrow> Inl e
               | (None, c) \<Rightarrow> add_roots read pem (eg_CaCertFile g) c)))"

definition SetConsistency :: "string \<Rightarrow> etcd_client \<Rightarrow> string option \<times> etcd_client" where
  "SetConsistency k c =
    (if \<not> (k = STRONG_CONSISTENCY \<or> k = WEAK_CONSISTENCY)
     then (Some ''The argument must be either STRONG_CONSISTENCY or WEAK_CONSISTENCY.'', c)
     else (None, c\<lparr>ek_config := (ek_config c)\<lparr>eg_Consistency := k\<rparr>\<rparr>))"

subsection \<open>Options\<close>

datatype option_value = OBool bool | OString string | OUint64 uint64

datatype option_kind = KBool | KString | KUint64

fun kind_of :: "option_value \<Rightarrow> option_kind" where
  "kind_of (OBool b) = KBool"
| "kind_of (OString s) = KString"
| "kind_of (OUint64 n) = KUint64"

fun show_option :: "option_value \<Rightarrow> string" where
  "show_option (OBool b) = (if b then ''true'' else ''false'')"
| "show_option (OString s) = s"
| "show_option (OUint64 n) = decimal (unat n)"

type_synonym options = "(string \<times> option_value) list"

definition VALID_GET_OPTIONS :: "(string \<times> option_kind) list" where
  "VALID_GET_OPTIONS = [(''recursive'', KBool), (''consistent'', KBool), (''sorted'', KBool), (''wait'', KBool), (''waitIndex'', KUint64)]"

definition VALID_PUT_OPTIONS :: "(string \<times> option_kind) list" where
  "VALID_PUT_OPTIONS = [(''prevValue'', KString), (''prevIndex'', KUint64), (''prevExist'', KBool), (''dir'', KBool)]"

definition VALID_DELETE_OPTIONS :: "(string \<times> option_kind) list" where
  "VALID_DELETE_OPTIONS = [(''recursive'', KBool), (''dir'', KBool), (''prevValue'', KString), (''prevIndex'', KUint64)]"

text \<open>\<open>url.Values.Encode\<close>: the keys in order.\<close>

definition Encode :: "(string \<Rightarrow> string) \<Rightarrow> (string \<times> string) list \<Rightarrow> string" where
  "Encode escape vs = join ''&'' (map (\<lambda>(k, v). escape k @ ''='' @ escape v) (sort_key fst vs))"

text \<open>None for no options at all. The options are in the order in which Go visits the map.\<close>

definition toParameters :: "(string \<Rightarrow> string) \<Rightarrow> (string \<times> option_kind) list \<Rightarrow> options option \<Rightarrow> etcd_fail + string" where
  "toParameters escape valid ops =
    (case ops of
       None \<Rightarrow> Inr ''''
     | Some ops \<Rightarrow>
         (case find (\<lambda>(k, v). map_of valid k \<noteq> Some (kind_of v)) ops of
            Some (k, v) \<Rightarrow> Inl (OtherError (if map_of valid k = None then ''Invalid option'' else ''Option of the wrong kind''))
          | None \<Rightarrow> Inr (''?'' @ Encode escape (map (\<lambda>(k, v). (k, show_option v)) ops))))"

subsection \<open>Requests\<close>

definition keyToPath :: "'w etcd_env \<Rightarrow> string \<Rightarrow> string" where
  "keyToPath env key = (let p = ee_join env [''keys'', key] in if p = ''keys'' then ''keys/'' else p)"

definition buildValues :: "string \<Rightarrow> uint64 \<Rightarrow> (string \<times> string) list" where
  "buildValues v ttl =
    (if v \<noteq> '''' then [(''value'', v)] else []) @ (if ttl > 0 then [(''ttl'', decimal (unat ttl))] else [])"

definition getHttpPath :: "'w etcd_env \<Rightarrow> bool \<Rightarrow> string \<Rightarrow> 'w etcd_state \<Rightarrow> string" where
  "getHttpPath env random seg s =
    (let cl = ek_cluster (es_client s);
         machine = (if random then ec_Machines cl ! (ee_random env (es_world s) mod length (ec_Machines cl)) else ec_Leader cl) in
     machine @ ''/v2/'' @ seg)"

definition on_cluster :: "(etcd_cluster \<Rightarrow> etcd_cluster) \<Rightarrow> 'w etcd_state \<Rightarrow> 'w etcd_state" where
  "on_cluster f s = s\<lparr>es_client := (es_client s)\<lparr>ek_cluster := f (ek_cluster (es_client s))\<rparr>\<rparr>"

definition validHttpStatusCode :: "nat \<Rightarrow> bool" where
  "validHttpStatusCode code \<longleftrightarrow> code \<in> {201, 200, 400, 404, 412, 403}"

text \<open>The body, None if the request has to be sent again.\<close>

definition handleResp :: "http_response \<Rightarrow> 'w etcd_state \<Rightarrow> string option \<times> 'w etcd_state" where
  "handleResp resp s =
    (if rp_StatusCode resp = 307 then
       (None, case rp_Location resp of Some u \<Rightarrow> on_cluster (updateLeaderFromURL u) s | None \<Rightarrow> s)
     else if rp_StatusCode resp = 500 then (None, s)
     else if validHttpStatusCode (rp_StatusCode resp) then (rp_Body resp, s)
     else (None, s))"

definition not_reachable :: etcd_fail where
  "not_reachable = EtcdError 501 ''All the given peers are not reachable'' 0"

function send_loop ::
  "'w etcd_env \<Rightarrow> string \<Rightarrow> string \<Rightarrow> (string \<times> string) list option \<Rightarrow> nat \<Rightarrow> nat \<Rightarrow> ('w, raw_response) etcd_call"
where
  "send_loop env method path vals n trial s =
    (let trial = trial + 1 in
     if trial > 2 * n then (Inl not_reachable, s)
     else
       let random = (method = ''GET'' \<and> eg_Consistency (ek_config (es_client s)) = WEAK_CONSISTENCY);
           httpPath = getHttpPath env random path s in
       if \<not> ee_url_ok env httpPath then (Inl (EtcdPanic NilPointer), s)
       else
         case ee_Do env \<lparr>rq_method = method, rq_url = httpPath, rq_values = vals\<rparr> (es_world s) of
           (Inl err, w) \<Rightarrow>
             send_loop env method path vals n trial (on_cluster (switchLeader (trial mod n)) (s\<lparr>es_world := w\<rparr>))
         | (Inr resp, w) \<Rightarrow>
             (case handleResp resp (s\<lparr>es_world := w\<rparr>) of
                (None, s) \<Rightarrow> send_loop env method path vals n trial s
              | (Some b, s) \<Rightarrow> (Inr \<lparr>rr_StatusCode = rp_StatusCode resp, rr_Body = b, rr_Header = rp_Header resp\<rparr>, s)))"
  by pat_completeness auto
termination by (relation "measure (\<lambda>(env, method, path, vals, n, trial, s). 2 * n - trial)") auto

declare send_loop.simps [simp del]

definition sendRequest ::
  "'w etcd_env \<Rightarrow> string \<Rightarrow> string \<Rightarrow> (string \<times> string) list option \<Rightarrow> ('w, raw_response) etcd_call"
where
  "sendRequest env method path vals s =
    send_loop env method path vals (length (ec_Machines (ek_cluster (es_client s)))) 0 s"

definition send_with ::
  "'w etcd_env \<Rightarrow> string \<Rightarrow> string \<Rightarrow> etcd_fail + string \<Rightarrow> (string \<times> string) list option \<Rightarrow> ('w, raw_response) etcd_call"
where
  "send_with env method key params vals s =
    (case params of Inl e \<Rightarrow> (Inl e, s) | Inr str \<Rightarrow> sendRequest env method (keyToPath env key @ str) vals s)"

definition etcd_get :: "'w etcd_env \<Rightarrow> string \<Rightarrow> options \<Rightarrow> ('w, raw_response) etcd_call" where
  "etcd_get env key ops s =
    (let ops = (if eg_Consistency (ek_config (es_client s)) = STRONG_CONSISTENCY
                then AList.update ''consistent'' (OBool True) ops else ops) in
     send_with env ''GET'' key (toParameters (ee_escape env) VALID_GET_OPTIONS (Some ops)) None s)"

definition etcd_put :: "'w etcd_env \<Rightarrow> string \<Rightarrow> string \<Rightarrow> uint64 \<Rightarrow> options option \<Rightarrow> ('w, raw_response) etcd_call" where
  "etcd_put env key v ttl ops =
    send_with env ''PUT'' key (toParameters (ee_escape env) VALID_PUT_OPTIONS ops) (Some (buildValues v ttl))"

definition etcd_post :: "'w etcd_env \<Rightarrow> string \<Rightarrow> string \<Rightarrow> uint64 \<Rightarrow> ('w, raw_response) etcd_call" where
  "etcd_post env key v ttl = send_with env ''POST'' key (Inr '''') (Some (buildValues v ttl))"

definition etcd_delete :: "'w etcd_env \<Rightarrow> string \<Rightarrow> options \<Rightarrow> ('w, raw_response) etcd_call" where
  "etcd_delete env key ops =
    send_with env ''DELETE'' key (toParameters (ee_escape env) VALID_DELETE_OPTIONS (Some ops)) None"

subsection \<open>Responses\<close>

definition handleError :: "'w etcd_env \<Rightarrow> string \<Rightarrow> etcd_fail" where
  "handleError env b =
    (case ee_decode_error env b of Inl e \<Rightarrow> OtherError e | Inr (code, msg, index) \<Rightarrow> EtcdError code msg index)"

definition toResponse :: "'w etcd_env \<Rightarrow> raw_response \<Rightarrow> etcd_fail + response" where
  "toResponse env rr =
    (if rr_StatusCode rr \<noteq> 200 \<and> rr_StatusCode rr \<noteq> 201 then Inl (handleError env (rr_Body rr))
     else case ee_decode env (rr_Body rr) of
       Inl e \<Rightarrow> Inl (OtherError e)
     | Inr resp \<Rightarrow> Inr (resp\<lparr>rs_EtcdIndex := ee_ParseUint env (rr_Header rr ''X-Etcd-Index''),
         rs_RaftIndex := ee_ParseUint env (rr_Header rr ''X-Raft-Index''),
         rs_RaftTerm := ee_ParseUint env (rr_Header rr ''X-Raft-Term'')\<rparr>))"

definition cooked :: "'w etcd_env \<Rightarrow> ('w, raw_response) etcd_call \<Rightarrow> ('w, response) etcd_call" where
  "cooked env call s = (case call s of (Inl e, s) \<Rightarrow> (Inl e, s) | (Inr raw, s) \<Rightarrow> (toResponse env raw, s))"

subsection \<open>Calls\<close>

definition RawSet where "RawSet env key v ttl = etcd_put env key v ttl None"

definition RawCreate :: "'w etcd_env \<Rightarrow> string \<Rightarrow> string \<Rightarrow> uint64 \<Rightarrow> ('w, raw_response) etcd_call" where
  "RawCreate env key v ttl = etcd_put env key v ttl (Some [(''prevExist'', OBool False)])"

definition RawUpdate :: "'w etcd_env \<Rightarrow> string \<Rightarrow> string \<Rightarrow> uint64 \<Rightarrow> ('w, raw_response) etcd_call" where
  "RawUpdate env key v ttl = etcd_put env key v ttl (Some [(''prevExist'', OBool True)])"

definition RawSetDir :: "'w etcd_env \<Rightarrow> string \<Rightarrow> uint64 \<Rightarrow> ('w, raw_response) etcd_call" where
  "RawSetDir env key ttl = etcd_put env key '''' ttl (Some [(''dir'', OBool True)])"

definition RawCreateDir :: "'w etcd_env \<Rightarrow> string \<Rightarrow> uint64 \<Rightarrow> ('w, raw_response) etcd_call" where
  "RawCreateDir env key ttl = etcd_put env key '''' ttl (Some [(''prevExist'', OBool False), (''dir'', OBool True)])"

definition RawUpdateDir :: "'w etcd_env \<Rightarrow> string \<Rightarrow> uint64 \<Rightarrow> ('w, raw_response) etcd_call" where
  "RawUpdateDir env key ttl = etcd_put env key '''' ttl (Some [(''prevExist'', OBool True), (''dir'', OBool True)])"

text \<open>The condition of a comparing call.\<close>

definition compare_options :: "string \<Rightarrow> uint64 \<Rightarrow> etcd_fail + options" where
  "compare_options prevValue prevIndex =
    (if prevValue = '''' \<and> prevIndex = 0 then Inl (OtherError ''You must give either prevValue or prevIndex.'')
     else Inr ((if prevValue \<noteq> '''' then [(''prevValue'', OString prevValue)] else []) @
               (if prevIndex \<noteq> 0 then [(''prevIndex'', OUint64 prevIndex)] else [])))"

definition RawCompareAndSwap ::
  "'w etcd_env \<Rightarrow> string \<Rightarrow> string \<Rightarrow> uint64 \<Rightarrow> string \<Rightarrow> uint64 \<Rightarrow> ('w, raw_response) etcd_call"
where
  "RawCompareAndSwap env key v ttl prevValue prevIndex s =
    (case compare_options prevValue prevIndex of Inl e \<Rightarrow> (Inl e, s) | Inr ops \<Rightarrow> etcd_put env key v ttl (Some ops) s)"

definition RawCompareAndDelete :: "'w etcd_env \<Rightarrow> string \<Rightarrow> string \<Rightarrow> uint64 \<Rightarrow> ('w, raw_response) etcd_call" where
  "RawCompareAndDelete env key prevValue prevIndex s =
    (case compare_options prevValue prevIndex of Inl e \<Rightarrow> (Inl e, s) | Inr ops \<Rightarrow> etcd_delete env key ops s)"

definition RawGet :: "'w etcd_env \<Rightarrow> string \<Rightarrow> bool \<Rightarrow> bool \<Rightarrow> ('w, raw_response) etcd_call" where
  "RawGet env key srt recursive = etcd_get env key [(''recursive'', OBool recursive), (''sorted'', OBool srt)]"

definition RawDelete :: "'w etcd_env \<Rightarrow> string \<Rightarrow> bool \<Rightarrow> bool \<Rightarrow> ('w, raw_response) etcd_call" where
  "RawDelete env key recursive dir = etcd_delete env key [(''recursive'', OBool recursive), (''dir'', OBool dir)]"

definition etcd_Set where "etcd_Set env key v ttl = cooked env (RawSet env key v ttl)"
definition etcd_SetDir where "etcd_SetDir env key ttl = cooked env (RawSetDir env key ttl)"
definition etcd_CreateDir where "etcd_CreateDir env key ttl = cooked env (RawCreateDir env key ttl)"
definition etcd_UpdateDir where "etcd_UpdateDir env key ttl = cooked env (RawUpdateDir env key ttl)"
definition etcd_Create where "etcd_Create env key v ttl = cooked env (RawCreate env key v ttl)"
definition etcd_Update where "etcd_Update env key v ttl = cooked env (RawUpdate env key v ttl)"
definition etcd_Get where "etcd_Get env key srt recursive = cooked env (RawGet env key srt recursive)"
definition etcd_Delete where "etcd_Delete env key recursive = cooked env (RawDelete env key recursive False)"
definition etcd_DeleteDir where "etcd_DeleteDir env key = cooked env (RawDelete env key False True)"
definition etcd_AddChild where "etcd_AddChild env key v ttl = cooked env (etcd_post env key v ttl)"
definition etcd_AddChildDir where "etcd_AddChildDir env key ttl = cooked env (etcd_post env key '''' ttl)"

definition etcd_CompareAndSwap where
  "etcd_CompareAndSwap env key v ttl prevValue prevIndex = cooked env (RawCompareAndSwap env key v ttl prevValue prevIndex)"

definition etcd_CompareAndDelete where
  "etcd_CompareAndDelete env key prevValue prevIndex = cooked env (RawCompareAndDelete env key prevValue prevIndex)"

subsection \<open>The machines of the cluster\<close>

text \<open>The scheme, the path and the rest of a URL; parsing and printing it are arguments. A name that does not parse is a
  panic, None.\<close>

record url_lib =
  ul_Parse :: "string \<Rightarrow> (string \<times> string \<times> string) option"
  ul_String :: "string \<times> string \<times> string \<Rightarrow> string"
  ul_Join :: "string list \<Rightarrow> string"

definition createHttpPath :: "url_lib \<Rightarrow> string \<Rightarrow> string \<Rightarrow> string option" where
  "createHttpPath u serverName path =
    map_option (\<lambda>(scheme, p, rest). ul_String u (if scheme = '''' then ''http'' else scheme, ul_Join u [p, path], rest))
      (ul_Parse u serverName)"

text \<open>The first of the machines that answers names the others; the leader is the first of these.\<close>

fun internalSyncCluster :: "'w etcd_env \<Rightarrow> url_lib \<Rightarrow> string list \<Rightarrow> ('w, bool) etcd_call" where
  "internalSyncCluster env u [] s = (Inr False, s)"
| "internalSyncCluster env u (machine # machines) s =
    (case createHttpPath u machine (ul_Join u [''v2'', ''machines'']) of
       None \<Rightarrow> (Inl (OtherError ''panic: URL''), s)
     | Some path \<Rightarrow>
         (case ee_Do env \<lparr>rq_method = ''GET'', rq_url = path, rq_values = None\<rparr> (es_world s) of
            (Inl err, w) \<Rightarrow> internalSyncCluster env u machines (s\<lparr>es_world := w\<rparr>)
          | (Inr resp, w) \<Rightarrow>
              (case rp_Body resp of
                 None \<Rightarrow> internalSyncCluster env u machines (s\<lparr>es_world := w\<rparr>)
               | Some b \<Rightarrow> (Inr True, on_cluster (switchLeader 0) (on_cluster (updateFromStr b) (s\<lparr>es_world := w\<rparr>))))))"

definition SyncCluster :: "'w etcd_env \<Rightarrow> url_lib \<Rightarrow> ('w, bool) etcd_call" where
  "SyncCluster env u s = internalSyncCluster env u (ec_Machines (ek_cluster (es_client s))) s"

definition SetCluster :: "'w etcd_env \<Rightarrow> url_lib \<Rightarrow> string list \<Rightarrow> ('w, bool) etcd_call" where
  "SetCluster env u machines = internalSyncCluster env u machines"

subsection \<open>Watching\<close>

text \<open>\<open>stopped\<close> says that the stop channel is ready before the answer; what the request goes on to do is left out.\<close>

definition watchOnce :: "'w etcd_env \<Rightarrow> string \<Rightarrow> uint64 \<Rightarrow> bool \<Rightarrow> bool \<Rightarrow> ('w, raw_response) etcd_call" where
  "watchOnce env key waitIndex recursive stopped s =
    (if stopped then (Inl (OtherError ''Watch stopped by the user via stop channel''), s)
     else etcd_get env key ([(''wait'', OBool True)] @ (if waitIndex > 0 then [(''waitIndex'', OUint64 waitIndex)] else []) @
        (if recursive then [(''recursive'', OBool True)] else [])) s)"

text \<open>Without a receiver.\<close>

definition Watch :: "'w etcd_env \<Rightarrow> string \<Rightarrow> uint64 \<Rightarrow> bool \<Rightarrow> bool \<Rightarrow> ('w, response) etcd_call" where
  "Watch env prefix waitIndex recursive stopped = cooked env (watchOnce env prefix waitIndex recursive stopped)"

text \<open>The loop of \<open>Watch\<close> on one choice for each turn so far: the responses received, and the error it has ended with.\<close>

fun watch_loop :: "'w etcd_env \<Rightarrow> string \<Rightarrow> uint64 \<Rightarrow> bool \<Rightarrow> bool list \<Rightarrow> 'w etcd_state \<Rightarrow> response list \<times> etcd_fail option \<times> 'w etcd_state" where
  "watch_loop env key waitIndex recursive [] s = ([], None, s)"
| "watch_loop env key waitIndex recursive (stopped # turns) s =
    (case cooked env (watchOnce env key waitIndex recursive stopped) s of
       (Inl e, s) \<Rightarrow> ([], Some e, s)
     | (Inr resp, s) \<Rightarrow>
         (case rs_Node resp of
            None \<Rightarrow> ([], Some (EtcdPanic NilPointer), s)
          | Some n \<Rightarrow>
              (case watch_loop env key (nd_ModifiedIndex n + 1) recursive turns s of
                 (rs, r) \<Rightarrow> (resp # rs, r))))"

text \<open>The loop of \<open>RawWatch\<close>: it decodes each response for its index only.\<close>

fun raw_watch_loop ::
  "'w etcd_env \<Rightarrow> string \<Rightarrow> uint64 \<Rightarrow> bool \<Rightarrow> bool list \<Rightarrow> 'w etcd_state \<Rightarrow> raw_response list \<times> etcd_fail option \<times> 'w etcd_state"
where
  "raw_watch_loop env key waitIndex recursive [] s = ([], None, s)"
| "raw_watch_loop env key waitIndex recursive (stopped # turns) s =
    (case watchOnce env key waitIndex recursive stopped s of
       (Inl e, s) \<Rightarrow> ([], Some e, s)
     | (Inr raw, s) \<Rightarrow>
         (case toResponse env raw of
            Inl e \<Rightarrow> ([], Some e, s)
          | Inr resp \<Rightarrow>
              (case rs_Node resp of
                 None \<Rightarrow> ([], Some (EtcdPanic NilPointer), s)
               | Some n \<Rightarrow>
                   (case raw_watch_loop env key (nd_ModifiedIndex n + 1) recursive turns s of
                      (rs, r) \<Rightarrow> (raw # rs, r)))))"

text \<open>Both loops see the same responses.\<close>

lemma watch_loops_agree:
  "watch_loop env key waitIndex recursive turns s =
    (case raw_watch_loop env key waitIndex recursive turns s of (rs, r) \<Rightarrow> (map (\<lambda>raw. projr (toResponse env raw)) rs, r))"
  by (induction turns arbitrary: waitIndex s) (auto simp: cooked_def split: prod.splits sum.splits option.splits)

end
