(* ===== verification/ClusterLock.thy ===== *)
theory ClusterLock
  imports Cluster EtcdClient
begin

text \<open>
  cluster/client.go on top of the etcd client: the calls the locks make as requests over HTTP, what the retries of
  the client do to them, and that two nodes do not hold a lock at the same time, from what etcd documents of
  creating and swapping keys with a time to live.
\<close>

subsection \<open>The calls as requests\<close>

text \<open>The index the locks keep is the header of the response. An answer without a node is taken as an error here; it
  would be a panic.\<close>

definition etcd_calls :: "'w etcd_env \<Rightarrow> (etcd_fail \<Rightarrow> string) \<Rightarrow> 'w etcd_state etcd" where
  "etcd_calls env text =
    \<lparr>et_Get = (\<lambda>key s.
       case fst (etcd_Get env key False False s) of
         Inl e \<Rightarrow> Inl (text e)
       | Inr r \<Rightarrow> (case rs_Node r of None \<Rightarrow> Inl (text (EtcdPanic NilPointer)) | Some n \<Rightarrow> Inr (nd_Value n))),
     et_Create = (\<lambda>key v ttl s. apfst (map_sum text (\<lambda>r. unat (rs_EtcdIndex r))) (etcd_Create env key v (of_nat ttl) s)),
     et_CompareAndSwap = (\<lambda>key v ttl prevValue prevIndex s.
       apfst (map_sum text (\<lambda>r. unat (rs_EtcdIndex r))) (etcd_CompareAndSwap env key v (of_nat ttl) prevValue (of_nat prevIndex) s))\<rparr>"

subsection \<open>Retries\<close>

text \<open>The same world with a count of the requests sent.\<close>

definition counting :: "'w etcd_env \<Rightarrow> ('w \<times> nat) etcd_env" where
  "counting env =
    \<lparr>ee_Do = (\<lambda>r (w, n). case ee_Do env r w of (x, w) \<Rightarrow> (x, (w, Suc n))),
     ee_url_ok = ee_url_ok env, ee_escape = ee_escape env, ee_join = ee_join env,
     ee_random = (\<lambda>(w, n). ee_random env w), ee_ParseUint = ee_ParseUint env, ee_decode = ee_decode env,
     ee_decode_error = ee_decode_error env\<rparr>"

lemma handleResp_world [simp]: "es_world (snd (handleResp resp s)) = es_world s"
  by (simp add: handleResp_def on_cluster_def split: option.splits)

lemma on_cluster_world [simp]: "es_world (on_cluster f s) = es_world s"
  by (simp add: on_cluster_def)

lemma send_loop_tries:
  fixes env :: "'w etcd_env"
  shows "snd (es_world (snd (send_loop (counting env) method path vals n trial s))) \<le> snd (es_world s) + (2 * n - trial)"
proof (induction "2 * n - trial" arbitrary: trial s rule: less_induct)
  case less
  show ?case
  proof (cases "trial + 1 > 2 * n \<or> \<not> ee_url_ok (counting env)
      (getHttpPath (counting env) (method = ''GET'' \<and> eg_Consistency (ek_config (es_client s)) = WEAK_CONSISTENCY) path s)")
    case True
    then show ?thesis by (subst send_loop.simps) (auto simp: Let_def)
  next
    case False
    obtain w k where w: "es_world s = (w, k)" by fastforce
    let ?url = "getHttpPath (counting env) (method = ''GET'' \<and> eg_Consistency (ek_config (es_client s)) = WEAK_CONSISTENCY) path s"
    obtain x w' where x: "ee_Do env \<lparr>rq_method = method, rq_url = ?url, rq_values = vals\<rparr> w = (x, w')" by fastforce
    have "2 * n - (trial + 1) < 2 * n - trial" using False by auto
    note IH = less[OF this]
    show ?thesis
    proof (cases x)
      case (Inl err)
      then show ?thesis
        using False IH[of "on_cluster (switchLeader ((trial + 1) mod n)) (s\<lparr>es_world := (w', Suc k)\<rparr>)"] x w
        by (subst send_loop.simps) (auto simp: Let_def counting_def)
    next
      case (Inr resp)
      obtain b s' where h: "handleResp resp (s\<lparr>es_world := (w', Suc k)\<rparr>) = (b, s')" by fastforce
      then have "es_world s' = (w', Suc k)" using handleResp_world[of resp "s\<lparr>es_world := (w', Suc k)\<rparr>"] by simp
      then show ?thesis
        using False IH[of s'] x w Inr h
        by (subst send_loop.simps) (auto simp: Let_def counting_def split: option.splits)
    qed
  qed
qed

text \<open>C32. A call of the etcd client sends at most twice as many requests as the cluster has machines, whatever they answer:
  then it ends with an error. So the locks do not wait for ever on a cluster that answers.\<close>

theorem sendRequest_tries:
  "snd (es_world (snd (sendRequest (counting env) method path vals s))) \<le>
    snd (es_world s) + 2 * length (ec_Machines (ek_cluster (es_client s)))"
  using send_loop_tries[where n = "length (ec_Machines (ek_cluster (es_client s)))" and trial = 0] by (simp add: sendRequest_def)

text \<open>A request whose first answer is lost, so that it goes to another machine, and whose second one is taken.\<close>

lemma sendRequest_again:
  assumes "ec_Machines (ek_cluster (es_client s)) \<noteq> []" "\<forall>url. ee_url_ok env url" "method \<noteq> ''GET''"
    and "ee_Do env \<lparr>rq_method = method, rq_url = ec_Leader (ek_cluster (es_client s)) @ ''/v2/'' @ path, rq_values = vals\<rparr>
      (es_world s) = (Inl lost, w)"
    and "ee_Do env \<lparr>rq_method = method, rq_url = ec_Machines (ek_cluster (es_client s)) !
        (1 mod length (ec_Machines (ek_cluster (es_client s)))) @ ''/v2/'' @ path, rq_values = vals\<rparr> w = (Inr resp, w')"
    and "validHttpStatusCode (rp_StatusCode resp)" "rp_Body resp = Some b"
  shows "\<exists>s'. sendRequest env method path vals s =
      (Inr \<lparr>rr_StatusCode = rp_StatusCode resp, rr_Body = b, rr_Header = rp_Header resp\<rparr>, s') \<and> es_world s' = w'"
proof -
  let ?n = "length (ec_Machines (ek_cluster (es_client s)))"
  have "0 < ?n" using assms(1) by simp
  then have "\<not> 2 * ?n < Suc 0" "\<not> 2 * ?n < Suc (Suc 0)" by linarith+
  moreover have "rp_StatusCode resp \<noteq> 307 \<and> rp_StatusCode resp \<noteq> 500" using assms(6) by (auto simp: validHttpStatusCode_def)
  ultimately show ?thesis
    using assms
    by (simp add: sendRequest_def send_loop.simps[where n = "?n" and trial = 0] send_loop.simps[where n = "?n" and trial = "Suc 0"]
        handleResp_def on_cluster_def switchLeader_def getHttpPath_def Let_def)
qed

text \<open>The renewal of a lock as it is sent to a machine: a put under the condition that value and index are still the own ones.\<close>

definition renewal_request :: "'w etcd_env \<Rightarrow> string \<Rightarrow> string \<Rightarrow> nat \<Rightarrow> nat \<Rightarrow> string \<Rightarrow> http_request" where
  "renewal_request env key v ttl index machine =
    \<lparr>rq_method = ''PUT'',
     rq_url = machine @ ''/v2/'' @ keyToPath env key @ ''?'' @
       Encode (ee_escape env) [(''prevValue'', v), (''prevIndex'', decimal index)],
     rq_values = Some (buildValues v (of_nat ttl))\<rparr>"

text \<open>What etcd documents of it, with \<open>at\<close> the index at which the key was last written: the key is written, under a new
  index, if the index is the one given; otherwise the answer is that the comparison failed or that the key is gone, and
  nothing changes. A request without answer has been carried out or not. A machine may also refer to another one.\<close>

definition swaps :: "'w etcd_env \<Rightarrow> ('w \<Rightarrow> nat) \<Rightarrow> string \<Rightarrow> string \<Rightarrow> nat \<Rightarrow> nat \<Rightarrow> bool" where
  "swaps env at key v ttl index \<longleftrightarrow>
    (\<forall>m w. case ee_Do env (renewal_request env key v ttl index m) w of
       (Inl lost, w') \<Rightarrow> at w' = at w \<or> at w = index \<and> at w' \<noteq> index
     | (Inr resp, w') \<Rightarrow>
         if rp_StatusCode resp \<in> {307, 500} then at w' = at w
         else if at w = index
         then rp_StatusCode resp = 200 \<and> at w' \<noteq> index \<and> (\<exists>b r. rp_Body resp = Some b \<and> ee_decode env b = Inr r)
         else rp_StatusCode resp \<in> {404, 412} \<and> rp_Body resp \<noteq> None \<and> at w' = at w)"

lemma renewal_options:
  assumes "v \<noteq> ''''" "0 < index" "index < 2 ^ 64"
  shows "\<exists>ops. compare_options v (of_nat index) = Inr ops \<and>
    toParameters escape VALID_PUT_OPTIONS (Some ops) = Inr (''?'' @ Encode escape [(''prevValue'', v), (''prevIndex'', decimal index)])"
proof -
  have i: "unat (of_nat index :: uint64) = index" using assms(3) by (simp add: unsigned_of_nat take_bit_nat_eq_self)
  then have "(of_nat index :: uint64) \<noteq> 0" using assms(2) by auto
  then show ?thesis using assms(1) i by (simp add: compare_options_def toParameters_def VALID_PUT_OPTIONS_def)
qed

text \<open>C30. When the answer to a renewal is lost, the client sends the same request again, and the outcome tells nothing of the
  lock: if the first request was carried out, the lock is renewed but the condition of the second one no longer holds, and
  the node ends its process; only if it was not carried out does the node keep its lock.\<close>

theorem lost_answer_loses_lock:
  assumes "ec_Machines (ek_cluster (es_client s)) \<noteq> []" "\<forall>url. ee_url_ok env url" "v \<noteq> ''''" "0 < index" "index < 2 ^ 64"
    and "swaps env at key v ttl index"
    and "ee_Do env (renewal_request env key v ttl index (ec_Leader (ek_cluster (es_client s)))) (es_world s) = (Inl lost, w)"
    and "ee_Do env (renewal_request env key v ttl index (ec_Machines (ek_cluster (es_client s)) !
        (1 mod length (ec_Machines (ek_cluster (es_client s)))))) w = (Inr resp, w')"
    and "rp_StatusCode resp \<notin> {307, 500}"
  shows "fst (renew_turn (etcd_calls env text) key v ttl index s) = None \<longleftrightarrow> at w \<noteq> index"
proof -
  let ?vals = "Some (buildValues v (of_nat ttl))"
  obtain ops where ops: "compare_options v (of_nat index) = Inr ops" "toParameters (ee_escape env) VALID_PUT_OPTIONS (Some ops) =
      Inr (''?'' @ Encode (ee_escape env) [(''prevValue'', v), (''prevIndex'', decimal index)])"
    using renewal_options[OF assms(3-5)] by blast
  let ?path = "keyToPath env key @ ''?'' @ Encode (ee_escape env) [(''prevValue'', v), (''prevIndex'', decimal index)]"
  note law = spec[OF spec[OF assms(6)[unfolded swaps_def], of "ec_Machines (ek_cluster (es_client s)) !
      (1 mod length (ec_Machines (ek_cluster (es_client s))))"], of w, unfolded assms(8) prod.case sum.case]
  obtain b where b: "rp_Body resp = Some b" using law assms(9) by (auto split: if_splits)
  have "validHttpStatusCode (rp_StatusCode resp)" using law assms(9) by (auto simp: validHttpStatusCode_def split: if_splits)
  from sendRequest_again[OF assms(1,2) _ assms(7,8)[unfolded renewal_request_def] this b] obtain s' where
    "sendRequest env ''PUT'' ?path ?vals s =
      (Inr \<lparr>rr_StatusCode = rp_StatusCode resp, rr_Body = b, rr_Header = rp_Header resp\<rparr>, s')" by auto
  then show ?thesis
    using ops law assms(9) b
    by (auto simp: renew_turn_def etcd_calls_def etcd_CompareAndSwap_def cooked_def RawCompareAndSwap_def etcd_put_def
        send_with_def toResponse_def split: if_splits)
qed

text \<open>A world whose state is the index of the key: it swaps under index 7 and the answer is lost.\<close>

definition losing_env :: "nat etcd_env" where
  "losing_env =
    \<lparr>ee_Do = (\<lambda>r w. if w = 7 then (Inl ''timeout'', 8)
       else (Inr \<lparr>rp_StatusCode = 412, rp_Body = Some ''Compare failed'', rp_Header = (\<lambda>h. ''''), rp_Location = None\<rparr>, w)),
     ee_url_ok = (\<lambda>u. True), ee_escape = id, ee_join = join ''/'', ee_random = (\<lambda>w. 0), ee_ParseUint = (\<lambda>s. 0),
     ee_decode = (\<lambda>s. Inl s), ee_decode_error = (\<lambda>s. Inr (101, s, 8))\<rparr>"

theorem lost_answer_loses_lock_witness:
  "fst (renew_turn (etcd_calls losing_env (\<lambda>e. '''')) ''id'' ''a'' 3 7 \<lparr>es_client = NewClient [''http://m''], es_world = 7\<rparr>) = None"
proof -
  have sw: "swaps losing_env id ''id'' ''a'' 3 7" by (simp add: swaps_def losing_env_def)
  have "fst (renew_turn (etcd_calls losing_env (\<lambda>e. '''')) ''id'' ''a'' 3 7
      \<lparr>es_client = NewClient [''http://m''], es_world = 7\<rparr>) = None \<longleftrightarrow> id (8 :: nat) \<noteq> 7"
    by (rule lost_answer_loses_lock[OF _ _ _ _ _ sw, where w' = 8 and lost = "''timeout''" and
        resp = "\<lparr>rp_StatusCode = 412, rp_Body = Some ''Compare failed'', rp_Header = (\<lambda>h. ''''), rp_Location = None\<rparr>"])
      (simp_all add: losing_env_def NewClient_def initHTTPClient_def NewCluster_def)
  then show ?thesis by simp
qed

subsection \<open>A store\<close>

text \<open>What one sees of the store: the value of the key with its index, the time at which it expires, the highest index
  given, and the time.\<close>

record 's store_view =
  sv_live :: "'s \<Rightarrow> (string \<times> nat) option"
  sv_expiry :: "'s \<Rightarrow> nat"
  sv_index :: "'s \<Rightarrow> nat"
  sv_now :: "'s \<Rightarrow> nat"

text \<open>The store has got from \<open>s\<close> to \<open>s'\<close> with the entry of the key left alone: it is there until it expires.\<close>

definition left_alone :: "'s store_view \<Rightarrow> 's \<Rightarrow> 's \<Rightarrow> bool" where
  "left_alone V s s' \<longleftrightarrow> sv_now V s \<le> sv_now V s' \<and> sv_index V s \<le> sv_index V s' \<and>
    (sv_live V s \<noteq> None \<and> sv_now V s' < sv_expiry V s \<longrightarrow> sv_live V s' = sv_live V s \<and> sv_expiry V s' = sv_expiry V s)"

text \<open>The key has got a new value under a new index, with a time to live.\<close>

definition stored :: "'s store_view \<Rightarrow> string \<Rightarrow> nat \<Rightarrow> nat \<Rightarrow> 's \<Rightarrow> 's \<Rightarrow> bool" where
  "stored V v ttl i s s' \<longleftrightarrow> sv_now V s \<le> sv_now V s' \<and> sv_index V s < i \<and> i \<le> sv_index V s' \<and>
    sv_live V s' = Some (v, i) \<and> sv_now V s + ttl \<le> sv_expiry V s'"

text \<open>The documented behaviour of creating a key and of swapping it under its index: it succeeds only if the key is not
  there, or is there under that index, and then stores; otherwise an entry is left alone. A call that reports an
  error may have been carried out.\<close>

definition store_ok :: "'s etcd \<Rightarrow> 's store_view \<Rightarrow> string \<Rightarrow> nat \<Rightarrow> bool" where
  "store_ok et V key ttl \<longleftrightarrow>
    (\<forall>s v r s'. et_Create et key v ttl s = (r, s') \<longrightarrow>
       (sv_live V s \<noteq> None \<and> sv_now V s' < sv_expiry V s \<longrightarrow> isl r \<and> left_alone V s s') \<and>
       (\<forall>i. r = Inr i \<longrightarrow> stored V v ttl i s s') \<and>
       (isl r \<longrightarrow> left_alone V s s' \<or> (\<exists>i. stored V v ttl i s s'))) \<and>
    (\<forall>s v pv pi r s'. et_CompareAndSwap et key v ttl pv pi s = (r, s') \<longrightarrow>
       (sv_live V s \<noteq> None \<and> sv_live V s \<noteq> Some (pv, pi) \<and> sv_now V s' < sv_expiry V s \<longrightarrow> isl r \<and> left_alone V s s') \<and>
       (\<forall>i. r = Inr i \<longrightarrow> stored V v ttl i s s') \<and>
       (isl r \<longrightarrow> left_alone V s s' \<or> (\<exists>i. stored V v ttl i s s')))"

subsection \<open>Nodes\<close>

text \<open>A node that holds the lock knows the index and remembers when it asked for it last.\<close>

record 's lock_state =
  lk_store :: 's
  lk_held :: "nat \<Rightarrow> (nat \<times> nat) option"

inductive lock_step :: "'s etcd \<Rightarrow> 's store_view \<Rightarrow> string \<Rightarrow> nat \<Rightarrow> (nat \<Rightarrow> string) \<Rightarrow> 's lock_state \<Rightarrow> 's lock_state \<Rightarrow> bool"
  for et V key ttl val
where
  take: "lk_held x c = None \<Longrightarrow> Lock et key (val c) ttl (lk_store x) = (r, s') \<Longrightarrow>
    lock_step et V key ttl val x \<lparr>lk_store = s', lk_held =
      (case r of Inr i \<Rightarrow> (lk_held x)(c \<mapsto> (i, sv_now V (lk_store x))) | Inl e \<Rightarrow> lk_held x)\<rparr>"
| renew: "lk_held x c = Some (i, t) \<Longrightarrow> renew_turn et key (val c) ttl i (lk_store x) = (r, s') \<Longrightarrow>
    lock_step et V key ttl val x \<lparr>lk_store = s', lk_held =
      (lk_held x)(c := map_option (\<lambda>i. (i, sv_now V (lk_store x))) r)\<rparr>"
| pass: "left_alone V (lk_store x) s' \<Longrightarrow> lock_step et V key ttl val x (x\<lparr>lk_store := s'\<rparr>)"

inductive lock_reach :: "'s etcd \<Rightarrow> 's store_view \<Rightarrow> string \<Rightarrow> nat \<Rightarrow> (nat \<Rightarrow> string) \<Rightarrow> 's lock_state \<Rightarrow> bool"
  for et V key ttl val
where
  start: "lock_reach et V key ttl val \<lparr>lk_store = s, lk_held = Map.empty\<rparr>"
| step: "lock_reach et V key ttl val x \<Longrightarrow> lock_step et V key ttl val x y \<Longrightarrow> lock_reach et V key ttl val y"

text \<open>The node's time has not run out since it asked last.\<close>

definition leads :: "'s store_view \<Rightarrow> nat \<Rightarrow> 's lock_state \<Rightarrow> nat \<Rightarrow> bool" where
  "leads V ttl x c \<longleftrightarrow> (\<exists>i t. lk_held x c = Some (i, t) \<and> sv_now V (lk_store x) < t + ttl)"

definition lock_inv :: "'s store_view \<Rightarrow> nat \<Rightarrow> 's lock_state \<Rightarrow> bool" where
  "lock_inv V ttl x \<longleftrightarrow>
    (\<forall>c i t. lk_held x c = Some (i, t) \<longrightarrow> i \<le> sv_index V (lk_store x) \<and>
       (sv_now V (lk_store x) < t + ttl \<longrightarrow> (\<exists>v. sv_live V (lk_store x) = Some (v, i)) \<and> t + ttl \<le> sv_expiry V (lk_store x))) \<and>
    (\<forall>c d i t u. lk_held x c = Some (i, t) \<longrightarrow> lk_held x d = Some (i, u) \<longrightarrow> c = d)"

lemma lock_inv_unique:
  "lock_inv V ttl x \<Longrightarrow> lk_held x c = Some (i, t) \<Longrightarrow> lk_held x d = Some (i, u) \<Longrightarrow> c = d"
  unfolding lock_inv_def by blast

lemma lock_inv_lease:
  assumes "lock_inv V ttl x" "lk_held x d = Some (j, u)" "sv_now V (lk_store x) < u + ttl"
  shows "(\<exists>v. sv_live V (lk_store x) = Some (v, j)) \<and> u + ttl \<le> sv_expiry V (lk_store x)"
  using assms unfolding lock_inv_def by blast

lemma lock_inv_left_alone:
  assumes "lock_inv V ttl x" "left_alone V (lk_store x) s'"
  shows "lock_inv V ttl (x\<lparr>lk_store := s'\<rparr>)"
  unfolding lock_inv_def
proof (intro conjI allI impI; simp)
  fix c i t assume h: "lk_held x c = Some (i, t)"
  then have old: "i \<le> sv_index V (lk_store x)" "sv_now V (lk_store x) < t + ttl \<longrightarrow>
      (\<exists>v. sv_live V (lk_store x) = Some (v, i)) \<and> t + ttl \<le> sv_expiry V (lk_store x)"
    using assms(1) by (auto simp: lock_inv_def)
  then show "i \<le> sv_index V s'" using assms(2) by (auto simp: left_alone_def)
  { assume n: "sv_now V s' < t + ttl"
    then have "sv_now V (lk_store x) < t + ttl" using assms(2) by (auto simp: left_alone_def)
    then obtain v where v: "sv_live V (lk_store x) = Some (v, i)" "t + ttl \<le> sv_expiry V (lk_store x)" using old by auto
    then have "sv_live V s' = Some (v, i)" "sv_expiry V s' = sv_expiry V (lk_store x)" using n assms(2) by (auto simp: left_alone_def)
    then show "\<exists>v. sv_live V s' = Some (v, i)" "t + ttl \<le> sv_expiry V s'" using v by auto }
next
  fix c d i t u assume "lk_held x c = Some (i, t)" "lk_held x d = Some (i, u)"
  then show "c = d" using assms(1) by (auto simp: lock_inv_def)
qed

lemma lock_inv_drop: "lock_inv V ttl x \<Longrightarrow> lock_inv V ttl (x\<lparr>lk_held := (lk_held x)(c := None)\<rparr>)"
  unfolding lock_inv_def by (simp split: if_splits)

text \<open>A node has stored the key, or was told that it has not, while no other node leads.\<close>

lemma lock_inv_stored:
  assumes inv: "lock_inv V ttl x" and st: "stored V v ttl k (lk_store x) s'"
    and alone: "\<And>d i t. d \<noteq> c \<Longrightarrow> lk_held x d = Some (i, t) \<Longrightarrow> \<not> sv_now V s' < t + ttl"
    and w: "w = None \<or> w = Some (k, sv_now V (lk_store x))"
  shows "lock_inv V ttl \<lparr>lk_store = s', lk_held = (lk_held x)(c := w)\<rparr>"
proof -
  have idx: "i < k" if "lk_held x d = Some (i, t)" for d i t
    using inv st that by (fastforce simp: lock_inv_def stored_def)
  have k: "k \<le> sv_index V s'" "sv_live V s' = Some (v, k)" "sv_now V (lk_store x) + ttl \<le> sv_expiry V s'"
    using st by (auto simp: stored_def)
  have uniq: "\<forall>c d i t u. lk_held x c = Some (i, t) \<longrightarrow> lk_held x d = Some (i, u) \<longrightarrow> c = d"
    using inv by (auto simp: lock_inv_def)
  have A: "i \<le> sv_index V s' \<and> (sv_now V s' < t + ttl \<longrightarrow> (\<exists>v. sv_live V s' = Some (v, i)) \<and> t + ttl \<le> sv_expiry V s')"
    if "((lk_held x)(c := w)) d = Some (i, t)" for d i t
  proof (cases "d = c")
    case True
    then have "i = k" "t = sv_now V (lk_store x)" using that w by auto
    then show ?thesis using k by simp
  next
    case False
    then have d: "lk_held x d = Some (i, t)" using that by simp
    then show ?thesis using alone[OF False d] idx[OF d] k(1) by simp
  qed
  have B: "d = e" if "((lk_held x)(c := w)) d = Some (i, t)" "((lk_held x)(c := w)) e = Some (i, u)" for d e i t u
  proof -
    have fresh: "((lk_held x)(c := w)) d = Some (i, t) \<Longrightarrow> (d = c) = (i = k)" for d t
      using idx[of d i t] w by (cases "d = c") auto
    show ?thesis
    proof (cases "d = c")
      case True
      then show ?thesis using fresh[OF that(1)] fresh[OF that(2)] by simp
    next
      case False
      then have "e \<noteq> c" using fresh[OF that(1)] fresh[OF that(2)] by simp
      then show ?thesis using that False uniq by simp
    qed
  qed
  show ?thesis
    unfolding lock_inv_def lock_state.simps by (intro conjI allI impI; (elim A B | (drule A, blast)))
qed

lemma lock_inv_take:
  assumes ok: "store_ok et V key ttl" and inv: "lock_inv V ttl x"
    and free: "lk_held x c = None" and lock: "Lock et key (val c) ttl (lk_store x) = (r, s')"
  shows "lock_inv V ttl \<lparr>lk_store = s', lk_held =
    (case r of Inr i \<Rightarrow> (lk_held x)(c \<mapsto> (i, sv_now V (lk_store x))) | Inl e \<Rightarrow> lk_held x)\<rparr>"
proof -
  let ?s = "lk_store x"
  have r: "et_Create et key (val c) ttl ?s = (r, s')" using lock by (simp add: Lock_def)
  note law = ok[unfolded store_ok_def, THEN conjunct1, rule_format, OF r]
  have other: "isl r \<and> left_alone V ?s s'" if "lk_held x d = Some (i, t)" "sv_now V s' < t + ttl" for d i t
  proof -
    have "sv_now V ?s \<le> sv_now V s'" using law by (cases r) (auto simp: left_alone_def stored_def)
    then have n: "sv_now V ?s < t + ttl" using that by simp
    note lease = lock_inv_lease[OF inv that(1) n]
    show ?thesis using law lease that(2) by auto
  qed
  show ?thesis
  proof (cases "\<exists>d i t. lk_held x d = Some (i, t) \<and> sv_now V s' < t + ttl")
    case True
    then have "isl r" "left_alone V ?s s'" using other by blast+
    then show ?thesis using lock_inv_left_alone[OF inv] by (cases x; cases r) auto
  next
    case False
    have same: "(lk_held x)(c := None) = lk_held x" using free by auto
    have alone: "\<not> sv_now V s' < t + ttl" if "d \<noteq> c" "lk_held x d = Some (i, t)" for d i t using False that by blast
    show ?thesis
    proof (cases r)
      case (Inr i)
      have "stored V (val c) ttl i ?s s'" using law Inr by simp
      from lock_inv_stored[OF inv this alone, where w = "Some (i, sv_now V ?s)"] show ?thesis using Inr by simp
    next
      case (Inl e)
      then consider "left_alone V ?s s'" | i where "stored V (val c) ttl i ?s s'" using law by auto
      then show ?thesis
      proof cases
        case 1
        then show ?thesis using lock_inv_left_alone[OF inv] Inl by (cases x) auto
      next
        case 2
        have "lock_inv V ttl \<lparr>lk_store = s', lk_held = (lk_held x)(c := None)\<rparr>"
          by (rule lock_inv_stored[OF inv 2]) (use alone in auto)
        then show ?thesis using Inl same by simp
      qed
    qed
  qed
qed

lemma lock_inv_renew:
  assumes ok: "store_ok et V key ttl" and inv: "lock_inv V ttl x"
    and held: "lk_held x c = Some (i, t)" and renewal: "renew_turn et key (val c) ttl i (lk_store x) = (r, s')"
  shows "lock_inv V ttl \<lparr>lk_store = s', lk_held =
    (lk_held x)(c := map_option (\<lambda>i. (i, sv_now V (lk_store x))) r)\<rparr>"
proof -
  let ?s = "lk_store x"
  obtain r0 where r: "et_CompareAndSwap et key (val c) ttl (val c) i ?s = (r0, s')" "r = (case r0 of Inl e \<Rightarrow> None | Inr i \<Rightarrow> Some i)"
    using renewal by (auto simp: renew_turn_def split: prod.splits sum.splits)
  note law = ok[unfolded store_ok_def, THEN conjunct2, rule_format, OF r(1)]
  have other: "isl r0 \<and> left_alone V ?s s'" if "d \<noteq> c" "lk_held x d = Some (j, u)" "sv_now V s' < u + ttl" for d j u
  proof -
    have "sv_now V ?s \<le> sv_now V s'" using law by (cases r0) (auto simp: left_alone_def stored_def)
    then have n: "sv_now V ?s < u + ttl" using that by simp
    note lease = lock_inv_lease[OF inv that(2) n]
    have "j \<noteq> i" using lock_inv_unique[OF inv that(2)] held that(1) by blast
    then show ?thesis using law lease that(3) by auto
  qed
  show ?thesis
  proof (cases "\<exists>d j u. d \<noteq> c \<and> lk_held x d = Some (j, u) \<and> sv_now V s' < u + ttl")
    case True
    then have "isl r0" "left_alone V ?s s'" using other by blast+
    then show ?thesis using lock_inv_drop[OF lock_inv_left_alone[OF inv], of s' c] r(2) by (cases x; cases r0) auto
  next
    case False
    have alone: "\<not> sv_now V s' < u + ttl" if "d \<noteq> c" "lk_held x d = Some (j, u)" for d j u using False that by blast
    show ?thesis
    proof (cases r0)
      case (Inr k)
      have "stored V (val c) ttl k ?s s'" using law Inr by simp
      from lock_inv_stored[OF inv this alone, where w = "Some (k, sv_now V ?s)"] show ?thesis using r(2) Inr by simp
    next
      case (Inl e)
      then consider "left_alone V ?s s'" | k where "stored V (val c) ttl k ?s s'" using law by auto
      then show ?thesis
      proof cases
        case 1
        then show ?thesis using lock_inv_drop[OF lock_inv_left_alone[OF inv], of s' c] r(2) Inl by (cases x) auto
      next
        case 2
        have "lock_inv V ttl \<lparr>lk_store = s', lk_held = (lk_held x)(c := None)\<rparr>"
          by (rule lock_inv_stored[OF inv 2]) (use alone in auto)
        then show ?thesis using r(2) Inl by simp
      qed
    qed
  qed
qed

lemma lock_inv_step:
  assumes ok: "store_ok et V key ttl" and inv: "lock_inv V ttl x" and step: "lock_step et V key ttl val x y"
  shows "lock_inv V ttl y"
  using step
proof cases
  case (take c r s')
  then show ?thesis using lock_inv_take[OF ok inv] by simp
next
  case (renew c i t r s')
  then show ?thesis using lock_inv_renew[OF ok inv] by simp
next
  case (pass s')
  then show ?thesis using lock_inv_left_alone[OF inv pass(2)] by simp
qed

lemma lock_inv_reach:
  assumes "store_ok et V key ttl" "lock_reach et V key ttl val x"
  shows "lock_inv V ttl x"
  using assms(2)
proof induction
  case (start s)
  then show ?case by (simp add: lock_inv_def)
next
  case (step x y)
  then show ?case using lock_inv_step[OF assms(1)] by blast
qed

text \<open>C22. Two nodes do not lead at the same time: if a node counts the time of its lock from the moment it asked for it or for
  its renewal, then in every state that locking, renewing and the passing of time can reach, at most one node has
  the lock, whatever calls fail and whether or not the failed ones were carried out.\<close>

theorem leaders_exclusive:
  assumes "store_ok et V key ttl" "lock_reach et V key ttl val x" "leads V ttl x c" "leads V ttl x d"
  shows "c = d"
proof -
  note inv = lock_inv_reach[OF assms(1,2)]
  obtain i t j u where h: "lk_held x c = Some (i, t)" "sv_now V (lk_store x) < t + ttl"
    "lk_held x d = Some (j, u)" "sv_now V (lk_store x) < u + ttl" using assms(3,4) by (auto simp: leads_def)
  obtain v where v: "sv_live V (lk_store x) = Some (v, i)" using lock_inv_lease[OF inv h(1,2)] by blast
  obtain w where w: "sv_live V (lk_store x) = Some (w, j)" using lock_inv_lease[OF inv h(3,4)] by blast
  show ?thesis using v w lock_inv_unique[OF inv h(1), of d u] h(3) by simp
qed

text \<open>A store on its own, to run the locks on: the time, the highest index, and the value with its index and the time at
  which it expires.\<close>

record key_store =
  ks_now :: nat
  ks_index :: nat
  ks_entry :: "(string \<times> nat \<times> nat) option"

definition ks_live :: "key_store \<Rightarrow> (string \<times> nat) option" where
  "ks_live s = (case ks_entry s of None \<Rightarrow> None | Some (v, i, e) \<Rightarrow> if ks_now s < e then Some (v, i) else None)"

definition ks_store :: "string \<Rightarrow> nat \<Rightarrow> key_store \<Rightarrow> (string + nat) \<times> key_store" where
  "ks_store v ttl s =
    (let i = Suc (ks_index s) in (Inr i, s\<lparr>ks_index := i, ks_entry := Some (v, i, ks_now s + Suc ttl)\<rparr>))"

definition ks_etcd :: "key_store etcd" where
  "ks_etcd =
    \<lparr>et_Get = (\<lambda>key s. case ks_live s of None \<Rightarrow> Inl ''Key not found'' | Some (v, i) \<Rightarrow> Inr v),
     et_Create = (\<lambda>key v ttl s. if ks_live s \<noteq> None then (Inl ''Key already exists'', s) else ks_store v ttl s),
     et_CompareAndSwap = (\<lambda>key v ttl pv pi s.
       if ks_live s = Some (pv, pi) then ks_store v ttl s else (Inl ''Compare failed'', s))\<rparr>"

definition ks_view :: "key_store store_view" where
  "ks_view = \<lparr>sv_live = ks_live, sv_expiry = (\<lambda>s. case ks_entry s of None \<Rightarrow> 0 | Some (v, i, e) \<Rightarrow> e),
     sv_index = ks_index, sv_now = ks_now\<rparr>"

lemma ks_left_alone: "left_alone ks_view s s"
  by (simp add: left_alone_def)

lemma ks_stored: "ks_store v ttl s = (r, s') \<Longrightarrow> \<exists>i. r = Inr i \<and> stored ks_view v ttl i s s'"
  by (auto simp: ks_store_def stored_def ks_view_def ks_live_def Let_def)

lemma ks_store_ok: "store_ok ks_etcd ks_view key ttl"
  unfolding store_ok_def
proof (intro conjI[of "\<forall>s v r s'. _ s v r s'"] allI impI)
  fix s v r s' assume c: "et_Create ks_etcd key v ttl s = (r, s')"
  show "(sv_live ks_view s \<noteq> None \<and> sv_now ks_view s' < sv_expiry ks_view s \<longrightarrow> isl r \<and> left_alone ks_view s s') \<and>
      (\<forall>i. r = Inr i \<longrightarrow> stored ks_view v ttl i s s') \<and> (isl r \<longrightarrow> left_alone ks_view s s' \<or> (\<exists>i. stored ks_view v ttl i s s'))"
  proof (cases "ks_live s = None")
    case True
    then obtain i where "r = Inr i" "stored ks_view v ttl i s s'" using c ks_stored[of v ttl s] by (auto simp: ks_etcd_def)
    then show ?thesis using True by (simp add: ks_view_def)
  next
    case False
    then show ?thesis using c ks_left_alone[of s] by (auto simp: ks_etcd_def)
  qed
next
  fix s v pv pi r s' assume c: "et_CompareAndSwap ks_etcd key v ttl pv pi s = (r, s')"
  show "(sv_live ks_view s \<noteq> None \<and> sv_live ks_view s \<noteq> Some (pv, pi) \<and> sv_now ks_view s' < sv_expiry ks_view s \<longrightarrow>
        isl r \<and> left_alone ks_view s s') \<and>
      (\<forall>i. r = Inr i \<longrightarrow> stored ks_view v ttl i s s') \<and> (isl r \<longrightarrow> left_alone ks_view s s' \<or> (\<exists>i. stored ks_view v ttl i s s'))"
  proof (cases "ks_live s = Some (pv, pi)")
    case True
    then obtain i where "r = Inr i" "stored ks_view v ttl i s s'" using c ks_stored[of v ttl s] by (auto simp: ks_etcd_def)
    then show ?thesis using True by (simp add: ks_view_def)
  next
    case False
    then show ?thesis using c ks_left_alone[of s] by (auto simp: ks_etcd_def)
  qed
qed

text \<open>Node 0 takes the lock for three units of time and does not renew it, node 1 takes it after five: both know an
  index, as a node is not told that its time is over, and node 1 alone leads.\<close>

definition two_holders :: "key_store lock_state" where
  "two_holders = \<lparr>lk_store = \<lparr>ks_now = 5, ks_index = 2, ks_entry = Some (''b'', 2, 9)\<rparr>, lk_held = [0 \<mapsto> (1, 0), 1 \<mapsto> (2, 5)]\<rparr>"

lemma two_holders_reach: "lock_reach ks_etcd ks_view ''id'' 3 (\<lambda>c. if c = 0 then ''a'' else ''b'') two_holders"
proof -
  let ?val = "\<lambda>c::nat. if c = 0 then ''a'' else ''b''"
  let ?s0 = "\<lparr>ks_now = 0, ks_index = 0, ks_entry = None\<rparr>"
  let ?s1 = "\<lparr>ks_now = 0, ks_index = 1, ks_entry = Some (''a'', 1, 4)\<rparr>"
  let ?s2 = "\<lparr>ks_now = 5, ks_index = 1, ks_entry = Some (''a'', 1, 4)\<rparr>"
  let ?s3 = "\<lparr>ks_now = 5, ks_index = 2, ks_entry = Some (''b'', 2, 9)\<rparr>"
  have "lock_reach ks_etcd ks_view ''id'' 3 ?val \<lparr>lk_store = ?s0, lk_held = Map.empty\<rparr>" by (rule lock_reach.start)
  moreover have "lock_step ks_etcd ks_view ''id'' 3 ?val \<lparr>lk_store = ?s0, lk_held = Map.empty\<rparr> \<lparr>lk_store = ?s1, lk_held = [0 \<mapsto> (1, 0)]\<rparr>"
    using lock_step.take[of "\<lparr>lk_store = ?s0, lk_held = Map.empty\<rparr>" 0 ks_etcd "''id''" ?val 3 "Inr 1" ?s1 ks_view]
    by (simp add: Lock_def ks_etcd_def ks_store_def ks_live_def ks_view_def Let_def)
  ultimately have "lock_reach ks_etcd ks_view ''id'' 3 ?val \<lparr>lk_store = ?s1, lk_held = [0 \<mapsto> (1, 0)]\<rparr>" by (rule lock_reach.step)
  moreover have "lock_step ks_etcd ks_view ''id'' 3 ?val \<lparr>lk_store = ?s1, lk_held = [0 \<mapsto> (1, 0)]\<rparr> \<lparr>lk_store = ?s2, lk_held = [0 \<mapsto> (1, 0)]\<rparr>"
    using lock_step.pass[of ks_view "\<lparr>lk_store = ?s1, lk_held = [0 \<mapsto> (1, 0)]\<rparr>" ?s2 ks_etcd "''id''" 3 ?val]
    by (simp add: left_alone_def ks_view_def ks_live_def)
  ultimately have "lock_reach ks_etcd ks_view ''id'' 3 ?val \<lparr>lk_store = ?s2, lk_held = [0 \<mapsto> (1, 0)]\<rparr>" by (rule lock_reach.step)
  moreover have "lock_step ks_etcd ks_view ''id'' 3 ?val \<lparr>lk_store = ?s2, lk_held = [0 \<mapsto> (1, 0)]\<rparr> two_holders"
    using lock_step.take[of "\<lparr>lk_store = ?s2, lk_held = [0 \<mapsto> (1, 0)]\<rparr>" 1 ks_etcd "''id''" ?val 3 "Inr 2" ?s3 ks_view]
    by (simp add: Lock_def ks_etcd_def ks_store_def ks_live_def ks_view_def Let_def two_holders_def numeral_2_eq_2)
  ultimately show ?thesis by (rule lock_reach.step)
qed

theorem leaders_exclusive_witness:
  "lk_held two_holders 0 \<noteq> None \<and> lk_held two_holders 1 \<noteq> None \<and> leads ks_view 3 two_holders 1 \<and> \<not> leads ks_view 3 two_holders 0"
proof -
  have one: "leads ks_view 3 two_holders 1" by (simp add: leads_def two_holders_def ks_view_def)
  then have "\<not> leads ks_view 3 two_holders 0"
    using leaders_exclusive[OF ks_store_ok two_holders_reach one, of 0] by auto
  then show ?thesis using one by (simp add: two_holders_def)
qed

end
