(* ===== verification/Wire.thy ===== *)
theory Wire
  imports GoStrings
begin

text \<open>
  Go's \<open>encoding/binary\<close> and \<open>io\<close> as the framing code uses them: big-endian integers, a writer that
  may fail once it has taken so many bytes, and a reader over the bytes the peer has sent before it
  closed the connection. A reading function takes the bytes left and returns its result and what
  is left then; a writing function returns its error and the writer.
\<close>

type_synonym byte = "8 word"
type_synonym bytes = "byte list"

subsection \<open>Big-endian integers\<close>

unbundle bit_operations_syntax

definition be16 :: "16 word \<Rightarrow> bytes" where
  "be16 x = [ucast (drop_bit 8 x), ucast x]"

definition be32 :: "32 word \<Rightarrow> bytes" where
  "be32 x = [ucast (drop_bit 24 x), ucast (drop_bit 16 x), ucast (drop_bit 8 x), ucast x]"

definition from_be32 :: "bytes \<Rightarrow> 32 word" where
  "from_be32 bs = ucast (bs ! 3) OR push_bit 8 (ucast (bs ! 2)) OR push_bit 16 (ucast (bs ! 1)) OR push_bit 24 (ucast (bs ! 0))"

lemma length_be [simp]: "length (be16 x) = 2" "length (be32 y) = 4"
  by (simp_all add: be16_def be32_def)

lemma from_be32_be32 [simp]: "from_be32 (be32 x) = x"
proof (rule bit_word_eqI)
  fix n assume "n < LENGTH(32)"
  then have "n < 32" by simp
  then consider "n < 8" | "8 \<le> n" "n < 16" | "16 \<le> n" "n < 24" | "24 \<le> n" "n < 32" by linarith
  then show "bit (from_be32 (be32 x)) n = bit x n"
    by cases (auto simp: from_be32_def be32_def bit_simps)
qed

subsection \<open>Errors and results\<close>

datatype error_code = UnlowercasedHeaderName | DuplicateHeaders | WrongCompressedPayloadSize
  | UnknownFrameType | InvalidControlFrame | InvalidDataFrame | InvalidHeaderPresent | ZeroStreamId

datatype wire_error = SpdyError error_code "32 word" | EOF | UnexpectedEOF | ShortWrite | ZlibError string

subsection \<open>Writing\<close>

text \<open>\<open>wt_room\<close> is how many more bytes the connection takes before a write fails, if it ever does.\<close>

record writer =
  wt_out :: bytes
  wt_room :: "nat option"

type_synonym writing = "writer \<Rightarrow> wire_error option \<times> writer"

definition put_bytes :: "bytes \<Rightarrow> writing" where
  "put_bytes bs w =
    (case wt_room w of
       None \<Rightarrow> (None, w\<lparr>wt_out := wt_out w @ bs\<rparr>)
     | Some n \<Rightarrow>
         if length bs \<le> n then (None, w\<lparr>wt_out := wt_out w @ bs, wt_room := Some (n - length bs)\<rparr>)
         else (Some ShortWrite, w\<lparr>wt_out := wt_out w @ take n bs, wt_room := Some 0\<rparr>))"

definition fail :: "wire_error \<Rightarrow> writing" where
  "fail e w = (Some e, w)"

text \<open>\<open>if err = a; err != nil \{ return \}\<close> followed by \<open>b\<close>.\<close>

definition and_write :: "writing \<Rightarrow> writing \<Rightarrow> writing" where
  "and_write a b w = (case a w of (None, w') \<Rightarrow> b w' | (Some e, w') \<Rightarrow> (Some e, w'))"

fun write_all :: "bytes list \<Rightarrow> writing" where
  "write_all [] w = (None, w)"
| "write_all (bs # bss) w = and_write (put_bytes bs) (write_all bss) w"

lemma put_bytes_open: "wt_room w = None \<Longrightarrow> put_bytes bs w = (None, w\<lparr>wt_out := wt_out w @ bs\<rparr>)"
  by (simp add: put_bytes_def)

text \<open>What a writing function has put on the wire is a prefix of \<open>bs\<close>, all of it if it returns no error.\<close>

definition writes_prefix :: "writing \<Rightarrow> bytes \<Rightarrow> bool" where
  "writes_prefix a bs \<longleftrightarrow>
    (\<forall>w. \<exists>n. wt_out (snd (a w)) = wt_out w @ take n bs \<and> (fst (a w) = None \<longrightarrow> length bs \<le> n))"

lemma writes_prefix_put [intro]: "writes_prefix (put_bytes bs) bs"
proof -
  have "\<exists>n. wt_out (snd (put_bytes bs w)) = wt_out w @ take n bs \<and> (fst (put_bytes bs w) = None \<longrightarrow> length bs \<le> n)" for w
    by (cases "wt_room w") (auto simp: put_bytes_def intro: exI[of _ "length bs"])
  then show ?thesis by (simp add: writes_prefix_def)
qed

lemma writes_prefix_fail [intro]: "writes_prefix (fail e) bs"
  by (auto simp: writes_prefix_def fail_def intro: exI[of _ 0])

lemma writes_prefix_and [intro]:
  assumes "writes_prefix a bs" "writes_prefix b cs"
  shows "writes_prefix (and_write a b) (bs @ cs)"
  unfolding writes_prefix_def
proof
  fix w
  obtain n where n: "wt_out (snd (a w)) = wt_out w @ take n bs" "fst (a w) = None \<longrightarrow> length bs \<le> n"
    using assms(1) unfolding writes_prefix_def by blast
  show "\<exists>n. wt_out (snd (and_write a b w)) = wt_out w @ take n (bs @ cs) \<and>
      (fst (and_write a b w) = None \<longrightarrow> length (bs @ cs) \<le> n)"
  proof (cases "fst (a w)")
    case (Some x)
    then have "and_write a b w = (Some x, snd (a w))" by (cases "a w") (simp add: and_write_def)
    moreover have "take n bs = take (min n (length bs)) (bs @ cs)" by (simp add: min_def)
    ultimately show ?thesis using n by (intro exI[of _ "min n (length bs)"]) simp
  next
    case None
    then have e: "and_write a b w = b (snd (a w))" by (cases "a w") (simp add: and_write_def)
    obtain m where "wt_out (snd (b (snd (a w)))) = wt_out (snd (a w)) @ take m cs"
      "fst (b (snd (a w))) = None \<longrightarrow> length cs \<le> m"
      using assms(2) unfolding writes_prefix_def by blast
    then show ?thesis using n None e by (intro exI[of _ "length bs + m"]) auto
  qed
qed

subsection \<open>Reading\<close>

type_synonym 'a reading = "bytes \<Rightarrow> (wire_error + 'a) \<times> bytes"

text \<open>\<open>io.ReadFull\<close>\<close>

definition ReadFull :: "nat \<Rightarrow> bytes reading" where
  "ReadFull n r =
    (if n \<le> length r then (Inr (take n r), drop n r)
     else (Inl (if r = [] then EOF else UnexpectedEOF), []))"

definition and_read :: "'a reading \<Rightarrow> ('a \<Rightarrow> 'b reading) \<Rightarrow> 'b reading" where
  "and_read a f r = (case a r of (Inl e, r') \<Rightarrow> (Inl e, r') | (Inr x, r') \<Rightarrow> f x r')"

definition got :: "'a \<Rightarrow> 'a reading" where
  "got x r = (Inr x, r)"

definition stop :: "wire_error \<Rightarrow> 'a reading" where
  "stop e r = (Inl e, r)"

definition Read8 :: "byte reading" where
  "Read8 = and_read (ReadFull 1) (\<lambda>bs. \<lambda>r. (Inr (bs ! 0), r))"

definition Read32 :: "32 word reading" where
  "Read32 = and_read (ReadFull 4) (\<lambda>bs. \<lambda>r. (Inr (from_be32 bs), r))"

named_theorems wire \<open>reading back what was written\<close>

lemma ReadFull_append [wire]: "n = length bs \<Longrightarrow> ReadFull n (bs @ r) = (Inr bs, r)"
  by (simp add: ReadFull_def)

lemma Read32_be32 [wire]: "Read32 (be32 x @ r) = (Inr x, r)"
  by (simp add: Read32_def and_read_def ReadFull_append)

lemma Read8_Cons [wire]: "Read8 (b # r) = (Inr b, r)"
  by (simp add: Read8_def and_read_def ReadFull_def)

lemma and_read_Inr [wire]: "a r = (Inr x, r') \<Longrightarrow> and_read a f r = f x r'"
  by (simp add: and_read_def)

end
