(* ===== verification/SpdyFrame.thy ===== *)
theory SpdyFrame
  imports Wire "HOL-Library.AList"
begin

text \<open>
  go.net/spdy, types.go and write.go: the frames of SPDY/3, the framer and the writing of frames.
  A write changes the frame too (it fills in the control frame header), so it returns the frame. A
  header is an association list in the order in which Go visits the map; names and values are
  bytes, and \<open>strings.ToLower\<close> is its ASCII part. The zlib compressor is an argument: it turns a
  block into the bytes that \<open>Flush\<close> puts into the header buffer.
\<close>

unbundle bit_operations_syntax

subsection \<open>Frames (types.go)\<close>

type_synonym stream_id = "32 word"
type_synonym header = "(bytes \<times> bytes list) list"

definition Version :: "16 word" where "Version = 3"
definition TypeSynStream :: "16 word" where "TypeSynStream = 1"
definition TypeSynReply :: "16 word" where "TypeSynReply = 2"
definition TypeRstStream :: "16 word" where "TypeRstStream = 3"
definition TypeSettings :: "16 word" where "TypeSettings = 4"
definition TypePing :: "16 word" where "TypePing = 6"
definition TypeGoAway :: "16 word" where "TypeGoAway = 7"
definition TypeHeaders :: "16 word" where "TypeHeaders = 8"
definition TypeWindowUpdate :: "16 word" where "TypeWindowUpdate = 9"
definition MaxDataLength :: nat where "MaxDataLength = 2 ^ 24 - 1"
definition headerValueSeparator :: bytes where "headerValueSeparator = [0]"

record control_header =
  ch_version :: "16 word"
  ch_frameType :: "16 word"
  ch_Flags :: byte
  ch_length :: "32 word"

record syn_stream_frame =
  fs_CFHeader :: control_header
  fs_StreamId :: stream_id
  fs_AssociatedToStreamId :: stream_id
  fs_Priority :: byte
  fs_Slot :: byte
  fs_Headers :: header

record syn_reply_frame =
  fy_CFHeader :: control_header
  fy_StreamId :: stream_id
  fy_Headers :: header

record rst_stream_frame =
  fr_CFHeader :: control_header
  fr_StreamId :: stream_id
  fr_Status :: "32 word"

record setting =
  fi_Flag :: byte
  fi_Id :: "32 word"
  fi_Value :: "32 word"

record settings_frame =
  ft_CFHeader :: control_header
  ft_FlagIdValues :: "setting list"

record ping_frame =
  fp_CFHeader :: control_header
  fp_Id :: "32 word"

record go_away_frame =
  fg_CFHeader :: control_header
  fg_LastGoodStreamId :: stream_id
  fg_Status :: "32 word"

record headers_frame =
  fh_CFHeader :: control_header
  fh_StreamId :: stream_id
  fh_Headers :: header

record window_update_frame =
  fw_CFHeader :: control_header
  fw_StreamId :: stream_id
  fw_DeltaWindowSize :: "32 word"

record data_frame =
  fd_StreamId :: stream_id
  fd_Flags :: byte
  fd_Data :: bytes

datatype frame =
    SynStreamFrame syn_stream_frame
  | SynReplyFrame syn_reply_frame
  | RstStreamFrame rst_stream_frame
  | SettingsFrame settings_frame
  | PingFrame ping_frame
  | GoAwayFrame go_away_frame
  | HeadersFrame headers_frame
  | WindowUpdateFrame window_update_frame
  | DataFrame data_frame

subsection \<open>The framer\<close>

text \<open>zlib with the SPDY dictionary. \<open>zl_deflate\<close> writes a block and flushes; \<open>zl_new_reader\<close> looks at the
  start of a payload and says how many bytes it took; \<open>zl_inflate\<close> gives the data in a payload and
  how many bytes of the payload it left unread.\<close>

record ('c, 'd) zlib =
  zl_deflate :: "'c \<Rightarrow> bytes \<Rightarrow> bytes \<times> 'c"
  zl_new_reader :: "bytes \<Rightarrow> (string + 'd) \<times> nat"
  zl_inflate :: "'d \<Rightarrow> bytes \<Rightarrow> bytes \<times> nat \<times> 'd"

text \<open>\<open>fm_headerDecompressor\<close> holds the data it has inflated and nobody has read, too; \<open>fm_N\<close> is the
  field \<open>N\<close> of the limited reader under it.\<close>

record ('c, 'd) framer =
  fm_headerCompressionDisabled :: bool
  fm_w :: writer
  fm_headerBuf :: bytes
  fm_headerCompressor :: 'c
  fm_r :: bytes
  fm_N :: nat
  fm_headerDecompressor :: "('d \<times> bytes) option"

definition NewFramer :: "(string + 'c) \<Rightarrow> writer \<Rightarrow> bytes \<Rightarrow> string + ('c, 'd) framer" where
  "NewFramer compressor w r =
    (case compressor of
       Inl err \<Rightarrow> Inl err
     | Inr c \<Rightarrow> Inr \<lparr>fm_headerCompressionDisabled = False, fm_w = w, fm_headerBuf = [], fm_headerCompressor = c,
         fm_r = r, fm_N = 0, fm_headerDecompressor = None\<rparr>)"

type_synonym ('f, 'c, 'd) frame_write = "'f \<Rightarrow> ('c, 'd) framer \<Rightarrow> 'f \<times> wire_error option \<times> ('c, 'd) framer"

definition on_writer :: "writing \<Rightarrow> ('c, 'd) framer \<Rightarrow> wire_error option \<times> ('c, 'd) framer" where
  "on_writer a f = (case a (fm_w f) of (err, w) \<Rightarrow> (err, f\<lparr>fm_w := w\<rparr>))"

subsection \<open>Control frames without headers (write.go)\<close>

definition writeControlFrameHeader :: "control_header \<Rightarrow> writing" where
  "writeControlFrameHeader h =
    and_write (put_bytes (be16 (0x8000 OR ch_version h)))
    (and_write (put_bytes (be16 (ch_frameType h)))
    (put_bytes (be32 (push_bit 24 (ucast (ch_Flags h)) OR ch_length h))))"

definition write_rst :: "(rst_stream_frame, 'c, 'd) frame_write" where
  "write_rst frame f =
    (if fr_StreamId frame = 0 then (frame, Some (SpdyError ZeroStreamId 0), f)
     else
       let h = \<lparr>ch_version = Version, ch_frameType = TypeRstStream, ch_Flags = 0, ch_length = 8\<rparr> in
       (frame\<lparr>fr_CFHeader := h\<rparr>,
        on_writer (and_write (writeControlFrameHeader h)
          (and_write (put_bytes (be32 (fr_StreamId frame)))
          (if fr_Status frame = 0 then fail (SpdyError InvalidControlFrame (fr_StreamId frame))
           else put_bytes (be32 (fr_Status frame))))) f))"

fun write_settings_values :: "setting list \<Rightarrow> writing" where
  "write_settings_values [] = (\<lambda>w. (None, w))"
| "write_settings_values (v # vs) =
    and_write (put_bytes (be32 (push_bit 24 (ucast (fi_Flag v)) OR fi_Id v)))
    (and_write (put_bytes (be32 (fi_Value v))) (write_settings_values vs))"

definition write_settings :: "(settings_frame, 'c, 'd) frame_write" where
  "write_settings frame f =
    (let n = length (ft_FlagIdValues frame);
         h = (ft_CFHeader frame)\<lparr>ch_version := Version, ch_frameType := TypeSettings, ch_length := of_nat (n * 8 + 4)\<rparr> in
     (frame\<lparr>ft_CFHeader := h\<rparr>,
      on_writer (and_write (writeControlFrameHeader h)
        (and_write (put_bytes (be32 (of_nat n))) (write_settings_values (ft_FlagIdValues frame)))) f))"

definition write_ping :: "(ping_frame, 'c, 'd) frame_write" where
  "write_ping frame f =
    (if fp_Id frame = 0 then (frame, Some (SpdyError ZeroStreamId 0), f)
     else
       let h = \<lparr>ch_version = Version, ch_frameType = TypePing, ch_Flags = 0, ch_length = 4\<rparr> in
       (frame\<lparr>fp_CFHeader := h\<rparr>,
        on_writer (and_write (writeControlFrameHeader h) (put_bytes (be32 (fp_Id frame)))) f))"

definition write_go_away :: "(go_away_frame, 'c, 'd) frame_write" where
  "write_go_away frame f =
    (let h = \<lparr>ch_version = Version, ch_frameType = TypeGoAway, ch_Flags = 0, ch_length = 8\<rparr> in
     (frame\<lparr>fg_CFHeader := h\<rparr>,
      on_writer (and_write (writeControlFrameHeader h)
        (and_write (put_bytes (be32 (fg_LastGoodStreamId frame))) (put_bytes (be32 (fg_Status frame))))) f))"

definition write_window_update :: "(window_update_frame, 'c, 'd) frame_write" where
  "write_window_update frame f =
    (let h = \<lparr>ch_version = Version, ch_frameType = TypeWindowUpdate, ch_Flags = 0, ch_length = 8\<rparr> in
     (frame\<lparr>fw_CFHeader := h\<rparr>,
      on_writer (and_write (writeControlFrameHeader h)
        (and_write (put_bytes (be32 (fw_StreamId frame))) (put_bytes (be32 (fw_DeltaWindowSize frame))))) f))"

subsection \<open>Frames with headers\<close>

definition to_lower :: "bytes \<Rightarrow> bytes" where
  "to_lower = map (\<lambda>b. if 0x41 \<le> b \<and> b \<le> 0x5A then b + 0x20 else b)"

definition write_header_entry :: "bytes \<times> bytes list \<Rightarrow> bytes" where
  "write_header_entry = (\<lambda>(name, values).
    let v = join headerValueSeparator values in
    be32 (of_nat (length name)) @ to_lower name @ be32 (of_nat (length v)) @ v)"

definition writeHeaderValueBlock :: "header \<Rightarrow> bytes" where
  "writeHeaderValueBlock h = be32 (of_nat (length h)) @ concat (map write_header_entry h)"

text \<open>The block goes into the header buffer, through the compressor unless it is disabled.\<close>

definition marshal_headers :: "('c, 'd) zlib \<Rightarrow> header \<Rightarrow> ('c, 'd) framer \<Rightarrow> ('c, 'd) framer" where
  "marshal_headers zl h f =
    (if fm_headerCompressionDisabled f then f\<lparr>fm_headerBuf := fm_headerBuf f @ writeHeaderValueBlock h\<rparr>
     else case zl_deflate zl (fm_headerCompressor f) (writeHeaderValueBlock h) of
       (out, c) \<Rightarrow> f\<lparr>fm_headerCompressor := c, fm_headerBuf := fm_headerBuf f @ out\<rparr>)"

text \<open>The rest of the frame; the buffer is reset if nothing failed.\<close>

definition write_and_reset :: "writing \<Rightarrow> ('c, 'd) framer \<Rightarrow> wire_error option \<times> ('c, 'd) framer" where
  "write_and_reset a f =
    (case on_writer a f of
       (None, f') \<Rightarrow> (None, f'\<lparr>fm_headerBuf := []\<rparr>)
     | (Some err, f') \<Rightarrow> (Some err, f'))"

definition writeSynStreamFrame :: "('c, 'd) zlib \<Rightarrow> (syn_stream_frame, 'c, 'd) frame_write" where
  "writeSynStreamFrame zl frame f =
    (if fs_StreamId frame = 0 then (frame, Some (SpdyError ZeroStreamId 0), f)
     else
       let f = marshal_headers zl (fs_Headers frame) f;
           h = (fs_CFHeader frame)\<lparr>ch_version := Version, ch_frameType := TypeSynStream,
                 ch_length := of_nat (length (fm_headerBuf f) + 10)\<rparr> in
       (frame\<lparr>fs_CFHeader := h\<rparr>,
        write_and_reset (and_write (writeControlFrameHeader h)
          (and_write (put_bytes (be32 (fs_StreamId frame)))
          (and_write (put_bytes (be32 (fs_AssociatedToStreamId frame)))
          (and_write (put_bytes [push_bit 5 (fs_Priority frame)])
          (and_write (put_bytes [fs_Slot frame])
          (put_bytes (fm_headerBuf f))))))) f))"

definition writeSynReplyFrame :: "('c, 'd) zlib \<Rightarrow> (syn_reply_frame, 'c, 'd) frame_write" where
  "writeSynReplyFrame zl frame f =
    (if fy_StreamId frame = 0 then (frame, Some (SpdyError ZeroStreamId 0), f)
     else
       let f = marshal_headers zl (fy_Headers frame) f;
           h = (fy_CFHeader frame)\<lparr>ch_version := Version, ch_frameType := TypeSynReply,
                 ch_length := of_nat (length (fm_headerBuf f) + 4)\<rparr> in
       (frame\<lparr>fy_CFHeader := h\<rparr>,
        write_and_reset (and_write (writeControlFrameHeader h)
          (and_write (put_bytes (be32 (fy_StreamId frame))) (put_bytes (fm_headerBuf f)))) f))"

definition writeHeadersFrame :: "('c, 'd) zlib \<Rightarrow> (headers_frame, 'c, 'd) frame_write" where
  "writeHeadersFrame zl frame f =
    (if fh_StreamId frame = 0 then (frame, Some (SpdyError ZeroStreamId 0), f)
     else
       let f = marshal_headers zl (fh_Headers frame) f;
           h = (fh_CFHeader frame)\<lparr>ch_version := Version, ch_frameType := TypeHeaders,
                 ch_length := of_nat (length (fm_headerBuf f) + 4)\<rparr> in
       (frame\<lparr>fh_CFHeader := h\<rparr>,
        write_and_reset (and_write (writeControlFrameHeader h)
          (and_write (put_bytes (be32 (fh_StreamId frame))) (put_bytes (fm_headerBuf f)))) f))"

subsection \<open>Data frames, any frame\<close>

definition writeDataFrame :: "(data_frame, 'c, 'd) frame_write" where
  "writeDataFrame frame f =
    (if fd_StreamId frame = 0 then (frame, Some (SpdyError ZeroStreamId 0), f)
     else if fd_StreamId frame AND 0x80000000 \<noteq> 0 \<or> length (fd_Data frame) > MaxDataLength then
       (frame, Some (SpdyError InvalidDataFrame (fd_StreamId frame)), f)
     else
       (frame, on_writer (and_write (put_bytes (be32 (fd_StreamId frame)))
         (and_write (put_bytes (be32 (push_bit 24 (ucast (fd_Flags frame)) OR of_nat (length (fd_Data frame)))))
         (put_bytes (fd_Data frame)))) f))"

fun WriteFrame :: "('c, 'd) zlib \<Rightarrow> (frame, 'c, 'd) frame_write" where
  "WriteFrame zl (SynStreamFrame x) f = apfst SynStreamFrame (writeSynStreamFrame zl x f)"
| "WriteFrame zl (SynReplyFrame x) f = apfst SynReplyFrame (writeSynReplyFrame zl x f)"
| "WriteFrame zl (RstStreamFrame x) f = apfst RstStreamFrame (write_rst x f)"
| "WriteFrame zl (SettingsFrame x) f = apfst SettingsFrame (write_settings x f)"
| "WriteFrame zl (PingFrame x) f = apfst PingFrame (write_ping x f)"
| "WriteFrame zl (GoAwayFrame x) f = apfst GoAwayFrame (write_go_away x f)"
| "WriteFrame zl (HeadersFrame x) f = apfst HeadersFrame (writeHeadersFrame zl x f)"
| "WriteFrame zl (WindowUpdateFrame x) f = apfst WindowUpdateFrame (write_window_update x f)"
| "WriteFrame zl (DataFrame x) f = apfst DataFrame (writeDataFrame x f)"

end
