(* ===== verification/FrameQueue.thy ===== *)
theory FrameQueue
  imports GoHeap SpdyFrame "HOL-Library.Product_Lexorder"
begin

text \<open>
  docker/spdystream, priority.go: the queue of received frames, a heap ordered by priority and, at
  the same priority, by the order of insertion. It is the second client of \<open>container/heap\<close>, so the
  interpretation \<open>fq\<close> makes the algorithms of theory \<open>GoHeap\<close> available for it. \<open>Push\<close> and \<open>Pop\<close> wait on
  a condition variable, so they return None when they would have to wait.
\<close>

subsection \<open>The heap\<close>

record prioritized_frame =
  pf_frame :: frame
  pf_priority :: uint8
  pf_insertId :: uint64

type_synonym frame_queue = "prioritized_frame list"

definition fq_Len :: "frame_queue \<Rightarrow> nat" where
  "fq_Len fq = length fq"

definition fq_Less :: "frame_queue \<Rightarrow> nat \<Rightarrow> nat \<Rightarrow> bool option" where
  "fq_Less fq i j =
    (if i < length fq \<and> j < length fq then
       if pf_priority (fq ! i) = pf_priority (fq ! j) then Some (pf_insertId (fq ! i) < pf_insertId (fq ! j))
       else Some (pf_priority (fq ! i) < pf_priority (fq ! j))
     else None)"

definition fq_Swap :: "nat \<Rightarrow> nat \<Rightarrow> frame_queue \<Rightarrow> frame_queue option" where
  "fq_Swap i j fq = (if i < length fq \<and> j < length fq then Some (list_swap fq i j) else None)"

definition fq_Push :: "prioritized_frame \<Rightarrow> frame_queue \<Rightarrow> frame_queue option" where
  "fq_Push x fq = Some (fq @ [x])"

definition fq_Pop :: "frame_queue \<Rightarrow> (prioritized_frame \<times> frame_queue) option" where
  "fq_Pop fq = (if fq = [] then None else Some (last fq, butlast fq))"

definition fq_key :: "prioritized_frame \<Rightarrow> uint8 \<times> uint64" where
  "fq_key x = (pf_priority x, pf_insertId x)"

interpretation fq: go_heap fq_Len fq_Less fq_Swap fq_Push fq_Pop
  "\<lambda>fq. fq" "\<lambda>_. ()" "\<lambda>_. fq_key" "\<lambda>_ _. ()" "()" "\<lambda>_. True" "\<lambda>_ _. True"
  by unfold_locales
    (auto simp: fq_Len_def fq_Less_def fq_Swap_def fq_Push_def fq_Pop_def fq_key_def less_prod_def)

subsection \<open>The queue\<close>

record frame_priority_queue =
  pq_queue :: frame_queue
  pq_size :: nat
  pq_nextInsertId :: uint64
  pq_drain :: bool

definition NewPriorityFrameQueue :: "nat \<Rightarrow> frame_priority_queue" where
  "NewPriorityFrameQueue n = \<lparr>pq_queue = [], pq_size = n, pq_nextInsertId = 0, pq_drain = False\<rparr>"

datatype 'a wait = Waits | Panics | Goes 'a

definition queue_Push :: "frame \<Rightarrow> uint8 \<Rightarrow> frame_priority_queue \<Rightarrow> frame_priority_queue wait" where
  "queue_Push fr priority q =
    (if fq_Len (pq_queue q) \<ge> pq_size q then Waits
     else
       let pFrame = \<lparr>pf_frame = fr, pf_priority = priority, pf_insertId = pq_nextInsertId q\<rparr>;
           q = q\<lparr>pq_nextInsertId := pq_nextInsertId q + 1\<rparr> in
       case heap_push fq_Len fq_Less fq_Swap fq_Push pFrame (pq_queue q) of
         None \<Rightarrow> Panics
       | Some fq \<Rightarrow> Goes (q\<lparr>pq_queue := fq\<rparr>))"

text \<open>\<open>Pop\<close> returns nil when the queue is empty and drains.\<close>

definition queue_Pop :: "frame_priority_queue \<Rightarrow> (frame option \<times> frame_priority_queue) wait" where
  "queue_Pop q =
    (if fq_Len (pq_queue q) = 0 then if pq_drain q then Goes (None, q) else Waits
     else case heap_pop fq_Len fq_Less fq_Swap fq_Pop (pq_queue q) of
       None \<Rightarrow> Panics
     | Some (x, fq) \<Rightarrow> Goes (Some (pf_frame x), q\<lparr>pq_queue := fq\<rparr>))"

definition queue_Drain :: "frame_priority_queue \<Rightarrow> frame_priority_queue" where
  "queue_Drain q = q\<lparr>pq_drain := True\<rparr>"

subsection \<open>What it promises\<close>

text \<open>The abstract queue: the frames with their priorities in the order in which they will come out. A
  new frame goes behind all that are at least as urgent.\<close>

type_synonym pending = "(frame \<times> uint8) list"

definition spec_push :: "frame \<Rightarrow> uint8 \<Rightarrow> pending \<Rightarrow> pending" where
  "spec_push fr p xs = takeWhile (\<lambda>x. snd x \<le> p) xs @ (fr, p) # dropWhile (\<lambda>x. snd x \<le> p) xs"

definition by_urgency :: "frame_queue \<Rightarrow> frame_queue" where
  "by_urgency = sort_key fq_key"

definition abstract_queue :: "frame_priority_queue \<Rightarrow> pending" where
  "abstract_queue q = map (\<lambda>x. (pf_frame x, pf_priority x)) (by_urgency (pq_queue q))"

definition queue_inv :: "frame_priority_queue \<Rightarrow> bool" where
  "queue_inv q \<longleftrightarrow> heap_list fq_key (pq_queue q) (length (pq_queue q)) \<and>
    distinct (map pf_insertId (pq_queue q)) \<and> (\<forall>x \<in> set (pq_queue q). pf_insertId x < pq_nextInsertId q)"

lemma fq_key_inj: "distinct (map pf_insertId fq) \<Longrightarrow> inj_on fq_key (set fq)"
  by (auto simp: inj_on_def fq_key_def distinct_map)

lemma sort_key_eqI:
  "mset xs = mset ys \<Longrightarrow> inj_on f (set xs) \<Longrightarrow> sorted (map f ys) \<Longrightarrow> sort_key f xs = ys"
  by (rule sort_key_inj_key_eq)

lemma new_queue_inv: "queue_inv (NewPriorityFrameQueue n)"
  by (simp add: queue_inv_def NewPriorityFrameQueue_def heap_list_def)

lemma sorted_insert_behind:
  assumes "sorted (map fq_key S)" "\<forall>y \<in> set S. pf_insertId y < pf_insertId x"
  shows "sorted (map fq_key (takeWhile (\<lambda>y. pf_priority y \<le> pf_priority x) S @ x #
    dropWhile (\<lambda>y. pf_priority y \<le> pf_priority x) S))"
  using assms
proof (induction S)
  case (Cons y S)
  then have IH: "sorted (map fq_key (takeWhile (\<lambda>y. pf_priority y \<le> pf_priority x) S @ x #
      dropWhile (\<lambda>y. pf_priority y \<le> pf_priority x) S))" by simp
  have le: "fq_key y \<le> fq_key z" if "z \<in> set S" for z using Cons.prems(1) that by simp
  show ?case
  proof (cases "pf_priority y \<le> pf_priority x")
    case True
    have "fq_key y \<le> fq_key x" using True Cons.prems(2) by (auto simp: fq_key_def)
    then show ?thesis using True IH le by (auto dest: set_takeWhileD set_dropWhileD)
  next
    case False
    then have "fq_key x \<le> fq_key y" by (auto simp: fq_key_def)
    then show ?thesis using False Cons.prems(1) order_trans[OF _ le] by auto
  qed
qed simp

text \<open>\<open>Push\<close>, while there is room and the insertion counter does not wrap.\<close>

lemma queue_Push_step:
  assumes "queue_inv q" "length (pq_queue q) < pq_size q" "pq_nextInsertId q \<noteq> - 1"
  shows "\<exists>q'. queue_Push fr p q = Goes q' \<and> queue_inv q' \<and> abstract_queue q' = spec_push fr p (abstract_queue q) \<and>
    length (pq_queue q') = Suc (length (pq_queue q)) \<and> pq_size q' = pq_size q \<and> pq_drain q' = pq_drain q \<and>
    pq_nextInsertId q' = pq_nextInsertId q + 1"
proof -
  let ?x = "\<lparr>pf_frame = fr, pf_priority = p, pf_insertId = pq_nextInsertId q\<rparr>"
  let ?S = "by_urgency (pq_queue q)"
  obtain fq where fq: "heap_push fq_Len fq_Less fq_Swap fq_Push ?x (pq_queue q) = Some fq"
    "heap_list fq_key fq (length fq)" "mset fq = add_mset ?x (mset (pq_queue q))"
    using fq.heap_push_correct[of "pq_queue q" ?x] assms(1) by (auto simp: queue_inv_def)
  let ?q = "q\<lparr>pq_nextInsertId := pq_nextInsertId q + 1, pq_queue := fq\<rparr>"
  have nxt: "pq_nextInsertId q < pq_nextInsertId q + 1" using assms(3) by (rule word_less_next)
  have set: "set fq = insert ?x (set (pq_queue q))" using fq(3) by (metis set_mset_add_mset_insert set_mset_mset)
  have ids: "mset (map pf_insertId fq) = add_mset (pq_nextInsertId q) (mset (map pf_insertId (pq_queue q)))"
    using fq(3) by (metis (no_types, lifting) image_mset_add_mset mset_map prioritized_frame.select_convs(3))
  have old: "\<forall>y \<in> set (pq_queue q). pf_insertId y < pq_nextInsertId q" using assms(1) by (simp add: queue_inv_def)
  have dist: "distinct (map pf_insertId fq)"
  proof -
    have "distinct (pq_nextInsertId q # map pf_insertId (pq_queue q))" using assms(1) old by (auto simp: queue_inv_def)
    then show ?thesis using ids by (metis mset.simps(2) mset_eq_imp_distinct_iff)
  qed
  have inv: "queue_inv ?q"
    using fq(2) dist old nxt set by (auto simp: queue_inv_def intro: less_trans)
  have S: "mset ?S = mset (pq_queue q)" "sorted (map fq_key ?S)" "set ?S = set (pq_queue q)" by (simp_all add: by_urgency_def)
  have "by_urgency fq = takeWhile (\<lambda>y. pf_priority y \<le> p) ?S @ ?x # dropWhile (\<lambda>y. pf_priority y \<le> p) ?S"
    unfolding by_urgency_def
  proof (rule sort_key_eqI)
    have "mset (takeWhile (\<lambda>y. pf_priority y \<le> p) ?S) + mset (dropWhile (\<lambda>y. pf_priority y \<le> p) ?S) = mset ?S"
      by (metis mset_append takeWhile_dropWhile_id)
    then show "mset fq = mset (takeWhile (\<lambda>y. pf_priority y \<le> p) (sort_key fq_key (pq_queue q)) @ ?x #
        dropWhile (\<lambda>y. pf_priority y \<le> p) (sort_key fq_key (pq_queue q)))"
      using fq(3) S(1) by (simp add: by_urgency_def)
    show "inj_on fq_key (set fq)" using dist by (rule fq_key_inj)
    show "sorted (map fq_key (takeWhile (\<lambda>y. pf_priority y \<le> p) (sort_key fq_key (pq_queue q)) @ ?x #
        dropWhile (\<lambda>y. pf_priority y \<le> p) (sort_key fq_key (pq_queue q))))"
      using sorted_insert_behind[of ?S ?x] S old by (simp add: by_urgency_def)
  qed
  then have "abstract_queue ?q = spec_push fr p (abstract_queue q)"
    by (simp add: abstract_queue_def spec_push_def takeWhile_map dropWhile_map o_def)
  moreover have "length fq = Suc (length (pq_queue q))" using fq(3) by (metis size_add_mset size_mset)
  ultimately show ?thesis
    using assms(2) fq(1) inv by (intro exI[of _ ?q]) (simp add: queue_Push_def fq_Len_def Let_def)
qed
text \<open>\<open>Pop\<close> takes the most urgent frame, the oldest of those.\<close>

lemma queue_Pop_step:
  assumes "queue_inv q" "pq_queue q \<noteq> []"
  shows "\<exists>q'. queue_Pop q = Goes (Some (fst (hd (abstract_queue q))), q') \<and> queue_inv q' \<and>
    abstract_queue q' = tl (abstract_queue q) \<and> length (pq_queue q') = length (pq_queue q) - 1 \<and>
    pq_size q' = pq_size q \<and> pq_drain q' = pq_drain q \<and> pq_nextInsertId q' = pq_nextInsertId q"
proof -
  let ?x = "hd (pq_queue q)"
  obtain fq where fq: "heap_pop fq_Len fq_Less fq_Swap fq_Pop (pq_queue q) = Some (?x, fq)"
    "heap_list fq_key fq (length fq)" "mset (pq_queue q) = add_mset ?x (mset fq)"
    using fq.heap_pop_correct[of "pq_queue q"] assms by (auto simp: queue_inv_def)
  let ?q = "q\<lparr>pq_queue := fq\<rparr>"
  have heap: "heap_list fq_key (pq_queue q) (length (pq_queue q))" using assms(1) by (simp add: queue_inv_def)
  have set: "set (pq_queue q) = insert ?x (set fq)" using fq(3) by (metis set_mset_add_mset_insert set_mset_mset)
  have least: "\<forall>y \<in> set (pq_queue q). fq_key ?x \<le> fq_key y" using heap_list_Min[OF heap] by blast
  have "by_urgency (pq_queue q) = ?x # by_urgency fq"
    unfolding by_urgency_def
  proof (rule sort_key_eqI)
    show "mset (pq_queue q) = mset (?x # sort_key fq_key fq)" using fq(3) by simp
    show "inj_on fq_key (set (pq_queue q))" using assms(1) by (auto simp: queue_inv_def intro: fq_key_inj)
    show "sorted (map fq_key (?x # sort_key fq_key fq))" using least set by simp
  qed
  then have abs: "abstract_queue q = (pf_frame ?x, pf_priority ?x) # abstract_queue ?q" by (simp add: abstract_queue_def)
  have "mset (map pf_insertId (pq_queue q)) = add_mset (pf_insertId ?x) (mset (map pf_insertId fq))" using fq(3) by simp
  then have "distinct (map pf_insertId fq)"
    using assms(1) unfolding queue_inv_def by (metis distinct.simps(2) mset.simps(2) mset_eq_imp_distinct_iff)
  then have inv: "queue_inv ?q" using assms(1) fq(2) set by (simp add: queue_inv_def)
  have "length (pq_queue q) = Suc (length fq)" using fq(3) by (metis size_add_mset size_mset)
  then show ?thesis
    using assms(2) fq(1) inv abs by (intro exI[of _ ?q]) (simp add: queue_Pop_def fq_Len_def)
qed

subsection \<open>Runs\<close>

datatype queue_op = OpPush frame uint8 | OpPop | OpDrain
datatype queue_out = Got "frame option" | Blocked | Crashed

text \<open>A run ends where it would wait.\<close>

fun queue_run :: "queue_op list \<Rightarrow> frame_priority_queue \<Rightarrow> queue_out list" where
  "queue_run [] q = []"
| "queue_run (OpPush fr p # ops) q =
    (case queue_Push fr p q of Waits \<Rightarrow> [Blocked] | Panics \<Rightarrow> [Crashed] | Goes q' \<Rightarrow> queue_run ops q')"
| "queue_run (OpPop # ops) q =
    (case queue_Pop q of Waits \<Rightarrow> [Blocked] | Panics \<Rightarrow> [Crashed] | Goes (fr, q') \<Rightarrow> Got fr # queue_run ops q')"
| "queue_run (OpDrain # ops) q = queue_run ops (queue_Drain q)"

fun spec_run :: "nat \<Rightarrow> queue_op list \<Rightarrow> pending \<Rightarrow> bool \<Rightarrow> queue_out list" where
  "spec_run n [] xs d = []"
| "spec_run n (OpPush fr p # ops) xs d =
    (if length xs \<ge> n then [Blocked] else spec_run n ops (spec_push fr p xs) d)"
| "spec_run n (OpPop # ops) xs d =
    (case xs of [] \<Rightarrow> if d then Got None # spec_run n ops [] d else [Blocked]
     | x # xs \<Rightarrow> Got (Some (fst x)) # spec_run n ops xs d)"
| "spec_run n (OpDrain # ops) xs d = spec_run n ops xs True"

lemma length_abstract [simp]: "length (abstract_queue q) = length (pq_queue q)"
  by (simp add: abstract_queue_def by_urgency_def)

lemma queue_run_spec:
  "queue_inv q \<Longrightarrow> unat (pq_nextInsertId q) + length ops < 2 ^ 64 \<Longrightarrow>
   queue_run ops q = spec_run (pq_size q) ops (abstract_queue q) (pq_drain q)"
proof (induction ops arbitrary: q)
  case (Cons op ops)
  show ?case
  proof (cases op)
    case (OpPush fr p)
    show ?thesis
    proof (cases "length (pq_queue q) < pq_size q")
      case True
      have "unat (- 1 :: uint64) = 2 ^ 64 - 1" by (simp add: unsigned_minus_1_eq_mask mask_eq_exp_minus_1)
      then have "pq_nextInsertId q \<noteq> - 1" using Cons.prems(2) by auto
      from queue_Push_step[OF Cons.prems(1) True this, of fr p] obtain q' where q': "queue_Push fr p q = Goes q'" "queue_inv q'"
        "abstract_queue q' = spec_push fr p (abstract_queue q)" "pq_size q' = pq_size q" "pq_drain q' = pq_drain q"
        "pq_nextInsertId q' = pq_nextInsertId q + 1" by blast
      have "unat (pq_nextInsertId q') \<le> Suc (unat (pq_nextInsertId q))"
        unfolding q'(6) by (metis add.commute le_refl nat_le_linear not_less_eq_eq unatSuc unat_0 zero_le)
      then show ?thesis using Cons.IH[OF q'(2)] Cons.prems(2) q' True OpPush by simp
    next
      case False
      then show ?thesis using OpPush by (simp add: queue_Push_def fq_Len_def)
    qed
  next
    case OpPop
    show ?thesis
    proof (cases "pq_queue q = []")
      case True
      then have "abstract_queue q = []" by (simp add: abstract_queue_def by_urgency_def)
      then show ?thesis using True Cons OpPop by (simp add: queue_Pop_def fq_Len_def)
    next
      case False
      from queue_Pop_step[OF Cons.prems(1) this] obtain q' where
        q': "queue_Pop q = Goes (Some (fst (hd (abstract_queue q))), q')" "queue_inv q'" "abstract_queue q' = tl (abstract_queue q)"
        "pq_size q' = pq_size q" "pq_drain q' = pq_drain q" "pq_nextInsertId q' = pq_nextInsertId q" by blast
      have "abstract_queue q \<noteq> []" using False by (metis length_0_conv length_abstract)
      then show ?thesis using Cons.IH[OF q'(2)] Cons.prems(2) q' OpPop by (cases "abstract_queue q") simp_all
    qed
  next
    case OpDrain
    have "queue_inv (queue_Drain q)" "abstract_queue (queue_Drain q) = abstract_queue q"
      using Cons.prems(1) by (simp_all add: queue_inv_def queue_Drain_def abstract_queue_def)
    then show ?thesis using Cons.IH[of "queue_Drain q"] Cons.prems(2) OpDrain by (simp add: queue_Drain_def)
  qed
qed simp

subsection \<open>Properties\<close>

text \<open>C9. The frame queue is a bounded priority queue that keeps the order of insertion within a priority:
  any sequence of fewer than 2 to the 64th operations on a new queue gives the results of the abstract list,
  in which \<open>Push\<close> waits at \<open>size\<close> frames, \<open>Pop\<close> takes the head and waits, or returns nil once the queue
  drains, when there is none. No operation panics.\<close>

theorem frame_queue_refines:
  assumes "length ops < 2 ^ 64"
  shows "queue_run ops (NewPriorityFrameQueue n) = spec_run n ops [] False"
proof -
  have "unat (pq_nextInsertId (NewPriorityFrameQueue n)) = 0" "abstract_queue (NewPriorityFrameQueue n) = []"
    "pq_size (NewPriorityFrameQueue n) = n" "\<not> pq_drain (NewPriorityFrameQueue n)"
    by (simp_all add: NewPriorityFrameQueue_def abstract_queue_def by_urgency_def)
  then show ?thesis using queue_run_spec[OF new_queue_inv[of n], of ops] assms by simp
qed

definition ex_ping :: "32 word \<Rightarrow> frame" where
  "ex_ping i = PingFrame \<lparr>fp_CFHeader = \<lparr>ch_version = Version, ch_frameType = TypePing, ch_Flags = 0, ch_length = 4\<rparr>, fp_Id = i\<rparr>"

theorem frame_queue_refines_witness:
  "queue_run [OpPush (ex_ping 1) 7, OpPush (ex_ping 2) 0, OpPush (ex_ping 3) 7, OpPop, OpPop, OpPop, OpDrain, OpPop]
      (NewPriorityFrameQueue 3) =
    [Got (Some (ex_ping 2)), Got (Some (ex_ping 1)), Got (Some (ex_ping 3)), Got None]"
  by (subst frame_queue_refines) (simp_all add: spec_push_def)

end
