(* ===== verification/SpdyRead.thy ===== *)
theory SpdyRead
  imports SpdyFrame
begin

text \<open>
  go.net/spdy, read.go: the reading of frames. A reading function of the framer returns its result
  and the framer; the bytes a failed read has taken are gone. \<open>Add\<close> of \<open>http.Header\<close> puts a value under
  the canonical form of the name, as the documentation of \<open>CanonicalMIMEHeaderKey\<close> states it.
\<close>

unbundle bit_operations_syntax

subsection \<open>Headers\<close>

definition token_byte :: "byte \<Rightarrow> bool" where
  "token_byte b \<longleftrightarrow> 0x30 \<le> b \<and> b \<le> 0x39 \<or> 0x41 \<le> b \<and> b \<le> 0x5A \<or> 0x61 \<le> b \<and> b \<le> 0x7A \<or>
    b \<in> {0x21, 0x23, 0x24, 0x25, 0x26, 0x27, 0x2A, 0x2B, 0x2D, 0x2E, 0x5E, 0x5F, 0x60, 0x7C, 0x7E}"

fun canonical :: "bool \<Rightarrow> bytes \<Rightarrow> bytes" where
  "canonical upper [] = []"
| "canonical upper (b # bs) =
    (if upper \<and> 0x61 \<le> b \<and> b \<le> 0x7A then b - 0x20
     else if \<not> upper \<and> 0x41 \<le> b \<and> b \<le> 0x5A then b + 0x20 else b) # canonical (b = 0x2D) bs"

definition CanonicalMIMEHeaderKey :: "bytes \<Rightarrow> bytes" where
  "CanonicalMIMEHeaderKey s = (if list_all token_byte s then canonical True s else s)"

definition header_add :: "bytes \<Rightarrow> bytes \<Rightarrow> header \<Rightarrow> header" where
  "header_add name v h =
    (let key = CanonicalMIMEHeaderKey name in
     AList.update key ((case map_of h key of None \<Rightarrow> [] | Some vs \<Rightarrow> vs) @ [v]) h)"

text \<open>\<open>n\<close> headers are left to read; \<open>e\<close> is the error found so far. A read that fails gives up the header.\<close>

fun parse_headers :: "nat \<Rightarrow> stream_id \<Rightarrow> header \<Rightarrow> wire_error option \<Rightarrow> (wire_error option \<times> header) reading" where
  "parse_headers 0 sid h e = got (e, h)"
| "parse_headers (Suc n) sid h e =
    and_read Read32 (\<lambda>length.
    and_read (ReadFull (unat length)) (\<lambda>nameBytes.
      let lower = to_lower nameBytes;
          e1 = (if nameBytes \<noteq> lower then Some (SpdyError UnlowercasedHeaderName sid) else e);
          e2 = (if map_of h lower \<noteq> None then Some (SpdyError DuplicateHeaders sid) else e1) in
    and_read Read32 (\<lambda>length.
    and_read (ReadFull (unat length)) (\<lambda>value.
      parse_headers n sid (fold (header_add lower) (Split value headerValueSeparator) h) e2))))"

definition parseHeaderValueBlock :: "stream_id \<Rightarrow> (wire_error option \<times> header) reading" where
  "parseHeaderValueBlock sid = and_read Read32 (\<lambda>numHeaders. parse_headers (unat numHeaders) sid [] None)"

definition http_name :: "string \<Rightarrow> bytes" where
  "http_name s = map (\<lambda>c. word_of_nat (of_char c)) s"

definition invalidReqHeaders :: "bytes list" where
  "invalidReqHeaders = map http_name [''Connection'', ''Host'', ''Keep-Alive'', ''Proxy-Connection'', ''Transfer-Encoding'']"

definition invalidRespHeaders :: "bytes list" where
  "invalidRespHeaders = map http_name [''Connection'', ''Keep-Alive'', ''Proxy-Connection'', ''Transfer-Encoding'']"

subsection \<open>The framer's reader\<close>

type_synonym ('a, 'c, 'd) frame_read = "('c, 'd) framer \<Rightarrow> (wire_error + 'a) \<times> ('c, 'd) framer"

definition on_reader :: "'a reading \<Rightarrow> ('a, 'c, 'd) frame_read" where
  "on_reader a f = (case a (fm_r f) of (x, r) \<Rightarrow> (x, f\<lparr>fm_r := r\<rparr>))"

definition and_frame :: "('a, 'c, 'd) frame_read \<Rightarrow> ('a \<Rightarrow> ('b, 'c, 'd) frame_read) \<Rightarrow> ('b, 'c, 'd) frame_read" where
  "and_frame a k f = (case a f of (Inl e, f') \<Rightarrow> (Inl e, f') | (Inr x, f') \<Rightarrow> k x f')"

definition frame_error :: "error_code \<Rightarrow> stream_id \<Rightarrow> ('a, 'c, 'd) frame_read" where
  "frame_error c sid f = (Inl (SpdyError c sid), f)"

definition frame_done :: "'a \<Rightarrow> ('a, 'c, 'd) frame_read" where
  "frame_done x f = (Inr x, f)"

definition uncorkHeaderDecompressor :: "('c, 'd) zlib \<Rightarrow> nat \<Rightarrow> ('c, 'd) framer \<Rightarrow> wire_error option \<times> ('c, 'd) framer" where
  "uncorkHeaderDecompressor zl payloadSize f =
    (if fm_headerDecompressor f \<noteq> None then (None, f\<lparr>fm_N := payloadSize\<rparr>)
     else case zl_new_reader zl (take payloadSize (fm_r f)) of
       (Inl err, k) \<Rightarrow> (Some (ZlibError err), f\<lparr>fm_r := drop k (fm_r f), fm_N := payloadSize - k\<rparr>)
     | (Inr d, k) \<Rightarrow> (None, f\<lparr>fm_r := drop k (fm_r f), fm_N := payloadSize - k, fm_headerDecompressor := Some (d, [])\<rparr>))"

text \<open>\<open>parseHeaderValueBlock\<close> on the decompressor: what the payload inflates to goes behind what was left.\<close>

definition parse_inflated ::
  "('c, 'd) zlib \<Rightarrow> stream_id \<Rightarrow> 'd \<times> bytes \<Rightarrow> (wire_error option \<times> header, 'c, 'd) frame_read"
where
  "parse_inflated zl sid = (\<lambda>(d, left) f.
    let payload = take (fm_N f) (fm_r f) in
    case zl_inflate zl d payload of
      (data, unread, d') \<Rightarrow>
        (case parseHeaderValueBlock sid (left @ data) of
           (x, left') \<Rightarrow> (x, f\<lparr>fm_r := drop (length payload - unread) (fm_r f),
             fm_N := fm_N f - (length payload - unread), fm_headerDecompressor := Some (d', left')\<rparr>)))"

text \<open>The part the three reading functions share: the header block of a payload of \<open>payloadSize\<close> bytes.\<close>

definition read_headers :: "('c, 'd) zlib \<Rightarrow> nat \<Rightarrow> stream_id \<Rightarrow> (header, 'c, 'd) frame_read" where
  "read_headers zl payloadSize sid f =
    (if fm_headerCompressionDisabled f then
       (case on_reader (parseHeaderValueBlock sid) f of
          (Inl e, f) \<Rightarrow> (Inl e, f)
        | (Inr (Some e, h), f) \<Rightarrow> (Inl e, f)
        | (Inr (None, h), f) \<Rightarrow> (Inr h, f))
     else case uncorkHeaderDecompressor zl payloadSize f of
       (Some e, f) \<Rightarrow> (Inl e, f)
     | (None, f) \<Rightarrow>
         (case parse_inflated zl sid (the (fm_headerDecompressor f)) f of
            (x, f) \<Rightarrow>
              let err = (case x of Inl e \<Rightarrow> Some e | Inr (e, h) \<Rightarrow> e);
                  err = (if err = Some EOF \<and> fm_N f = 0 \<or> fm_N f \<noteq> 0 then Some (SpdyError WrongCompressedPayloadSize 0) else err) in
              (case err of Some e \<Rightarrow> (Inl e, f) | None \<Rightarrow> (case x of Inr (e, h) \<Rightarrow> (Inr h, f) | Inl e \<Rightarrow> (Inl e, f)))))"

definition has_header :: "bytes list \<Rightarrow> header \<Rightarrow> bool" where
  "has_header names h \<longleftrightarrow> list_ex (\<lambda>(n, vs). n \<in> set names) h"

subsection \<open>Reading each frame\<close>

definition read_rst :: "control_header \<Rightarrow> (rst_stream_frame, 'c, 'd) frame_read" where
  "read_rst h = and_frame (on_reader Read32) (\<lambda>sid.
    and_frame (on_reader Read32) (\<lambda>status.
    if status = 0 then frame_error InvalidControlFrame sid
    else if sid = 0 then frame_error ZeroStreamId 0
    else frame_done \<lparr>fr_CFHeader = h, fr_StreamId = sid, fr_Status = status\<rparr>))"

fun read_settings_values :: "nat \<Rightarrow> setting list reading" where
  "read_settings_values 0 = got []"
| "read_settings_values (Suc n) =
    and_read Read32 (\<lambda>flagId.
    and_read Read32 (\<lambda>value.
    and_read (read_settings_values n) (\<lambda>vs.
      got (\<lparr>fi_Flag = ucast (drop_bit 24 (flagId AND 0xff000000)), fi_Id = flagId AND 0xffffff, fi_Value = value\<rparr> # vs))))"

definition read_settings :: "control_header \<Rightarrow> (settings_frame, 'c, 'd) frame_read" where
  "read_settings h = and_frame (on_reader Read32) (\<lambda>numSettings.
    and_frame (on_reader (read_settings_values (unat numSettings))) (\<lambda>vs.
    frame_done \<lparr>ft_CFHeader = h, ft_FlagIdValues = vs\<rparr>))"

definition read_ping :: "control_header \<Rightarrow> (ping_frame, 'c, 'd) frame_read" where
  "read_ping h = and_frame (on_reader Read32) (\<lambda>id.
    if id = 0 then frame_error ZeroStreamId 0
    else if ch_Flags h \<noteq> 0 then frame_error InvalidControlFrame id
    else frame_done \<lparr>fp_CFHeader = h, fp_Id = id\<rparr>)"

definition read_go_away :: "control_header \<Rightarrow> (go_away_frame, 'c, 'd) frame_read" where
  "read_go_away h = and_frame (on_reader Read32) (\<lambda>sid.
    if ch_Flags h \<noteq> 0 then frame_error InvalidControlFrame sid
    else if ch_length h \<noteq> 8 then frame_error InvalidControlFrame sid
    else and_frame (on_reader Read32) (\<lambda>status.
      frame_done \<lparr>fg_CFHeader = h, fg_LastGoodStreamId = sid, fg_Status = status\<rparr>))"

definition read_window_update :: "control_header \<Rightarrow> (window_update_frame, 'c, 'd) frame_read" where
  "read_window_update h = and_frame (on_reader Read32) (\<lambda>sid.
    if ch_Flags h \<noteq> 0 then frame_error InvalidControlFrame sid
    else if ch_length h \<noteq> 8 then frame_error InvalidControlFrame sid
    else and_frame (on_reader Read32) (\<lambda>delta.
      frame_done \<lparr>fw_CFHeader = h, fw_StreamId = sid, fw_DeltaWindowSize = delta\<rparr>))"

definition readSynStreamFrame :: "('c, 'd) zlib \<Rightarrow> control_header \<Rightarrow> (syn_stream_frame, 'c, 'd) frame_read" where
  "readSynStreamFrame zl h = and_frame (on_reader Read32) (\<lambda>sid.
    and_frame (on_reader Read32) (\<lambda>assoc.
    and_frame (on_reader Read8) (\<lambda>priority.
    and_frame (on_reader Read8) (\<lambda>slot.
    and_frame (read_headers zl (unat (ch_length h - 10)) sid) (\<lambda>headers.
    if has_header invalidReqHeaders headers then frame_error InvalidHeaderPresent sid
    else if sid = 0 then frame_error ZeroStreamId 0
    else frame_done \<lparr>fs_CFHeader = h, fs_StreamId = sid, fs_AssociatedToStreamId = assoc,
      fs_Priority = drop_bit 5 priority, fs_Slot = slot, fs_Headers = headers\<rparr>)))))"

definition readSynReplyFrame :: "('c, 'd) zlib \<Rightarrow> control_header \<Rightarrow> (syn_reply_frame, 'c, 'd) frame_read" where
  "readSynReplyFrame zl h = and_frame (on_reader Read32) (\<lambda>sid.
    and_frame (read_headers zl (unat (ch_length h - 4)) sid) (\<lambda>headers.
    if has_header invalidRespHeaders headers then frame_error InvalidHeaderPresent sid
    else if sid = 0 then frame_error ZeroStreamId 0
    else frame_done \<lparr>fy_CFHeader = h, fy_StreamId = sid, fy_Headers = headers\<rparr>))"

definition readHeadersFrame :: "('c, 'd) zlib \<Rightarrow> control_header \<Rightarrow> (headers_frame, 'c, 'd) frame_read" where
  "readHeadersFrame zl h = and_frame (on_reader Read32) (\<lambda>sid.
    and_frame (read_headers zl (unat (ch_length h - 4)) sid) (\<lambda>headers.
    if has_header (if sid mod 2 = 0 then invalidReqHeaders else invalidRespHeaders) headers
    then frame_error InvalidHeaderPresent sid
    else if sid = 0 then frame_error ZeroStreamId 0
    else frame_done \<lparr>fh_CFHeader = h, fh_StreamId = sid, fh_Headers = headers\<rparr>))"

subsection \<open>\<open>ReadFrame\<close>\<close>

definition frame_map :: "('a \<Rightarrow> 'b) \<Rightarrow> ('a, 'c, 'd) frame_read \<Rightarrow> ('b, 'c, 'd) frame_read" where
  "frame_map g a = and_frame a (\<lambda>x. frame_done (g x))"

text \<open>The constructor that \<open>newControlFrame\<close> finds for a type, with the frame's \<open>read\<close>.\<close>

definition read_control :: "('c, 'd) zlib \<Rightarrow> control_header \<Rightarrow> (frame, 'c, 'd) frame_read" where
  "read_control zl h =
    (let t = ch_frameType h in
     if t = TypeSynStream then frame_map SynStreamFrame (readSynStreamFrame zl h)
     else if t = TypeSynReply then frame_map SynReplyFrame (readSynReplyFrame zl h)
     else if t = TypeRstStream then frame_map RstStreamFrame (read_rst h)
     else if t = TypeSettings then frame_map SettingsFrame (read_settings h)
     else if t = TypePing then frame_map PingFrame (read_ping h)
     else if t = TypeGoAway then frame_map GoAwayFrame (read_go_away h)
     else if t = TypeHeaders then frame_map HeadersFrame (readHeadersFrame zl h)
     else if t = TypeWindowUpdate then frame_map WindowUpdateFrame (read_window_update h)
     else frame_error InvalidControlFrame 0)"

definition parseControlFrame :: "('c, 'd) zlib \<Rightarrow> 16 word \<Rightarrow> 16 word \<Rightarrow> (frame, 'c, 'd) frame_read" where
  "parseControlFrame zl version frameType = and_frame (on_reader Read32) (\<lambda>len.
    read_control zl \<lparr>ch_version = version, ch_frameType = frameType,
      ch_Flags = ucast (drop_bit 24 (len AND 0xff000000)), ch_length = len AND 0xffffff\<rparr>)"

definition parseDataFrame :: "stream_id \<Rightarrow> (data_frame, 'c, 'd) frame_read" where
  "parseDataFrame sid = and_frame (on_reader Read32) (\<lambda>len.
    and_frame (on_reader (ReadFull (unat (len AND 0xffffff)))) (\<lambda>data.
    if sid = 0 then frame_error ZeroStreamId 0
    else frame_done \<lparr>fd_StreamId = sid, fd_Flags = ucast (drop_bit 24 len), fd_Data = data\<rparr>))"

definition ReadFrame :: "('c, 'd) zlib \<Rightarrow> (frame, 'c, 'd) frame_read" where
  "ReadFrame zl = and_frame (on_reader Read32) (\<lambda>firstWord.
    if firstWord AND 0x80000000 \<noteq> 0 then
      parseControlFrame zl (ucast (drop_bit 16 firstWord AND 0x7fff)) (ucast (firstWord AND 0xffff))
    else frame_map DataFrame (parseDataFrame (firstWord AND 0x7fffffff)))"

end
