(* ===== verification/SpdyStream.thy ===== *)
theory SpdyStream
  imports FrameQueue SpdyRead
begin

text \<open>
  docker/spdystream, connection.go and stream.go: a SPDY connection and its streams. A stream is a
  cell of the connection's memory, reached through the map of open streams or through a pointer the
  caller keeps. Each operation is one step, as the locks make it one for the fields it writes.
  Channels without buffer: data or a header is handed over when a reader takes it, so the reader's
  inbox gets it in the same step; a send for which no reader has come is \<open>Stuck\<close>, in the state
  reached. A \<open>go\<close> statement adds to a list of goroutines.
\<close>

unbundle bit_operations_syntax

subsection \<open>State\<close>

record stream =
  sm_streamId :: stream_id
  sm_parent :: "ref option"
  sm_startClosed :: bool
  sm_startErrs :: "string list"
  sm_dataClosed :: bool
  sm_inbox :: "bytes list"
  sm_unread :: "bytes option"
  sm_priority :: uint8
  sm_headers :: header
  sm_headerInbox :: "header list"
  sm_finished :: bool
  sm_canReply :: bool
  sm_replied :: bool
  sm_closed :: bool

record ('c, 'd) connection =
  cn_framer :: "('c, 'd) framer"
  cn_closed :: bool
  cn_goneAway :: bool
  cn_streams :: "stream_id \<rightharpoonup> ref"
  cn_mem :: "ref \<Rightarrow> stream"
  cn_next :: ref
  cn_nextStreamId :: stream_id
  cn_receivedStreamId :: stream_id
  cn_pingId :: "32 word"
  cn_pingChans :: "32 word \<rightharpoonup> bool"
  cn_resets :: "(32 word \<times> stream_id) list"
  cn_goAwayTimeout :: int
  cn_closeTimeout :: int
  cn_lastStreamChan :: bool
  cn_lastStreams :: "ref option list"
  cn_shutdowns :: "int list"
  cn_hasShutdown :: bool
  cn_connClosed :: bool
  cn_waiting :: nat
  cn_shutdownErrs :: "string list"
  cn_shutdownClosed :: bool

text \<open>A step has finished, waits in a send or for a reply, or has panicked; with the state reached.\<close>

datatype 's step = Ok 's | Stuck 's | Crash panic 's

fun step_state :: "'s step \<Rightarrow> 's" where
  "step_state (Ok s) = s"
| "step_state (Stuck s) = s"
| "step_state (Crash p s) = s"

fun and_step :: "'s step \<Rightarrow> ('s \<Rightarrow> 's step) \<Rightarrow> 's step" where
  "and_step (Ok s) f = f s"
| "and_step (Stuck s) f = Stuck s"
| "and_step (Crash p s) f = Crash p s"

definition FRAME_WORKERS :: "32 word" where "FRAME_WORKERS = 5"
definition QUEUE_SIZE :: nat where "QUEUE_SIZE = 50"
definition ErrTimeout :: string where "ErrTimeout = ''Timeout occured''"
definition ErrReset :: string where "ErrReset = ''Stream reset''"
definition ErrWriteClosedStream :: string where "ErrWriteClosedStream = ''Write on closed stream''"
definition ErrUnreadPartialData :: string where "ErrUnreadPartialData = ''unread partial data''"
definition ProtocolError :: "32 word" where "ProtocolError = 1"
definition RefusedStream :: "32 word" where "RefusedStream = 3"
definition CancelStatus :: "32 word" where "CancelStatus = 5"

definition blank_stream :: stream where
  "blank_stream = \<lparr>sm_streamId = 0, sm_parent = None, sm_startClosed = False, sm_startErrs = [], sm_dataClosed = False,
     sm_inbox = [], sm_unread = None, sm_priority = 0, sm_headers = [], sm_headerInbox = [], sm_finished = False,
     sm_canReply = False, sm_replied = False, sm_closed = False\<rparr>"

definition NewConnection :: "('c, 'd) framer \<Rightarrow> bool \<Rightarrow> ('c, 'd) connection" where
  "NewConnection framer server =
    \<lparr>cn_framer = framer, cn_closed = False, cn_goneAway = False, cn_streams = Map.empty, cn_mem = (\<lambda>_. blank_stream),
     cn_next = 0, cn_nextStreamId = (if server then 2 else 1), cn_receivedStreamId = (if server then 1 else 2),
     cn_pingId = (if server then 2 else 1), cn_pingChans = Map.empty, cn_resets = [], cn_goAwayTimeout = 0,
     cn_closeTimeout = 0, cn_lastStreamChan = False, cn_lastStreams = [], cn_shutdowns = [], cn_hasShutdown = False,
     cn_connClosed = False, cn_waiting = 0, cn_shutdownErrs = [], cn_shutdownClosed = False\<rparr>"

subsection \<open>Ids and the map of streams\<close>

definition PeekNextStreamId :: "('c, 'd) connection \<Rightarrow> stream_id" where
  "PeekNextStreamId s = cn_nextStreamId s"

definition getNextStreamId :: "('c, 'd) connection \<Rightarrow> stream_id \<times> ('c, 'd) connection" where
  "getNextStreamId s =
    (let sid = cn_nextStreamId s in
     if sid > 0x7fffffff then (0, s) else (sid, s\<lparr>cn_nextStreamId := cn_nextStreamId s + 2\<rparr>))"

definition validateStreamId :: "stream_id \<Rightarrow> ('c, 'd) connection \<Rightarrow> bool \<times> ('c, 'd) connection" where
  "validateStreamId rid s =
    (if rid > 0x7fffffff \<or> rid < cn_receivedStreamId s then (False, s)
     else (True, s\<lparr>cn_receivedStreamId := rid + 2\<rparr>))"

definition upd_stream :: "ref \<Rightarrow> (stream \<Rightarrow> stream) \<Rightarrow> ('c, 'd) connection \<Rightarrow> ('c, 'd) connection" where
  "upd_stream r f s = s\<lparr>cn_mem := (cn_mem s)(r := f (cn_mem s r))\<rparr>"

definition addStream :: "stream \<Rightarrow> ('c, 'd) connection \<Rightarrow> ref \<times> ('c, 'd) connection" where
  "addStream st s =
    (let r = cn_next s in
     (r, s\<lparr>cn_mem := (cn_mem s)(r := st), cn_next := r + 1, cn_streams := (cn_streams s)(sm_streamId st \<mapsto> r)\<rparr>))"

definition removeStream :: "ref \<Rightarrow> ('c, 'd) connection \<Rightarrow> ('c, 'd) connection" where
  "removeStream r s = s\<lparr>cn_streams := (cn_streams s)(sm_streamId (cn_mem s r) := None)\<rparr>"

definition getStream :: "('c, 'd) connection \<Rightarrow> stream_id \<Rightarrow> ref option" where
  "getStream s sid = cn_streams s sid"

definition getStreamPriority :: "('c, 'd) connection \<Rightarrow> stream_id \<Rightarrow> uint8" where
  "getStreamPriority s sid = (case getStream s sid of None \<Rightarrow> 7 | Some r \<Rightarrow> sm_priority (cn_mem s r))"

subsection \<open>Closing channels\<close>

text \<open>\<open>close\<close> of a closed channel panics, and so does a send to one.\<close>

definition close_data :: "ref \<Rightarrow> ('c, 'd) connection \<Rightarrow> ('c, 'd) connection step" where
  "close_data r s =
    (if sm_dataClosed (cn_mem s r) then Crash CloseOfClosedChannel s
     else let s1 = upd_stream r (\<lambda>t. t\<lparr>sm_dataClosed := True\<rparr>) s in
       if sm_closed (cn_mem s r) then Crash CloseOfClosedChannel s1
       else Ok (upd_stream r (\<lambda>t. t\<lparr>sm_closed := True\<rparr>) s1))"

text \<open>\<open>select\<close> on \<open>closeChan\<close> with the default of closing both channels.\<close>

definition close_once :: "ref \<Rightarrow> ('c, 'd) connection \<Rightarrow> ('c, 'd) connection step" where
  "close_once r s = (if sm_closed (cn_mem s r) then Ok s else close_data r s)"

definition close_start :: "ref \<Rightarrow> ('c, 'd) connection \<Rightarrow> ('c, 'd) connection step" where
  "close_start r s =
    (if sm_startClosed (cn_mem s r) then Crash CloseOfClosedChannel s
     else Ok (upd_stream r (\<lambda>t. t\<lparr>sm_startClosed := True\<rparr>) s))"

definition remoteStreamFinish :: "ref \<Rightarrow> ('c, 'd) connection \<Rightarrow> ('c, 'd) connection step" where
  "remoteStreamFinish r s =
    and_step (close_once r s) (\<lambda>s. Ok (if sm_finished (cn_mem s r) then removeStream r s else s))"

subsection \<open>Streams opened by the peer\<close>

definition addStreamFrame :: "syn_stream_frame \<Rightarrow> ('c, 'd) connection \<Rightarrow> ('c, 'd) connection" where
  "addStreamFrame fr s =
    (let parent = (if fs_AssociatedToStreamId fr \<noteq> 0 then getStream s (fs_AssociatedToStreamId fr) else None);
         fin = ch_Flags (fs_CFHeader fr) AND 0x01 \<noteq> 0;
         st = blank_stream\<lparr>sm_streamId := fs_StreamId fr, sm_parent := parent, sm_headers := fs_Headers fr,
                sm_finished := (ch_Flags (fs_CFHeader fr) AND 0x02 \<noteq> 0), sm_canReply := True,
                sm_dataClosed := fin, sm_closed := fin\<rparr> in
     snd (addStream st s))"

definition checkStreamFrame :: "syn_stream_frame \<Rightarrow> ('c, 'd) connection \<Rightarrow> bool \<times> ('c, 'd) connection" where
  "checkStreamFrame fr s =
    (if cn_goneAway s then (False, s)
     else case validateStreamId (fs_StreamId fr) s of
       (False, s) \<Rightarrow> (False, s\<lparr>cn_resets := cn_resets s @ [(ProtocolError, fs_StreamId fr)]\<rparr>)
     | (True, s) \<Rightarrow> (True, s))"

subsection \<open>Handling received frames\<close>

definition handleReplyFrame :: "syn_reply_frame \<Rightarrow> ('c, 'd) connection \<Rightarrow> ('c, 'd) connection step" where
  "handleReplyFrame fr s =
    (case getStream s (fy_StreamId fr) of
       None \<Rightarrow> Ok s
     | Some r \<Rightarrow>
         if sm_replied (cn_mem s r) then Ok s
         else
           let s = upd_stream r (\<lambda>t. t\<lparr>sm_replied := True\<rparr>) s in
           and_step (if ch_Flags (fy_CFHeader fr) AND 0x01 \<noteq> 0 then remoteStreamFinish r s else Ok s) (close_start r))"

text \<open>\<open>waiting\<close>: somebody waits for the stream's reply and takes the error.\<close>

definition handleResetFrame :: "bool \<Rightarrow> rst_stream_frame \<Rightarrow> ('c, 'd) connection \<Rightarrow> ('c, 'd) connection step" where
  "handleResetFrame waiting fr s =
    (case getStream s (fr_StreamId fr) of
       None \<Rightarrow> Ok s
     | Some r \<Rightarrow>
         and_step (close_once r (removeStream r s)) (\<lambda>s.
         and_step
           (if sm_replied (cn_mem s r) then Ok s
            else
              let s = upd_stream r (\<lambda>t. t\<lparr>sm_replied := True\<rparr>) s in
              if sm_startClosed (cn_mem s r) then Crash SendOnClosedChannel s
              else if \<not> waiting then Stuck s
              else close_start r (upd_stream r (\<lambda>t. t\<lparr>sm_startErrs := sm_startErrs t @ [ErrReset]\<rparr>) s))
           (\<lambda>s. Ok (upd_stream r (\<lambda>t. t\<lparr>sm_finished := True\<rparr>) s))))"

text \<open>\<open>reading\<close>: a reader takes what the handler sends.\<close>

definition handleHeaderFrame :: "bool \<Rightarrow> headers_frame \<Rightarrow> ('c, 'd) connection \<Rightarrow> ('c, 'd) connection step" where
  "handleHeaderFrame reading fr s =
    (case getStream s (fh_StreamId fr) of
       None \<Rightarrow> Ok s
     | Some r \<Rightarrow>
         if \<not> sm_replied (cn_mem s r) then Ok s
         else if sm_closed (cn_mem s r) then Ok s
         else if \<not> reading then Stuck s
         else
           let s = upd_stream r (\<lambda>t. t\<lparr>sm_headerInbox := sm_headerInbox t @ [fh_Headers fr]\<rparr>) s in
           if ch_Flags (fh_CFHeader fr) AND 0x01 \<noteq> 0 then remoteStreamFinish r s else Ok s)"

definition handleDataFrame :: "bool \<Rightarrow> data_frame \<Rightarrow> ('c, 'd) connection \<Rightarrow> ('c, 'd) connection step" where
  "handleDataFrame reading fr s =
    (case getStream s (fd_StreamId fr) of
       None \<Rightarrow> Ok s
     | Some r \<Rightarrow>
         if \<not> sm_replied (cn_mem s r) then Ok s
         else
           and_step
             (if fd_Data fr \<noteq> [] \<and> \<not> sm_closed (cn_mem s r) then
                if sm_dataClosed (cn_mem s r) then Crash SendOnClosedChannel s
                else if \<not> reading then Stuck s
                else Ok (upd_stream r (\<lambda>t. t\<lparr>sm_inbox := sm_inbox t @ [fd_Data fr]\<rparr>) s)
              else Ok s)
             (\<lambda>s. if fd_Flags fr AND 0x01 \<noteq> 0 then remoteStreamFinish r s else Ok s))"

definition write_frame :: "('c, 'd) zlib \<Rightarrow> frame \<Rightarrow> ('c, 'd) connection \<Rightarrow> wire_error option \<times> ('c, 'd) connection" where
  "write_frame zl fr s =
    (case WriteFrame zl fr (cn_framer s) of (fr', err, framer) \<Rightarrow> (err, s\<lparr>cn_framer := framer\<rparr>))"

definition handlePingFrame :: "('c, 'd) zlib \<Rightarrow> ping_frame \<Rightarrow> ('c, 'd) connection \<Rightarrow> ('c, 'd) connection step" where
  "handlePingFrame zl fr s =
    (if cn_pingId s AND 0x01 \<noteq> fp_Id fr AND 0x01 then Ok (snd (write_frame zl (PingFrame fr) s))
     else case cn_pingChans s (fp_Id fr) of
       None \<Rightarrow> Ok s
     | Some True \<Rightarrow> Crash CloseOfClosedChannel s
     | Some False \<Rightarrow> Ok (s\<lparr>cn_pingChans := (cn_pingChans s)(fp_Id fr \<mapsto> True)\<rparr>))"

definition handleGoAwayFrame :: "go_away_frame \<Rightarrow> ('c, 'd) connection \<Rightarrow> ('c, 'd) connection step" where
  "handleGoAwayFrame fr s =
    (if cn_goneAway s then Ok s
     else
       let s = s\<lparr>cn_goneAway := True\<rparr>;
           s = (if cn_lastStreamChan s
                then s\<lparr>cn_lastStreams := cn_lastStreams s @ [getStream s (fg_LastGoodStreamId fr)]\<rparr> else s) in
       Ok (s\<lparr>cn_shutdowns := cn_shutdowns s @ [cn_goAwayTimeout s]\<rparr>))"

text \<open>The handler of new streams is the connection's user.\<close>

definition handleStreamFrame ::
  "(ref \<Rightarrow> ('c, 'd) connection \<Rightarrow> ('c, 'd) connection step) \<Rightarrow> syn_stream_frame \<Rightarrow> ('c, 'd) connection \<Rightarrow> ('c, 'd) connection step"
where
  [simp]: "handleStreamFrame newHandler fr s = (case getStream s (fs_StreamId fr) of None \<Rightarrow> Ok s | Some r \<Rightarrow> newHandler r s)"

text \<open>\<open>frameHandler\<close> on one frame.\<close>

fun handleFrame ::
  "('c, 'd) zlib \<Rightarrow> (ref \<Rightarrow> ('c, 'd) connection \<Rightarrow> ('c, 'd) connection step) \<Rightarrow> bool \<Rightarrow> frame \<Rightarrow>
   ('c, 'd) connection \<Rightarrow> ('c, 'd) connection step"
where
  "handleFrame zl newHandler reading (SynStreamFrame fr) s = handleStreamFrame newHandler fr s"
| "handleFrame zl newHandler reading (SynReplyFrame fr) s = handleReplyFrame fr s"
| "handleFrame zl newHandler reading (DataFrame fr) s = handleDataFrame reading fr s"
| "handleFrame zl newHandler reading (RstStreamFrame fr) s = handleResetFrame reading fr s"
| "handleFrame zl newHandler reading (HeadersFrame fr) s = handleHeaderFrame reading fr s"
| "handleFrame zl newHandler reading (PingFrame fr) s = handlePingFrame zl fr s"
| "handleFrame zl newHandler reading (GoAwayFrame fr) s = handleGoAwayFrame fr s"
| "handleFrame zl newHandler reading fr s = Ok s"

subsection \<open>\<open>Serve\<close>\<close>

text \<open>Where a frame that has been read goes: the worker's queue and the priority there, None for a stream
  that is refused. \<open>rr\<close> is the round-robin counter for frames without a stream.\<close>

definition of_stream :: "stream_id \<Rightarrow> ('c, 'd) connection \<Rightarrow> nat \<times> uint8" where
  "of_stream sid s = (unat (sid mod FRAME_WORKERS), getStreamPriority s sid)"

fun serve_frame ::
  "frame \<Rightarrow> nat \<Rightarrow> ('c, 'd) connection \<Rightarrow> (nat \<times> uint8) option \<times> nat \<times> ('c, 'd) connection"
where
  "serve_frame (SynStreamFrame fr) rr s =
    (case checkStreamFrame fr s of
       (True, s) \<Rightarrow> (Some (unat (fs_StreamId fr mod FRAME_WORKERS), fs_Priority fr), rr, addStreamFrame fr s)
     | (False, s) \<Rightarrow> (None, rr, s))"
| "serve_frame (SynReplyFrame fr) rr s = (Some (of_stream (fy_StreamId fr) s), rr, s)"
| "serve_frame (DataFrame fr) rr s = (Some (of_stream (fd_StreamId fr) s), rr, s)"
| "serve_frame (RstStreamFrame fr) rr s = (Some (of_stream (fr_StreamId fr) s), rr, s)"
| "serve_frame (HeadersFrame fr) rr s = (Some (of_stream (fh_StreamId fr) s), rr, s)"
| "serve_frame (PingFrame fr) rr s = (Some (rr, 0), (rr + 1) mod unat FRAME_WORKERS, s)"
| "serve_frame (GoAwayFrame fr) rr s = (Some (rr, 0), (rr + 1) mod unat FRAME_WORKERS, s)"
| "serve_frame fr rr s = (Some (rr, 7), (rr + 1) mod unat FRAME_WORKERS, s)"

text \<open>After the first read that fails: the connection is closed and its streams are forgotten.\<close>

definition serve_end :: "('c, 'd) connection \<Rightarrow> ('c, 'd) connection step" where
  "serve_end s =
    (if cn_closed s then Crash CloseOfClosedChannel s
     else Ok (s\<lparr>cn_closed := True, cn_streams := Map.empty\<rparr>))"

subsection \<open>Sending\<close>

datatype stream_error = StreamErr string | WireErr wire_error | StreamEOF

type_synonym ('c, 'd) call = "(stream_error option \<times> ('c, 'd) connection) step"

definition fin_flag :: "bool \<Rightarrow> byte" where
  "fin_flag fin = (if fin then 0x01 else 0)"

definition flags_header :: "byte \<Rightarrow> control_header" where
  "flags_header flags = \<lparr>ch_version = 0, ch_frameType = 0, ch_Flags = flags, ch_length = 0\<rparr>"

definition send :: "('c, 'd) zlib \<Rightarrow> frame \<Rightarrow> ('c, 'd) connection \<Rightarrow> ('c, 'd) call" where
  "send zl fr s = (case write_frame zl fr s of (err, s) \<Rightarrow> Ok (map_option WireErr err, s))"

definition sendHeaders :: "('c, 'd) zlib \<Rightarrow> header \<Rightarrow> ref \<Rightarrow> bool \<Rightarrow> ('c, 'd) connection \<Rightarrow> ('c, 'd) call" where
  "sendHeaders zl headers r fin s =
    send zl (HeadersFrame \<lparr>fh_CFHeader = flags_header (fin_flag fin), fh_StreamId = sm_streamId (cn_mem s r),
      fh_Headers = headers\<rparr>) s"

definition sendReply :: "('c, 'd) zlib \<Rightarrow> header \<Rightarrow> ref \<Rightarrow> bool \<Rightarrow> ('c, 'd) connection \<Rightarrow> ('c, 'd) call" where
  "sendReply zl headers r fin s =
    send zl (SynReplyFrame \<lparr>fy_CFHeader = flags_header (fin_flag fin), fy_StreamId = sm_streamId (cn_mem s r),
      fy_Headers = headers\<rparr>) s"

definition sendResetFrame :: "('c, 'd) zlib \<Rightarrow> 32 word \<Rightarrow> stream_id \<Rightarrow> ('c, 'd) connection \<Rightarrow> ('c, 'd) call" where
  "sendResetFrame zl status sid s =
    send zl (RstStreamFrame \<lparr>fr_CFHeader = flags_header 0, fr_StreamId = sid, fr_Status = status\<rparr>) s"

definition sendReset :: "('c, 'd) zlib \<Rightarrow> 32 word \<Rightarrow> ref \<Rightarrow> ('c, 'd) connection \<Rightarrow> ('c, 'd) call" where
  "sendReset zl status r s = sendResetFrame zl status (sm_streamId (cn_mem s r)) s"

definition sendStream :: "('c, 'd) zlib \<Rightarrow> ref \<Rightarrow> bool \<Rightarrow> ('c, 'd) connection \<Rightarrow> ('c, 'd) call" where
  "sendStream zl r fin s =
    (let s = (if fin then upd_stream r (\<lambda>t. t\<lparr>sm_finished := True\<rparr>) s else s);
         st = cn_mem s r;
         parentId = (case sm_parent st of None \<Rightarrow> 0 | Some p \<Rightarrow> sm_streamId (cn_mem s p)) in
     send zl (SynStreamFrame \<lparr>fs_CFHeader = flags_header (fin_flag fin), fs_StreamId = sm_streamId st,
       fs_AssociatedToStreamId = parentId, fs_Priority = 0, fs_Slot = 0, fs_Headers = sm_headers st\<rparr>) s)"

text \<open>The stream, if one was made, and the error.\<close>

definition CreateStream ::
  "('c, 'd) zlib \<Rightarrow> header \<Rightarrow> ref option \<Rightarrow> bool \<Rightarrow> ('c, 'd) connection \<Rightarrow> ref option \<times> ('c, 'd) call"
where
  "CreateStream zl headers parent fin s =
    (case getNextStreamId s of
       (streamId, s) \<Rightarrow>
         if streamId = 0 then (None, Ok (Some (StreamErr ''Unable to get new stream id''), s))
         else
           let st = blank_stream\<lparr>sm_streamId := streamId, sm_parent := parent, sm_headers := headers\<rparr> in
           case addStream st s of (r, s) \<Rightarrow> (Some r, sendStream zl r fin s))"

subsection \<open>Pings, closing the connection\<close>

definition next_pingId :: "32 word \<Rightarrow> 32 word" where
  "next_pingId pid = (if pid > 0x7ffffffe then pid - 0x7ffffffe else pid + 2)"

text \<open>\<open>Ping\<close> up to its wait for the answer; a failed write ends it.\<close>

definition Ping_begin :: "('c, 'd) zlib \<Rightarrow> ('c, 'd) connection \<Rightarrow> 32 word \<times> ('c, 'd) call" where
  "Ping_begin zl s =
    (let pid = cn_pingId s;
         s = s\<lparr>cn_pingId := next_pingId (cn_pingId s)\<rparr>;
         s = s\<lparr>cn_pingChans := (cn_pingChans s)(pid \<mapsto> False)\<rparr> in
     (pid, case write_frame zl (PingFrame \<lparr>fp_CFHeader = flags_header 0, fp_Id = pid\<rparr>) s of
       (Some err, s) \<Rightarrow> Ok (Some (WireErr err), s\<lparr>cn_pingChans := (cn_pingChans s)(pid := None)\<rparr>)
     | (None, s) \<Rightarrow> Ok (None, s)))"

definition Ping_end :: "32 word \<Rightarrow> ('c, 'd) connection \<Rightarrow> ('c, 'd) call" where
  "Ping_end pid s =
    (if cn_closed s then Ok (Some (StreamErr ''connection closed''), s\<lparr>cn_pingChans := (cn_pingChans s)(pid := None)\<rparr>)
     else if cn_pingChans s pid = Some True then Ok (None, s\<lparr>cn_pingChans := (cn_pingChans s)(pid := None)\<rparr>)
     else Stuck (None, s))"

definition CloseConnection :: "('c, 'd) zlib \<Rightarrow> ('c, 'd) connection \<Rightarrow> ('c, 'd) call" where
  "CloseConnection zl s =
    (if cn_goneAway s then Ok (None, s)
     else
       let s = s\<lparr>cn_goneAway := True\<rparr>;
           lastStreamId = (if cn_receivedStreamId s > 2 then cn_receivedStreamId s - 2 else 0) in
       case write_frame zl (GoAwayFrame \<lparr>fg_CFHeader = flags_header 0, fg_LastGoodStreamId = lastStreamId, fg_Status = 0\<rparr>) s of
         (Some err, s) \<Rightarrow> Ok (Some (WireErr err), s)
       | (None, s) \<Rightarrow> Ok (None, s\<lparr>cn_shutdowns := cn_shutdowns s @ [cn_closeTimeout s]\<rparr>))"

text \<open>The goroutines in \<open>shutdown\<close>: each closes the network connection when no stream is left or when its timeout has
  passed, and then still waits for the streams to go. \<open>cn_waiting\<close> counts those that wait for the streams and
  \<open>cn_shutdownErrs\<close> has the errors whose senders wait for a reader of \<open>shutdownChan\<close>; closing that channel panics if it
  is closed, and so does a sender that still waits at it. \<open>shutdown_wait\<close> is one look of a waiting goroutine,
  nothing if there is none; \<open>err\<close> is what closing the network connection gives.\<close>

definition close_shutdown :: "('c, 'd) connection \<Rightarrow> ('c, 'd) connection step" where
  "close_shutdown s =
    (if cn_shutdownClosed s then Crash CloseOfClosedChannel s
     else if cn_shutdownErrs s \<noteq> [] then Crash SendOnClosedChannel (s\<lparr>cn_shutdownClosed := True\<rparr>)
     else Ok (s\<lparr>cn_shutdownClosed := True\<rparr>))"

definition shutdown_report :: "string option \<Rightarrow> ('c, 'd) connection \<Rightarrow> ('c, 'd) connection step" where
  "shutdown_report err s =
    (case err of
       None \<Rightarrow> close_shutdown s
     | Some e \<Rightarrow>
         if cn_shutdownClosed s then Crash SendOnClosedChannel s
         else Stuck (s\<lparr>cn_shutdownErrs := cn_shutdownErrs s @ [e]\<rparr>))"

definition shutdown_wait :: "string option \<Rightarrow> ('c, 'd) connection \<Rightarrow> ('c, 'd) connection step" where
  "shutdown_wait err s =
    (if cn_waiting s = 0 then Ok s
     else if cn_streams s = Map.empty
     then shutdown_report err (s\<lparr>cn_connClosed := True, cn_waiting := cn_waiting s - 1\<rparr>)
     else Stuck s)"

definition shutdown :: "int \<Rightarrow> bool \<Rightarrow> string option \<Rightarrow> ('c, 'd) connection \<Rightarrow> ('c, 'd) connection step" where
  "shutdown closeTimeout fired err s =
    (if cn_hasShutdown s then Ok s
     else
       let s = s\<lparr>cn_hasShutdown := True, cn_waiting := cn_waiting s + 1\<rparr> in
       if cn_streams s \<noteq> Map.empty \<and> closeTimeout > 0 \<and> fired then Stuck (s\<lparr>cn_connClosed := True\<rparr>)
       else shutdown_wait err s)"

text \<open>\<open>Connection.Wait\<close>: the reader of \<open>shutdownChan\<close> takes the error, and the goroutine that sent it closes the channel.\<close>

definition ConnWait :: "int \<Rightarrow> bool \<Rightarrow> ('c, 'd) connection \<Rightarrow> ('c, 'd) call" where
  "ConnWait waitTimeout fired s =
    (case cn_shutdownErrs s of
       e # es \<Rightarrow>
         (case close_shutdown (s\<lparr>cn_shutdownErrs := es\<rparr>) of
            Crash p s \<Rightarrow> Crash p (Some (StreamErr e), s)
          | x \<Rightarrow> Ok (Some (StreamErr e), step_state x))
     | [] \<Rightarrow>
         if cn_shutdownClosed s then Ok (None, s)
         else if waitTimeout > 0 \<and> fired then Ok (Some (StreamErr ErrTimeout), s) else Stuck (None, s))"

text \<open>\<open>CloseWait\<close> is \<open>Close\<close> and, when that succeeds, a wait without timeout.\<close>

definition CloseWait :: "('c, 'd) zlib \<Rightarrow> ('c, 'd) connection \<Rightarrow> ('c, 'd) call" where
  "CloseWait zl s =
    (case CloseConnection zl s of
       Ok (None, s) \<Rightarrow> ConnWait 0 False s
     | c \<Rightarrow> c)"

definition NotifyClose :: "int \<Rightarrow> ('c, 'd) connection \<Rightarrow> ('c, 'd) connection" where
  "NotifyClose timeout s = s\<lparr>cn_goAwayTimeout := timeout, cn_lastStreamChan := True\<rparr>"

definition SetCloseTimeout :: "int \<Rightarrow> ('c, 'd) connection \<Rightarrow> ('c, 'd) connection" where
  "SetCloseTimeout timeout s = s\<lparr>cn_closeTimeout := timeout\<rparr>"

text \<open>\<open>FindStream\<close>: one look of its loop; None is the nil stream for an id that can no longer appear.\<close>

definition FindStream :: "stream_id \<Rightarrow> ('c, 'd) connection \<Rightarrow> ref option step" where
  "FindStream sid s =
    (case cn_streams s sid of
       Some r \<Rightarrow> Ok (Some r)
     | None \<Rightarrow> if sid \<ge> cn_receivedStreamId s then Stuck None else Ok None)"

subsection \<open>The operations of a stream (stream.go)\<close>

definition WriteData :: "('c, 'd) zlib \<Rightarrow> bytes \<Rightarrow> bool \<Rightarrow> ref \<Rightarrow> ('c, 'd) connection \<Rightarrow> ('c, 'd) call" where
  "WriteData zl data fin r s =
    (if sm_canReply (cn_mem s r) \<and> \<not> sm_replied (cn_mem s r) then Stuck (None, s)
     else if fin \<and> sm_finished (cn_mem s r) then Ok (Some (StreamErr ErrWriteClosedStream), s)
     else
       let s = (if fin then upd_stream r (\<lambda>t. t\<lparr>sm_finished := True\<rparr>) s else s) in
       send zl (DataFrame \<lparr>fd_StreamId = sm_streamId (cn_mem s r), fd_Flags = fin_flag fin, fd_Data = data\<rparr>) s)"

definition Write :: "('c, 'd) zlib \<Rightarrow> bytes \<Rightarrow> ref \<Rightarrow> ('c, 'd) connection \<Rightarrow> (nat \<times> stream_error option \<times> ('c, 'd) connection) step" where
  "Write zl data r s =
    (case WriteData zl data False r s of
       Ok (err, s) \<Rightarrow> Ok (if err = None then length data else 0, err, s)
     | Stuck (err, s) \<Rightarrow> Stuck (0, err, s)
     | Crash p (err, s) \<Rightarrow> Crash p (0, err, s))"

text \<open>\<open>Read\<close> into a buffer of \<open>n\<close> bytes: at most the rest of one data frame.\<close>

definition copy_unread :: "nat \<Rightarrow> bytes \<Rightarrow> stream \<Rightarrow> bytes \<times> stream" where
  "copy_unread n u t = (take n u, t\<lparr>sm_unread := (if n < length u then Some (drop n u) else None)\<rparr>)"

definition Read :: "nat \<Rightarrow> stream \<Rightarrow> (bytes \<times> stream_error option \<times> stream) step" where
  "Read n t =
    (case sm_unread t of
       Some u \<Rightarrow> (case copy_unread n u t of (bs, t) \<Rightarrow> Ok (bs, None, t))
     | None \<Rightarrow>
         (case sm_inbox t of
            u # us \<Rightarrow> (case copy_unread n u (t\<lparr>sm_inbox := us\<rparr>) of (bs, t) \<Rightarrow> Ok (bs, None, t))
          | [] \<Rightarrow> if sm_closed t then Ok ([], Some StreamEOF, t) else Stuck ([], None, t)))"

definition ReadData :: "stream \<Rightarrow> (bytes \<times> stream_error option \<times> stream) step" where
  "ReadData t =
    (if sm_unread t \<noteq> None then Ok ([], Some (StreamErr ErrUnreadPartialData), t)
     else case sm_inbox t of
       u # us \<Rightarrow> Ok (u, None, t\<lparr>sm_inbox := us\<rparr>)
     | [] \<Rightarrow> if sm_closed t then Ok ([], Some StreamEOF, t) else Stuck ([], None, t))"

fun and_call :: "('c, 'd) connection step \<Rightarrow> (('c, 'd) connection \<Rightarrow> ('c, 'd) call) \<Rightarrow> ('c, 'd) call" where
  "and_call (Ok s) f = f s"
| "and_call (Stuck s) f = Stuck (None, s)"
| "and_call (Crash p s) f = Crash p (None, s)"

definition CloseStream :: "('c, 'd) zlib \<Rightarrow> ref \<Rightarrow> ('c, 'd) connection \<Rightarrow> ('c, 'd) call" where
  "CloseStream zl r s =
    and_call (if sm_closed (cn_mem s r) then Ok (removeStream r s) else close_data r s) (WriteData zl [] True r)"

definition ResetStream :: "('c, 'd) zlib \<Rightarrow> ref \<Rightarrow> ('c, 'd) connection \<Rightarrow> ('c, 'd) call" where
  "ResetStream zl r s =
    (let s = removeStream r s in
     if sm_finished (cn_mem s r) then Ok (None, s)
     else and_call (close_once r (upd_stream r (\<lambda>t. t\<lparr>sm_finished := True\<rparr>) s))
       (\<lambda>s. sendReset zl CancelStatus r s))"

definition CreateSubStream :: "('c, 'd) zlib \<Rightarrow> header \<Rightarrow> ref \<Rightarrow> bool \<Rightarrow> ('c, 'd) connection \<Rightarrow> ref option \<times> ('c, 'd) call" where
  "CreateSubStream zl headers r fin s = CreateStream zl headers (Some r) fin s"

definition SetPriority :: "uint8 \<Rightarrow> ref \<Rightarrow> ('c, 'd) connection \<Rightarrow> ('c, 'd) connection" where
  "SetPriority p r s = upd_stream r (\<lambda>t. t\<lparr>sm_priority := p\<rparr>) s"

definition SendHeader :: "('c, 'd) zlib \<Rightarrow> header \<Rightarrow> bool \<Rightarrow> ref \<Rightarrow> ('c, 'd) connection \<Rightarrow> ('c, 'd) call" where
  "SendHeader zl headers fin r s = sendHeaders zl headers r fin s"

definition SendReply :: "('c, 'd) zlib \<Rightarrow> header \<Rightarrow> bool \<Rightarrow> ref \<Rightarrow> ('c, 'd) connection \<Rightarrow> ('c, 'd) call" where
  "SendReply zl headers fin r s =
    (if \<not> sm_canReply (cn_mem s r) then Ok (Some (StreamErr ''cannot reply on initiated stream''), s)
     else if sm_replied (cn_mem s r) then Ok (None, s)
     else case sendReply zl headers r fin s of
       Ok (None, s) \<Rightarrow> Ok (None, upd_stream r (\<lambda>t. t\<lparr>sm_replied := True\<rparr>) s)
     | c \<Rightarrow> c)"

definition Refuse :: "('c, 'd) zlib \<Rightarrow> ref \<Rightarrow> ('c, 'd) connection \<Rightarrow> ('c, 'd) call" where
  "Refuse zl r s =
    (if sm_replied (cn_mem s r) then Ok (None, s)
     else sendReset zl RefusedStream r (upd_stream r (\<lambda>t. t\<lparr>sm_replied := True\<rparr>) s))"

definition CancelStream :: "('c, 'd) zlib \<Rightarrow> ref \<Rightarrow> ('c, 'd) connection \<Rightarrow> ('c, 'd) call" where
  "CancelStream zl r s = sendReset zl CancelStatus r s"

text \<open>\<open>WaitTimeout\<close>: the reply's error, if one has come; a closed channel gives none.\<close>

definition WaitTimeout :: "bool \<Rightarrow> stream \<Rightarrow> (stream_error option \<times> stream) step" where
  "WaitTimeout timeout t =
    (case sm_startErrs t of
       e # es \<Rightarrow> Ok (Some (StreamErr e), t\<lparr>sm_startErrs := es\<rparr>)
     | [] \<Rightarrow> if sm_startClosed t then Ok (None, t)
              else if timeout then Ok (Some (StreamErr ErrTimeout), t) else Stuck (None, t))"

definition ReceiveHeader :: "stream \<Rightarrow> (header option \<times> stream_error option \<times> stream) step" where
  "ReceiveHeader t =
    (case sm_headerInbox t of
       h # hs \<Rightarrow> Ok (Some h, None, t\<lparr>sm_headerInbox := hs\<rparr>)
     | [] \<Rightarrow> if sm_closed t then Ok (None, Some (StreamErr ''stream closed''), t) else Stuck (None, None, t))"

text \<open>\<open>Wait\<close> has no timeout. What a stream tells of itself.\<close>

definition StreamWait :: "stream \<Rightarrow> (stream_error option \<times> stream) step" where
  "StreamWait t = WaitTimeout False t"

definition Parent :: "stream \<Rightarrow> ref option" where
  "Parent t = sm_parent t"

definition Headers :: "stream \<Rightarrow> header" where
  "Headers t = sm_headers t"

definition Identifier :: "stream \<Rightarrow> 32 word" where
  "Identifier t = sm_streamId t"

definition IsFinished :: "stream \<Rightarrow> bool" where
  "IsFinished t \<longleftrightarrow> sm_finished t"

end
