(* ===== verification/SpdyStreamProps.thy ===== *)
theory SpdyStreamProps
  imports SpdyStream
begin

text \<open>
  What holds of a SPDY connection whatever its user and its peer do: the operations as one step
  function, the states it reaches, the invariant that keeps channels from being closed twice, and the
  properties of stream ids, pings and the data a stream delivers.
\<close>

unbundle bit_operations_syntax

subsection \<open>Steps\<close>

datatype conn_op =
    OpCreate header "ref option" bool
  | OpServe frame nat
  | OpServeEnd
  | OpHandle bool frame
  | OpPing
  | OpPingEnd "32 word"
  | OpCloseConn
  | OpShutdown int bool "string option"
  | OpShutdownWait "string option"
  | OpConnWait int bool
  | OpCloseWait
  | OpNotifyClose int
  | OpSetCloseTimeout int
  | OpReset "32 word" stream_id
  | OpWrite bytes bool ref
  | OpRead nat ref
  | OpReadData ref
  | OpClose ref
  | OpResetStream ref
  | OpPriority uint8 ref
  | OpSendHeader header bool ref
  | OpReply header bool ref
  | OpRefuse ref
  | OpCancel ref
  | OpWait bool ref
  | OpReceiveHeader ref

fun call_step :: "(stream_error option \<times> ('c, 'd) connection) step \<Rightarrow> ('c, 'd) connection step" where
  "call_step (Ok (e, s)) = Ok s"
| "call_step (Stuck (e, s)) = Stuck s"
| "call_step (Crash p (e, s)) = Crash p s"

text \<open>An operation that reads the stream's own fields only.\<close>

definition on_stream :: "ref \<Rightarrow> ('c, 'd) connection \<Rightarrow> ('a \<Rightarrow> stream) \<Rightarrow> 'a step \<Rightarrow> ('c, 'd) connection step" where
  "on_stream r s get x =
    (case x of Ok a \<Rightarrow> Ok (upd_stream r (\<lambda>_. get a) s) | Stuck a \<Rightarrow> Stuck s | Crash p a \<Rightarrow> Crash p s)"

text \<open>The handler of new streams makes its calls as steps of its own.\<close>

fun conn_do :: "('c, 'd) zlib \<Rightarrow> conn_op \<Rightarrow> ('c, 'd) connection \<Rightarrow> ('c, 'd) connection step" where
  "conn_do zl (OpCreate h p fin) s = call_step (snd (CreateStream zl h p fin s))"
| "conn_do zl (OpServe fr rr) s = Ok (snd (snd (serve_frame fr rr s)))"
| "conn_do zl OpServeEnd s = serve_end s"
| "conn_do zl (OpHandle reading fr) s = handleFrame zl (\<lambda>r s. Ok s) reading fr s"
| "conn_do zl OpPing s = call_step (snd (Ping_begin zl s))"
| "conn_do zl (OpPingEnd pid) s = call_step (Ping_end pid s)"
| "conn_do zl OpCloseConn s = call_step (CloseConnection zl s)"
| "conn_do zl (OpShutdown timeout fired err) s = shutdown timeout fired err s"
| "conn_do zl (OpShutdownWait err) s = shutdown_wait err s"
| "conn_do zl (OpConnWait timeout fired) s = call_step (ConnWait timeout fired s)"
| "conn_do zl OpCloseWait s = call_step (CloseWait zl s)"
| "conn_do zl (OpNotifyClose timeout) s = Ok (NotifyClose timeout s)"
| "conn_do zl (OpSetCloseTimeout timeout) s = Ok (SetCloseTimeout timeout s)"
| "conn_do zl (OpReset status sid) s = call_step (sendResetFrame zl status sid s)"
| "conn_do zl (OpWrite data fin r) s = call_step (WriteData zl data fin r s)"
| "conn_do zl (OpRead n r) s = on_stream r s (\<lambda>(bs, e, t). t) (Read n (cn_mem s r))"
| "conn_do zl (OpReadData r) s = on_stream r s (\<lambda>(bs, e, t). t) (ReadData (cn_mem s r))"
| "conn_do zl (OpClose r) s = call_step (CloseStream zl r s)"
| "conn_do zl (OpResetStream r) s = call_step (ResetStream zl r s)"
| "conn_do zl (OpPriority p r) s = Ok (SetPriority p r s)"
| "conn_do zl (OpSendHeader h fin r) s = call_step (SendHeader zl h fin r s)"
| "conn_do zl (OpReply h fin r) s = call_step (SendReply zl h fin r s)"
| "conn_do zl (OpRefuse r) s = call_step (Refuse zl r s)"
| "conn_do zl (OpCancel r) s = call_step (CancelStream zl r s)"
| "conn_do zl (OpWait timeout r) s = on_stream r s snd (WaitTimeout timeout (cn_mem s r))"
| "conn_do zl (OpReceiveHeader r) s = on_stream r s (\<lambda>(h, e, t). t) (ReceiveHeader (cn_mem s r))"

inductive conn_reachable :: "('c, 'd) zlib \<Rightarrow> ('c, 'd) connection \<Rightarrow> bool" for zl where
  new: "conn_reachable zl (NewConnection framer server)"
| step: "conn_reachable zl s \<Longrightarrow> conn_reachable zl (step_state (conn_do zl op s))"

subsection \<open>The invariant\<close>

definition stream_ok :: "stream \<Rightarrow> bool" where
  "stream_ok t \<longleftrightarrow> sm_dataClosed t = sm_closed t \<and> (sm_startClosed t \<longrightarrow> sm_replied t)"

text \<open>One goroutine gets past the guard of \<open>shutdown\<close>, and it waits for the streams, waits with its error, or has closed
  the channel.\<close>

definition shutdown_ok :: "('c, 'd) connection \<Rightarrow> bool" where
  "shutdown_ok s \<longleftrightarrow>
    cn_waiting s + length (cn_shutdownErrs s) + of_bool (cn_shutdownClosed s) = (of_bool (cn_hasShutdown s) :: nat)"

definition conn_ok :: "('c, 'd) connection \<Rightarrow> bool" where
  "conn_ok s \<longleftrightarrow> (\<forall>r. stream_ok (cn_mem s r)) \<and> shutdown_ok s"

text \<open>A step that keeps the invariant and does not panic.\<close>

fun step_ok :: "('c, 'd) connection step \<Rightarrow> bool" where
  "step_ok (Ok s) \<longleftrightarrow> conn_ok s"
| "step_ok (Stuck s) \<longleftrightarrow> conn_ok s"
| "step_ok (Crash p s) \<longleftrightarrow> False"

named_theorems conn \<open>operations that keep the invariant\<close>

lemma step_ok_and [conn]: "step_ok x \<Longrightarrow> (\<And>s. x = Ok s \<Longrightarrow> conn_ok s \<Longrightarrow> step_ok (f s)) \<Longrightarrow> step_ok (and_step x f)"
  by (cases x) auto

lemma step_ok_call [conn]:
  "step_ok x \<Longrightarrow> (\<And>s. x = Ok s \<Longrightarrow> conn_ok s \<Longrightarrow> step_ok (call_step (f s))) \<Longrightarrow> step_ok (call_step (and_call x f))"
  by (cases x) auto



lemma conn_ok_fields [simp]:
  "conn_ok (s\<lparr>cn_framer := a\<rparr>) = conn_ok s" "conn_ok (s\<lparr>cn_closed := b\<rparr>) = conn_ok s"
  "conn_ok (s\<lparr>cn_goneAway := b\<rparr>) = conn_ok s" "conn_ok (s\<lparr>cn_streams := m\<rparr>) = conn_ok s"
  "conn_ok (s\<lparr>cn_next := n\<rparr>) = conn_ok s" "conn_ok (s\<lparr>cn_nextStreamId := w\<rparr>) = conn_ok s"
  "conn_ok (s\<lparr>cn_receivedStreamId := w\<rparr>) = conn_ok s" "conn_ok (s\<lparr>cn_pingId := w\<rparr>) = conn_ok s"
  "conn_ok (s\<lparr>cn_pingChans := c\<rparr>) = conn_ok s" "conn_ok (s\<lparr>cn_resets := rs\<rparr>) = conn_ok s"
  "conn_ok (s\<lparr>cn_shutdowns := ts\<rparr>) = conn_ok s"
  "conn_ok (s\<lparr>cn_connClosed := b\<rparr>) = conn_ok s" "conn_ok (s\<lparr>cn_goAwayTimeout := i\<rparr>) = conn_ok s"
  "conn_ok (s\<lparr>cn_closeTimeout := i\<rparr>) = conn_ok s" "conn_ok (s\<lparr>cn_lastStreamChan := b\<rparr>) = conn_ok s"
  "conn_ok (s\<lparr>cn_lastStreams := ls\<rparr>) = conn_ok s"
  by (simp_all add: conn_ok_def shutdown_ok_def)

lemma shutdown_ok_fields [simp]:
  "shutdown_ok (s\<lparr>cn_mem := a\<rparr>) = shutdown_ok s" "shutdown_ok (s\<lparr>cn_next := n\<rparr>) = shutdown_ok s"
  "shutdown_ok (s\<lparr>cn_nextStreamId := w\<rparr>) = shutdown_ok s" "shutdown_ok (s\<lparr>cn_streams := m\<rparr>) = shutdown_ok s"
  "shutdown_ok (upd_stream r f s) = shutdown_ok s"
  by (simp_all add: shutdown_ok_def upd_stream_def)

lemma conn_ok_upd: "conn_ok s \<Longrightarrow> stream_ok (f (cn_mem s r)) \<Longrightarrow> conn_ok (upd_stream r f s)"
  by (auto simp: conn_ok_def) (simp add: upd_stream_def)

lemma conn_ok_stream: "conn_ok s \<Longrightarrow> stream_ok (cn_mem s r)"
  by (simp add: conn_ok_def)

lemma conn_ok_remove [simp]: "conn_ok (removeStream r s) = conn_ok s"
  by (simp add: removeStream_def)

lemma conn_ok_write [simp]: "conn_ok (snd (write_frame zl fr s)) = conn_ok s"
  by (simp add: write_frame_def split: prod.split)

lemma step_ok_send [conn]: "conn_ok s \<Longrightarrow> step_ok (call_step (send zl fr s))"
  using conn_ok_write[of zl fr s] by (cases "write_frame zl fr s") (simp add: send_def)

lemma close_once_ok [conn]: "conn_ok s \<Longrightarrow> step_ok (close_once r s)"
  using conn_ok_stream[of s r]
  by (auto simp: close_once_def close_data_def Let_def stream_ok_def upd_stream_def conn_ok_def)

lemma close_start_ok: "conn_ok s \<Longrightarrow> sm_replied (cn_mem s r) \<Longrightarrow> \<not> sm_startClosed (cn_mem s r) \<Longrightarrow> step_ok (close_start r s)"
  using conn_ok_stream[of s r] by (auto simp: close_start_def stream_ok_def upd_stream_def conn_ok_def)

lemma remoteStreamFinish_ok [conn]: "conn_ok s \<Longrightarrow> step_ok (remoteStreamFinish r s)"
  unfolding remoteStreamFinish_def by (rule step_ok_and[OF close_once_ok]) auto

text \<open>What closing leaves of a stream.\<close>

lemma close_once_keeps:
  "close_once r s = Ok s' \<Longrightarrow> sm_replied (cn_mem s' q) = sm_replied (cn_mem s q) \<and> sm_startClosed (cn_mem s' q) = sm_startClosed (cn_mem s q)"
  by (auto simp: close_once_def close_data_def Let_def upd_stream_def split: if_splits)

lemma remoteStreamFinish_keeps:
  "remoteStreamFinish r s = Ok s' \<Longrightarrow> sm_replied (cn_mem s' q) = sm_replied (cn_mem s q) \<and> sm_startClosed (cn_mem s' q) = sm_startClosed (cn_mem s q)"
  using close_once_keeps[of r s] by (cases "close_once r s") (auto simp: remoteStreamFinish_def removeStream_def split: if_splits)

lemma handleReplyFrame_ok: "conn_ok s \<Longrightarrow> step_ok (handleReplyFrame fr s)"
proof -
  assume s: "conn_ok s"
  show ?thesis
  proof (cases "getStream s (fy_StreamId fr)")
    case (Some r)
    let ?s = "upd_stream r (\<lambda>t. t\<lparr>sm_replied := True\<rparr>) s"
    show ?thesis
    proof (cases "sm_replied (cn_mem s r)")
      case False
      then have start: "\<not> sm_startClosed (cn_mem s r)" using conn_ok_stream[OF s, of r] by (auto simp: stream_ok_def)
      have s1: "conn_ok ?s" using conn_ok_stream[OF s, of r] s by (intro conn_ok_upd) (auto simp: stream_ok_def)
      have "step_ok (and_step (if ch_Flags (fy_CFHeader fr) AND 0x01 \<noteq> 0 then remoteStreamFinish r ?s else Ok ?s) (close_start r))"
      proof (rule step_ok_and)
        show "step_ok (if ch_Flags (fy_CFHeader fr) AND 0x01 \<noteq> 0 then remoteStreamFinish r ?s else Ok ?s)"
          using s1 remoteStreamFinish_ok[OF s1, of r] by simp
      next
        fix s2 assume "(if ch_Flags (fy_CFHeader fr) AND 0x01 \<noteq> 0 then remoteStreamFinish r ?s else Ok ?s) = Ok s2" "conn_ok s2"
        then show "step_ok (close_start r s2)"
          using remoteStreamFinish_keeps[of r ?s s2 r] start
          by (intro close_start_ok) (auto simp: upd_stream_def split: if_splits)
      qed
      then show ?thesis using Some False by (simp add: handleReplyFrame_def Let_def)
    qed (use Some s in \<open>simp add: handleReplyFrame_def\<close>)
  qed (use s in \<open>simp add: handleReplyFrame_def\<close>)
qed

lemma handleResetFrame_ok: "conn_ok s \<Longrightarrow> step_ok (handleResetFrame waiting fr s)"
proof -
  assume s: "conn_ok s"
  show ?thesis
  proof (cases "getStream s (fr_StreamId fr)")
    case (Some r)
    show ?thesis
      unfolding handleResetFrame_def Some option.case
    proof (rule step_ok_and)
      show "step_ok (close_once r (removeStream r s))" using s by (intro close_once_ok) simp
    next
      fix s1 assume "close_once r (removeStream r s) = Ok s1" and s1: "conn_ok s1"
      let ?s2 = "upd_stream r (\<lambda>t. t\<lparr>sm_replied := True\<rparr>) s1"
      let ?s3 = "upd_stream r (\<lambda>t. t\<lparr>sm_startErrs := sm_startErrs t @ [ErrReset]\<rparr>) ?s2"
      have fin: "step_ok (Ok (upd_stream r (\<lambda>t. t\<lparr>sm_finished := True\<rparr>) s))" if "conn_ok s" for s :: "('a, 'b) connection"
        using conn_ok_stream[OF that, of r] that by (auto simp: stream_ok_def intro: conn_ok_upd)
      have s3: "conn_ok ?s2" "conn_ok ?s3" using conn_ok_stream[OF s1, of r] s1
        by (auto simp: stream_ok_def conn_ok_def upd_stream_def)
      have "step_ok (close_start r ?s3)" if "\<not> sm_replied (cn_mem s1 r)"
        using that s3 conn_ok_stream[OF s1, of r] by (intro close_start_ok) (auto simp: upd_stream_def stream_ok_def)
      then show "step_ok (and_step (if sm_replied (cn_mem s1 r) then Ok s1
            else let s = ?s2 in if sm_startClosed (cn_mem s r) then Crash SendOnClosedChannel s
              else if \<not> waiting then Stuck s else close_start r (upd_stream r (\<lambda>t. t\<lparr>sm_startErrs := sm_startErrs t @ [ErrReset]\<rparr>) s))
          (\<lambda>s. Ok (upd_stream r (\<lambda>t. t\<lparr>sm_finished := True\<rparr>) s)))"
        using s1 s3 fin conn_ok_stream[OF s1, of r] by (intro step_ok_and) (auto simp: Let_def upd_stream_def stream_ok_def)
    qed
  qed (use s in \<open>simp add: handleResetFrame_def\<close>)
qed
lemma conn_ok_upd_plain [simp]:
  "conn_ok s \<Longrightarrow> conn_ok (upd_stream r (\<lambda>t. t\<lparr>sm_finished := b\<rparr>) s)"
  "conn_ok s \<Longrightarrow> conn_ok (upd_stream r (\<lambda>t. t\<lparr>sm_priority := p\<rparr>) s)"
  "conn_ok s \<Longrightarrow> conn_ok (upd_stream r (\<lambda>t. t\<lparr>sm_replied := True\<rparr>) s)"
  "conn_ok s \<Longrightarrow> conn_ok (upd_stream r (\<lambda>t. t\<lparr>sm_inbox := us\<rparr>) s)"
  "conn_ok s \<Longrightarrow> conn_ok (upd_stream r (\<lambda>t. t\<lparr>sm_inbox := sm_inbox t @ us\<rparr>) s)"
  "conn_ok s \<Longrightarrow> conn_ok (upd_stream r (\<lambda>t. t\<lparr>sm_headerInbox := sm_headerInbox t @ hs\<rparr>) s)"
  by (auto simp: conn_ok_def upd_stream_def stream_ok_def)

lemma handleHeaderFrame_ok: "conn_ok s \<Longrightarrow> step_ok (handleHeaderFrame reading fr s)"
  by (auto simp: handleHeaderFrame_def Let_def intro: remoteStreamFinish_ok split: option.split)

lemma handleDataFrame_ok: "conn_ok s \<Longrightarrow> step_ok (handleDataFrame reading fr s)"
  using conn_ok_stream[of s]
  by (auto simp: handleDataFrame_def stream_ok_def intro!: step_ok_and intro: remoteStreamFinish_ok split: option.split)

lemma conn_ok_addStream: "conn_ok s \<Longrightarrow> stream_ok st \<Longrightarrow> conn_ok (snd (addStream st s))"
  by (simp add: addStream_def Let_def conn_ok_def)

lemma conn_ok_validate: "conn_ok s \<Longrightarrow> conn_ok (snd (validateStreamId i s))"
  by (simp add: validateStreamId_def)

lemma conn_ok_serve: "conn_ok s \<Longrightarrow> conn_ok (snd (snd (serve_frame fr rr s)))"
proof (cases fr)
  case (SynStreamFrame f)
  assume s: "conn_ok s"
  obtain b s1 where v: "validateStreamId (fs_StreamId f) s = (b, s1)" by fastforce
  have s1: "conn_ok s1" using conn_ok_validate[OF s, of "fs_StreamId f"] v by simp
  then show ?thesis using SynStreamFrame s v
    by (auto simp: checkStreamFrame_def addStreamFrame_def Let_def blank_stream_def stream_ok_def
        intro!: conn_ok_addStream split: bool.split)
qed auto

lemma step_ok_WriteData: "conn_ok s \<Longrightarrow> step_ok (call_step (WriteData zl data fin r s))"
  by (auto simp: WriteData_def Let_def intro: step_ok_send)

lemma step_ok_sendStream: "conn_ok s \<Longrightarrow> step_ok (call_step (sendStream zl r fin s))"
  by (auto simp: sendStream_def Let_def intro: step_ok_send)

lemma step_ok_CreateStream: "conn_ok s \<Longrightarrow> step_ok (call_step (snd (CreateStream zl h p fin s)))"
  by (auto simp: CreateStream_def getNextStreamId_def addStream_def Let_def conn_ok_def stream_ok_def
      blank_stream_def intro!: step_ok_sendStream)

lemma step_ok_Ping: "conn_ok s \<Longrightarrow> step_ok (call_step (snd (Ping_begin zl s)))"
  using conn_ok_write[of zl] by (auto simp: Ping_begin_def Let_def write_frame_def split: prod.split option.split)

lemma step_ok_CloseConnection: "conn_ok s \<Longrightarrow> step_ok (call_step (CloseConnection zl s))"
  by (auto simp: CloseConnection_def Let_def write_frame_def split: prod.split option.split)

lemma step_ok_shutdown_wait: "conn_ok s \<Longrightarrow> step_ok (shutdown_wait err s)"
  by (cases "cn_shutdownErrs s") (auto simp: shutdown_wait_def shutdown_report_def close_shutdown_def conn_ok_def
      shutdown_ok_def of_bool_def split: option.split if_splits)

lemma step_ok_shutdown: "conn_ok s \<Longrightarrow> step_ok (shutdown timeout fired err s)"
proof -
  assume s: "conn_ok s"
  show ?thesis
  proof (cases "cn_hasShutdown s")
    case False
    then have "conn_ok (s\<lparr>cn_hasShutdown := True, cn_waiting := cn_waiting s + 1\<rparr>)"
      using s by (auto simp: conn_ok_def shutdown_ok_def)
    then show ?thesis using step_ok_shutdown_wait[of "s\<lparr>cn_hasShutdown := True, cn_waiting := cn_waiting s + 1\<rparr>" err] False
      by (simp add: shutdown_def Let_def)
  qed (use s in \<open>simp add: shutdown_def\<close>)
qed

lemma step_ok_ConnWait: "conn_ok s \<Longrightarrow> step_ok (call_step (ConnWait timeout fired s))"
  by (auto simp: ConnWait_def close_shutdown_def conn_ok_def shutdown_ok_def of_bool_def split: list.split if_splits)

lemma CloseConnection_returns: "\<exists>e s'. CloseConnection zl s = Ok (e, s')"
  by (auto simp: CloseConnection_def Let_def split: prod.split option.split)

lemma step_ok_CloseWait: "conn_ok s \<Longrightarrow> step_ok (call_step (CloseWait zl s))"
proof -
  assume s: "conn_ok s"
  obtain e s' where c: "CloseConnection zl s = Ok (e, s')" using CloseConnection_returns by blast
  with step_ok_CloseConnection[OF s, of zl] show ?thesis
    by (cases e) (auto simp: CloseWait_def intro: step_ok_ConnWait)
qed

lemma step_ok_on_stream:
  "conn_ok s \<Longrightarrow> (\<And>a. x = Ok a \<Longrightarrow> stream_ok (get a)) \<Longrightarrow> (\<And>p a. x \<noteq> Crash p a) \<Longrightarrow> step_ok (on_stream r s get x)"
  by (cases x) (auto simp: on_stream_def intro: conn_ok_upd)

lemma step_ok_CloseStream: "conn_ok s \<Longrightarrow> step_ok (call_step (CloseStream zl r s))"
  using close_once_ok[of s r]
  by (auto simp: CloseStream_def close_once_def intro!: step_ok_call step_ok_WriteData split: if_splits)

lemma step_ok_ResetStream: "conn_ok s \<Longrightarrow> step_ok (call_step (ResetStream zl r s))"
  by (auto simp: ResetStream_def Let_def sendReset_def sendResetFrame_def intro!: step_ok_call step_ok_send close_once_ok)

lemma step_ok_SendReply: "conn_ok s \<Longrightarrow> step_ok (call_step (SendReply zl h fin r s))"
proof -
  assume s: "conn_ok s"
  then have "step_ok (call_step (sendReply zl h r fin s))" by (simp add: sendReply_def step_ok_send)
  moreover obtain e s1 where "sendReply zl h r fin s = Ok (e, s1)"
    by (cases "write_frame zl (SynReplyFrame \<lparr>fy_CFHeader = flags_header (fin_flag fin),
      fy_StreamId = sm_streamId (cn_mem s r), fy_Headers = h\<rparr>) s") (simp add: sendReply_def send_def)
  ultimately show ?thesis using s by (cases e) (auto simp: SendReply_def)
qed

lemma step_ok_Refuse: "conn_ok s \<Longrightarrow> step_ok (call_step (Refuse zl r s))"
  by (simp add: Refuse_def sendReset_def sendResetFrame_def step_ok_send)

text \<open>Every operation keeps the invariant; only an answer to a ping can panic.\<close>

lemma handleFrame_ok:
  "conn_ok s \<Longrightarrow> (\<And>p. fr \<noteq> PingFrame p) \<Longrightarrow> step_ok (handleFrame zl (\<lambda>r s. Ok s) reading fr s)"
  by (cases fr) (auto simp: handleReplyFrame_ok handleResetFrame_ok handleHeaderFrame_ok handleDataFrame_ok
      handleGoAwayFrame_def Let_def split: option.split)

lemma conn_do_ok:
  assumes s: "conn_ok s" and op: "\<And>b p. op \<noteq> OpHandle b (PingFrame p)" "op = OpServeEnd \<Longrightarrow> \<not> cn_closed s"
  shows "step_ok (conn_do zl op s)"
proof (cases op)
  case (OpHandle b fr)
  then show ?thesis using op handleFrame_ok[OF s, of fr zl b] by auto
next
  case (OpRead n r)
  then show ?thesis using s conn_ok_stream[OF s, of r]
    by (auto simp: Read_def copy_unread_def stream_ok_def intro!: step_ok_on_stream split: option.splits list.splits if_splits)
next
  case (OpReadData r)
  then show ?thesis using s conn_ok_stream[OF s, of r]
    by (auto simp: ReadData_def stream_ok_def intro!: step_ok_on_stream split: option.splits list.splits if_splits)
next
  case (OpWait b r)
  then show ?thesis using s conn_ok_stream[OF s, of r]
    by (auto simp: WaitTimeout_def stream_ok_def intro!: step_ok_on_stream split: option.splits list.splits if_splits)
next
  case (OpReceiveHeader r)
  then show ?thesis using s conn_ok_stream[OF s, of r]
    by (auto simp: ReceiveHeader_def stream_ok_def intro!: step_ok_on_stream split: option.splits list.splits if_splits)
qed (use s op(2) in \<open>auto simp: step_ok_CreateStream conn_ok_serve serve_end_def step_ok_Ping Ping_end_def step_ok_CloseConnection
    step_ok_shutdown step_ok_shutdown_wait step_ok_ConnWait step_ok_CloseWait NotifyClose_def SetCloseTimeout_def
    sendResetFrame_def step_ok_send step_ok_WriteData step_ok_CloseStream step_ok_ResetStream SetPriority_def
    SendHeader_def sendHeaders_def step_ok_SendReply step_ok_Refuse CancelStream_def sendReset_def\<close>)

lemma step_ok_state: "step_ok x \<Longrightarrow> conn_ok (step_state x)"
  by (cases x) auto

lemma handlePingFrame_keeps: "conn_ok s \<Longrightarrow> conn_ok (step_state (handlePingFrame zl fr s))"
  by (auto simp: handlePingFrame_def split: option.split bool.split)

lemma reachable_conn_ok: "conn_reachable zl s \<Longrightarrow> conn_ok s"
proof (induction rule: conn_reachable.induct)
  case (new framer server)
  show ?case by (simp add: NewConnection_def conn_ok_def blank_stream_def stream_ok_def shutdown_ok_def)
next
  case (step s op)
  consider (ping) "\<exists>b p. op = OpHandle b (PingFrame p)" | (served) "op = OpServeEnd" "cn_closed s"
    | (other) "\<nexists>b p. op = OpHandle b (PingFrame p)" "op = OpServeEnd \<Longrightarrow> \<not> cn_closed s" by blast
  then show ?case
  proof cases
    case ping
    then show ?thesis using handlePingFrame_keeps[OF step.IH] by auto
  next
    case served
    then show ?thesis using step.IH by (simp add: serve_end_def)
  next
    case other
    then show ?thesis using step_ok_state[OF conn_do_ok[OF step.IH]] by blast
  qed
qed

subsection \<open>The counters\<close>

text \<open>The next id of an own stream, the least id the peer may use, the id of the next ping.\<close>

definition counters :: "('c, 'd) connection \<Rightarrow> stream_id \<times> stream_id \<times> 32 word" where
  "counters s = (cn_nextStreamId s, cn_receivedStreamId s, cn_pingId s)"

definition same :: "('c, 'd) connection \<Rightarrow> ('c, 'd) connection step \<Rightarrow> bool" where
  "same s x \<longleftrightarrow> counters (step_state x) = counters s"

lemma same_and: "same s x \<Longrightarrow> (\<And>s'. x = Ok s' \<Longrightarrow> same s' (f s')) \<Longrightarrow> same s (and_step x f)"
  by (cases x) (auto simp: same_def)

lemma same_call: "same s x \<Longrightarrow> (\<And>s'. x = Ok s' \<Longrightarrow> same s' (call_step (f s'))) \<Longrightarrow> same s (call_step (and_call x f))"
  by (cases x) (auto simp: same_def)

lemma counters_simps [simp]:
  "counters (upd_stream r f s) = counters s" "counters (removeStream r s) = counters s"
  "counters (snd (write_frame zl fr s)) = counters s" "counters (snd (addStream st s)) = counters s"
  by (auto simp: counters_def upd_stream_def removeStream_def write_frame_def addStream_def Let_def split: prod.split)

lemma same_iff:
  "same s (Ok s') = (counters s' = counters s)" "same s (Stuck s') = (counters s' = counters s)"
  "same s (Crash p s') = (counters s' = counters s)"
  "same s (call_step (send zl fr s')) = (counters s' = counters s)"
  "same s (close_data r s') = (counters s' = counters s)" "same s (close_start r s') = (counters s' = counters s)"
  "same s (close_once r s') = (counters s' = counters s)"
  using counters_simps(3)[of zl fr s']
  by (auto simp: same_def send_def close_once_def close_data_def close_start_def Let_def case_prod_beta)

lemma same_remoteStreamFinish: "same s (remoteStreamFinish r s') = (counters s' = counters s)"
proof -
  have "same s' (remoteStreamFinish r s')"
    unfolding remoteStreamFinish_def by (rule same_and) (auto simp: same_iff)
  then show ?thesis by (simp add: same_def)
qed

lemmas same = same_iff same_remoteStreamFinish

lemma same_handleReplyFrame: "same s (handleReplyFrame fr s)"
  by (auto simp: handleReplyFrame_def Let_def same intro!: same_and split: option.split)

lemma same_handleResetFrame: "same s (handleResetFrame waiting fr s)"
  by (auto simp: handleResetFrame_def Let_def same intro!: same_and split: option.split)

lemma same_handleHeaderFrame: "same s (handleHeaderFrame reading fr s)"
  by (auto simp: handleHeaderFrame_def Let_def same split: option.split)

lemma same_handleDataFrame: "same s (handleDataFrame reading fr s)"
  by (auto simp: handleDataFrame_def Let_def same intro!: same_and split: option.split)

lemma same_handlePingFrame: "same s (handlePingFrame zl fr s)"
  by (auto simp: handlePingFrame_def same_def counters_def[of "_\<lparr>cn_pingChans := _\<rparr>"] counters_def[of s] split: option.split bool.split)

lemma same_handleGoAwayFrame: "same s (handleGoAwayFrame fr s)"
  by (auto simp: handleGoAwayFrame_def same_def counters_def Let_def)

lemma same_handleFrame: "same s (handleFrame zl (\<lambda>r s. Ok s) reading fr s)"
  by (cases fr) (auto simp: same same_handleReplyFrame same_handleResetFrame same_handleHeaderFrame
      same_handleDataFrame same_handlePingFrame same_handleGoAwayFrame split: option.split)

lemma same_WriteData: "same s (call_step (WriteData zl data fin r s'))= (counters s' = counters s)"
  by (auto simp: WriteData_def Let_def same)

lemma same_on_stream: "same s (on_stream r s get x)"
  by (cases x) (auto simp: on_stream_def same)

lemma same_CloseStream: "same s (call_step (CloseStream zl r s))"
  by (auto simp: CloseStream_def same same_WriteData intro!: same_call)

lemma same_ResetStream: "same s (call_step (ResetStream zl r s))"
proof -
  have "same (removeStream r s) (call_step (ResetStream zl r s))"
    unfolding ResetStream_def Let_def
    by (auto simp: same sendReset_def sendResetFrame_def same_def[of _ "Ok _"] intro!: same_call)
  then show ?thesis by (simp add: same_def)
qed

lemma same_SendReply: "same s (call_step (SendReply zl h fin r s))"
proof -
  have "same s (call_step (sendReply zl h r fin s))" by (simp add: sendReply_def same)
  then show ?thesis
    by (auto simp: SendReply_def same_def split: step.splits prod.splits option.splits)
qed

lemma same_shutdown: "same s (shutdown timeout fired err s)" "same s (shutdown_wait err s)"
  by (auto simp: same_def shutdown_def shutdown_wait_def shutdown_report_def close_shutdown_def counters_def Let_def split: option.split)

lemma same_ConnWait: "same s (call_step (ConnWait timeout fired s))"
  by (auto simp: same_def ConnWait_def close_shutdown_def counters_def split: list.split)

lemma same_CloseConnection: "same s (call_step (CloseConnection zl s))"
  by (auto simp: same_def CloseConnection_def counters_def Let_def write_frame_def split: option.split prod.split)

lemma same_CloseWait: "same s (call_step (CloseWait zl s))"
proof -
  obtain e s' where c: "CloseConnection zl s = Ok (e, s')" using CloseConnection_returns by blast
  with same_CloseConnection[of s zl] same_ConnWait[of s' 0 False] show ?thesis
    by (cases e) (auto simp: CloseWait_def same_def)
qed
definition accepted :: "conn_op \<Rightarrow> ('c, 'd) connection \<Rightarrow> stream_id option" where
  "accepted op s =
    (case op of
       OpServe (SynStreamFrame fr) rr \<Rightarrow> if fst (checkStreamFrame fr s) then Some (fs_StreamId fr) else None
     | _ \<Rightarrow> None)"

lemma serve_frame_counters:
  "counters (snd (snd (serve_frame fr rr s))) =
    (case accepted (OpServe fr rr) s of
       None \<Rightarrow> counters s
     | Some i \<Rightarrow> (cn_nextStreamId s, i + 2, cn_pingId s))"
proof (cases fr)
  case (SynStreamFrame f)
  then show ?thesis
    by (auto simp: accepted_def checkStreamFrame_def validateStreamId_def addStreamFrame_def Let_def)
      (auto simp: counters_def)
qed (auto simp: accepted_def)

lemma counters_step:
  "counters (step_state (conn_do zl op s)) =
    (case op of
       OpCreate h p fin \<Rightarrow> (cn_nextStreamId (snd (getNextStreamId s)), cn_receivedStreamId s, cn_pingId s)
     | OpPing \<Rightarrow> (cn_nextStreamId s, cn_receivedStreamId s, next_pingId (cn_pingId s))
     | _ \<Rightarrow> (case accepted op s of None \<Rightarrow> counters s | Some i \<Rightarrow> (cn_nextStreamId s, i + 2, cn_pingId s)))"
proof (cases op)
  case (OpCreate h p fin)
  obtain sid s1 where g: "getNextStreamId s = (sid, s1)" by fastforce
  have s1: "cn_receivedStreamId s1 = cn_receivedStreamId s" "cn_pingId s1 = cn_pingId s"
    using g by (auto simp: getNextStreamId_def Let_def split: if_splits)
  have "same s1 (call_step (snd (CreateStream zl h p fin s)))"
    using g by (auto simp: CreateStream_def Let_def addStream_def sendStream_def same counters_def upd_stream_def split: prod.split)
  then show ?thesis using OpCreate g s1 by (simp add: same_def counters_def)
next
  case OpPing
  then show ?thesis
    by (auto simp: Ping_begin_def Let_def write_frame_def counters_def split: prod.split option.split)
next
  case (OpServe fr rr)
  then show ?thesis by (simp add: serve_frame_counters)
next
  case (OpHandle b fr)
  then show ?thesis using same_handleFrame[of s zl b fr] by (simp add: same_def accepted_def)
next
  case (OpPingEnd pid)
  then show ?thesis by (auto simp: accepted_def Ping_end_def counters_def)
next
  case (OpRead n r)
  then show ?thesis using same_on_stream[of s r] by (simp add: same_def accepted_def)
next
  case (OpReadData r)
  then show ?thesis using same_on_stream[of s r] by (simp add: same_def accepted_def)
next
  case (OpWait b r)
  then show ?thesis using same_on_stream[of s r] by (simp add: same_def accepted_def)
next
  case (OpReceiveHeader r)
  then show ?thesis using same_on_stream[of s r] by (simp add: same_def accepted_def)
next
  case (OpReply h fin r)
  then show ?thesis using same_SendReply[of s zl h fin r] by (simp add: same_def accepted_def)
next
  case (OpRefuse r)
  then have "same s (conn_do zl op s)" by (auto simp: Refuse_def sendReset_def sendResetFrame_def same)
  then show ?thesis using OpRefuse by (simp add: same_def accepted_def)
next
  case (OpWrite d fin r)
  then have "same s (conn_do zl op s)" by (simp add: same_WriteData)
  then show ?thesis using OpWrite by (simp add: same_def accepted_def)
next
  case (OpReset st sid)
  then have "same s (conn_do zl op s)" by (simp add: sendResetFrame_def same)
  then show ?thesis using OpReset by (simp add: same_def accepted_def)
next
  case (OpSendHeader h fin r)
  then have "same s (conn_do zl op s)" by (simp add: SendHeader_def sendHeaders_def same)
  then show ?thesis using OpSendHeader by (simp add: same_def accepted_def)
next
  case (OpCancel r)
  then have "same s (conn_do zl op s)" by (simp add: CancelStream_def sendReset_def sendResetFrame_def same)
  then show ?thesis using OpCancel by (simp add: same_def accepted_def)
next
  case OpServeEnd
  then show ?thesis by (simp add: accepted_def serve_end_def counters_def)
next
  case (OpNotifyClose t)
  then show ?thesis by (simp add: accepted_def NotifyClose_def counters_def)
next
  case (OpSetCloseTimeout t)
  then show ?thesis by (simp add: accepted_def SetCloseTimeout_def counters_def)
next
  case (OpPriority p r)
  then show ?thesis by (simp add: accepted_def SetPriority_def)
qed (use same_CloseConnection[of s zl] same_CloseWait[of s zl] same_ConnWait[of s] same_shutdown[of s] same_CloseStream[of s zl]
    same_ResetStream[of s zl] in \<open>simp_all add: same_def accepted_def\<close>)

text \<open>What a sequence of operations has done: each operation with the state it started in.\<close>

fun conn_trace :: "('c, 'd) zlib \<Rightarrow> conn_op list \<Rightarrow> ('c, 'd) connection \<Rightarrow> (conn_op \<times> ('c, 'd) connection) list" where
  "conn_trace zl [] s = []"
| "conn_trace zl (op # ops) s = (op, s) # conn_trace zl ops (step_state (conn_do zl op s))"




lemma unat_small: "a < 2 ^ 32 \<Longrightarrow> unat (of_nat a :: 32 word) = a"
  by (simp add: unsigned_of_nat take_bit_nat_eq_self)






subsection \<open>The ids the peer uses\<close>

definition accepted_ids :: "('c, 'd) zlib \<Rightarrow> conn_op list \<Rightarrow> ('c, 'd) connection \<Rightarrow> stream_id list" where
  "accepted_ids zl ops s = List.map_filter (\<lambda>(op, s'). accepted op s') (conn_trace zl ops s)"

lemma accepted_bounds:
  "accepted op s = Some i \<Longrightarrow> cn_receivedStreamId s \<le> i \<and> i \<le> 0x7fffffff"
  by (auto simp: accepted_def checkStreamFrame_def validateStreamId_def split: conn_op.splits frame.splits if_splits)

lemma received_step:
  "cn_receivedStreamId (step_state (conn_do zl op s)) =
   (case accepted op s of None \<Rightarrow> cn_receivedStreamId s | Some i \<Rightarrow> i + 2)"
  using counters_step[of zl op s] by (cases op) (auto simp: counters_def accepted_def split: frame.splits option.splits)

lemma unat_plus2: "i \<le> (0x7fffffff :: 32 word) \<Longrightarrow> unat (i + 2) = unat i + 2"
  by (subst unat_plus_simple[THEN iffD1]) (auto simp: word_le_nat_alt unat_word_ariths)

lemma accepted_from:
  "(\<forall>i \<in> set (accepted_ids zl ops s). cn_receivedStreamId s \<le> i \<and> i \<le> 0x7fffffff) \<and>
   sorted_wrt (\<lambda>i j. unat i + 2 \<le> unat j) (accepted_ids zl ops s)"
proof (induction ops arbitrary: s)
  case (Cons op ops)
  let ?s = "step_state (conn_do zl op s)"
  have ids: "accepted_ids zl (op # ops) s =
      (case accepted op s of None \<Rightarrow> [] | Some i \<Rightarrow> [i]) @ accepted_ids zl ops ?s"
    by (simp add: accepted_ids_def List.map_filter_simps split: option.split)
  show ?case
  proof (cases "accepted op s")
    case None
    then show ?thesis using ids Cons.IH[of ?s] received_step[of zl op s] by simp
  next
    case (Some i)
    then have "i \<le> i + 2" "unat (i + 2) = unat i + 2"
      using accepted_bounds[OF Some] unat_plus2[of i] by (simp_all add: word_le_nat_alt)
    then show ?thesis using ids Cons.IH[of ?s] received_step[of zl op s] Some accepted_bounds[OF Some]
      by (auto simp: word_le_nat_alt intro: order_trans)
  qed
qed (simp add: accepted_ids_def List.map_filter_simps)

text \<open>
  Whatever is done with a connection, the ids of the streams it accepts from its peer grow by at
  least two from one to the next.
\<close>

theorem peer_stream_ids_grow:
  "sorted_wrt (\<lambda>i j. unat i + 2 \<le> unat j) (accepted_ids zl ops (NewConnection framer server))"
  using accepted_from by blast

subsection \<open>Pings\<close>

fun is_ping :: "conn_op \<Rightarrow> bool" where
  "is_ping OpPing = True"
| "is_ping op = False"

definition pinged :: "('c, 'd) zlib \<Rightarrow> conn_op list \<Rightarrow> ('c, 'd) connection \<Rightarrow> (32 word) list" where
  "pinged zl ops s = [fst (Ping_begin zl s'). (op, s') \<leftarrow> conn_trace zl ops s, is_ping op]"

definition ping_id_at :: "bool \<Rightarrow> nat \<Rightarrow> 32 word" where
  "ping_id_at server n = of_nat ((if server then 2 else 1) + 2 * (n mod 2 ^ 30))"

lemma next_ping_id: "next_pingId (ping_id_at server n) = ping_id_at server (Suc n)"
proof -
  define k where "k = n mod 2 ^ 30"
  define a :: nat where "a = (if server then 2 else 1) + 2 * k"
  have k: "k < 2 ^ 30" by (simp add: k_def)
  then have a: "unat (of_nat a :: 32 word) = a" by (intro unat_small) (simp add: a_def)
  have nextk: "Suc n mod 2 ^ 30 = (if k = 2 ^ 30 - 1 then 0 else Suc k)"
    by (simp add: k_def mod_Suc)
  have big: "((of_nat a :: 32 word) > 0x7ffffffe) = (k = 2 ^ 30 - 1)"
    using k a by (auto simp: word_less_nat_alt a_def)
  have here: "ping_id_at server n = of_nat a"
    and there: "ping_id_at server (Suc n) = of_nat ((if server then 2 else 1) + 2 * (if k = 2 ^ 30 - 1 then 0 else Suc k))"
    by (simp_all only: ping_id_at_def a_def k_def[symmetric] nextk)
  show ?thesis
  proof (cases "k = 2 ^ 30 - 1")
    case True
    then have "of_nat a - (0x7ffffffe :: 32 word) = of_nat (if server then 2 else 1)"
      by (simp add: a_def)
    then show ?thesis unfolding next_pingId_def here there using True big by simp
  next
    case False
    then have "of_nat a + (2 :: 32 word) = of_nat ((if server then 2 else 1) + 2 * Suc k)" by (simp add: a_def)
    then show ?thesis unfolding next_pingId_def here there using False big by simp
  qed
qed

lemma ping_step:
  "cn_pingId (step_state (conn_do zl op s)) = (if is_ping op then next_pingId (cn_pingId s) else cn_pingId s)"
  using counters_step[of zl op s] by (cases op) (auto simp: counters_def split: option.splits)

lemma pinged_from:
  "cn_pingId s = ping_id_at server m \<Longrightarrow>
   pinged zl ops s = map (\<lambda>n. ping_id_at server (m + n)) [0..<length (filter is_ping ops)]"
proof (induction ops arbitrary: s m)
  case (Cons op ops)
  show ?case
  proof (cases "is_ping op")
    case True
    then show ?thesis
      using Cons.IH[of "step_state (conn_do zl op s)" "Suc m"] Cons.prems ping_step[of zl op s] next_ping_id[of server m]
      by (simp add: pinged_def Ping_begin_def Let_def upt_conv_Cons map_Suc_upt[symmetric] del: upt_Suc)
  next
    case False
    then show ?thesis using Cons.IH[of "step_state (conn_do zl op s)" m] Cons.prems ping_step[of zl op s]
      by (simp add: pinged_def)
  qed
qed (simp add: pinged_def)

text \<open>
  Whatever is done with a connection, its pings carry the odd ids 1, 3, ... up to 2^31 - 1 (a client)
  or the even ids 2, 4, ... up to 2^31 (a server), then the same again: an id comes back only after
  2^30 pings and keeps the parity by which answers are told from the peer's own pings.
\<close>

theorem ping_ids_cycle:
  "pinged zl ops (NewConnection framer server) = map (ping_id_at server) [0..<length (filter is_ping ops)]"
proof -
  have "cn_pingId (NewConnection framer server) = ping_id_at server 0"
    by (simp add: NewConnection_def ping_id_at_def)
  from pinged_from[OF this] show ?thesis by simp
qed

subsection \<open>Panics\<close>

text \<open>
  C15. Whatever the user and the peer have done, an operation of the connection panics exactly if it
  handles the answer to an own ping whose channel an earlier answer has closed, or is the end of a second
  \<open>Serve\<close>. So no channel of a stream is closed twice or sent to after it is closed, though a stream can be closed by
  either end, by a reset and by a reply, and \<open>shutdownChan\<close> is not, though both ends may start a shutdown.
\<close>

theorem connection_panics_iff:
  assumes "conn_reachable zl s"
  shows "(\<exists>p s'. conn_do zl op s = Crash p s') \<longleftrightarrow>
    (\<exists>reading fr. op = OpHandle reading (PingFrame fr) \<and> cn_pingId s AND 1 = fp_Id fr AND 1 \<and>
      cn_pingChans s (fp_Id fr) = Some True) \<or>
    op = OpServeEnd \<and> cn_closed s"
proof (cases "(\<exists>b p. op = OpHandle b (PingFrame p)) \<or> op = OpServeEnd \<and> cn_closed s")
  case True
  then show ?thesis by (auto simp: handlePingFrame_def serve_end_def split: option.splits bool.splits if_splits)
next
  case False
  then have "step_ok (conn_do zl op s)" using conn_do_ok[OF reachable_conn_ok[OF assms], of op] by blast
  then show ?thesis using False by (cases "conn_do zl op s") auto
qed

definition ping_answer :: "32 word \<Rightarrow> ping_frame" where
  "ping_answer i = \<lparr>fp_CFHeader = \<lparr>ch_version = Version, ch_frameType = TypePing, ch_Flags = 0, ch_length = 4\<rparr>, fp_Id = i\<rparr>"

definition ex_conn :: "bool \<Rightarrow> (unit, unit) connection" where
  "ex_conn = NewConnection \<lparr>fm_headerCompressionDisabled = True, fm_w = \<lparr>wt_out = [], wt_room = None\<rparr>, fm_headerBuf = [],
     fm_headerCompressor = (), fm_r = [], fm_N = 0, fm_headerDecompressor = None\<rparr>"

definition ex_zlib :: "(unit, unit) zlib" where
  "ex_zlib = \<lparr>zl_deflate = (\<lambda>c b. (b, c)), zl_new_reader = (\<lambda>p. (Inr (), 0)), zl_inflate = (\<lambda>d p. (p, 0, ()))\<rparr>"

fun conn_run :: "('c, 'd) zlib \<Rightarrow> conn_op list \<Rightarrow> ('c, 'd) connection \<Rightarrow> ('c, 'd) connection" where
  "conn_run zl [] s = s"
| "conn_run zl (op # ops) s = conn_run zl ops (step_state (conn_do zl op s))"

lemma conn_run_reachable: "conn_reachable zl s \<Longrightarrow> conn_reachable zl (conn_run zl ops s)"
  by (induction ops arbitrary: s) (auto intro: conn_reachable.step)

lemma ex_conn_reachable: "conn_reachable ex_zlib (conn_run ex_zlib ops (ex_conn server))"
  unfolding ex_conn_def by (rule conn_run_reachable[OF conn_reachable.new])

lemma ex_answered:
  "cn_pingChans (conn_run ex_zlib [OpPing, OpHandle True (PingFrame (ping_answer 1))] (ex_conn False)) 1 = Some True"
  "cn_pingId (conn_run ex_zlib [OpPing, OpHandle True (PingFrame (ping_answer 1))] (ex_conn False)) = 3"
  by (simp_all add: ex_conn_def NewConnection_def Ping_begin_def Let_def write_frame_def write_ping_def on_writer_def
      writeControlFrameHeader_def and_write_def put_bytes_def handlePingFrame_def ping_answer_def next_pingId_def
      split: prod.split)

theorem connection_panics_iff_witness:
  "\<exists>p s'. conn_do ex_zlib (OpHandle True (PingFrame (ping_answer 1)))
     (conn_run ex_zlib [OpPing, OpHandle True (PingFrame (ping_answer 1))] (ex_conn False)) = Crash p s'"
proof -
  have "fp_Id (ping_answer 1) = 1" by (simp add: ping_answer_def)
  then show ?thesis
    unfolding connection_panics_iff[OF ex_conn_reachable] using ex_answered by auto
qed

subsection \<open>Whose ids\<close>

text \<open>
  The parity of the ids a peer uses is not checked: a peer that opens a stream under the id of a
  stream this side has opened takes its place in the map, and from then on data for that id is
  dropped until the new stream has been answered; the open stream gets nothing more.
\<close>

theorem peer_takes_over_stream:
  assumes "\<not> cn_goneAway s" "getStream s i = Some r" "r < cn_next s" "cn_receivedStreamId s \<le> i" "i \<le> 0x7fffffff"
    and "fs_StreamId fr = i" "fd_StreamId d = i"
  shows "getStream (step_state (conn_do zl (OpServe (SynStreamFrame fr) rr) s)) i \<noteq> Some r \<and>
    conn_do zl (OpHandle reading (DataFrame d)) (step_state (conn_do zl (OpServe (SynStreamFrame fr) rr) s)) =
    Ok (step_state (conn_do zl (OpServe (SynStreamFrame fr) rr) s))"
  using assms
  by (auto simp: checkStreamFrame_def validateStreamId_def addStreamFrame_def addStream_def Let_def getStream_def
      handleDataFrame_def blank_stream_def)

definition ex_syn :: "stream_id \<Rightarrow> syn_stream_frame" where
  "ex_syn i = \<lparr>fs_CFHeader = \<lparr>ch_version = Version, ch_frameType = TypeSynStream, ch_Flags = 0, ch_length = 14\<rparr>,
     fs_StreamId = i, fs_AssociatedToStreamId = 0, fs_Priority = 0, fs_Slot = 0, fs_Headers = []\<rparr>"

definition ex_opened :: "(unit, unit) connection" where
  "ex_opened = conn_run ex_zlib [OpCreate [] None False, OpCreate [] None False] (ex_conn False)"

lemma ex_opened: "\<not> cn_goneAway ex_opened \<and> getStream ex_opened 3 = Some 1 \<and> 1 < cn_next ex_opened \<and> cn_receivedStreamId ex_opened = 2"
  by (simp add: ex_opened_def ex_conn_def NewConnection_def CreateStream_def getNextStreamId_def addStream_def Let_def
      sendStream_def send_def write_frame_def getStream_def split: prod.split)

theorem peer_takes_over_stream_witness:
  "getStream (step_state (conn_do ex_zlib (OpServe (SynStreamFrame (ex_syn 3)) 0) ex_opened)) 3 \<noteq> Some 1"
  using peer_takes_over_stream[of ex_opened 3 1 "ex_syn 3" "\<lparr>fd_StreamId = 3, fd_Flags = 0, fd_Data = [7]\<rparr>" ex_zlib 0 True] ex_opened
  by (simp add: ex_syn_def)

end
