(* ===== verification/SpdyRoundtrip.thy ===== *)
theory SpdyRoundtrip
  imports SpdyRead
begin
text \<open>
  Reading back what the framer writes: the bits of the words of a frame, the header block, then each
  kind of frame.
\<close>

unbundle bit_operations_syntax

subsection \<open>Words\<close>

lemma and_high_bits: "m + k = 32 \<Longrightarrow> (x :: 32 word) AND push_bit m (mask k) = push_bit m (drop_bit m x)"
  by (rule bit_word_eqI) (auto simp: bit_simps)

lemma and_masks:
  "(x :: 32 word) AND 0xffffff = take_bit 24 x"
  "(x :: 32 word) AND 0x7fffffff = take_bit 31 x"
  "(x :: 32 word) AND 0xffff = take_bit 16 x"
  "(x :: 32 word) AND 0x7fff = take_bit 15 x"
  "(x :: 32 word) AND 0xff000000 = push_bit 24 (drop_bit 24 x)"
  "(x :: 32 word) AND 0x80000000 = push_bit 31 (drop_bit 31 x)"
proof -
  show "x AND 0xffffff = take_bit 24 x" "x AND 0x7fffffff = take_bit 31 x"
    "x AND 0xffff = take_bit 16 x" "x AND 0x7fff = take_bit 15 x"
    by (simp_all add: take_bit_eq_mask mask_eq_exp_minus_1)
  show "x AND 0xff000000 = push_bit 24 (drop_bit 24 x)" "x AND 0x80000000 = push_bit 31 (drop_bit 31 x)"
    using and_high_bits[of 24 8 x] and_high_bits[of 31 1 x] by (simp_all add: mask_eq_exp_minus_1 push_bit_eq_mult)
qed

lemma word_lt_bit:
  assumes "(x :: 'a::len word) < 2 ^ k" "bit x n" shows "n < k"
proof (rule ccontr)
  assume n: "\<not> n < k"
  have "unat (of_nat m :: 'a word) \<le> m" for m by (simp add: unsigned_of_nat)
  from this[of "2 ^ k"] have "unat (2 ^ k :: 'a word) \<le> 2 ^ k" by simp
  then have "unat x < 2 ^ k" using assms(1) by (simp add: word_less_nat_alt)
  also have "(2 :: nat) ^ k \<le> 2 ^ n" using n by simp
  finally have "unat x div 2 ^ n = 0" by simp
  moreover have "bit (unat x) n" using assms(2) by (simp add: bit_unsigned_iff)
  ultimately show False by (simp add: bit_iff_odd)
qed

lemma flags_length:
  assumes "l < 2 ^ 24"
  shows "(push_bit 24 (ucast (f :: byte)) OR l) AND 0xffffff = (l :: 32 word)"
    "ucast (drop_bit 24 ((push_bit 24 (ucast f) OR l) AND 0xff000000)) = f"
    "ucast (drop_bit 24 (push_bit 24 (ucast f) OR l)) = f"
proof -
  have l: "bit l n \<Longrightarrow> n < 24" for n using word_lt_bit[OF assms] .
  show "(push_bit 24 (ucast f) OR l) AND 0xffffff = l"
    unfolding and_masks by (rule bit_word_eqI) (auto simp: bit_simps dest: l)
  show "ucast (drop_bit 24 ((push_bit 24 (ucast f) OR l) AND 0xff000000)) = f"
    unfolding and_masks by (rule bit_word_eqI) (auto simp: bit_simps dest: l)
  show "ucast (drop_bit 24 (push_bit 24 (ucast f) OR l)) = f"
    by (rule bit_word_eqI) (auto simp: bit_simps dest: l)
qed

definition first_word :: "16 word \<Rightarrow> 16 word \<Rightarrow> 32 word" where
  "first_word v t = push_bit 16 (ucast (0x8000 OR v)) OR ucast t"

lemma bit_control: "bit (0x8000 OR (v :: 16 word)) n \<longleftrightarrow> n = 15 \<or> bit v n"
proof -
  have "(0x8000 :: 16 word) = 2 ^ 15" by simp
  then show ?thesis by (simp only: bit_or_iff bit_exp_iff) auto
qed

lemma first_word:
  shows "be16 (0x8000 OR v) @ be16 t = be32 (first_word v t)"
   and "first_word v t AND 0x80000000 \<noteq> 0"
   and "ucast (first_word v t AND 0xffff) = t"
   and "v < 2 ^ 15 \<Longrightarrow> ucast (drop_bit 16 (first_word v t) AND 0x7fff) = v"
proof -
  define c :: "16 word" where "c = 0x8000 OR v"
  have f: "first_word v t = push_bit 16 (ucast c) OR ucast t" by (simp add: first_word_def c_def)
  have c: "bit c n \<longleftrightarrow> n = 15 \<or> bit v n" for n by (simp add: c_def bit_control)
  have v: "bit v n \<Longrightarrow> n < 16" for n using bit_imp_le_length[of v n] by simp
  have t: "bit t n \<Longrightarrow> n < 16" for n using bit_imp_le_length[of t n] by simp
  have "be16 c @ be16 t = be32 (first_word v t)"
    unfolding be16_def be32_def f append.simps list.inject
    by (intro conjI refl bit_word_eqI; auto simp: bit_simps dest: t)
  then show "be16 (0x8000 OR v) @ be16 t = be32 (first_word v t)" by (simp only: c_def)
  have "bit (first_word v t AND 0x80000000) 31"
    unfolding and_masks f by (simp add: bit_simps c)
  then show "first_word v t AND 0x80000000 \<noteq> 0" by auto
  show "ucast (first_word v t AND 0xffff) = t"
    unfolding and_masks f by (rule bit_word_eqI) (auto simp: bit_simps)
  assume "v < 2 ^ 15"
  then have "\<not> bit v 15" "bit v n \<Longrightarrow> n < 15" for n using word_lt_bit by blast+
  then show "ucast (drop_bit 16 (first_word v t) AND 0x7fff) = v"
    unfolding and_masks f by (intro bit_word_eqI) (auto simp: bit_simps c dest: t)
qed

subsection \<open>The header block\<close>

lemma to_lower_idem [simp]: "to_lower (to_lower n) = to_lower n"
proof -
  have "\<not> (0x41 \<le> b + 0x20 \<and> b + 0x20 \<le> 0x5A)" if "0x41 \<le> b" "b \<le> 0x5A" for b :: byte
    using that by unat_arith
  then show ?thesis by (auto simp: to_lower_def)
qed

lemma length_to_lower [simp]: "length (to_lower n) = length n"
  by (simp add: to_lower_def)

text \<open>A header that survives the wire: every name is in canonical form and has values, no value has a
  zero byte, and all lengths fit 32 bits.\<close>

definition entry_ok :: "bytes \<times> bytes list \<Rightarrow> bool" where
  "entry_ok = (\<lambda>(n, vs). CanonicalMIMEHeaderKey (to_lower n) = n \<and> vs \<noteq> [] \<and> (\<forall>v \<in> set vs. 0 \<notin> set v) \<and>
    length n < 2 ^ 32 \<and> length (join headerValueSeparator vs) < 2 ^ 32)"

definition header_ok :: "header \<Rightarrow> bool" where
  "header_ok h \<longleftrightarrow> distinct (map fst h) \<and> list_all entry_ok h \<and> length h < 2 ^ 32"

lemma update_last: "n \<notin> fst ` set h \<Longrightarrow> AList.update n x (h @ [(n, y)]) = h @ [(n, x)]"
  by (induction h) auto

lemma header_add_all:
  assumes "CanonicalMIMEHeaderKey l = n" "n \<notin> fst ` set h"
  shows "us \<noteq> [] \<Longrightarrow> fold (header_add l) vs (h @ [(n, us)]) = h @ [(n, us @ vs)]"
proof (induction vs arbitrary: us)
  case (Cons v vs)
  have "map_of h n = None" using assms(2) by (simp add: map_of_eq_None_iff)
  then have "map_of (h @ [(n, us)]) n = Some us" by (simp add: map_add_def)
  then have "header_add l v (h @ [(n, us)]) = h @ [(n, us @ [v])]"
    using assms by (simp add: header_add_def update_last)
  then show ?case using Cons.IH[of "us @ [v]"] by simp
qed simp

lemma header_add_new:
  assumes "CanonicalMIMEHeaderKey l = n" "n \<notin> fst ` set h" "vs \<noteq> []"
  shows "fold (header_add l) vs h = h @ [(n, vs)]"
proof -
  obtain v ws where vs: "vs = v # ws" using assms(3) by (cases vs) auto
  have "map_of h n = None" using assms(2) by (simp add: map_of_eq_None_iff)
  moreover from assms(2) have "AList.update n [v] h = h @ [(n, [v])]" by (induction h) auto
  ultimately have "header_add l v h = h @ [(n, [v])]" using assms(1) by (simp add: header_add_def)
  then show ?thesis using header_add_all[OF assms(1,2), of "[v]" ws] by (simp add: vs)
qed

lemma unat_of_length: "k < 2 ^ 32 \<Longrightarrow> unat (of_nat k :: 32 word) = k"
  by (simp add: unsigned_of_nat take_bit_nat_eq_self_iff)

lemma fresh_name:
  assumes "distinct (map fst (acc @ (n, vs) # es))" "list_all entry_ok (acc @ (n, vs) # es)"
  shows "map_of acc (to_lower n) = None"
proof (rule ccontr)
  assume "map_of acc (to_lower n) \<noteq> None"
  then obtain ws where w: "(to_lower n, ws) \<in> set acc" by (auto dest: map_of_SomeD)
  then have "entry_ok (to_lower n, ws)" "entry_ok (n, vs)" using assms(2) by (auto simp: list_all_iff)
  then have "to_lower n = n" by (auto simp: entry_ok_def)
  then show False using w assms(1) by force
qed

lemma parse_headers_entries:
  assumes "distinct (map fst (acc @ es))" "list_all entry_ok (acc @ es)"
  shows "parse_headers (length es) sid acc e (concat (map write_header_entry es) @ r) = (Inr (e, acc @ es), r)"
  using assms
proof (induction es arbitrary: acc)
  case Nil
  then show ?case by (simp add: got_def)
next
  case (Cons en es)
  obtain n vs where en: "en = (n, vs)" by (cases en)
  let ?v = "join headerValueSeparator vs"
  have ok: "CanonicalMIMEHeaderKey (to_lower n) = n" "vs \<noteq> []" "\<forall>v \<in> set vs. 0 \<notin> set v"
    "unat (of_nat (length n) :: 32 word) = length n" "unat (of_nat (length ?v) :: 32 word) = length ?v"
    using Cons.prems(2) by (auto simp: en entry_ok_def unat_of_length)
  have s: "Split ?v headerValueSeparator = vs"
    unfolding headerValueSeparator_def using ok(2,3) by (rule Split_join_char)
  have new: "n \<notin> fst ` set acc" using Cons.prems(1) by (auto simp: en)
  have free: "map_of acc (to_lower n) = None" using Cons.prems by (intro fresh_name[of acc n vs es]) (auto simp: en)
  have IH: "parse_headers (length es) sid (acc @ [en]) e (concat (map write_header_entry es) @ r) = (Inr (e, acc @ en # es), r)"
    using Cons.IH[of "acc @ [en]"] Cons.prems by simp
  show ?case
    using header_add_new[OF ok(1) new ok(2)] IH ok(4,5)
    by (simp add: en write_header_entry_def Let_def and_read_def Read32_be32 ReadFull_append s free)
qed

lemma parse_block:
  assumes "header_ok h"
  shows "parseHeaderValueBlock sid (writeHeaderValueBlock h @ r) = (Inr (None, h), r)"
  using assms parse_headers_entries[of "[]" h sid None r]
  by (simp add: parseHeaderValueBlock_def writeHeaderValueBlock_def and_read_def Read32_be32 header_ok_def unat_of_length)

subsection \<open>What is emitted\<close>

definition emits :: "writing \<Rightarrow> bytes \<Rightarrow> bool" where
  "emits a bs \<longleftrightarrow> (\<forall>w. wt_room w = None \<longrightarrow> a w = (None, w\<lparr>wt_out := wt_out w @ bs\<rparr>))"

lemma emits_put [intro]: "emits (put_bytes bs) bs"
  by (simp add: emits_def put_bytes_open)

lemma emits_and [intro]: "emits a bs \<Longrightarrow> emits b cs \<Longrightarrow> emits (and_write a b) (bs @ cs)"
  by (simp add: emits_def and_write_def)

lemma emits_none [intro]: "emits (\<lambda>w. (None, w)) []"
  by (simp add: emits_def)

definition control_bytes :: "control_header \<Rightarrow> bytes" where
  "control_bytes h = be32 (first_word (ch_version h) (ch_frameType h)) @
     be32 (push_bit 24 (ucast (ch_Flags h)) OR ch_length h)"

lemma emits_control [intro]: "emits (writeControlFrameHeader h) (control_bytes h)"
proof -
  have "emits (writeControlFrameHeader h) (be16 (0x8000 OR ch_version h) @ be16 (ch_frameType h) @
      be32 (push_bit 24 (ucast (ch_Flags h)) OR ch_length h))"
    unfolding writeControlFrameHeader_def by (intro emits_and emits_put)
  then show ?thesis by (simp only: control_bytes_def first_word(1)[symmetric] append_assoc)
qed

lemma on_writer_emits:
  "emits a bs \<Longrightarrow> wt_room (fm_w f) = None \<Longrightarrow>
   on_writer a f = (None, f\<lparr>fm_w := (fm_w f)\<lparr>wt_out := wt_out (fm_w f) @ bs\<rparr>\<rparr>)"
  by (simp add: on_writer_def emits_def)

lemma write_and_reset_emits:
  "emits a bs \<Longrightarrow> wt_room (fm_w f) = None \<Longrightarrow>
   write_and_reset a f = (None, f\<lparr>fm_w := (fm_w f)\<lparr>wt_out := wt_out (fm_w f) @ bs\<rparr>, fm_headerBuf := []\<rparr>)"
  by (simp add: write_and_reset_def on_writer_emits)

subsection \<open>What is read\<close>

lemma on_reader_eq: "fm_r g = bs \<Longrightarrow> a bs = (x, r) \<Longrightarrow> on_reader a g = (x, g\<lparr>fm_r := r\<rparr>)"
  by (simp add: on_reader_def)

lemma read_word [wire]: "fm_r g = be32 x @ r \<Longrightarrow> and_frame (on_reader Read32) k g = k x (g\<lparr>fm_r := r\<rparr>)"
  by (simp add: and_frame_def on_reader_def Read32_be32)

lemma read_byte [wire]: "fm_r g = b # r \<Longrightarrow> and_frame (on_reader Read8) k g = k b (g\<lparr>fm_r := r\<rparr>)"
  by (simp add: and_frame_def on_reader_def Read8_Cons)

lemma read_bytes [wire]:
  "fm_r g = bs @ r \<Longrightarrow> n = length bs \<Longrightarrow> and_frame (on_reader (ReadFull n)) k g = k bs (g\<lparr>fm_r := r\<rparr>)"
  by (simp add: and_frame_def on_reader_def ReadFull_append)

lemma ReadFrame_control:
  assumes "fm_r g = control_bytes h @ r" "ch_version h = Version" "ch_length h < 2 ^ 24"
  shows "ReadFrame zl g = read_control zl h (g\<lparr>fm_r := r\<rparr>)"
proof -
  have v: "ch_version h < 2 ^ 15" by (simp add: assms(2) Version_def)
  have h: "\<lparr>ch_version = ch_version h, ch_frameType = ch_frameType h, ch_Flags = ch_Flags h, ch_length = ch_length h\<rparr> = h"
    by simp
  show ?thesis
    using assms(1) first_word(2) flags_length[OF assms(3)]
    by (simp add: ReadFrame_def parseControlFrame_def control_bytes_def wire first_word(3) first_word(4)[OF v] h)
qed

subsection \<open>Headers through zlib\<close>

text \<open>What the framing code relies on: \<open>R\<close> relates the compressor to the decompressor that has read all it
  has written (to none, before its first block); such a decompressor inflates the next flushed block
  to what was written and reads all of it. This is the documented behaviour of \<open>Flush\<close>.\<close>

definition zlib_ok :: "('c, 'd) zlib \<Rightarrow> ('c \<Rightarrow> 'd option \<Rightarrow> bool) \<Rightarrow> bool" where
  "zlib_ok zl R \<longleftrightarrow>
    (\<forall>c d b. R c (Some d) \<longrightarrow> (\<exists>d'. zl_inflate zl d (fst (zl_deflate zl c b)) = (b, 0, d') \<and>
       R (snd (zl_deflate zl c b)) (Some d'))) \<and>
    (\<forall>c b. R c None \<longrightarrow> (\<exists>d k d'. k \<le> length (fst (zl_deflate zl c b)) \<and>
       zl_new_reader zl (fst (zl_deflate zl c b)) = (Inr d, k) \<and>
       zl_inflate zl d (drop k (fst (zl_deflate zl c b))) = (b, 0, d') \<and> R (snd (zl_deflate zl c b)) (Some d')))"

definition in_sync :: "('c \<Rightarrow> 'd option \<Rightarrow> bool) \<Rightarrow> ('c, 'd) framer \<Rightarrow> ('c, 'd) framer \<Rightarrow> bool" where
  "in_sync R f g \<longleftrightarrow> fm_headerCompressionDisabled f = fm_headerCompressionDisabled g \<and> fm_headerBuf f = [] \<and>
    (fm_headerCompressionDisabled f \<or>
      (\<exists>dopt. R (fm_headerCompressor f) dopt \<and> fm_headerDecompressor g = map_option (\<lambda>d. (d, [])) dopt))"

lemma in_sync_frame [simp]:
  "in_sync R (f\<lparr>fm_w := w\<rparr>) g = in_sync R f g" "in_sync R f (g\<lparr>fm_r := r\<rparr>) = in_sync R f g"
  by (simp_all add: in_sync_def)

lemma parse_inflated_block:
  assumes "header_ok h" "zl_inflate zl d p = (writeHeaderValueBlock h, 0, d')" "fm_r g = p @ r" "fm_N g = length p"
  shows "parse_inflated zl sid (d, []) g =
    (Inr (None, h), g\<lparr>fm_r := r, fm_N := 0, fm_headerDecompressor := Some (d', [])\<rparr>)"
  using assms parse_block[OF assms(1), of sid "[]"] by (simp add: parse_inflated_def)

lemma read_headers_sync:
  assumes "zlib_ok zl R" "in_sync R f g" "header_ok h"
    and "fm_r g = fm_headerBuf (marshal_headers zl h f) @ r"
    and "n = length (fm_headerBuf (marshal_headers zl h f))"
  shows "\<exists>g'. read_headers zl n sid g = (Inr h, g') \<and> fm_r g' = r \<and>
    in_sync R ((marshal_headers zl h f)\<lparr>fm_headerBuf := []\<rparr>) g'"
proof (cases "fm_headerCompressionDisabled f")
  case True
  then show ?thesis
    using assms(2,4) parse_block[OF assms(3), of sid r]
    by (simp add: read_headers_def marshal_headers_def in_sync_def on_reader_def)
next
  case False
  let ?b = "writeHeaderValueBlock h"
  obtain p c' where p: "zl_deflate zl (fm_headerCompressor f) ?b = (p, c')"
    by (cases "zl_deflate zl (fm_headerCompressor f) ?b")
  have g: "fm_r g = p @ r" "n = length p" "\<not> fm_headerCompressionDisabled g"
    using assms(2,4,5) False by (simp_all add: marshal_headers_def p in_sync_def)
  obtain dopt where d: "R (fm_headerCompressor f) dopt" "fm_headerDecompressor g = map_option (\<lambda>d. (d, [])) dopt"
    using assms(2) False by (auto simp: in_sync_def)
  have sync: "in_sync R ((marshal_headers zl h f)\<lparr>fm_headerBuf := []\<rparr>) (g'\<lparr>fm_headerDecompressor := Some (d', [])\<rparr>)"
    if "R c' (Some d')" "\<not> fm_headerCompressionDisabled g'" for d' g'
    using that False by (auto simp: in_sync_def marshal_headers_def p intro: exI[of _ "Some d'"])
  show ?thesis
  proof (cases dopt)
    case (Some d1)
    then obtain d' where d': "zl_inflate zl d1 p = (?b, 0, d')" "R c' (Some d')"
      using assms(1) d(1) p unfolding zlib_ok_def by (metis fst_conv snd_conv)
    have "parse_inflated zl sid (d1, []) (g\<lparr>fm_N := n\<rparr>) =
        (Inr (None, h), (g\<lparr>fm_N := n\<rparr>)\<lparr>fm_r := r, fm_N := 0, fm_headerDecompressor := Some (d', [])\<rparr>)"
      using assms(3) d'(1) g by (intro parse_inflated_block) simp_all
    then have "read_headers zl n sid g = (Inr h, g\<lparr>fm_N := 0, fm_r := r, fm_headerDecompressor := Some (d', [])\<rparr>)"
      using g d(2) Some by (simp add: read_headers_def uncorkHeaderDecompressor_def Let_def)
    moreover have "in_sync R ((marshal_headers zl h f)\<lparr>fm_headerBuf := []\<rparr>)
        ((g\<lparr>fm_N := 0, fm_r := r\<rparr>)\<lparr>fm_headerDecompressor := Some (d', [])\<rparr>)"
      using d'(2) g(3) by (intro sync) simp_all
    ultimately show ?thesis by simp
  next
    case None
    then obtain d1 k d' where d': "k \<le> length p" "zl_new_reader zl p = (Inr d1, k)"
      "zl_inflate zl d1 (drop k p) = (?b, 0, d')" "R c' (Some d')"
      using assms(1) d(1) p unfolding zlib_ok_def by (metis fst_conv snd_conv)
    let ?g = "g\<lparr>fm_r := drop k p @ r, fm_N := length p - k, fm_headerDecompressor := Some (d1, [])\<rparr>"
    have "parse_inflated zl sid (d1, []) ?g =
        (Inr (None, h), ?g\<lparr>fm_r := r, fm_N := 0, fm_headerDecompressor := Some (d', [])\<rparr>)"
      using assms(3) d'(3) by (intro parse_inflated_block) (auto simp: length_drop)
    then have "read_headers zl n sid g = (Inr h, g\<lparr>fm_r := r, fm_N := 0, fm_headerDecompressor := Some (d', [])\<rparr>)"
      using g d(2) None d'(1,2) by (simp add: read_headers_def uncorkHeaderDecompressor_def Let_def)
    moreover have "in_sync R ((marshal_headers zl h f)\<lparr>fm_headerBuf := []\<rparr>)
        ((g\<lparr>fm_r := r, fm_N := 0\<rparr>)\<lparr>fm_headerDecompressor := Some (d', [])\<rparr>)"
      using d'(4) g(3) by (intro sync) simp_all
    ultimately show ?thesis by simp
  qed
qed

subsection \<open>Each frame\<close>

definition reads_back ::
  "('c, 'd) zlib \<Rightarrow> ('c \<Rightarrow> 'd option \<Rightarrow> bool) \<Rightarrow> ('c, 'd) framer \<Rightarrow> frame \<times> wire_error option \<times> ('c, 'd) framer \<Rightarrow> bool"
where
  "reads_back zl R f = (\<lambda>(fr', err, f').
    err = None \<and> wt_room (fm_w f') = None \<and>
    (\<exists>bs. wt_out (fm_w f') = wt_out (fm_w f) @ bs \<and>
      (\<forall>g r. in_sync R f g \<longrightarrow> fm_r g = bs @ r \<longrightarrow>
        (\<exists>g'. ReadFrame zl g = (Inr fr', g') \<and> fm_r g' = r \<and> in_sync R f' g'))))"

text \<open>A control frame without headers.\<close>

lemma reads_back_plain:
  assumes "emits a (control_bytes h @ bs)" "wt_room (fm_w f) = None" "ch_version h = Version" "ch_length h < 2 ^ 24"
    and "\<And>g r. fm_r g = bs @ r \<Longrightarrow> read_control zl h g = (Inr fr, g\<lparr>fm_r := r\<rparr>)"
  shows "reads_back zl R f (fr, on_writer a f)"
proof -
  have "\<exists>g'. ReadFrame zl g = (Inr fr, g') \<and> fm_r g' = r \<and> in_sync R f g'"
    if "in_sync R f g" "fm_r g = (control_bytes h @ bs) @ r" for g r
    using that assms(5)[of "g\<lparr>fm_r := bs @ r\<rparr>" r] ReadFrame_control[of g h "bs @ r" zl] assms(3,4) by simp
  then show ?thesis
    using assms(2) by (auto simp: reads_back_def on_writer_emits[OF assms(1,2)])
qed

lemma types_differ:
  "TypeSynStream \<noteq> TypeSynReply" "TypeRstStream \<notin> {TypeSynStream, TypeSynReply}"
  "TypeSettings \<notin> {TypeSynStream, TypeSynReply, TypeRstStream}"
  "TypePing \<notin> {TypeSynStream, TypeSynReply, TypeRstStream, TypeSettings}"
  "TypeGoAway \<notin> {TypeSynStream, TypeSynReply, TypeRstStream, TypeSettings, TypePing}"
  "TypeHeaders \<notin> {TypeSynStream, TypeSynReply, TypeRstStream, TypeSettings, TypePing, TypeGoAway}"
  "TypeWindowUpdate \<notin> {TypeSynStream, TypeSynReply, TypeRstStream, TypeSettings, TypePing, TypeGoAway, TypeHeaders}"
  by (simp_all add: TypeSynStream_def TypeSynReply_def TypeRstStream_def TypeSettings_def TypePing_def
      TypeGoAway_def TypeHeaders_def TypeWindowUpdate_def)

lemma read_control_type:
  "ch_frameType h = TypeSynStream \<Longrightarrow> read_control zl h = frame_map SynStreamFrame (readSynStreamFrame zl h)"
  "ch_frameType h = TypeSynReply \<Longrightarrow> read_control zl h = frame_map SynReplyFrame (readSynReplyFrame zl h)"
  "ch_frameType h = TypeRstStream \<Longrightarrow> read_control zl h = frame_map RstStreamFrame (read_rst h)"
  "ch_frameType h = TypeSettings \<Longrightarrow> read_control zl h = frame_map SettingsFrame (read_settings h)"
  "ch_frameType h = TypePing \<Longrightarrow> read_control zl h = frame_map PingFrame (read_ping h)"
  "ch_frameType h = TypeGoAway \<Longrightarrow> read_control zl h = frame_map GoAwayFrame (read_go_away h)"
  "ch_frameType h = TypeHeaders \<Longrightarrow> read_control zl h = frame_map HeadersFrame (readHeadersFrame zl h)"
  "ch_frameType h = TypeWindowUpdate \<Longrightarrow> read_control zl h = frame_map WindowUpdateFrame (read_window_update h)"
  using types_differ by (auto simp: read_control_def Let_def)

lemma frame_map_done: "a g = (Inr x, g') \<Longrightarrow> frame_map k a g = (Inr (k x), g')"
  by (simp add: frame_map_def and_frame_def frame_done_def)

lemma rst_roundtrip:
  assumes "wt_room (fm_w f) = None" "fr_StreamId x \<noteq> 0" "fr_Status x \<noteq> 0"
  shows "reads_back zl R f (apfst RstStreamFrame (write_rst x f))"
proof -
  define h where "h = \<lparr>ch_version = Version, ch_frameType = TypeRstStream, ch_Flags = 0, ch_length = 8\<rparr>"
  have w: "apfst RstStreamFrame (write_rst x f) = (RstStreamFrame (x\<lparr>fr_CFHeader := h\<rparr>),
      on_writer (and_write (writeControlFrameHeader h) (and_write (put_bytes (be32 (fr_StreamId x))) (put_bytes (be32 (fr_Status x))))) f)"
    using assms(2,3) by (simp add: write_rst_def h_def Let_def)
  show ?thesis
    unfolding w
  proof (rule reads_back_plain)
    show "emits (and_write (writeControlFrameHeader h) (and_write (put_bytes (be32 (fr_StreamId x))) (put_bytes (be32 (fr_Status x)))))
        (control_bytes h @ be32 (fr_StreamId x) @ be32 (fr_Status x))" by blast
    show "read_control zl h g = (Inr (RstStreamFrame (x\<lparr>fr_CFHeader := h\<rparr>)), g\<lparr>fm_r := r\<rparr>)"
      if "fm_r g = (be32 (fr_StreamId x) @ be32 (fr_Status x)) @ r" for g r
    proof -
      have "ch_frameType h = TypeRstStream" by (simp add: h_def)
      moreover have "read_rst h g = (Inr (x\<lparr>fr_CFHeader := h\<rparr>), g\<lparr>fm_r := r\<rparr>)"
        using that assms(2,3) by (simp add: read_rst_def wire frame_done_def)
      ultimately show ?thesis by (simp add: read_control_type(3) frame_map_done)
    qed
  qed (simp_all add: h_def assms(1))
qed

lemma ping_roundtrip:
  assumes "wt_room (fm_w f) = None" "fp_Id x \<noteq> 0"
  shows "reads_back zl R f (apfst PingFrame (write_ping x f))"
proof -
  define h where "h = \<lparr>ch_version = Version, ch_frameType = TypePing, ch_Flags = 0, ch_length = 4\<rparr>"
  have w: "apfst PingFrame (write_ping x f) = (PingFrame (x\<lparr>fp_CFHeader := h\<rparr>),
      on_writer (and_write (writeControlFrameHeader h) (put_bytes (be32 (fp_Id x)))) f)"
    using assms(2) by (simp add: write_ping_def h_def Let_def)
  show ?thesis
    unfolding w
  proof (rule reads_back_plain)
    show "emits (and_write (writeControlFrameHeader h) (put_bytes (be32 (fp_Id x)))) (control_bytes h @ be32 (fp_Id x))" by blast
    show "read_control zl h g = (Inr (PingFrame (x\<lparr>fp_CFHeader := h\<rparr>)), g\<lparr>fm_r := r\<rparr>)"
      if "fm_r g = be32 (fp_Id x) @ r" for g r
    proof -
      have "ch_frameType h = TypePing" "ch_Flags h = 0" by (simp_all add: h_def)
      moreover from this have "read_ping h g = (Inr (x\<lparr>fp_CFHeader := h\<rparr>), g\<lparr>fm_r := r\<rparr>)"
        using that assms(2) by (simp add: read_ping_def wire frame_done_def)
      ultimately show ?thesis by (simp add: read_control_type(5) frame_map_done)
    qed
  qed (simp_all add: h_def assms(1))
qed

lemma go_away_roundtrip:
  assumes "wt_room (fm_w f) = None"
  shows "reads_back zl R f (apfst GoAwayFrame (write_go_away x f))"
proof -
  define h where "h = \<lparr>ch_version = Version, ch_frameType = TypeGoAway, ch_Flags = 0, ch_length = 8\<rparr>"
  have w: "apfst GoAwayFrame (write_go_away x f) = (GoAwayFrame (x\<lparr>fg_CFHeader := h\<rparr>),
      on_writer (and_write (writeControlFrameHeader h) (and_write (put_bytes (be32 (fg_LastGoodStreamId x))) (put_bytes (be32 (fg_Status x))))) f)"
    by (simp add: write_go_away_def h_def Let_def)
  show ?thesis
    unfolding w
  proof (rule reads_back_plain)
    show "emits (and_write (writeControlFrameHeader h) (and_write (put_bytes (be32 (fg_LastGoodStreamId x))) (put_bytes (be32 (fg_Status x)))))
        (control_bytes h @ be32 (fg_LastGoodStreamId x) @ be32 (fg_Status x))" by blast
    show "read_control zl h g = (Inr (GoAwayFrame (x\<lparr>fg_CFHeader := h\<rparr>)), g\<lparr>fm_r := r\<rparr>)"
      if "fm_r g = (be32 (fg_LastGoodStreamId x) @ be32 (fg_Status x)) @ r" for g r
    proof -
      have "ch_frameType h = TypeGoAway" "ch_Flags h = 0" "ch_length h = 8" by (simp_all add: h_def)
      moreover from this have "read_go_away h g = (Inr (x\<lparr>fg_CFHeader := h\<rparr>), g\<lparr>fm_r := r\<rparr>)"
        using that by (simp add: read_go_away_def wire frame_done_def)
      ultimately show ?thesis by (simp add: read_control_type(6) frame_map_done)
    qed
  qed (simp_all add: h_def assms(1))
qed

lemma window_update_roundtrip:
  assumes "wt_room (fm_w f) = None"
  shows "reads_back zl R f (apfst WindowUpdateFrame (write_window_update x f))"
proof -
  define h where "h = \<lparr>ch_version = Version, ch_frameType = TypeWindowUpdate, ch_Flags = 0, ch_length = 8\<rparr>"
  have w: "apfst WindowUpdateFrame (write_window_update x f) = (WindowUpdateFrame (x\<lparr>fw_CFHeader := h\<rparr>),
      on_writer (and_write (writeControlFrameHeader h) (and_write (put_bytes (be32 (fw_StreamId x))) (put_bytes (be32 (fw_DeltaWindowSize x))))) f)"
    by (simp add: write_window_update_def h_def Let_def)
  show ?thesis
    unfolding w
  proof (rule reads_back_plain)
    show "emits (and_write (writeControlFrameHeader h) (and_write (put_bytes (be32 (fw_StreamId x))) (put_bytes (be32 (fw_DeltaWindowSize x)))))
        (control_bytes h @ be32 (fw_StreamId x) @ be32 (fw_DeltaWindowSize x))" by blast
    show "read_control zl h g = (Inr (WindowUpdateFrame (x\<lparr>fw_CFHeader := h\<rparr>)), g\<lparr>fm_r := r\<rparr>)"
      if "fm_r g = (be32 (fw_StreamId x) @ be32 (fw_DeltaWindowSize x)) @ r" for g r
    proof -
      have "ch_frameType h = TypeWindowUpdate" "ch_Flags h = 0" "ch_length h = 8" by (simp_all add: h_def)
      moreover from this have "read_window_update h g = (Inr (x\<lparr>fw_CFHeader := h\<rparr>), g\<lparr>fm_r := r\<rparr>)"
        using that by (simp add: read_window_update_def wire frame_done_def)
      ultimately show ?thesis by (simp add: read_control_type(8) frame_map_done)
    qed
  qed (simp_all add: h_def assms(1))
qed

fun settings_bytes :: "setting list \<Rightarrow> bytes" where
  "settings_bytes [] = []"
| "settings_bytes (v # vs) = be32 (push_bit 24 (ucast (fi_Flag v)) OR fi_Id v) @ be32 (fi_Value v) @ settings_bytes vs"

lemma emits_settings [intro]: "emits (write_settings_values vs) (settings_bytes vs)"
  by (induction vs) (auto simp: emits_none)

lemma read_settings_back:
  "\<forall>v \<in> set vs. fi_Id v < 2 ^ 24 \<Longrightarrow> read_settings_values (length vs) (settings_bytes vs @ r) = (Inr vs, r)"
proof (induction vs)
  case (Cons v vs)
  then have v: "fi_Id v < 2 ^ 24" by simp
  have eq: "\<lparr>fi_Flag = fi_Flag v, fi_Id = fi_Id v, fi_Value = fi_Value v\<rparr> = v" by simp
  show ?case
    using Cons flags_length(1,2)[OF v] eq
    by (simp add: and_read_def Read32_be32 got_def)
qed (simp add: got_def)

lemma settings_roundtrip:
  assumes "wt_room (fm_w f) = None" "length (ft_FlagIdValues x) * 8 + 4 < 2 ^ 24" "\<forall>v \<in> set (ft_FlagIdValues x). fi_Id v < 2 ^ 24"
  shows "reads_back zl R f (apfst SettingsFrame (write_settings x f))"
proof -
  let ?vs = "ft_FlagIdValues x"
  let ?n = "of_nat (length ?vs) :: 32 word"
  define h where "h = (ft_CFHeader x)\<lparr>ch_version := Version, ch_frameType := TypeSettings, ch_length := of_nat (length ?vs * 8 + 4)\<rparr>"
  have w: "apfst SettingsFrame (write_settings x f) = (SettingsFrame (x\<lparr>ft_CFHeader := h\<rparr>),
      on_writer (and_write (writeControlFrameHeader h) (and_write (put_bytes (be32 ?n)) (write_settings_values ?vs))) f)"
    by (simp add: write_settings_def h_def Let_def)
  have n: "unat ?n = length ?vs" using assms(2) by (intro unat_of_length) simp
  have "unat (of_nat (length ?vs * 8 + 4) :: 32 word) = length ?vs * 8 + 4" using assms(2) by (intro unat_of_length) simp
  then have "ch_length h < 2 ^ 24" using assms(2) by (simp add: h_def word_less_nat_alt del: of_nat_add of_nat_mult)
  show ?thesis
    unfolding w
  proof (rule reads_back_plain)
    show "emits (and_write (writeControlFrameHeader h) (and_write (put_bytes (be32 ?n)) (write_settings_values ?vs)))
        (control_bytes h @ be32 ?n @ settings_bytes ?vs)" by blast
    show "read_control zl h g = (Inr (SettingsFrame (x\<lparr>ft_CFHeader := h\<rparr>)), g\<lparr>fm_r := r\<rparr>)"
      if "fm_r g = (be32 ?n @ settings_bytes ?vs) @ r" for g r
    proof -
      have "ch_frameType h = TypeSettings" by (simp add: h_def)
      moreover have "read_settings h g = (Inr (x\<lparr>ft_CFHeader := h\<rparr>), g\<lparr>fm_r := r\<rparr>)"
        using that read_settings_back[OF assms(3), of r]
        by (simp add: read_settings_def wire n and_frame_def on_reader_def frame_done_def Read32_be32)
      ultimately show ?thesis by (simp add: read_control_type(4) frame_map_done)
    qed
  next
    show "ch_version h = Version" by (simp add: h_def)
  qed (use assms(1) \<open>ch_length h < 2 ^ 24\<close> in simp_all)
qed

lemma high_bit_clear:
  assumes "(x :: 32 word) AND 0x80000000 = 0"
  shows "x AND 0x7fffffff = x"
proof -
  have "push_bit 31 (drop_bit 31 x) = 0" using assms by (simp only: and_masks)
  then have "take_bit 31 x = x" using bits_ident[of 31 x] by simp
  then show ?thesis by (simp only: and_masks)
qed

lemma data_roundtrip:
  assumes "wt_room (fm_w f) = None" "fd_StreamId x \<noteq> 0" "fd_StreamId x AND 0x80000000 = 0" "length (fd_Data x) \<le> MaxDataLength"
  shows "reads_back zl R f (apfst DataFrame (writeDataFrame x f))"
proof -
  let ?n = "of_nat (length (fd_Data x)) :: 32 word"
  define y where "y = push_bit 24 (ucast (fd_Flags x)) OR ?n"
  define a where "a = and_write (put_bytes (be32 (fd_StreamId x))) (and_write (put_bytes (be32 y)) (put_bytes (fd_Data x)))"
  let ?bs = "be32 (fd_StreamId x) @ be32 y @ fd_Data x"
  have w: "apfst DataFrame (writeDataFrame x f) = (DataFrame x, on_writer a f)"
    using assms(2,3,4) by (simp add: writeDataFrame_def a_def y_def not_less)
  have e: "emits a ?bs" unfolding a_def by blast
  have n: "unat ?n = length (fd_Data x)" using assms(4) by (intro unat_of_length) (simp add: MaxDataLength_def)
  then have "?n < 2 ^ 24" using assms(4) by (simp add: word_less_nat_alt MaxDataLength_def)
  note y = flags_length(1,3)[OF this, of "fd_Flags x", folded y_def]
  have eq: "\<lparr>fd_StreamId = fd_StreamId x, fd_Flags = fd_Flags x, fd_Data = fd_Data x\<rparr> = x" by simp
  have "ReadFrame zl g = (Inr (DataFrame x), g\<lparr>fm_r := r\<rparr>)" if "fm_r g = ?bs @ r" for g r
    using that assms(2) n eq
    by (simp add: ReadFrame_def wire assms(3) high_bit_clear[OF assms(3)] frame_map_def parseDataFrame_def
        and_frame_def on_reader_def Read32_be32 ReadFull_append y frame_done_def)
  then show ?thesis
    unfolding w using assms(1) by (auto simp: reads_back_def on_writer_emits[OF e assms(1)])
qed

text \<open>A frame with headers: after the bytes \<open>pre\<close> its \<open>read\<close> goes on with the header block.\<close>

lemma reads_back_headers:
  assumes zl: "zlib_ok zl R" and room: "wt_room (fm_w f) = None" and hs: "header_ok hs"
    and f1: "f1 = marshal_headers zl hs f"
    and a: "emits a (control_bytes h @ pre @ fm_headerBuf f1)"
    and h: "ch_version h = Version" "ch_length h < 2 ^ 24" "n = length (fm_headerBuf f1)"
    and rd: "\<And>g r. fm_r g = pre @ r \<Longrightarrow> read_control zl h g = and_frame (read_headers zl n sid) k (g\<lparr>fm_r := r\<rparr>)"
    and k: "\<And>g. k hs g = (Inr fr, g)"
  shows "reads_back zl R f (fr, write_and_reset a f1)"
proof -
  have w: "fm_w f1 = fm_w f" by (simp add: f1 marshal_headers_def split: prod.split)
  then have wr: "write_and_reset a f1 = (None, f1\<lparr>fm_w := (fm_w f)\<lparr>wt_out := wt_out (fm_w f) @ control_bytes h @ pre @ fm_headerBuf f1\<rparr>,
      fm_headerBuf := []\<rparr>)"
    using write_and_reset_emits[OF a, of f1] room by simp
  have "\<exists>g'. ReadFrame zl g = (Inr fr, g') \<and> fm_r g' = r \<and> in_sync R (f1\<lparr>fm_headerBuf := []\<rparr>) g'"
    if g: "in_sync R f g" "fm_r g = (control_bytes h @ pre @ fm_headerBuf f1) @ r" for g r
  proof -
    let ?g = "g\<lparr>fm_r := fm_headerBuf f1 @ r\<rparr>"
    have "ReadFrame zl g = read_control zl h (g\<lparr>fm_r := pre @ fm_headerBuf f1 @ r\<rparr>)"
      using g(2) h by (intro ReadFrame_control) simp_all
    then have rf: "ReadFrame zl g = and_frame (read_headers zl n sid) k ?g"
      using rd[of "g\<lparr>fm_r := pre @ fm_headerBuf f1 @ r\<rparr>"] by simp
    obtain g' where "read_headers zl n sid ?g = (Inr hs, g')" "fm_r g' = r" "in_sync R (f1\<lparr>fm_headerBuf := []\<rparr>) g'"
      using read_headers_sync[OF zl _ hs, of f ?g r n sid] g(1) h(3) unfolding f1 by auto
    then show ?thesis unfolding rf by (auto simp: and_frame_def k)
  qed
  moreover have "in_sync R (f1\<lparr>fm_w := w, fm_headerBuf := []\<rparr>) g' = in_sync R (f1\<lparr>fm_headerBuf := []\<rparr>) g'" for w g'
    by (simp add: in_sync_def)
  ultimately show ?thesis
    unfolding wr using room by (auto simp: reads_back_def)
qed

lemma control_length:
  assumes "m + 10 < 2 ^ 24" "c \<le> 10"
  shows "(of_nat (m + c) :: 32 word) < 2 ^ 24" "unat (of_nat (m + c) - of_nat c :: 32 word) = m"
proof -
  have "unat (of_nat (m + c) :: 32 word) = m + c" using assms by (intro unat_of_length) simp
  then show "(of_nat (m + c) :: 32 word) < 2 ^ 24" using assms by (simp add: word_less_nat_alt del: of_nat_add)
  have "unat (of_nat m :: 32 word) = m" using assms by (intro unat_of_length) simp
  then show "unat (of_nat (m + c) - of_nat c :: 32 word) = m" by simp
qed

lemma syn_reply_roundtrip:
  fixes f :: "('c, 'd) framer"
  assumes "zlib_ok zl R" "wt_room (fm_w f) = None" "header_ok (fy_Headers x)" "fy_StreamId x \<noteq> 0"
    and "\<not> has_header invalidRespHeaders (fy_Headers x)"
    and "length (fm_headerBuf (marshal_headers zl (fy_Headers x) f)) + 10 < 2 ^ 24"
  shows "reads_back zl R f (apfst SynReplyFrame (writeSynReplyFrame zl x f))"
proof -
  define f1 where "f1 = marshal_headers zl (fy_Headers x) f"
  define h where "h = (fy_CFHeader x)\<lparr>ch_version := Version, ch_frameType := TypeSynReply, ch_length := of_nat (length (fm_headerBuf f1) + 4)\<rparr>"
  define k :: "header \<Rightarrow> (frame, 'c, 'd) frame_read" where "k = (\<lambda>headers. if has_header invalidRespHeaders headers then frame_error InvalidHeaderPresent (fy_StreamId x)
      else frame_done (SynReplyFrame \<lparr>fy_CFHeader = h, fy_StreamId = fy_StreamId x, fy_Headers = headers\<rparr>))"
  have w: "apfst SynReplyFrame (writeSynReplyFrame zl x f) = (SynReplyFrame (x\<lparr>fy_CFHeader := h\<rparr>),
      write_and_reset (and_write (writeControlFrameHeader h) (and_write (put_bytes (be32 (fy_StreamId x))) (put_bytes (fm_headerBuf f1)))) f1)"
    using assms(4) by (simp add: writeSynReplyFrame_def h_def f1_def Let_def)
  note len = control_length[OF assms(6)[folded f1_def], of 4]
  show ?thesis
    unfolding w
  proof (rule reads_back_headers[OF assms(1-3) f1_def])
    show "emits (and_write (writeControlFrameHeader h) (and_write (put_bytes (be32 (fy_StreamId x))) (put_bytes (fm_headerBuf f1))))
        (control_bytes h @ be32 (fy_StreamId x) @ fm_headerBuf f1)" by blast
    show "ch_version h = Version" by (simp add: h_def)
    show "ch_length h < 2 ^ 24" using len(1) by (simp add: h_def)
    show "unat (ch_length h - 4) = length (fm_headerBuf f1)" using len(2) by (simp add: h_def)
    show "read_control zl h g = and_frame (read_headers zl (unat (ch_length h - 4)) (fy_StreamId x)) k (g\<lparr>fm_r := r\<rparr>)"
      if "fm_r g = be32 (fy_StreamId x) @ r" for g r
    proof -
      have "ch_frameType h = TypeSynReply" by (simp add: h_def)
      then show ?thesis
        using that assms(4)
        by (simp add: read_control_type(2) frame_map_def readSynReplyFrame_def and_frame_def on_reader_def Read32_be32
            k_def frame_error_def frame_done_def split: prod.splits sum.splits if_splits)
    qed
    show "k (fy_Headers x) g = (Inr (SynReplyFrame (x\<lparr>fy_CFHeader := h\<rparr>)), g)" for g
      using assms(5) by (simp add: k_def frame_done_def)
  qed
qed

lemma headers_roundtrip:
  fixes f :: "('c, 'd) framer"
  assumes "zlib_ok zl R" "wt_room (fm_w f) = None" "header_ok (fh_Headers x)" "fh_StreamId x \<noteq> 0"
    and "\<not> has_header (if fh_StreamId x mod 2 = 0 then invalidReqHeaders else invalidRespHeaders) (fh_Headers x)"
    and "length (fm_headerBuf (marshal_headers zl (fh_Headers x) f)) + 10 < 2 ^ 24"
  shows "reads_back zl R f (apfst HeadersFrame (writeHeadersFrame zl x f))"
proof -
  define f1 where "f1 = marshal_headers zl (fh_Headers x) f"
  define h where "h = (fh_CFHeader x)\<lparr>ch_version := Version, ch_frameType := TypeHeaders, ch_length := of_nat (length (fm_headerBuf f1) + 4)\<rparr>"
  define inv where "inv = (if fh_StreamId x mod 2 = 0 then invalidReqHeaders else invalidRespHeaders)"
  define k :: "header \<Rightarrow> (frame, 'c, 'd) frame_read" where "k = (\<lambda>headers. if has_header inv headers then frame_error InvalidHeaderPresent (fh_StreamId x)
      else frame_done (HeadersFrame \<lparr>fh_CFHeader = h, fh_StreamId = fh_StreamId x, fh_Headers = headers\<rparr>))"
  have w: "apfst HeadersFrame (writeHeadersFrame zl x f) = (HeadersFrame (x\<lparr>fh_CFHeader := h\<rparr>),
      write_and_reset (and_write (writeControlFrameHeader h) (and_write (put_bytes (be32 (fh_StreamId x))) (put_bytes (fm_headerBuf f1)))) f1)"
    using assms(4) by (simp add: writeHeadersFrame_def h_def f1_def Let_def)
  note len = control_length[OF assms(6)[folded f1_def], of 4]
  show ?thesis
    unfolding w
  proof (rule reads_back_headers[OF assms(1-3) f1_def])
    show "emits (and_write (writeControlFrameHeader h) (and_write (put_bytes (be32 (fh_StreamId x))) (put_bytes (fm_headerBuf f1))))
        (control_bytes h @ be32 (fh_StreamId x) @ fm_headerBuf f1)" by blast
    show "ch_version h = Version" by (simp add: h_def)
    show "ch_length h < 2 ^ 24" using len(1) by (simp add: h_def)
    show "unat (ch_length h - 4) = length (fm_headerBuf f1)" using len(2) by (simp add: h_def)
    show "read_control zl h g = and_frame (read_headers zl (unat (ch_length h - 4)) (fh_StreamId x)) k (g\<lparr>fm_r := r\<rparr>)"
      if "fm_r g = be32 (fh_StreamId x) @ r" for g r
    proof -
      have "ch_frameType h = TypeHeaders" by (simp add: h_def)
      then show ?thesis
        using that assms(4)
        by (simp add: read_control_type(7) frame_map_def readHeadersFrame_def inv_def[symmetric] and_frame_def on_reader_def Read32_be32
            k_def frame_error_def frame_done_def split: prod.splits sum.splits if_splits)
    qed
    show "k (fh_Headers x) g = (Inr (HeadersFrame (x\<lparr>fh_CFHeader := h\<rparr>)), g)" for g
      using assms(5) by (simp add: k_def frame_done_def inv_def[symmetric])
  qed
qed

lemma priority_bits: "(p :: byte) < 8 \<Longrightarrow> drop_bit 5 (push_bit 5 p) = p"
proof -
  assume "p < 8"
  then have "bit p n \<Longrightarrow> n < 3" for n using word_lt_bit[of p 3 n] by simp
  then show ?thesis by (intro bit_word_eqI) (auto simp: bit_simps)
qed

lemma syn_stream_roundtrip:
  fixes f :: "('c, 'd) framer"
  assumes "zlib_ok zl R" "wt_room (fm_w f) = None" "header_ok (fs_Headers x)" "fs_StreamId x \<noteq> 0" "fs_Priority x < 8"
    and "\<not> has_header invalidReqHeaders (fs_Headers x)"
    and "length (fm_headerBuf (marshal_headers zl (fs_Headers x) f)) + 10 < 2 ^ 24"
  shows "reads_back zl R f (apfst SynStreamFrame (writeSynStreamFrame zl x f))"
proof -
  define f1 where "f1 = marshal_headers zl (fs_Headers x) f"
  define h where "h = (fs_CFHeader x)\<lparr>ch_version := Version, ch_frameType := TypeSynStream, ch_length := of_nat (length (fm_headerBuf f1) + 10)\<rparr>"
  define k :: "header \<Rightarrow> (frame, 'c, 'd) frame_read" where "k = (\<lambda>headers. if has_header invalidReqHeaders headers then frame_error InvalidHeaderPresent (fs_StreamId x)
      else frame_done (SynStreamFrame \<lparr>fs_CFHeader = h, fs_StreamId = fs_StreamId x, fs_AssociatedToStreamId = fs_AssociatedToStreamId x,
        fs_Priority = fs_Priority x, fs_Slot = fs_Slot x, fs_Headers = headers\<rparr>))"
  define a where "a = and_write (writeControlFrameHeader h) (and_write (put_bytes (be32 (fs_StreamId x)))
      (and_write (put_bytes (be32 (fs_AssociatedToStreamId x))) (and_write (put_bytes [push_bit 5 (fs_Priority x)])
      (and_write (put_bytes [fs_Slot x]) (put_bytes (fm_headerBuf f1))))))"
  let ?pre = "be32 (fs_StreamId x) @ be32 (fs_AssociatedToStreamId x) @ [push_bit 5 (fs_Priority x)] @ [fs_Slot x]"
  have w: "apfst SynStreamFrame (writeSynStreamFrame zl x f) = (SynStreamFrame (x\<lparr>fs_CFHeader := h\<rparr>), write_and_reset a f1)"
    using assms(4) by (simp add: writeSynStreamFrame_def h_def f1_def a_def Let_def)
  have e: "emits a (control_bytes h @ be32 (fs_StreamId x) @ be32 (fs_AssociatedToStreamId x) @ [push_bit 5 (fs_Priority x)] @
      [fs_Slot x] @ fm_headerBuf f1)" unfolding a_def by (intro emits_and emits_put emits_control)
  note len = control_length[OF assms(7)[folded f1_def], of 10]
  show ?thesis
    unfolding w
  proof (rule reads_back_headers[OF assms(1-3) f1_def])
    show "emits a (control_bytes h @ ?pre @ fm_headerBuf f1)" using e by simp
    show "ch_version h = Version" by (simp add: h_def)
    show "ch_length h < 2 ^ 24" using len(1) by (simp add: h_def)
    show "unat (ch_length h - 10) = length (fm_headerBuf f1)" using len(2) by (simp add: h_def)
    show "read_control zl h g = and_frame (read_headers zl (unat (ch_length h - 10)) (fs_StreamId x)) k (g\<lparr>fm_r := r\<rparr>)"
      if "fm_r g = ?pre @ r" for g r
    proof -
      have "ch_frameType h = TypeSynStream" by (simp add: h_def)
      then show ?thesis
        using that assms(4) priority_bits[OF assms(5)]
        by (simp add: read_control_type(1) frame_map_def readSynStreamFrame_def and_frame_def on_reader_def Read32_be32 Read8_Cons
            k_def frame_error_def frame_done_def split: prod.splits sum.splits if_splits)
    qed
    show "k (fs_Headers x) g = (Inr (SynStreamFrame (x\<lparr>fs_CFHeader := h\<rparr>)), g)" for g
      using assms(6) by (simp add: k_def frame_done_def)
  qed
qed

end
