(* ===== verification/SpdyProps.thy ===== *)
theory SpdyProps
  imports SpdyRoundtrip
begin

text \<open>
  The properties of the SPDY framing: a sequence of frames is read back as it was written, what a
  frame that is read satisfies, and two things the code gets wrong: headers that are sent twice are
  not detected, and a reset without status is refused when half of it is on the wire.
\<close>

unbundle bit_operations_syntax

subsection \<open>Sequences of frames\<close>

fun WriteFrames :: "('c, 'd) zlib \<Rightarrow> frame list \<Rightarrow> ('c, 'd) framer \<Rightarrow> frame list \<times> wire_error option \<times> ('c, 'd) framer" where
  "WriteFrames zl [] f = ([], None, f)"
| "WriteFrames zl (fr # frs) f =
    (case WriteFrame zl fr f of
       (fr', Some e, f') \<Rightarrow> (fr' # frs, Some e, f')
     | (fr', None, f') \<Rightarrow> apfst ((#) fr') (WriteFrames zl frs f'))"

fun ReadFrames :: "('c, 'd) zlib \<Rightarrow> nat \<Rightarrow> (frame list, 'c, 'd) frame_read" where
  "ReadFrames zl 0 = frame_done []"
| "ReadFrames zl (Suc n) = and_frame (ReadFrame zl) (\<lambda>fr. and_frame (ReadFrames zl n) (\<lambda>frs. frame_done (fr # frs)))"

text \<open>A frame the protocol allows, and that the header block of it fits the 24-bit length.\<close>

fun frame_ok :: "frame \<Rightarrow> bool" where
  "frame_ok (SynStreamFrame x) \<longleftrightarrow> fs_StreamId x \<noteq> 0 \<and> fs_Priority x < 8 \<and> header_ok (fs_Headers x) \<and>
     \<not> has_header invalidReqHeaders (fs_Headers x)"
| "frame_ok (SynReplyFrame x) \<longleftrightarrow> fy_StreamId x \<noteq> 0 \<and> header_ok (fy_Headers x) \<and>
     \<not> has_header invalidRespHeaders (fy_Headers x)"
| "frame_ok (RstStreamFrame x) \<longleftrightarrow> fr_StreamId x \<noteq> 0 \<and> fr_Status x \<noteq> 0"
| "frame_ok (SettingsFrame x) \<longleftrightarrow> length (ft_FlagIdValues x) * 8 + 4 < 2 ^ 24 \<and> (\<forall>v \<in> set (ft_FlagIdValues x). fi_Id v < 2 ^ 24)"
| "frame_ok (PingFrame x) \<longleftrightarrow> fp_Id x \<noteq> 0"
| "frame_ok (GoAwayFrame x) \<longleftrightarrow> True"
| "frame_ok (HeadersFrame x) \<longleftrightarrow> fh_StreamId x \<noteq> 0 \<and> header_ok (fh_Headers x) \<and>
     \<not> has_header (if fh_StreamId x mod 2 = 0 then invalidReqHeaders else invalidRespHeaders) (fh_Headers x)"
| "frame_ok (WindowUpdateFrame x) \<longleftrightarrow> True"
| "frame_ok (DataFrame x) \<longleftrightarrow> fd_StreamId x \<noteq> 0 \<and> fd_StreamId x AND 0x80000000 = 0 \<and> length (fd_Data x) \<le> MaxDataLength"

fun frame_headers :: "frame \<Rightarrow> header option" where
  "frame_headers (SynStreamFrame x) = Some (fs_Headers x)"
| "frame_headers (SynReplyFrame x) = Some (fy_Headers x)"
| "frame_headers (HeadersFrame x) = Some (fh_Headers x)"
| "frame_headers _ = None"

definition fits :: "('c, 'd) zlib \<Rightarrow> frame \<Rightarrow> ('c, 'd) framer \<Rightarrow> bool" where
  "fits zl fr f \<longleftrightarrow> (case frame_headers fr of None \<Rightarrow> True
     | Some h \<Rightarrow> length (fm_headerBuf (marshal_headers zl h f)) + 10 < 2 ^ 24)"

fun all_fit :: "('c, 'd) zlib \<Rightarrow> frame list \<Rightarrow> ('c, 'd) framer \<Rightarrow> bool" where
  "all_fit zl [] f = True"
| "all_fit zl (fr # frs) f \<longleftrightarrow> fits zl fr f \<and> all_fit zl frs (snd (snd (WriteFrame zl fr f)))"

lemma frame_roundtrip:
  assumes "zlib_ok zl R" "wt_room (fm_w f) = None" "frame_ok fr" "fits zl fr f"
  shows "reads_back zl R f (WriteFrame zl fr f)"
  using assms
  by (cases fr)
    (simp_all only: WriteFrame.simps frame_ok.simps fits_def frame_headers.simps option.case,
     auto intro: syn_stream_roundtrip syn_reply_roundtrip rst_roundtrip settings_roundtrip ping_roundtrip
       go_away_roundtrip headers_roundtrip window_update_roundtrip data_roundtrip)

lemma frames_roundtrip_bytes:
  assumes "zlib_ok zl R" "wt_room (fm_w f) = None" "list_all frame_ok frs" "all_fit zl frs f"
  shows "\<exists>frs' f' bs. WriteFrames zl frs f = (frs', None, f') \<and> wt_out (fm_w f') = wt_out (fm_w f) @ bs \<and>
    (\<forall>g r. in_sync R f g \<longrightarrow> fm_r g = bs @ r \<longrightarrow>
      (\<exists>g'. ReadFrames zl (length frs) g = (Inr frs', g') \<and> fm_r g' = r \<and> in_sync R f' g'))"
  using assms(2-)
proof (induction frs arbitrary: f)
  case Nil
  then show ?case by (simp add: frame_done_def)
next
  case (Cons fr frs)
  obtain fr1 e f1 where w: "WriteFrame zl fr f = (fr1, e, f1)" by (cases "WriteFrame zl fr f")
  have "reads_back zl R f (WriteFrame zl fr f)" using assms(1) Cons.prems by (intro frame_roundtrip) auto
  then have e: "e = None" and room: "wt_room (fm_w f1) = None" by (simp_all add: w reads_back_def)
  from \<open>reads_back zl R f (WriteFrame zl fr f)\<close> obtain bs where bs: "wt_out (fm_w f1) = wt_out (fm_w f) @ bs"
    "\<forall>g r. in_sync R f g \<longrightarrow> fm_r g = bs @ r \<longrightarrow> (\<exists>g'. ReadFrame zl g = (Inr fr1, g') \<and> fm_r g' = r \<and> in_sync R f1 g')"
    unfolding w reads_back_def prod.case by blast
  obtain frs' f' cs where cs: "WriteFrames zl frs f1 = (frs', None, f')" "wt_out (fm_w f') = wt_out (fm_w f1) @ cs"
    "\<forall>g r. in_sync R f1 g \<longrightarrow> fm_r g = cs @ r \<longrightarrow>
      (\<exists>g'. ReadFrames zl (length frs) g = (Inr frs', g') \<and> fm_r g' = r \<and> in_sync R f' g')"
    using Cons.IH[OF room] Cons.prems by (auto simp: w)
  have "\<exists>g'. ReadFrames zl (length (fr # frs)) g = (Inr (fr1 # frs'), g') \<and> fm_r g' = r \<and> in_sync R f' g'"
    if g: "in_sync R f g" "fm_r g = (bs @ cs) @ r" for g r
  proof -
    obtain g1 where g1: "ReadFrame zl g = (Inr fr1, g1)" "fm_r g1 = cs @ r" "in_sync R f1 g1"
      using bs(2) g by (metis append_assoc)
    obtain g2 where "ReadFrames zl (length frs) g1 = (Inr frs', g2)" "fm_r g2 = r" "in_sync R f' g2"
      using cs(3) g1(2,3) by blast
    with g1(1) show ?thesis by (simp add: and_frame_def frame_done_def)
  qed
  moreover have "WriteFrames zl (fr # frs) f = (fr1 # frs', None, f')" using w e cs(1) by simp
  moreover have "wt_out (fm_w f') = wt_out (fm_w f) @ bs @ cs" using bs(1) cs(2) by simp
  ultimately show ?case by blast
qed
subsection \<open>Properties\<close>

text \<open>C8. A sequence of frames the protocol allows, written by one framer, is read back by a framer that is
  in step with it: the same frames, control headers filled in, nothing left over of their bytes.
  zlib is any pair that inflates each flushed block to what was written.\<close>

theorem frames_roundtrip:
  assumes "zlib_ok zl R" "in_sync R f g" "wt_room (fm_w f) = None" "list_all frame_ok frs" "all_fit zl frs f"
    and "WriteFrames zl frs f = (frs', err, f')" "wt_out (fm_w f') = wt_out (fm_w f) @ bs" "fm_r g = bs @ r"
  shows "\<exists>g'. ReadFrames zl (length frs) g = (Inr frs', g') \<and> fm_r g' = r"
  using frames_roundtrip_bytes[OF assms(1,3-5)] assms(2,6-8) by auto

text \<open>A compressor that stores.\<close>

definition zl_store :: "(unit, unit) zlib" where
  "zl_store = \<lparr>zl_deflate = (\<lambda>c b. (b, c)), zl_new_reader = (\<lambda>p. (Inr (), 0)), zl_inflate = (\<lambda>d p. (p, 0, ()))\<rparr>"

definition ex_framer :: "(unit, unit) framer" where
  "ex_framer = \<lparr>fm_headerCompressionDisabled = False, fm_w = \<lparr>wt_out = [], wt_room = None\<rparr>, fm_headerBuf = [],
     fm_headerCompressor = (), fm_r = [], fm_N = 0, fm_headerDecompressor = None\<rparr>"

definition ex_control :: control_header where
  "ex_control = \<lparr>ch_version = 0, ch_frameType = 0, ch_Flags = 1, ch_length = 0\<rparr>"

definition ex_frames :: "frame list" where
  "ex_frames = [SynStreamFrame \<lparr>fs_CFHeader = ex_control, fs_StreamId = 1, fs_AssociatedToStreamId = 0, fs_Priority = 7,
       fs_Slot = 0, fs_Headers = [([0x58, 0x2D, 0x49, 0x64], [[1, 2], []])]\<rparr>,
     DataFrame \<lparr>fd_StreamId = 1, fd_Flags = 1, fd_Data = [5, 6, 7]\<rparr>,
     PingFrame \<lparr>fp_CFHeader = ex_control, fp_Id = 3\<rparr>]"

lemma zl_store_ok: "zlib_ok zl_store (\<lambda>_ _. True)"
  by (simp add: zlib_ok_def zl_store_def)

lemma ex_sync: "in_sync (\<lambda>_ _. True) ex_framer (ex_framer\<lparr>fm_r := r\<rparr>)"
  by (auto simp: in_sync_def ex_framer_def intro: exI[of _ None])

lemma ex_frames_ok: "list_all frame_ok ex_frames" "all_fit zl_store ex_frames ex_framer"
proof -
  have names: "to_lower [0x58, 0x2D, 0x49, 0x64] = [0x78, 0x2D, 0x69, 0x64]" by (simp add: to_lower_def)
  have can: "CanonicalMIMEHeaderKey [0x78, 0x2D, 0x69, 0x64] = [0x58, 0x2D, 0x49, 0x64]"
    by (simp add: CanonicalMIMEHeaderKey_def token_byte_def)
  have "\<not> has_header invalidReqHeaders [([0x58, 0x2D, 0x49, 0x64], [[1, 2], []])]" by code_simp
  then show "list_all frame_ok ex_frames"
    by (simp add: ex_frames_def header_ok_def entry_ok_def names can headerValueSeparator_def MaxDataLength_def)
  show "all_fit zl_store ex_frames ex_framer"
    by (simp add: ex_frames_def fits_def marshal_headers_def zl_store_def ex_framer_def writeHeaderValueBlock_def
        write_header_entry_def headerValueSeparator_def Let_def)
qed

theorem frames_roundtrip_witness:
  "\<exists>frs' f' g'. WriteFrames zl_store ex_frames ex_framer = (frs', None, f') \<and>
     ReadFrames zl_store 3 (ex_framer\<lparr>fm_r := wt_out (fm_w f')\<rparr>) = (Inr frs', g')"
proof -
  have ex: "wt_room (fm_w ex_framer) = None" "wt_out (fm_w ex_framer) = []" "length ex_frames = 3"
    by (simp_all add: ex_framer_def ex_frames_def)
  obtain frs' f' where w: "WriteFrames zl_store ex_frames ex_framer = (frs', None, f')"
    using frames_roundtrip_bytes[OF zl_store_ok ex(1) ex_frames_ok] by blast
  show ?thesis
    using frames_roundtrip[OF zl_store_ok ex_sync ex(1) ex_frames_ok w, where bs = "wt_out (fm_w f')" and r = "[]"] w ex by auto
qed

fun read_bounds :: "frame \<Rightarrow> bool" where
  "read_bounds (SynStreamFrame x) \<longleftrightarrow> fs_StreamId x \<noteq> 0 \<and> fs_Priority x < 8 \<and> \<not> has_header invalidReqHeaders (fs_Headers x)"
| "read_bounds (SynReplyFrame x) \<longleftrightarrow> fy_StreamId x \<noteq> 0 \<and> \<not> has_header invalidRespHeaders (fy_Headers x)"
| "read_bounds (RstStreamFrame x) \<longleftrightarrow> fr_StreamId x \<noteq> 0 \<and> fr_Status x \<noteq> 0"
| "read_bounds (SettingsFrame x) \<longleftrightarrow> (\<forall>v \<in> set (ft_FlagIdValues x). fi_Id v < 2 ^ 24)"
| "read_bounds (PingFrame x) \<longleftrightarrow> fp_Id x \<noteq> 0 \<and> ch_Flags (fp_CFHeader x) = 0"
| "read_bounds (GoAwayFrame x) \<longleftrightarrow> ch_Flags (fg_CFHeader x) = 0 \<and> ch_length (fg_CFHeader x) = 8"
| "read_bounds (HeadersFrame x) \<longleftrightarrow> fh_StreamId x \<noteq> 0"
| "read_bounds (WindowUpdateFrame x) \<longleftrightarrow> ch_Flags (fw_CFHeader x) = 0 \<and> ch_length (fw_CFHeader x) = 8"
| "read_bounds (DataFrame x) \<longleftrightarrow> fd_StreamId x \<noteq> 0 \<and> fd_StreamId x < 2 ^ 31 \<and> length (fd_Data x) \<le> MaxDataLength"

lemma and_frame_Inr:
  "and_frame a k f = (Inr y, g) \<longleftrightarrow> (\<exists>x f'. a f = (Inr x, f') \<and> k x f' = (Inr y, g))"
  by (auto simp: and_frame_def split: prod.splits sum.splits)

lemma on_reader_Inr: "on_reader a f = (Inr x, f') \<longleftrightarrow> (\<exists>r. a (fm_r f) = (Inr x, r) \<and> f' = f\<lparr>fm_r := r\<rparr>)"
  by (auto simp: on_reader_def split: prod.splits)

lemma frame_map_Inr: "frame_map h a f = (Inr y, g) \<longleftrightarrow> (\<exists>x. a f = (Inr x, g) \<and> y = h x)"
  by (auto simp: frame_map_def and_frame_Inr frame_done_def)

lemma masked_bounds:
  "(x :: 32 word) AND 0xffffff < 2 ^ 24" "(x :: 32 word) AND 0x7fffffff < 2 ^ 31" "drop_bit 5 (p :: byte) < 8"
proof -
  have "unat (take_bit 24 x) < 2 ^ 24" "unat (take_bit 31 x) < 2 ^ 31" by (simp_all only: unsigned_take_bit_eq take_bit_nat_less_exp)
  then show "x AND 0xffffff < 2 ^ 24" "x AND 0x7fffffff < 2 ^ 31" unfolding and_masks by (simp_all add: word_less_nat_alt)
  have "unat p < 256" using unsigned_less[of p] by simp
  then have "unat p div 32 < 8" by simp
  then show "drop_bit 5 p < 8" by (simp add: word_less_nat_alt drop_bit_eq_div unat_div_distrib)
qed

lemma and_read_Inr_iff: "and_read a k r = (Inr y, r') \<longleftrightarrow> (\<exists>x r1. a r = (Inr x, r1) \<and> k x r1 = (Inr y, r'))"
  by (auto simp: and_read_def split: prod.splits sum.splits)

lemma read_settings_ids: "read_settings_values n r = (Inr vs, r') \<Longrightarrow> \<forall>v \<in> set vs. fi_Id v < 2 ^ 24"
proof (induction n arbitrary: r r' vs)
  case (Suc n)
  from Suc.prems obtain fl va r1 ws where
    "read_settings_values n r1 = (Inr ws, r')"
    "vs = \<lparr>fi_Flag = ucast (drop_bit 24 (fl AND 0xff000000)), fi_Id = fl AND 0xffffff, fi_Value = va\<rparr> # ws"
    by (auto simp: and_read_Inr_iff got_def)
  then show ?case using Suc.IH[of r1 ws r'] masked_bounds(1)[of fl] by auto
qed (simp add: got_def)

lemmas read_frame_defs = frame_map_Inr and_frame_Inr frame_done_def frame_error_def on_reader_def

lemma read_control_bounds:
  assumes "read_control zl h g = (Inr fr, g')"
  shows "read_bounds fr"
proof -
  from assms consider
      (stream) x where "fr = SynStreamFrame x" "readSynStreamFrame zl h g = (Inr x, g')"
    | (reply) x where "fr = SynReplyFrame x" "readSynReplyFrame zl h g = (Inr x, g')"
    | (rst) x where "fr = RstStreamFrame x" "read_rst h g = (Inr x, g')"
    | (settings) x where "fr = SettingsFrame x" "read_settings h g = (Inr x, g')"
    | (ping) x where "fr = PingFrame x" "read_ping h g = (Inr x, g')"
    | (away) x where "fr = GoAwayFrame x" "read_go_away h g = (Inr x, g')"
    | (headers) x where "fr = HeadersFrame x" "readHeadersFrame zl h g = (Inr x, g')"
    | (window) x where "fr = WindowUpdateFrame x" "read_window_update h g = (Inr x, g')"
    unfolding read_control_def Let_def by (auto simp: frame_map_Inr frame_error_def split: if_splits)
  then show ?thesis
  proof cases
    case stream
    then show ?thesis
      using masked_bounds(3) by (auto simp: readSynStreamFrame_def read_frame_defs split: if_splits prod.splits sum.splits)
  next
    case reply
    then show ?thesis by (auto simp: readSynReplyFrame_def read_frame_defs split: if_splits)
  next
    case rst
    then show ?thesis by (auto simp: read_rst_def read_frame_defs split: if_splits)
  next
    case settings
    then obtain n r r' where "read_settings_values n r = (Inr (ft_FlagIdValues x), r')"
      by (auto simp: read_settings_def and_frame_Inr frame_done_def on_reader_Inr)
    with settings(1) show ?thesis using read_settings_ids by simp
  next
    case ping
    then show ?thesis by (auto simp: read_ping_def read_frame_defs split: if_splits)
  next
    case away
    then show ?thesis by (auto simp: read_go_away_def read_frame_defs split: if_splits)
  next
    case headers
    then show ?thesis by (auto simp: readHeadersFrame_def read_frame_defs split: if_splits)
  next
    case window
    then show ?thesis by (auto simp: read_window_update_def read_frame_defs split: if_splits)
  qed
qed

lemma ReadFull_length: "ReadFull n r = (Inr bs, r') \<Longrightarrow> length bs = n"
  by (auto simp: ReadFull_def split: if_splits)

lemma parseDataFrame_bounds:
  assumes "parseDataFrame (w AND 0x7fffffff) g = (Inr x, g')"
  shows "read_bounds (DataFrame x)"
proof -
  obtain len :: "32 word" and r data r' where d: "ReadFull (unat (len AND 0xffffff)) r = (Inr data, r')"
    and x: "w AND 0x7fffffff \<noteq> 0" "fd_StreamId x = w AND 0x7fffffff" "fd_Data x = data"
    using assms
    by (auto simp: parseDataFrame_def and_frame_Inr frame_done_def frame_error_def on_reader_Inr split: if_splits)
  have "unat (len AND 0xffffff) < 2 ^ 24" using masked_bounds(1)[of len] by (simp add: word_less_nat_alt)
  then have "length data \<le> MaxDataLength" using ReadFull_length[OF d] by (simp add: MaxDataLength_def)
  then show ?thesis using x masked_bounds(2)[of w] by simp
qed

text \<open>What \<open>ReadFrame\<close> returns is in bounds whatever the peer sends: a data frame has a stream id of 31
  bits that is not zero and at most \<open>MaxDataLength\<close> bytes, a priority has 3 bits, a setting's id 24, and
  the frames that open, answer, reset or ping name a stream that is not zero.\<close>

theorem ReadFrame_bounds:
  assumes "ReadFrame zl g = (Inr fr, g')"
  shows "read_bounds fr"
proof -
  obtain w g1 where w: "(if w AND 0x80000000 \<noteq> 0 then
      parseControlFrame zl (ucast (drop_bit 16 w AND 0x7fff)) (ucast (w AND 0xffff))
    else frame_map DataFrame (parseDataFrame (w AND 0x7fffffff))) g1 = (Inr fr, g')"
    using assms unfolding ReadFrame_def and_frame_Inr by blast
  show ?thesis
  proof (cases "w AND 0x80000000 = 0")
    case True
    with w obtain x where "fr = DataFrame x" "parseDataFrame (w AND 0x7fffffff) g1 = (Inr x, g')"
      by (auto simp: frame_map_Inr)
    then show ?thesis using parseDataFrame_bounds by blast
  next
    case False
    with w show ?thesis unfolding parseControlFrame_def by (auto simp: and_frame_Inr intro: read_control_bounds)
  qed
qed

theorem ReadFrame_bounds_witness:
  "read_bounds (DataFrame \<lparr>fd_StreamId = 1, fd_Flags = 1, fd_Data = [9]\<rparr>)"
proof -
  have "ReadFrame zl_store (ex_framer\<lparr>fm_r := [0, 0, 0, 1, 1, 0, 0, 1, 9, 8]\<rparr>) =
      (Inr (DataFrame \<lparr>fd_StreamId = 1, fd_Flags = 1, fd_Data = [9]\<rparr>), ex_framer\<lparr>fm_r := [8]\<rparr>)"
    by (simp add: ReadFrame_def parseDataFrame_def frame_map_def and_frame_def on_reader_def Read32_def and_read_def
        ReadFull_def from_be32_def frame_done_def)
  then show ?thesis by (rule ReadFrame_bounds)
qed

text \<open>A header sent twice is not detected when its canonical form differs from the lower-case form on
  the wire, as it does for every ordinary name: the block is accepted without error and the values of
  both are joined under the canonical name. The check looks the lower-case name up.\<close>

theorem duplicate_headers_undetected:
  assumes "CanonicalMIMEHeaderKey (to_lower n) \<noteq> to_lower n"
    and "0 \<notin> set v" "0 \<notin> set w" "length n < 2 ^ 32" "length v < 2 ^ 32" "length w < 2 ^ 32"
  shows "parseHeaderValueBlock sid (be32 2 @ concat (map write_header_entry [(n, [v]), (n, [w])]) @ r) =
    (Inr (None, [(CanonicalMIMEHeaderKey (to_lower n), [v, w])]), r)"
proof -
  let ?c = "CanonicalMIMEHeaderKey (to_lower n)"
  have s: "Split v headerValueSeparator = [v]" "Split w headerValueSeparator = [w]"
    using Split_join_char[of "[v]" 0] Split_join_char[of "[w]" 0] assms(2,3) by (simp_all add: headerValueSeparator_def)
  have a: "header_add (to_lower n) v [] = [(?c, [v])]" "header_add (to_lower n) w [(?c, [v])] = [(?c, [v, w])]"
    by (simp_all add: header_add_def)
  define k :: "32 word" where "k = 2"
  have two: "unat k = Suc (Suc 0)" by (simp add: k_def)
  note len = unat_of_length[OF assms(4)] unat_of_length[OF assms(5)] unat_of_length[OF assms(6)]
  show ?thesis
    unfolding k_def[symmetric] using assms(1)
    by (simp add: parseHeaderValueBlock_def two and_read_def Read32_be32 ReadFull_append write_header_entry_def Let_def s a len got_def)
qed

theorem duplicate_headers_undetected_witness:
  "fst (parseHeaderValueBlock 1 (be32 2 @ concat (map write_header_entry [([0x61], [[1]]), ([0x61], [[2]])]))) =
    Inr (None, [([0x41], [[1], [2]])])"
proof -
  have c: "CanonicalMIMEHeaderKey [0x61] = [0x41]" "to_lower [0x61] = [0x61]"
    by (simp_all add: CanonicalMIMEHeaderKey_def token_byte_def to_lower_def)
  show ?thesis
    using duplicate_headers_undetected[of "[0x61]" "[1]" "[2]" 1 "[]"] by (simp add: c)
qed

text \<open>Writing a reset with status zero fails, but only after its control header and stream id are on
  the wire: twelve bytes of a frame of sixteen.\<close>

theorem rst_without_status_half_written:
  assumes "fr_StreamId x \<noteq> 0" "fr_Status x = 0" "wt_room (fm_w f) = None"
    and "WriteFrame zl (RstStreamFrame x) f = (fr', err, f')"
  shows "err = Some (SpdyError InvalidControlFrame (fr_StreamId x)) \<and>
    (\<exists>bs. length bs = 12 \<and> wt_out (fm_w f') = wt_out (fm_w f) @ bs)"
proof -
  define h where "h = \<lparr>ch_version = Version, ch_frameType = TypeRstStream, ch_Flags = 0, ch_length = 8\<rparr>"
  have "emits (writeControlFrameHeader h) (control_bytes h)" "emits (put_bytes (be32 (fr_StreamId x))) (be32 (fr_StreamId x))"
    by auto
  then have "on_writer (and_write (writeControlFrameHeader h) (and_write (put_bytes (be32 (fr_StreamId x))) (fail e))) f =
      (Some e, f\<lparr>fm_w := (fm_w f)\<lparr>wt_out := wt_out (fm_w f) @ control_bytes h @ be32 (fr_StreamId x)\<rparr>\<rparr>)" for e
    using assms(3) by (simp add: on_writer_def emits_def and_write_def fail_def)
  moreover have "length (control_bytes h @ be32 (fr_StreamId x)) = 12" by (simp add: control_bytes_def)
  ultimately show ?thesis using assms(1,2,4) by (auto simp: write_rst_def Let_def h_def[symmetric])
qed

theorem rst_without_status_half_written_witness:
  "\<exists>bs. length bs = 12 \<and>
    wt_out (fm_w (snd (snd (WriteFrame zl_store (RstStreamFrame \<lparr>fr_CFHeader = ex_control, fr_StreamId = 1, fr_Status = 0\<rparr>) ex_framer)))) = bs"
proof -
  let ?x = "\<lparr>fr_CFHeader = ex_control, fr_StreamId = 1, fr_Status = 0\<rparr>"
  obtain fr' err f' where w: "WriteFrame zl_store (RstStreamFrame ?x) ex_framer = (fr', err, f')"
    by (cases "WriteFrame zl_store (RstStreamFrame ?x) ex_framer")
  have "wt_room (fm_w ex_framer) = None" "wt_out (fm_w ex_framer) = []" by (simp_all add: ex_framer_def)
  then show ?thesis using rst_without_status_half_written[OF _ _ _ w] w by simp
qed

end
