(* ===== verification/StreamDelivery.thy ===== *)
theory StreamDelivery
  imports SpdyStreamProps SpdyProps
begin

text \<open>
  Two SPDY connections back to back: what one end writes to a stream and closes is what the other end
  reads from it, through the framing, the frame handler and the buffer sizes of the reader.
\<close>

unbundle bit_operations_syntax

subsection \<open>Reading a stream\<close>

definition pending :: "stream \<Rightarrow> bytes" where
  "pending t = (case sm_unread t of None \<Rightarrow> [] | Some u \<Rightarrow> u) @ concat (sm_inbox t)"

text \<open>No empty piece waits, so that every \<open>Read\<close> with a buffer makes progress.\<close>

definition no_empty :: "stream \<Rightarrow> bool" where
  "no_empty t \<longleftrightarrow> sm_unread t \<noteq> Some [] \<and> [] \<notin> set (sm_inbox t)"

text \<open>Reads with the given buffer sizes, up to the first that returns an error.\<close>

fun reads :: "nat list \<Rightarrow> stream \<Rightarrow> bytes \<times> stream_error option" where
  "reads [] t = ([], None)"
| "reads (n # ns) t =
    (case Read n t of
       Ok (bs, None, t') \<Rightarrow> apfst ((@) bs) (reads ns t')
     | Ok (bs, Some e, t') \<Rightarrow> (bs, Some e)
     | _ \<Rightarrow> ([], None))"

lemma Read_some:
  assumes "no_empty t" "n > 0" "pending t \<noteq> []"
  obtains bs t' where "Read n t = Ok (bs, None, t')" "pending t = bs @ pending t'" "bs \<noteq> []" "no_empty t'"
    "sm_closed t' = sm_closed t"
proof (cases "sm_unread t")
  case (Some u)
  then show ?thesis using assms that[of "take n u"]
    by (auto simp: Read_def copy_unread_def pending_def no_empty_def)
next
  case None
  then obtain u us where "sm_inbox t = u # us" using assms(3) by (cases "sm_inbox t") (auto simp: pending_def)
  then show ?thesis using None assms that[of "take n u"]
    by (auto simp: Read_def copy_unread_def pending_def no_empty_def)
qed

lemma Read_end: "no_empty t \<Longrightarrow> pending t = [] \<Longrightarrow> sm_closed t \<Longrightarrow> Read n t = Ok ([], Some StreamEOF, t)"
  by (cases "sm_inbox t") (auto simp: Read_def pending_def no_empty_def split: option.splits)

lemma reads_all:
  "no_empty t \<Longrightarrow> sm_closed t \<Longrightarrow> list_all (\<lambda>n. n > 0) ns \<Longrightarrow> length (pending t) < length ns \<Longrightarrow>
   reads ns t = (pending t, Some StreamEOF)"
proof (induction ns arbitrary: t)
  case (Cons n ns)
  show ?case
  proof (cases "pending t = []")
    case True
    then show ?thesis using Read_end[of t n] Cons.prems by simp
  next
    case False
    obtain bs t' where t': "Read n t = Ok (bs, None, t')" "pending t = bs @ pending t'" "bs \<noteq> []" "no_empty t'"
      "sm_closed t' = sm_closed t"
      using Read_some[OF Cons.prems(1) _ False, of n] Cons.prems(3) by auto
    then have "length (pending t') < length ns" using Cons.prems(4) by (cases bs) auto
    then show ?thesis using Cons.IH[of t'] Cons.prems t' by simp
  qed
qed simp

subsection \<open>Writing\<close>

text \<open>\<open>streamCopy\<close> (cmd/streamd/handler.go) from a connection whose reads give the chunks: \<open>io.Copy\<close> writes one
  after the other until a write fails, then the stream is closed.\<close>

fun streamCopy :: "('c, 'd) zlib \<Rightarrow> bytes list \<Rightarrow> ref \<Rightarrow> ('c, 'd) connection \<Rightarrow> ('c, 'd) call" where
  "streamCopy zl [] r s = CloseStream zl r s"
| "streamCopy zl (d # ds) r s =
    (case Write zl d r s of
       Ok (n, None, s) \<Rightarrow> streamCopy zl ds r s
     | Ok (n, Some e, s) \<Rightarrow> CloseStream zl r s
     | Stuck (n, e, s) \<Rightarrow> Stuck (e, s)
     | Crash p (n, e, s) \<Rightarrow> Crash p (e, s))"

definition data_frame_of :: "stream_id \<Rightarrow> bool \<Rightarrow> bytes \<Rightarrow> data_frame" where
  "data_frame_of i fin d = \<lparr>fd_StreamId = i, fd_Flags = fin_flag fin, fd_Data = d\<rparr>"

definition writable :: "stream \<Rightarrow> bool" where
  "writable t \<longleftrightarrow> sm_streamId t \<noteq> 0 \<and> sm_streamId t AND 0x80000000 = 0 \<and> (sm_canReply t \<longrightarrow> sm_replied t) \<and>
     \<not> sm_finished t \<and> stream_ok t"

text \<open>One data frame is read back as it was written.\<close>

lemma data_frame_back:
  assumes "zlib_ok zl R" "wt_room (fm_w f) = None" "i \<noteq> 0" "i AND 0x80000000 = 0" "length d \<le> MaxDataLength"
  obtains f' bs where "WriteFrame zl (DataFrame (data_frame_of i fin d)) f = (DataFrame (data_frame_of i fin d), None, f')"
    "wt_room (fm_w f') = None" "wt_out (fm_w f') = wt_out (fm_w f) @ bs"
    "\<And>g r. in_sync R f g \<Longrightarrow> fm_r g = bs @ r \<Longrightarrow>
      \<exists>g'. ReadFrame zl g = (Inr (DataFrame (data_frame_of i fin d)), g') \<and> fm_r g' = r \<and> in_sync R f' g'"
proof -
  let ?fr = "DataFrame (data_frame_of i fin d)"
  have "reads_back zl R f (WriteFrame zl ?fr f)"
    using assms by (intro frame_roundtrip) (auto simp: data_frame_of_def fits_def)
  moreover obtain f' e where "WriteFrame zl ?fr f = (?fr, e, f')"
    by (cases "WriteFrame zl ?fr f") (auto simp: writeDataFrame_def split: if_splits)
  ultimately show ?thesis using that unfolding reads_back_def by auto
qed
lemma Write_chunk:
  assumes "zlib_ok zl R" "wt_room (fm_w (cn_framer s)) = None" "writable (cn_mem s r)" "length d \<le> MaxDataLength"
    and i: "i = sm_streamId (cn_mem s r)"
  obtains f bs where "Write zl d r s = Ok (length d, None, s\<lparr>cn_framer := f\<rparr>)"
    "wt_room (fm_w f) = None" "wt_out (fm_w f) = wt_out (fm_w (cn_framer s)) @ bs"
    "\<And>g r. in_sync R (cn_framer s) g \<Longrightarrow> fm_r g = bs @ r \<Longrightarrow>
      \<exists>g'. ReadFrame zl g = (Inr (DataFrame (data_frame_of i False d)), g') \<and> fm_r g' = r \<and> in_sync R f g'"
proof -
  have id: "i \<noteq> 0" "i AND 0x80000000 = 0" using assms(3) i by (simp_all add: writable_def)
  obtain f bs where f: "WriteFrame zl (DataFrame (data_frame_of i False d)) (cn_framer s) = (DataFrame (data_frame_of i False d), None, f)"
    "wt_room (fm_w f) = None" "wt_out (fm_w f) = wt_out (fm_w (cn_framer s)) @ bs"
    "\<And>g r. in_sync R (cn_framer s) g \<Longrightarrow> fm_r g = bs @ r \<Longrightarrow>
      \<exists>g'. ReadFrame zl g = (Inr (DataFrame (data_frame_of i False d)), g') \<and> fm_r g' = r \<and> in_sync R f g'"
    using data_frame_back[OF assms(1,2) id assms(4)] by metis
  have "Write zl d r s = Ok (length d, None, s\<lparr>cn_framer := f\<rparr>)"
    using assms(3) f(1) i
    by (simp add: Write_def WriteData_def writable_def send_def write_frame_def data_frame_of_def Let_def)
  then show ?thesis using that f by metis
qed

lemma Close_chunk:
  assumes "zlib_ok zl R" "wt_room (fm_w (cn_framer s)) = None" "writable (cn_mem s r)"
    and i: "i = sm_streamId (cn_mem s r)"
  obtains s' bs where "CloseStream zl r s = Ok (None, s')"
    "wt_room (fm_w (cn_framer s')) = None" "wt_out (fm_w (cn_framer s')) = wt_out (fm_w (cn_framer s)) @ bs"
    "\<And>g r. in_sync R (cn_framer s) g \<Longrightarrow> fm_r g = bs @ r \<Longrightarrow>
      \<exists>g'. ReadFrame zl g = (Inr (DataFrame (data_frame_of i True [])), g') \<and> fm_r g' = r \<and> in_sync R (cn_framer s') g'"
proof -
  have id: "i \<noteq> 0" "i AND 0x80000000 = 0" using assms(3) i by (simp_all add: writable_def)
  obtain f bs where f: "WriteFrame zl (DataFrame (data_frame_of i True [])) (cn_framer s) = (DataFrame (data_frame_of i True []), None, f)"
    "wt_room (fm_w f) = None" "wt_out (fm_w f) = wt_out (fm_w (cn_framer s)) @ bs"
    "\<And>g r. in_sync R (cn_framer s) g \<Longrightarrow> fm_r g = bs @ r \<Longrightarrow>
      \<exists>g'. ReadFrame zl g = (Inr (DataFrame (data_frame_of i True [])), g') \<and> fm_r g' = r \<and> in_sync R f g'"
    using data_frame_back[OF assms(1,2) id, of "[]" True] by (metis le0 list.size(3))
  have "\<exists>s'. CloseStream zl r s = Ok (None, s') \<and> cn_framer s' = f"
    using assms(3) f(1) i
    by (auto simp: CloseStream_def close_data_def WriteData_def writable_def stream_ok_def send_def write_frame_def
        data_frame_of_def upd_stream_def removeStream_def Let_def)
  then show ?thesis using that f by metis
qed

subsection \<open>Receiving\<close>

text \<open>One frame through the connection: it is read, routed and handled, a reader taking its data.\<close>

definition receive :: "('c, 'd) zlib \<Rightarrow> ('c, 'd) connection \<Rightarrow> ('c, 'd) connection step" where
  "receive zl t =
    (case ReadFrame zl (cn_framer t) of
       (Inl e, f) \<Rightarrow> Stuck (t\<lparr>cn_framer := f\<rparr>)
     | (Inr fr, f) \<Rightarrow> handleFrame zl (\<lambda>r s. Ok s) True fr (snd (snd (serve_frame fr 0 (t\<lparr>cn_framer := f\<rparr>)))))"

fun pump :: "('c, 'd) zlib \<Rightarrow> nat \<Rightarrow> ('c, 'd) connection \<Rightarrow> ('c, 'd) connection step" where
  "pump zl 0 t = Ok t"
| "pump zl (Suc n) t = and_step (receive zl t) (pump zl n)"

text \<open>Stream \<open>q\<close> is open at the receiving end under the id \<open>i\<close>.\<close>

definition listening :: "('c, 'd) connection \<Rightarrow> stream_id \<Rightarrow> ref \<Rightarrow> bool" where
  "listening t i q \<longleftrightarrow> getStream t i = Some q \<and> sm_replied (cn_mem t q) \<and> \<not> sm_closed (cn_mem t q) \<and> \<not> sm_dataClosed (cn_mem t q)"

lemma receive_chunk:
  assumes "ReadFrame zl (cn_framer t) = (Inr (DataFrame (data_frame_of i False d)), g)" "listening t i q"
  obtains t' where "receive zl t = Ok t'" "cn_framer t' = g" "listening t' i q"
    "sm_unread (cn_mem t' q) = sm_unread (cn_mem t q)"
    "sm_inbox (cn_mem t' q) = sm_inbox (cn_mem t q) @ (if d = [] then [] else [d])"
  using assms
  by (cases "d = []") (auto simp: receive_def listening_def handleDataFrame_def data_frame_of_def fin_flag_def
      getStream_def upd_stream_def)

lemma receive_end:
  assumes "ReadFrame zl (cn_framer t) = (Inr (DataFrame (data_frame_of i True [])), g)" "listening t i q"
  obtains t' where "receive zl t = Ok t'" "cn_framer t' = g" "sm_closed (cn_mem t' q)"
    "sm_unread (cn_mem t' q) = sm_unread (cn_mem t q)" "sm_inbox (cn_mem t' q) = sm_inbox (cn_mem t q)"
  using assms
  by (auto simp: receive_def listening_def handleDataFrame_def data_frame_of_def fin_flag_def getStream_def
      remoteStreamFinish_def close_once_def close_data_def removeStream_def upd_stream_def Let_def)

subsection \<open>From one end to the other\<close>

lemma delivery:
  assumes "zlib_ok zl R"
  shows "wt_room (fm_w (cn_framer s)) = None \<Longrightarrow> writable (cn_mem s r) \<Longrightarrow> i = sm_streamId (cn_mem s r) \<Longrightarrow>
    list_all (\<lambda>d. length d \<le> MaxDataLength) ds \<Longrightarrow>
    \<exists>s' bs. streamCopy zl ds r s = Ok (None, s') \<and> wt_out (fm_w (cn_framer s')) = wt_out (fm_w (cn_framer s)) @ bs \<and>
      (\<forall>t rest. in_sync R (cn_framer s) (cn_framer t) \<longrightarrow> fm_r (cn_framer t) = bs @ rest \<longrightarrow> listening t i q \<longrightarrow>
        (\<exists>t'. pump zl (Suc (length ds)) t = Ok t' \<and> sm_unread (cn_mem t' q) = sm_unread (cn_mem t q) \<and>
          sm_inbox (cn_mem t' q) = sm_inbox (cn_mem t q) @ filter (\<lambda>d. d \<noteq> []) ds \<and> sm_closed (cn_mem t' q)))"
proof (induction ds arbitrary: s)
  case Nil
  obtain s' bs where s': "CloseStream zl r s = Ok (None, s')" "wt_out (fm_w (cn_framer s')) = wt_out (fm_w (cn_framer s)) @ bs"
    "\<And>g r. in_sync R (cn_framer s) g \<Longrightarrow> fm_r g = bs @ r \<Longrightarrow>
      \<exists>g'. ReadFrame zl g = (Inr (DataFrame (data_frame_of i True [])), g') \<and> fm_r g' = r \<and> in_sync R (cn_framer s') g'"
    using Close_chunk[OF assms Nil.prems(1-3)] by metis
  have "\<exists>t'. pump zl (Suc (length ([] :: bytes list))) t = Ok t' \<and> sm_unread (cn_mem t' q) = sm_unread (cn_mem t q) \<and>
      sm_inbox (cn_mem t' q) = sm_inbox (cn_mem t q) @ filter (\<lambda>d. d \<noteq> []) [] \<and> sm_closed (cn_mem t' q)"
    if t: "in_sync R (cn_framer s) (cn_framer t)" "fm_r (cn_framer t) = bs @ rest" "listening t i q" for t rest
  proof -
    obtain g where g: "ReadFrame zl (cn_framer t) = (Inr (DataFrame (data_frame_of i True [])), g)"
      using s'(3) t(1,2) by blast
    obtain t' where "receive zl t = Ok t'" "sm_closed (cn_mem t' q)"
      "sm_unread (cn_mem t' q) = sm_unread (cn_mem t q)" "sm_inbox (cn_mem t' q) = sm_inbox (cn_mem t q)"
      using receive_end[OF g t(3)] by metis
    then show ?thesis by simp
  qed
  then show ?case using s'(1,2) by auto
next
  case (Cons d ds)
  obtain f bs where f: "Write zl d r s = Ok (length d, None, s\<lparr>cn_framer := f\<rparr>)"
    "wt_room (fm_w f) = None" "wt_out (fm_w f) = wt_out (fm_w (cn_framer s)) @ bs"
    "\<And>g r. in_sync R (cn_framer s) g \<Longrightarrow> fm_r g = bs @ r \<Longrightarrow>
      \<exists>g'. ReadFrame zl g = (Inr (DataFrame (data_frame_of i False d)), g') \<and> fm_r g' = r \<and> in_sync R f g'"
    using Write_chunk[OF assms Cons.prems(1,2) _ Cons.prems(3), of d] Cons.prems(4) by auto
  obtain s' cs where s': "streamCopy zl ds r (s\<lparr>cn_framer := f\<rparr>) = Ok (None, s')"
    "wt_out (fm_w (cn_framer s')) = wt_out (fm_w f) @ cs"
    and arrive: "\<And>t rest. in_sync R f (cn_framer t) \<Longrightarrow> fm_r (cn_framer t) = cs @ rest \<Longrightarrow> listening t i q \<Longrightarrow>
        (\<exists>t'. pump zl (Suc (length ds)) t = Ok t' \<and> sm_unread (cn_mem t' q) = sm_unread (cn_mem t q) \<and>
          sm_inbox (cn_mem t' q) = sm_inbox (cn_mem t q) @ filter (\<lambda>d. d \<noteq> []) ds \<and> sm_closed (cn_mem t' q))"
    using Cons.IH[of "s\<lparr>cn_framer := f\<rparr>"] f(2) Cons.prems by auto
  have "\<exists>t'. pump zl (Suc (length (d # ds))) t = Ok t' \<and> sm_unread (cn_mem t' q) = sm_unread (cn_mem t q) \<and>
      sm_inbox (cn_mem t' q) = sm_inbox (cn_mem t q) @ filter (\<lambda>d. d \<noteq> []) (d # ds) \<and> sm_closed (cn_mem t' q)"
    if t: "in_sync R (cn_framer s) (cn_framer t)" "fm_r (cn_framer t) = (bs @ cs) @ rest" "listening t i q" for t rest
  proof -
    obtain g where g: "ReadFrame zl (cn_framer t) = (Inr (DataFrame (data_frame_of i False d)), g)" "fm_r g = cs @ rest" "in_sync R f g"
      using f(4)[of "cn_framer t" "cs @ rest"] t(1,2) by auto
    obtain t1 where t1: "receive zl t = Ok t1" "cn_framer t1 = g" "listening t1 i q"
      "sm_unread (cn_mem t1 q) = sm_unread (cn_mem t q)" "sm_inbox (cn_mem t1 q) = sm_inbox (cn_mem t q) @ (if d = [] then [] else [d])"
      using receive_chunk[OF g(1) t(3)] by metis
    then show ?thesis using arrive[of t1 rest] g(2,3) by auto
  qed
  moreover have "streamCopy zl (d # ds) r s = Ok (None, s')" using f(1) s'(1) by simp
  moreover have "wt_out (fm_w (cn_framer s')) = wt_out (fm_w (cn_framer s)) @ (bs @ cs)" using f(3) s'(2) by simp
  ultimately show ?case by blast
qed

lemma concat_nonempty: "concat (filter (\<lambda>d. d \<noteq> []) ds) = concat ds"
  by (induction ds) auto

text \<open>
  C4. Two connections back to back: chunks written to an open stream that is then closed arrive at the
  other end, where a reader with any buffer sizes, one read more than there are bytes at most, gets
  their concatenation and then the end of the stream.
\<close>

theorem stream_delivers:
  assumes "zlib_ok zl R" "in_sync R (cn_framer s) (cn_framer t)" "wt_room (fm_w (cn_framer s)) = None"
    and "writable (cn_mem s r)" "list_all (\<lambda>d. length d \<le> MaxDataLength) ds"
    and "listening t (sm_streamId (cn_mem s r)) q" "sm_unread (cn_mem t q) = None" "sm_inbox (cn_mem t q) = []"
    and "fm_r (cn_framer t) = drop (length (wt_out (fm_w (cn_framer s))))
      (wt_out (fm_w (cn_framer (snd (case streamCopy zl ds r s of Ok c \<Rightarrow> c | Stuck c \<Rightarrow> c | Crash p c \<Rightarrow> c)))))"
    and "list_all (\<lambda>n. n > 0) ns" "length (concat ds) < length ns"
  shows "\<exists>t'. pump zl (Suc (length ds)) t = Ok t' \<and> reads ns (cn_mem t' q) = (concat ds, Some StreamEOF)"
proof -
  obtain s' bs where w: "streamCopy zl ds r s = Ok (None, s')" "wt_out (fm_w (cn_framer s')) = wt_out (fm_w (cn_framer s)) @ bs"
    and arrive: "\<And>t rest. in_sync R (cn_framer s) (cn_framer t) \<Longrightarrow> fm_r (cn_framer t) = bs @ rest \<Longrightarrow>
        listening t (sm_streamId (cn_mem s r)) q \<Longrightarrow>
        (\<exists>t'. pump zl (Suc (length ds)) t = Ok t' \<and> sm_unread (cn_mem t' q) = sm_unread (cn_mem t q) \<and>
          sm_inbox (cn_mem t' q) = sm_inbox (cn_mem t q) @ filter (\<lambda>d. d \<noteq> []) ds \<and> sm_closed (cn_mem t' q))"
    using delivery[OF assms(1,3,4) refl assms(5), of q] by blast
  have "fm_r (cn_framer t) = bs @ []" using assms(9) w by simp
  from arrive[OF assms(2) this assms(6)] obtain t' where t': "pump zl (Suc (length ds)) t = Ok t'"
    "sm_unread (cn_mem t' q) = None" "sm_inbox (cn_mem t' q) = filter (\<lambda>d. d \<noteq> []) ds" "sm_closed (cn_mem t' q)"
    using assms(7,8) by auto
  then have p: "pending (cn_mem t' q) = concat ds" "no_empty (cn_mem t' q)"
    by (simp_all add: pending_def no_empty_def concat_nonempty)
  then have "reads ns (cn_mem t' q) = (concat ds, Some StreamEOF)"
    using reads_all[OF p(2) t'(4) assms(10)] assms(11) by simp
  with t'(1) show ?thesis by blast
qed

text \<open>A client that has opened a stream, a server that has answered it.\<close>

definition ex_sender :: "(unit, unit) connection" where
  "ex_sender = conn_run ex_zlib [OpCreate [] None False] (ex_conn False)"

definition ex_listener :: "(unit, unit) connection" where
  "ex_listener = conn_run ex_zlib [OpServe (SynStreamFrame (ex_syn 1)) 0, OpReply [] False 0] (ex_conn True)"

definition ex_sent :: bytes where
  "ex_sent = drop (length (wt_out (fm_w (cn_framer ex_sender)))) (wt_out (fm_w (cn_framer (snd
     (case streamCopy ex_zlib [[1, 2], [3]] 0 ex_sender of Ok c \<Rightarrow> c | Stuck c \<Rightarrow> c | Crash p c \<Rightarrow> c)))))"

definition ex_peer :: "(unit, unit) connection" where
  "ex_peer = ex_listener\<lparr>cn_framer := (cn_framer ex_listener)\<lparr>fm_r := ex_sent\<rparr>\<rparr>"

lemmas ex_frames_written = on_writer_def writeControlFrameHeader_def and_write_def put_bytes_def write_and_reset_def
  marshal_headers_def

lemma ex_sender:
  "wt_room (fm_w (cn_framer ex_sender)) = None \<and> fm_headerBuf (cn_framer ex_sender) = [] \<and>
   fm_headerCompressionDisabled (cn_framer ex_sender) \<and> writable (cn_mem ex_sender 0) \<and> sm_streamId (cn_mem ex_sender 0) = 1"
  by (simp add: ex_sender_def ex_conn_def NewConnection_def CreateStream_def getNextStreamId_def addStream_def Let_def
      sendStream_def send_def write_frame_def writeSynStreamFrame_def ex_frames_written writable_def stream_ok_def
      blank_stream_def split: prod.split)

lemma ex_listener:
  "fm_headerCompressionDisabled (cn_framer ex_listener) \<and> listening ex_listener 1 0 \<and>
   sm_unread (cn_mem ex_listener 0) = None \<and> sm_inbox (cn_mem ex_listener 0) = []"
  by (simp add: ex_listener_def ex_conn_def NewConnection_def ex_syn_def checkStreamFrame_def validateStreamId_def
      addStreamFrame_def addStream_def Let_def getStream_def SendReply_def sendReply_def send_def write_frame_def
      writeSynReplyFrame_def ex_frames_written listening_def blank_stream_def upd_stream_def split: prod.split)

lemma ex_zlib_ok: "zlib_ok ex_zlib (\<lambda>_ _. True)"
  by (simp add: zlib_ok_def ex_zlib_def)

theorem stream_delivers_witness:
  "\<exists>t'. pump ex_zlib 3 ex_peer = Ok t' \<and> reads [1, 1, 5, 1] (cn_mem t' 0) = ([1, 2, 3], Some StreamEOF)"
proof -
  have "in_sync (\<lambda>_ _. True) (cn_framer ex_sender) (cn_framer ex_peer)"
    using ex_sender ex_listener by (auto simp: in_sync_def ex_peer_def)
  moreover have "listening ex_peer (sm_streamId (cn_mem ex_sender 0)) 0"
    using ex_sender ex_listener by (simp add: ex_peer_def listening_def getStream_def)
  moreover have "list_all (\<lambda>d. length d \<le> MaxDataLength) [[1, 2], [3 :: byte]]" by (simp add: MaxDataLength_def)
  ultimately show ?thesis
    using stream_delivers[OF ex_zlib_ok, of ex_sender ex_peer 0 "[[1, 2], [3]]" 0 "[1, 1, 5, 1]"] ex_sender ex_listener
    by (simp add: ex_peer_def ex_sent_def numeral_3_eq_3)
qed

end
