(* ===== verification/Agent.thy ===== *)
theory Agent
  imports StreamDelivery GoStrings
begin

text \<open>
  cmd/streamd: the agent beside a server, which takes the streams of a tunnel and connects each to the
  service. \<open>AgentStreamHandler\<close> is the handler of new streams that \<open>frameHandler\<close> calls.
\<close>

subsection \<open>The handler\<close>

datatype agent_conn = AgentConn string string nat

text \<open>The goroutines a stream gets.\<close>

datatype agent_task = DrainHeaders ref | CopyToStream ref agent_conn | CopyFromStream agent_conn ref

definition agent_network :: "string \<Rightarrow> string" where
  "agent_network addr = (if CHR '':'' \<in> set addr then ''tcp'' else ''unix'')"

definition AgentStreamHandler ::
  "('c, 'd) zlib \<Rightarrow> (string \<Rightarrow> string \<Rightarrow> string + agent_conn) \<Rightarrow> string \<Rightarrow> ref \<Rightarrow> ('c, 'd) connection \<Rightarrow>
   agent_task list \<times> ('c, 'd) connection step"
where
  "AgentStreamHandler zl dial serviceAddr r s =
    (case dial (agent_network serviceAddr) serviceAddr of
       Inl err \<Rightarrow> ([], Ok s)
     | Inr conn \<Rightarrow>
         (case SendReply zl [] False r s of
            Ok (None, s) \<Rightarrow> ([DrainHeaders r, CopyToStream r conn, CopyFromStream conn r], Ok s)
          | Ok (Some err, s) \<Rightarrow> ([], Ok s)
          | Stuck (e, s) \<Rightarrow> ([], Stuck s)
          | Crash p (e, s) \<Rightarrow> ([], Crash p s)))"

text \<open>\<open>streamCopy\<close> the other way: what reading the stream gives goes to the service, which is then closed.\<close>

definition copy_from_stream :: "nat list \<Rightarrow> stream \<Rightarrow> bytes \<times> bool" where
  "copy_from_stream sizes t = (case reads sizes t of (bs, err) \<Rightarrow> (bs, err \<noteq> None))"

text \<open>The goroutine that drains the headers takes one header per turn until the stream is closed.\<close>

fun drain_headers :: "nat \<Rightarrow> stream \<Rightarrow> bool \<times> stream" where
  "drain_headers 0 t = (False, t)"
| "drain_headers (Suc n) t =
    (case ReceiveHeader t of
       Ok (h, None, t) \<Rightarrow> drain_headers n t
     | Ok (h, Some e, t) \<Rightarrow> (True, t)
     | _ \<Rightarrow> (False, t))"

lemma drain_headers_closed:
  "sm_closed t \<Longrightarrow> sm_headerInbox t = hs \<Longrightarrow> drain_headers (Suc (length hs)) t = (True, t\<lparr>sm_headerInbox := []\<rparr>)"
proof (induction hs arbitrary: t)
  case (Cons h hs)
  have "ReceiveHeader t = Ok (Some h, None, t\<lparr>sm_headerInbox := hs\<rparr>)" using Cons.prems by (simp add: ReceiveHeader_def)
  moreover have "drain_headers (Suc (length hs)) (t\<lparr>sm_headerInbox := hs\<rparr>) = (True, t\<lparr>sm_headerInbox := []\<rparr>)"
    using Cons.IH[of "t\<lparr>sm_headerInbox := hs\<rparr>"] Cons.prems by simp
  ultimately show ?case by (simp only: drain_headers.simps list.size step.case prod.case option.case) simp
qed (simp add: ReceiveHeader_def)

subsection \<open>A new stream at the agent\<close>

definition agent_handler ::
  "('c, 'd) zlib \<Rightarrow> (string \<Rightarrow> string \<Rightarrow> string + agent_conn) \<Rightarrow> string \<Rightarrow> ref \<Rightarrow> ('c, 'd) connection \<Rightarrow> ('c, 'd) connection step"
where
  "agent_handler zl dial addr r s = snd (AgentStreamHandler zl dial addr r s)"

fun agent_frames ::
  "('c, 'd) zlib \<Rightarrow> (string \<Rightarrow> string \<Rightarrow> string + agent_conn) \<Rightarrow> string \<Rightarrow> frame list \<Rightarrow> ('c, 'd) connection \<Rightarrow> ('c, 'd) connection step"
where
  "agent_frames zl dial addr [] s = Ok s"
| "agent_frames zl dial addr (fr # frs) s =
    and_step (handleFrame zl (agent_handler zl dial addr) True fr s) (agent_frames zl dial addr frs)"

text \<open>The stream as \<open>Serve\<close> has put it into the map.\<close>

lemma serve_syn_stream:
  assumes "fst (checkStreamFrame fr s)" "ch_Flags (fs_CFHeader fr) AND 1 = 0"
  obtains t where "snd (snd (serve_frame (SynStreamFrame fr) rr s)) = t" "getStream t (fs_StreamId fr) = Some (cn_next s)"
    "sm_streamId (cn_mem t (cn_next s)) = fs_StreamId fr" "sm_canReply (cn_mem t (cn_next s))"
    "\<not> sm_replied (cn_mem t (cn_next s))" "\<not> sm_closed (cn_mem t (cn_next s))" "\<not> sm_dataClosed (cn_mem t (cn_next s))"
    "sm_unread (cn_mem t (cn_next s)) = None" "sm_inbox (cn_mem t (cn_next s)) = []" "cn_framer t = cn_framer s"
  using assms
  by (auto simp: checkStreamFrame_def validateStreamId_def addStreamFrame_def addStream_def Let_def getStream_def
      blank_stream_def split: if_splits)

lemma write_reply_open:
  assumes "wt_room (fm_w f) = None" "fy_StreamId x \<noteq> 0"
  obtains x' f' where "WriteFrame zl (SynReplyFrame x) f = (SynReplyFrame x', None, f')" "wt_room (fm_w f') = None"
proof -
  let ?f = "marshal_headers zl (fy_Headers x) f"
  have "wt_room (fm_w ?f) = None" using assms(1) by (simp add: marshal_headers_def split: prod.split)
  then show ?thesis using that assms(2)
    by (simp add: writeSynReplyFrame_def Let_def write_and_reset_def on_writer_def and_write_def
        writeControlFrameHeader_def put_bytes_open)
qed

lemma SendReply_open:
  assumes "wt_room (fm_w (cn_framer t)) = None" "sm_canReply (cn_mem t r)" "\<not> sm_replied (cn_mem t r)"
    and "sm_streamId (cn_mem t r) \<noteq> 0"
  obtains f where "SendReply zl [] False r t = Ok (None, upd_stream r (\<lambda>x. x\<lparr>sm_replied := True\<rparr>) (t\<lparr>cn_framer := f\<rparr>))"
    "wt_room (fm_w f) = None"
proof -
  let ?x = "\<lparr>fy_CFHeader = flags_header (fin_flag False), fy_StreamId = sm_streamId (cn_mem t r), fy_Headers = []\<rparr>"
  obtain x' f' where "WriteFrame zl (SynReplyFrame ?x) (cn_framer t) = (SynReplyFrame x', None, f')" "wt_room (fm_w f') = None"
    using write_reply_open[OF assms(1), of ?x zl] assms(4) by auto
  then show ?thesis using that[of f'] assms(2,3)
    by (simp add: SendReply_def sendReply_def send_def write_frame_def)
qed

subsection \<open>Properties\<close>

text \<open>
  A stream the peer opens at the agent is connected to the service, answered and open for data, with a
  goroutine for each direction and one for its headers, provided the service can be dialled.
\<close>

theorem agent_opens_stream:
  assumes "fst (checkStreamFrame fr s)" "ch_Flags (fs_CFHeader fr) AND 1 = 0" "fs_StreamId fr \<noteq> 0"
    and "wt_room (fm_w (cn_framer s)) = None" "dial (agent_network addr) addr = Inr conn"
  shows "\<exists>t. agent_frames zl dial addr [SynStreamFrame fr] (snd (snd (serve_frame (SynStreamFrame fr) rr s))) = Ok t \<and>
    listening t (fs_StreamId fr) (cn_next s) \<and> pending (cn_mem t (cn_next s)) = [] \<and>
    fst (AgentStreamHandler zl dial addr (cn_next s) (snd (snd (serve_frame (SynStreamFrame fr) rr s)))) =
      [DrainHeaders (cn_next s), CopyToStream (cn_next s) conn, CopyFromStream conn (cn_next s)]"
proof -
  let ?r = "cn_next s"
  obtain t where t: "snd (snd (serve_frame (SynStreamFrame fr) rr s)) = t" "getStream t (fs_StreamId fr) = Some ?r"
    "sm_streamId (cn_mem t ?r) = fs_StreamId fr" "sm_canReply (cn_mem t ?r)" "\<not> sm_replied (cn_mem t ?r)"
    "\<not> sm_closed (cn_mem t ?r)" "\<not> sm_dataClosed (cn_mem t ?r)" "sm_unread (cn_mem t ?r) = None"
    "sm_inbox (cn_mem t ?r) = []" "cn_framer t = cn_framer s"
    using serve_syn_stream[OF assms(1,2)] by metis
  obtain f where "SendReply zl [] False ?r t = Ok (None, upd_stream ?r (\<lambda>x. x\<lparr>sm_replied := True\<rparr>) (t\<lparr>cn_framer := f\<rparr>))"
    using SendReply_open[of t ?r zl] assms(3,4) t by metis
  then show ?thesis using t assms(5)
    by (simp add: agent_handler_def AgentStreamHandler_def listening_def getStream_def upd_stream_def pending_def)
qed

definition ex_dial :: "string \<Rightarrow> string \<Rightarrow> string + agent_conn" where
  "ex_dial network addr = (if network = ''unix'' then Inr (AgentConn network addr 0) else Inl ''connection refused'')"

definition ex_accepted :: "(unit, unit) connection" where
  "ex_accepted = snd (snd (serve_frame (SynStreamFrame (ex_syn 1)) 0 (ex_conn True)))"

lemma ex_agent_start:
  "fst (checkStreamFrame (ex_syn 1) (ex_conn True))" "ch_Flags (fs_CFHeader (ex_syn 1)) AND 1 = 0"
  "fs_StreamId (ex_syn 1) = 1" "wt_room (fm_w (cn_framer (ex_conn True))) = None" "cn_next (ex_conn True) = 0"
  by (simp_all add: ex_conn_def NewConnection_def ex_syn_def checkStreamFrame_def validateStreamId_def)

theorem agent_opens_stream_witness:
  "\<exists>t. agent_frames ex_zlib ex_dial ''/mysql.sock'' [SynStreamFrame (ex_syn 1)] ex_accepted = Ok t \<and> listening t 1 0"
  using agent_opens_stream[of "ex_syn 1" "ex_conn True" ex_dial "''/mysql.sock''" "AgentConn ''unix'' ''/mysql.sock'' 0" ex_zlib 0]
    ex_agent_start
  by (auto simp: ex_dial_def agent_network_def ex_accepted_def)

text \<open>
  C40. When the service cannot be dialled the agent tells its peer nothing: the stream is neither refused
  nor reset, nothing is written to the tunnel, and the data the peer sends on the stream is dropped.
\<close>

theorem agent_silent_on_failed_dial:
  assumes "dial (agent_network addr) addr = Inl e" "getStream s i = Some r" "\<not> sm_replied (cn_mem s r)"
    and "fs_StreamId fr = i" "list_all (\<lambda>d. fd_StreamId d = i) ds"
  shows "agent_frames zl dial addr (SynStreamFrame fr # map DataFrame ds) s = Ok s"
proof -
  have "agent_frames zl dial addr (map DataFrame ds) s = Ok s"
    using assms(2,3,5) by (induction ds) (auto simp: handleDataFrame_def)
  then show ?thesis using assms(1,2,4) by (simp add: agent_handler_def AgentStreamHandler_def)
qed

theorem agent_silent_on_failed_dial_witness:
  "agent_frames ex_zlib ex_dial ''db:3306'' [SynStreamFrame (ex_syn 1), DataFrame (data_frame_of 1 True [7])] ex_accepted =
    Ok ex_accepted"
proof -
  have "getStream ex_accepted 1 = Some 0 \<and> \<not> sm_replied (cn_mem ex_accepted 0)"
    by (simp add: ex_accepted_def ex_conn_def NewConnection_def ex_syn_def checkStreamFrame_def validateStreamId_def
        addStreamFrame_def addStream_def Let_def getStream_def blank_stream_def)
  then show ?thesis
    using agent_silent_on_failed_dial[of ex_dial "''db:3306''" "''connection refused''" ex_accepted 1 0 "ex_syn 1"
        "[data_frame_of 1 True [7]]" ex_zlib] ex_agent_start(3)
    by (simp add: ex_dial_def agent_network_def data_frame_of_def)
qed

end
