(* ===== verification/Commands.thy ===== *)
theory Commands
  imports ClusterLock Agent Exec
begin

text \<open>
  The programs beside the balancer: cmd/ldirector, which registers its node and waits to become the leader, and the
  main of cmd/streamd, the agent, around the handler of theory Agent.
\<close>

subsection \<open>Clients of the cluster\<close>

text \<open>\<open>NewClient\<close> and \<open>NewClientFromFile\<close> of cluster/client.go; \<open>load\<close> is the etcd client's constructor from a file.\<close>

definition cluster_NewClient :: "string exit \<Rightarrow> int \<Rightarrow> string \<Rightarrow> string \<Rightarrow> string list \<Rightarrow> (client \<times> etcd_client) exit" where
  "cluster_NewClient firstIP pid service cluster server =
    and_exit firstIP (\<lambda>ip. Returned
      (\<lparr>cl_ServiceName = service, cl_ClusterName = cluster, cl_IPAddress = ip, cl_Pid = Itoa pid\<rparr>, EtcdClient.NewClient server))"

definition etcd_NewClientFromFile ::
  "(string \<Rightarrow> string \<Rightarrow> string option) \<Rightarrow> (string \<Rightarrow> string + string) \<Rightarrow> (string \<Rightarrow> bool) \<Rightarrow>
   (string \<Rightarrow> string + etcd_config \<times> etcd_cluster) \<Rightarrow> string \<Rightarrow> string + etcd_client"
where
  "etcd_NewClientFromFile tls read pem decode fpath = NewClientFromReader tls read pem decode (read fpath)"

definition cluster_NewClientFromFile ::
  "(string \<Rightarrow> string + etcd_client) \<Rightarrow> string exit \<Rightarrow> int \<Rightarrow> string \<Rightarrow> string \<Rightarrow> string \<Rightarrow> (client \<times> etcd_client) exit"
where
  "cluster_NewClientFromFile load firstIP pid service cluster config =
    (case load ''config.json'' of
       Inl e \<Rightarrow> Exited
     | Inr c \<Rightarrow> and_exit firstIP (\<lambda>ip. Returned
         (\<lparr>cl_ServiceName = service, cl_ClusterName = cluster, cl_IPAddress = ip, cl_Pid = Itoa pid\<rparr>, c)))"

subsection \<open>ldirector\<close>

definition ServiceName :: string where "ServiceName = ''ldirector''"
definition director_ttl :: nat where "director_ttl = 60"

text \<open>What the process has come to on the states of the store its two loops have found so far.\<close>

datatype director = DirectorExits | Registering | Candidate nat | Leading nat nat

definition ldirector_main ::
  "'s etcd \<Rightarrow> (string list \<Rightarrow> string) \<Rightarrow> (int \<Rightarrow> string option) \<Rightarrow> (client \<times> etcd_client) exit \<Rightarrow> ('s \<times> 's) list \<Rightarrow> 's list \<Rightarrow> director"
where
  "ldirector_main et path_Join signal0 made ss ts =
    (case made of
       Exited \<Rightarrow> DirectorExits
     | Returned (l, c) \<Rightarrow>
         (case Register et path_Join signal0 l director_ttl ss of
            Sleeping \<Rightarrow> Registering
          | Left_loop (Inl existPid) \<Rightarrow> DirectorExits
          | Left_loop (Inr i) \<Rightarrow>
              (case BecomeLeader et path_Join l director_ttl ts of
                 Sleeping \<Rightarrow> Candidate i
               | Left_loop j \<Rightarrow> Leading i j)))"

text \<open>A director leads only with both keys created under its names.\<close>

lemma Register_index:
  "Register et path_Join signal0 l ttl ss = Left_loop (Inr i) \<Longrightarrow>
    \<exists>s' \<in> snd ` set ss. fst (et_Create et (NodePath path_Join l) (cl_Pid l) ttl s') = Inr i"
proof (induction ss)
  case (Cons x ss)
  obtain s s' where x: "x = (s, s')" by (cases x)
  obtain p e where f: "FindInstance et path_Join signal0 l s = (p, e)" by (cases "FindInstance et path_Join signal0 l s")
  show ?case
  proof (cases e)
    case None
    then show ?thesis using Cons.prems f x by simp
  next
    case (Some err)
    then show ?thesis using Cons f x by (auto simp: Lock_def split: sum.splits)
  qed
qed simp

lemma BecomeLeader_index:
  "BecomeLeader et path_Join l ttl ts = Left_loop j \<Longrightarrow> \<exists>t \<in> set ts. fst (et_Create et (LeaderPath path_Join l) (cl_IPAddress l) ttl t) = Inr j"
  by (induction ts) (auto simp: Lock_def split: sum.splits)

lemma ldirector_leads:
  assumes "ldirector_main et path_Join signal0 made ss ts = Leading i j"
  obtains l c s t where "made = Returned (l, c)" "s \<in> snd ` set ss" "t \<in> set ts"
    "fst (et_Create et (NodePath path_Join l) (cl_Pid l) director_ttl s) = Inr i"
    "fst (et_Create et (LeaderPath path_Join l) (cl_IPAddress l) director_ttl t) = Inr j"
proof -
  from assms obtain l c where "made = Returned (l, c)" "Register et path_Join signal0 l director_ttl ss = Left_loop (Inr i)"
    "BecomeLeader et path_Join l director_ttl ts = Left_loop j"
    by (auto simp: ldirector_main_def split: exit.splits loop.splits sum.splits)
  then show ?thesis using that Register_index BecomeLeader_index by metis
qed

subsection \<open>streamd\<close>

text \<open>What happens to the agent once it listens: a connection, a failed \<open>Accept\<close>, a signal. After a failed \<open>Accept\<close> the
  loop goes on with the nil connection, and the goroutine that serves it panics, which ends the process.\<close>

datatype streamd_event = ConnAccepted nat | AcceptFailed string | SignalCaught

datatype streamd = StreamdExits int | StreamdServes "nat list" | StreamdCrashes panic | StreamdReturns "nat list"

fun streamd_loop :: "streamd_event list \<Rightarrow> nat list \<Rightarrow> streamd" where
  "streamd_loop [] served = StreamdServes served"
| "streamd_loop (ConnAccepted c # es) served = streamd_loop es (served @ [c])"
| "streamd_loop (AcceptFailed e # es) served = StreamdCrashes NilPointer"
| "streamd_loop (SignalCaught # es) served = StreamdReturns served"

text \<open>The process and the pid file it leaves; \<open>os.Exit\<close> does not run the deferred removal. \<open>listen\<close> and \<open>remove\<close> are errors.\<close>

definition streamd_main ::
  "string \<Rightarrow> pid_env \<Rightarrow> string option \<Rightarrow> string option \<Rightarrow> string option \<Rightarrow> streamd_event list \<Rightarrow> streamd \<times> string option"
where
  "streamd_main pidFile env remove file listen es =
    (case (if pidFile \<noteq> '''' then WritePid env file else (None, file)) of
       (Some e, f) \<Rightarrow> (StreamdExits 1, f)
     | (None, f) \<Rightarrow>
         if listen \<noteq> None then (StreamdExits 1, f)
         else case streamd_loop es [] of
           StreamdReturns served \<Rightarrow> (StreamdReturns served, if pidFile \<noteq> '''' \<and> remove = None then None else f)
         | r \<Rightarrow> (r, f))"

lemma streamd_leaves_pid_file:
  "pidFile \<noteq> '''' \<Longrightarrow> WritePid env file = (None, f) \<Longrightarrow> listen \<noteq> None \<Longrightarrow>
    streamd_main pidFile env remove file listen es = (StreamdExits 1, f)"
  by (simp add: streamd_main_def)

lemma streamd_loop_stops:
  "streamd_loop (map ConnAccepted cs @ SignalCaught # es) served = StreamdReturns (served @ cs)"
  by (induction cs arbitrary: served) auto

lemma streamd_removes_pid_file:
  "pidFile \<noteq> '''' \<Longrightarrow> WritePid env file = (None, f) \<Longrightarrow>
    streamd_main pidFile env None file None (map ConnAccepted cs @ SignalCaught # es) = (StreamdReturns cs, None)"
  by (simp add: streamd_main_def streamd_loop_stops)

end
