(* ===== verification/SandboxNet.thy ===== *)
theory SandboxNet
  imports Exec "HOL-Library.AList"
begin

unbundle bit_operations_syntax

text \<open>
  utils/libvirt and cmd/virtnet: the networks a sandbox needs, one for each interface of the host, and starting a
  sandbox on one of them. The C library under libvirt-go is a record of its functions on its state \<open>'s\<close>, with
  handles \<open>'h\<close> for networks and \<open>'c\<close> for connections; None and -1 are their failures.
\<close>

subsection \<open>libvirt-go\<close>

record ('c, 'h, 's) libvirt =
  virConnectOpen :: "string \<Rightarrow> 's \<Rightarrow> 'c option \<times> 's"
  virConnectListAllNetworks :: "'c \<Rightarrow> uint32 \<Rightarrow> 's \<Rightarrow> 'h list option \<times> 's"
  virNetworkGetName :: "'h \<Rightarrow> 's \<Rightarrow> string option \<times> 's"
  virNetworkUndefine :: "'h \<Rightarrow> 's \<Rightarrow> int \<times> 's"
  virNetworkDefineXML :: "'c \<Rightarrow> string \<Rightarrow> 's \<Rightarrow> 'h option \<times> 's"
  virNetworkCreate :: "'h \<Rightarrow> 's \<Rightarrow> int \<times> 's"
  virGetLastError :: "'s \<Rightarrow> string \<times> 's"

definition or_last_error :: "('c, 'h, 's) libvirt \<Rightarrow> 'a option \<times> 's \<Rightarrow> (string + 'a) \<times> 's" where
  "or_last_error lv r =
    (case r of (Some x, s) \<Rightarrow> (Inr x, s) | (None, s) \<Rightarrow> apfst Inl (virGetLastError lv s))"

definition status_error :: "('c, 'h, 's) libvirt \<Rightarrow> int \<times> 's \<Rightarrow> string option \<times> 's" where
  "status_error lv r = (case r of (c, s) \<Rightarrow> if c = - 1 then apfst Some (virGetLastError lv s) else (None, s))"

definition VIR_CONNECT_LIST_NETWORKS_INACTIVE :: uint32 where "VIR_CONNECT_LIST_NETWORKS_INACTIVE = 1"
definition VIR_CONNECT_LIST_NETWORKS_ACTIVE :: uint32 where "VIR_CONNECT_LIST_NETWORKS_ACTIVE = 2"

definition NewVirConnection :: "('c, 'h, 's) libvirt \<Rightarrow> string \<Rightarrow> 's \<Rightarrow> (string + 'c) \<times> 's" where
  "NewVirConnection lv uri s = or_last_error lv (virConnectOpen lv uri s)"

definition ListAllNetworks :: "('c, 'h, 's) libvirt \<Rightarrow> 'c \<Rightarrow> uint32 \<Rightarrow> 's \<Rightarrow> (string + 'h list) \<times> 's" where
  "ListAllNetworks lv c fl s = or_last_error lv (virConnectListAllNetworks lv c fl s)"

definition net_GetName :: "('c, 'h, 's) libvirt \<Rightarrow> 'h \<Rightarrow> 's \<Rightarrow> (string + string) \<times> 's" where
  "net_GetName lv n s = or_last_error lv (virNetworkGetName lv n s)"

definition net_Undefine :: "('c, 'h, 's) libvirt \<Rightarrow> 'h \<Rightarrow> 's \<Rightarrow> string option \<times> 's" where
  "net_Undefine lv n s = status_error lv (virNetworkUndefine lv n s)"

definition NetworkDefineXML :: "('c, 'h, 's) libvirt \<Rightarrow> 'c \<Rightarrow> string \<Rightarrow> 's \<Rightarrow> (string + 'h) \<times> 's" where
  "NetworkDefineXML lv c xml s = or_last_error lv (virNetworkDefineXML lv c xml s)"

definition net_Create :: "('c, 'h, 's) libvirt \<Rightarrow> 'h \<Rightarrow> 's \<Rightarrow> string option \<times> 's" where
  "net_Create lv n s = status_error lv (virNetworkCreate lv n s)"

subsection \<open>The networks required\<close>

record net_interface =
  ni_Name :: string
  ni_Flags :: uint

definition FlagLoopback :: uint where "FlagLoopback = 4"
definition FlagPointToPoint :: uint where "FlagPointToPoint = 8"

definition quoted :: "string \<Rightarrow> string" where
  "quoted s = [CHR 0x22] @ s @ [CHR 0x22]"

definition VirtNetTemplate :: "string \<Rightarrow> string \<Rightarrow> string" where
  "VirtNetTemplate name dev =
    ''\<newline><network>\<newline>  <name>'' @ name @ ''</name>\<newline>  <forward mode='' @ quoted ''bridge'' @ ''>\<newline>    <interface dev='' @ quoted dev @
    ''/>\<newline>  </forward>\<newline></network>\<newline>''"

text \<open>\<open>RequiredNetwork\<close>: names and XML, in the order in which Go visits the map.\<close>

type_synonym required = "(string \<times> string) list"

fun build_required :: "net_interface list \<Rightarrow> required \<Rightarrow> required" where
  "build_required [] req = req"
| "build_required (i # is) req =
    (if ni_Flags i AND (FlagLoopback OR FlagPointToPoint) = 0 then
       let name = ''vnet-'' @ ni_Name i in build_required is (AList.update name (VirtNetTemplate name (ni_Name i)) req)
     else build_required is req)"

text \<open>An error of \<open>GetName\<close> is logged and leaves the empty name.\<close>

definition logged_name :: "('c, 'h, 's) libvirt \<Rightarrow> 'h \<Rightarrow> 's \<Rightarrow> string \<times> 's" where
  "logged_name lv n s = apfst (case_sum (\<lambda>e. '''') id) (net_GetName lv n s)"

fun undefine_inactive :: "('c, 'h, 's) libvirt \<Rightarrow> required \<Rightarrow> 'h list \<Rightarrow> 's \<Rightarrow> 's" where
  "undefine_inactive lv req [] s = s"
| "undefine_inactive lv req (n # ns) s =
    (case logged_name lv n s of (name, s) \<Rightarrow>
       undefine_inactive lv req ns (if map_of req name \<noteq> None then snd (net_Undefine lv n s) else s))"

fun drop_active :: "('c, 'h, 's) libvirt \<Rightarrow> 'h list \<Rightarrow> required \<times> 's \<Rightarrow> required \<times> 's" where
  "drop_active lv [] (req, s) = (req, s)"
| "drop_active lv (n # ns) (req, s) =
    (case logged_name lv n s of (name, s) \<Rightarrow>
       drop_active lv ns (if map_of req name \<noteq> None then AList.delete name req else req, s))"

fun create_networks :: "('c, 'h, 's) libvirt \<Rightarrow> 'c \<Rightarrow> string list \<Rightarrow> 's \<Rightarrow> 's" where
  "create_networks lv c [] s = s"
| "create_networks lv c (xml # xmls) s =
    (case NetworkDefineXML lv c xml s of
       (Inl e, s) \<Rightarrow> create_networks lv c xmls s
     | (Inr n, s) \<Rightarrow> create_networks lv c xmls (snd (net_Create lv n s)))"

text \<open>The errors of the two lists are dropped: the lists are empty then. \<open>ifaces\<close> is None if \<open>net.Interfaces\<close> fails.\<close>

definition CreateRequiredNetwork ::
  "('c, 'h, 's) libvirt \<Rightarrow> net_interface list option \<Rightarrow> required \<Rightarrow> 's \<Rightarrow> (required \<times> 's) exit"
where
  "CreateRequiredNetwork lv ifaces req s =
    (case ifaces of
       None \<Rightarrow> Exited
     | Some is \<Rightarrow>
         let req = build_required is req in
         (case NewVirConnection lv ''lxc:///'' s of
            (Inl e, s) \<Rightarrow> Exited
          | (Inr c, s) \<Rightarrow>
              (case ListAllNetworks lv c VIR_CONNECT_LIST_NETWORKS_INACTIVE s of
                 (inactive, s) \<Rightarrow>
                   let s = undefine_inactive lv req (case_sum (\<lambda>e. []) id inactive) s in
                   (case ListAllNetworks lv c VIR_CONNECT_LIST_NETWORKS_ACTIVE s of
                      (active, s) \<Rightarrow>
                        (case drop_active lv (case_sum (\<lambda>e. []) id active) (req, s) of
                           (req, s) \<Rightarrow> Returned (req, create_networks lv c (map snd req) s))))))"

text \<open>\<open>RunSandbox\<close> of utils/libvirt and \<open>main\<close> of cmd/virtnet.\<close>

definition RunTestSandbox ::
  "('c, 'h, 's) libvirt \<Rightarrow> net_interface list option \<Rightarrow> shell \<Rightarrow> string \<Rightarrow> required \<Rightarrow> 's \<Rightarrow> argv list \<Rightarrow> (required \<times> 's \<times> argv list outcome) exit"
where
  "RunTestSandbox lv ifaces sh cmd req s h =
    and_exit (CreateRequiredNetwork lv ifaces req s) (\<lambda>(req, s).
      let sandbox = (NewSandbox ''test-sandbox'' ''vnet-eno16777736'' cmd)\<lparr>sb_Addr := ''172.16.154.199''\<rparr> in
      case RunSandbox sh sandbox h of
        (Some e, h) \<Rightarrow> Exited
      | (None, h) \<Rightarrow> Returned (req, s, h))"

definition virtnet_main ::
  "('c, 'h, 's) libvirt \<Rightarrow> net_interface list option \<Rightarrow> shell \<Rightarrow> 's \<Rightarrow> (required \<times> 's \<times> argv list outcome) exit"
where
  "virtnet_main lv ifaces sh s = RunTestSandbox lv ifaces sh ''/bin/bash'' [] s []"

subsection \<open>What libvirt documents\<close>





subsection \<open>The steps\<close>

definition required_names :: "net_interface list \<Rightarrow> string set" where
  "required_names is = {''vnet-'' @ ni_Name i | i. i \<in> set is \<and> ni_Flags i AND (FlagLoopback OR FlagPointToPoint) = 0}"



lemma required_names_simps [simp]:
  "required_names [] = {}"
  "required_names (i # is) = (if ni_Flags i AND (FlagLoopback OR FlagPointToPoint) = 0
     then insert (''vnet-'' @ ni_Name i) (required_names is) else required_names is)"
  by (auto simp: required_names_def)








subsection \<open>Properties\<close>







end
