(* ===== verification/MysqlBuffer.thy ===== *)
theory MysqlBuffer
  imports Wire
begin

text \<open>
  go-sql-driver/mysql, buffer.go: the buffer through which a connection reads. The slices it hands out
  point into its array, so a later read may change what they show; a slice is therefore a position,
  looked up in the buffer when its bytes are used. Reading is proved to deliver the bytes of the
  connection in order, however the network cuts them up.
\<close>

subsection \<open>The network\<close>

text \<open>What the connection will deliver: pieces of the peer's bytes, and possibly an error, which stays.
  A read that finds nothing waits: it does not return, None.\<close>

datatype io_error = IoEOF | IoError string

datatype arrival = Chunk bytes | Failure io_error

fun conn_read :: "nat \<Rightarrow> arrival list \<Rightarrow> (bytes \<times> io_error option \<times> arrival list) option" where
  "conn_read k [] = None"
| "conn_read k (Chunk c # as) = Some (take k c, None, if length c \<le> k then as else Chunk (drop k c) # as)"
| "conn_read k (Failure e # as) = Some ([], Some e, Failure e # as)"

subsection \<open>The buffer\<close>

text \<open>\<open>bf_retired\<close> are the arrays the buffer has given up for larger ones: slices into them keep their bytes.\<close>

record buffer =
  bf_buf :: bytes
  bf_rd :: "arrival list"
  bf_idx :: nat
  bf_length :: nat
  bf_retired :: "bytes list"

definition defaultBufSize :: nat where "defaultBufSize = 4096"

text \<open>The generation of the array, the offset and the length of a slice; or an array of its own.\<close>

datatype slice = InBuf nat nat nat | Own bytes

definition array :: "buffer \<Rightarrow> nat \<Rightarrow> bytes" where
  "array b g = (if g < length (bf_retired b) then bf_retired b ! g else bf_buf b)"

fun deref :: "buffer \<Rightarrow> slice \<Rightarrow> bytes" where
  "deref b (InBuf g off n) = take n (drop off (array b g))"
| "deref b (Own bs) = bs"

text \<open>Go's \<open>copy\<close> into an array at an offset.\<close>

definition blit :: "bytes \<Rightarrow> nat \<Rightarrow> bytes \<Rightarrow> bytes" where
  "blit xs off ys = take off xs @ take (length xs - off) ys @ drop (off + length ys) xs"

definition newBuffer :: "arrival list \<Rightarrow> buffer" where
  "newBuffer rd = \<lparr>bf_buf = replicate defaultBufSize 0, bf_rd = rd, bf_idx = 0, bf_length = 0, bf_retired = []\<rparr>"

definition set_array :: "bytes \<Rightarrow> buffer \<Rightarrow> buffer" where
  "set_array a b = b\<lparr>bf_buf := a, bf_retired := bf_retired b @ [bf_buf b]\<rparr>"

text \<open>The loop of \<open>fill\<close>, which may wait for ever.\<close>

partial_function (option) fill_loop :: "nat \<Rightarrow> buffer \<Rightarrow> (io_error option \<times> buffer) option" where
  "fill_loop need b =
    Option.bind (conn_read (length (bf_buf b) - bf_length b) (bf_rd b)) (\<lambda>(c, err, rd).
      let b = b\<lparr>bf_buf := blit (bf_buf b) (bf_length b) c, bf_length := bf_length b + length c, bf_rd := rd\<rparr> in
      if err = None then (if bf_length b < need then fill_loop need b else Some (None, b))
      else if bf_length b \<ge> need \<and> err = Some IoEOF then Some (None, b)
      else Some (err, b))"

definition compacted :: "buffer \<Rightarrow> buffer" where
  "compacted b =
    (if bf_length b > 0 \<and> bf_idx b > 0
     then b\<lparr>bf_buf := blit (bf_buf b) 0 (take (bf_length b) (drop (bf_idx b) (bf_buf b)))\<rparr> else b)"

definition grown_buffer :: "nat \<Rightarrow> buffer \<Rightarrow> buffer" where
  "grown_buffer need b =
    (if need > length (bf_buf b)
     then set_array (blit (replicate ((need div defaultBufSize + 1) * defaultBufSize) 0) 0 (bf_buf b)) b else b)"

definition fill :: "nat \<Rightarrow> buffer \<Rightarrow> (io_error option \<times> buffer) option" where
  "fill need b = fill_loop need ((grown_buffer need (compacted b))\<lparr>bf_idx := 0\<rparr>)"

definition readNext :: "nat \<Rightarrow> buffer \<Rightarrow> ((io_error + slice) \<times> buffer) option" where
  "readNext need b =
    Option.bind (if bf_length b < need then fill need b else Some (None, b)) (\<lambda>(err, b).
      case err of
        Some e \<Rightarrow> Some (Inl e, b)
      | None \<Rightarrow> Some (Inr (InBuf (length (bf_retired b)) (bf_idx b) need),
                      b\<lparr>bf_idx := bf_idx b + need, bf_length := bf_length b - need\<rparr>))"

subsection \<open>The buffer for writing\<close>

text \<open>The slice handed out, None for nil. A slice of more than the array is a panic, so the result is also
  optional.\<close>

definition maxPacketSize :: nat where "maxPacketSize = 2 ^ 24 - 1"

definition takeBuffer :: "nat \<Rightarrow> buffer \<Rightarrow> (slice option \<times> buffer) option" where
  "takeBuffer n b =
    (if bf_length b > 0 then Some (None, b)
     else if n \<le> defaultBufSize \<or> n \<le> length (bf_buf b) then
       (if n \<le> length (bf_buf b) then Some (Some (InBuf (length (bf_retired b)) 0 n), b) else None)
     else if n < maxPacketSize then
       let b = set_array (replicate n 0) b in Some (Some (InBuf (length (bf_retired b)) 0 n), b)
     else Some (Some (Own (replicate n 0)), b))"

definition takeSmallBuffer :: "nat \<Rightarrow> buffer \<Rightarrow> (slice option) option" where
  "takeSmallBuffer n b =
    (if bf_length b = 0
     then (if n \<le> length (bf_buf b) then Some (Some (InBuf (length (bf_retired b)) 0 n)) else None)
     else Some None)"

definition takeCompleteBuffer :: "buffer \<Rightarrow> slice option" where
  "takeCompleteBuffer b =
    (if bf_length b = 0 then Some (InBuf (length (bf_retired b)) 0 (length (bf_buf b))) else None)"

text \<open>Writing the bytes of a slice that has just been taken.\<close>

fun fill_slice :: "slice \<Rightarrow> bytes \<Rightarrow> buffer \<Rightarrow> buffer" where
  "fill_slice (InBuf g off n) bs b = b\<lparr>bf_buf := blit (bf_buf b) off bs\<rparr>"
| "fill_slice (Own a) bs b = b"

subsection \<open>What reading means\<close>

text \<open>The bytes still to come and how they end: with an error, or not at all as far as one can see.\<close>

fun incoming :: "arrival list \<Rightarrow> bytes \<times> io_error option" where
  "incoming [] = ([], None)"
| "incoming (Chunk c # as) = apfst ((@) c) (incoming as)"
| "incoming (Failure e # as) = ([], Some e)"

definition buffered :: "buffer \<Rightarrow> bytes" where
  "buffered b = take (bf_length b) (drop (bf_idx b) (bf_buf b))"

definition view :: "buffer \<Rightarrow> bytes \<times> io_error option" where
  "view b = apfst ((@) (buffered b)) (incoming (bf_rd b))"

definition buffer_ok :: "buffer \<Rightarrow> bool" where
  "buffer_ok b \<longleftrightarrow> bf_idx b + bf_length b \<le> length (bf_buf b) \<and> defaultBufSize \<le> length (bf_buf b)"

text \<open>\<open>io.ReadFull\<close> on the stream of bytes: the next ones if there are enough, else the error, else it waits.\<close>

fun read_full :: "nat \<Rightarrow> bytes \<times> io_error option \<Rightarrow> ((io_error + bytes) \<times> bytes \<times> io_error option) option" where
  "read_full need (bs, en) =
    (if need \<le> length bs then Some (Inr (take need bs), drop need bs, en)
     else map_option (\<lambda>e. (Inl e, bs, Some e)) en)"

subsection \<open>Lemmas\<close>

lemma length_blit [simp]: "off \<le> length xs \<Longrightarrow> length (blit xs off ys) = length xs"
  by (simp add: blit_def)

lemma take_blit_0: "length ys \<le> length xs \<Longrightarrow> take (length ys) (blit xs 0 ys) = ys"
  by (simp add: blit_def)

lemma take_blit_end:
  "n \<le> length xs \<Longrightarrow> n + length ys \<le> length xs \<Longrightarrow> take (n + length ys) (blit xs n ys) = take n xs @ ys"
  by (simp add: blit_def)

lemma newBuffer_ok: "buffer_ok (newBuffer rd)" "view (newBuffer rd) = incoming rd"
  by (simp_all add: buffer_ok_def newBuffer_def view_def buffered_def apfst_def map_prod_def split: prod.splits)

lemma compacted_facts:
  assumes "buffer_ok b"
  shows "take (bf_length b) (bf_buf (compacted b)) = buffered b"
    "length (bf_buf (compacted b)) = length (bf_buf b)" "bf_length (compacted b) = bf_length b"
    "bf_rd (compacted b) = bf_rd b" "bf_retired (compacted b) = bf_retired b"
proof -
  have l: "length (take (bf_length b) (drop (bf_idx b) (bf_buf b))) = bf_length b" "bf_length b \<le> length (bf_buf b)"
    using assms unfolding buffer_ok_def by auto
  then show "take (bf_length b) (bf_buf (compacted b)) = buffered b"
    using take_blit_0[of "take (bf_length b) (drop (bf_idx b) (bf_buf b))" "bf_buf b", unfolded l(1)]
    by (cases "bf_length b = 0") (auto simp: compacted_def buffered_def)
qed (simp_all add: compacted_def)

lemma ready_facts:
  assumes "buffer_ok b" and "b1 = (grown_buffer need (compacted b))\<lparr>bf_idx := 0\<rparr>"
  shows "buffer_ok b1" "need \<le> length (bf_buf b1)" "view b1 = view b" "bf_length b1 = bf_length b" "bf_idx b1 = 0"
proof -
  have c: "take (bf_length b) (bf_buf (compacted b)) = buffered b"
    by (rule compacted_facts(1)[OF assms(1)])
  have big: "length (bf_buf (compacted b)) < need \<Longrightarrow> need \<le> (need div defaultBufSize + 1) * defaultBufSize"
    by (simp add: defaultBufSize_def)
  have lb: "bf_length b \<le> length (bf_buf (compacted b))"
    using assms(1) compacted_facts(2)[OF assms(1)] by (simp add: buffer_ok_def)
  show "bf_length b1 = bf_length b" "bf_idx b1 = 0"
    using compacted_facts(3)[OF assms(1)] by (simp_all add: assms(2) grown_buffer_def set_array_def)
  have len: "length (bf_buf b1) = (if length (bf_buf (compacted b)) < need then (need div defaultBufSize + 1) * defaultBufSize
      else length (bf_buf (compacted b)))"
    by (simp add: assms(2) grown_buffer_def set_array_def)
  show "need \<le> length (bf_buf b1)" using big len by (auto split: if_splits)
  have old: "length (bf_buf b) \<le> length (bf_buf b1)"
    using big len compacted_facts(2)[OF assms(1)] by (auto split: if_splits)
  show "buffer_ok b1"
    using assms(1) old \<open>bf_length b1 = bf_length b\<close> \<open>bf_idx b1 = 0\<close> by (simp add: buffer_ok_def)
  have "take (bf_length b) (bf_buf b1) = buffered b"
    using c lb big by (auto simp: assms(2) grown_buffer_def set_array_def blit_def)
  then have "buffered b1 = buffered b"
    by (simp add: buffered_def[of b1] \<open>bf_length b1 = bf_length b\<close> \<open>bf_idx b1 = 0\<close>)
  moreover have "bf_rd b1 = bf_rd b"
    using compacted_facts(4)[OF assms(1)] by (simp add: assms(2) grown_buffer_def set_array_def)
  ultimately show "view b1 = view b" by (simp add: view_def)
qed

definition filled :: "nat \<Rightarrow> buffer \<Rightarrow> (io_error option \<times> buffer) option \<Rightarrow> bool" where
  "filled need b r \<longleftrightarrow>
    (case r of
       None \<Rightarrow> length (fst (view b)) < need \<and> snd (view b) = None
     | Some (None, b') \<Rightarrow> buffer_ok b' \<and> view b' = view b \<and> need \<le> bf_length b'
     | Some (Some e, b') \<Rightarrow> buffer_ok b' \<and> view b' = view b \<and> length (fst (view b)) < need \<and> snd (view b) = Some e)"

lemma filled_view: "view b1 = view b \<Longrightarrow> filled need b1 r = filled need b r"
  by (simp only: filled_def)

text \<open>One read puts bytes from the network at the end of those in the buffer.\<close>

lemma read_step:
  assumes "buffer_ok b" "bf_idx b = 0" "length c \<le> length (bf_buf b) - bf_length b"
    and "incoming (bf_rd b) = apfst ((@) c) (incoming rd)"
    and "b1 = b\<lparr>bf_buf := blit (bf_buf b) (bf_length b) c, bf_length := bf_length b + length c, bf_rd := rd\<rparr>"
  shows "buffer_ok b1" "view b1 = view b" "bf_idx b1 = 0"
proof -
  have l: "bf_length b \<le> length (bf_buf b)" "bf_length b + length c \<le> length (bf_buf b)"
    using assms(1,3) by (auto simp: buffer_ok_def)
  show "buffer_ok b1" "bf_idx b1 = 0" using assms(1,2) l by (auto simp: assms(5) buffer_ok_def)
  have "buffered b1 = buffered b @ c"
    using take_blit_end[OF l] assms(2) by (simp add: buffered_def assms(5))
  then show "view b1 = view b"
    by (simp add: view_def assms(4), simp add: assms(5) apfst_def map_prod_def split: prod.splits)
qed

lemma fill_loop_filled:
  "buffer_ok b \<Longrightarrow> bf_idx b = 0 \<Longrightarrow> need \<le> length (bf_buf b) \<Longrightarrow> bf_length b < need \<Longrightarrow> filled need b (fill_loop need b)"
proof (induction "bf_rd b" arbitrary: b)
  case Nil
  then have "fill_loop need b = None" by (subst fill_loop.simps) (simp flip: Nil(1))
  moreover have "view b = (buffered b, None)" using Nil(1) by (simp add: view_def flip: Nil(1))
  moreover have "length (buffered b) \<le> bf_length b" by (simp add: buffered_def)
  ultimately show ?case using Nil by (simp add: filled_def)
next
  case (Cons a as)
  have lb: "length (buffered b) \<le> bf_length b" by (simp add: buffered_def)
  show ?case
  proof (cases a)
    case (Failure e)
    then have "bf_rd b = Failure e # as" using Cons.hyps(2) by simp
    then have f: "fill_loop need b = Some (Some e, b)" and v: "view b = (buffered b, Some e)"
      using Cons.prems by (subst fill_loop.simps, simp_all add: blit_def Let_def view_def)
    show ?thesis using Cons.prems lb by (simp add: filled_def f v)
  next
    case (Chunk c)
    let ?k = "length (bf_buf b) - bf_length b"
    let ?rd = "if length c \<le> ?k then as else Chunk (drop ?k c) # as"
    define b1 where "b1 = b\<lparr>bf_buf := blit (bf_buf b) (bf_length b) (take ?k c),
      bf_length := bf_length b + length (take ?k c), bf_rd := ?rd\<rparr>"
    have rd: "bf_rd b = Chunk c # as" using Chunk Cons.hyps(2) by simp
    have inc: "incoming (bf_rd b) = apfst ((@) (take ?k c)) (incoming ?rd)"
      by (simp add: rd apfst_def map_prod_def split: prod.splits)
    note s = read_step[OF Cons.prems(1,2) _ inc b1_def, simplified]
    have f: "fill_loop need b = (if bf_length b1 < need then fill_loop need b1 else Some (None, b1))"
      by (subst fill_loop.simps) (simp add: rd Let_def b1_def)
    have nl: "need \<le> length (bf_buf b1)" using Cons.prems(1,3) by (simp add: b1_def buffer_ok_def)
    show ?thesis
    proof (cases "bf_length b1 < need")
      case True
      then have "length c \<le> ?k" using nl Cons.prems(1) by (auto simp: b1_def buffer_ok_def split: if_splits)
      then have "bf_rd b1 = as" by (simp add: b1_def)
      then have "filled need b1 (fill_loop need b1)" using Cons.hyps(1)[OF _ s(1,3) nl True] by simp
      then show ?thesis using True filled_view[OF s(2)] by (simp add: f)
    next
      case False
      then show ?thesis using s by (simp add: f filled_def)
    qed
  qed
qed

text \<open>The bytes of a slice, or the error.\<close>

definition bytes_read :: "(io_error + slice) \<times> buffer \<Rightarrow> (io_error + bytes) \<times> bytes \<times> io_error option" where
  "bytes_read = (\<lambda>(r, b). (map_sum id (deref b) r, view b))"

lemma readNext_now:
  assumes "buffer_ok b" "need \<le> bf_length b"
    and "b1 = b\<lparr>bf_idx := bf_idx b + need, bf_length := bf_length b - need\<rparr>"
  shows "deref b1 (InBuf (length (bf_retired b)) (bf_idx b) need) = take need (fst (view b))"
    "view b1 = apfst (drop need) (view b)" "buffer_ok b1" "need \<le> length (fst (view b))"
proof -
  obtain bs en where i: "incoming (bf_rd b) = (bs, en)" by fastforce
  have l: "length (buffered b) = bf_length b" using assms(1) unfolding buffered_def buffer_ok_def by auto
  have d: "buffered b1 = drop need (buffered b)"
    by (simp add: buffered_def assms(3) drop_take add.commute)
  show "buffer_ok b1" using assms(1,2) by (simp add: assms(3) buffer_ok_def)
  show "need \<le> length (fst (view b))" using l assms(2) by (simp add: view_def i)
  show "view b1 = apfst (drop need) (view b)"
    using assms(2) l d i by (simp add: view_def) (simp add: assms(3))
  show "deref b1 (InBuf (length (bf_retired b)) (bf_idx b) need) = take need (fst (view b))"
    using assms(2) l by (simp add: view_def i assms(3) array_def buffered_def)
qed

text \<open>\<open>readNext\<close> is \<open>io.ReadFull\<close> on the stream.\<close>

lemma readNext_view:
  assumes "buffer_ok b"
  shows "map_option bytes_read (readNext need b) = read_full need (view b)"
    and "readNext need b = Some (r0, b') \<Longrightarrow> buffer_ok b'"
proof -
  have e: "read_full need v = (if need \<le> length (fst v) then Some (Inr (take need (fst v)), apfst (drop need) v)
      else map_option (\<lambda>e. (Inl e, fst v, Some e)) (snd v))" for v
    by (cases v) simp
  define r where "r = (if bf_length b < need then fill need b else Some (None, b))"
  have f: "filled need b r"
  proof (cases "bf_length b < need")
    case True
    note q = ready_facts[OF assms refl, of need]
    have "filled need b (fill_loop need ((grown_buffer need (compacted b))\<lparr>bf_idx := 0\<rparr>))"
      unfolding filled_view[OF q(3), symmetric] by (rule fill_loop_filled[OF q(1,5,2)]) (simp add: True q(4))
    then show ?thesis using True by (simp add: r_def fill_def)
  next
    case False
    then show ?thesis using assms by (simp add: r_def filled_def)
  qed
  have n: "readNext need b = Option.bind r (\<lambda>(err, b). case err of Some e \<Rightarrow> Some (Inl e, b)
      | None \<Rightarrow> Some (Inr (InBuf (length (bf_retired b)) (bf_idx b) need),
                      b\<lparr>bf_idx := bf_idx b + need, bf_length := bf_length b - need\<rparr>))"
    by (simp add: readNext_def r_def)
  have "map_option bytes_read (readNext need b) = read_full need (view b) \<and>
    (\<forall>x y. readNext need b = Some (x, y) \<longrightarrow> buffer_ok y)"
  proof (cases r)
    case None
    then show ?thesis using f by (simp add: n e filled_def)
  next
    case (Some x)
    obtain err b1 where x: "x = (err, b1)" by fastforce
    show ?thesis
    proof (cases err)
      case None
      then have b1: "buffer_ok b1" "view b1 = view b" "need \<le> bf_length b1" using f Some x by (simp_all add: filled_def)
      note w = readNext_now[OF b1(1,3) refl]
      show ?thesis using w b1(2) unfolding n e Some x None bytes_read_def by (simp del: deref.simps)
    next
      case (Some e')
      then show ?thesis using f \<open>r = Some x\<close> x by (cases "view b") (simp add: n e filled_def bytes_read_def)
    qed
  qed
  then show "map_option bytes_read (readNext need b) = read_full need (view b)"
    "readNext need b = Some (r0, b') \<Longrightarrow> buffer_ok b'" by auto
qed

subsection \<open>The interface\<close>

text \<open>What a reader of packets relies on: whatever the pieces in which the bytes arrive, a read delivers the
  next ones of the stream, and only the stream decides what it returns.\<close>

locale full_reader =
  fixes read :: "nat \<Rightarrow> 's \<Rightarrow> ((io_error + 'x) \<times> 's) option"
    and shown :: "'s \<Rightarrow> 'x \<Rightarrow> bytes"
    and stream :: "'s \<Rightarrow> bytes \<times> io_error option"
    and ok :: "'s \<Rightarrow> bool"
  assumes reads: "ok s \<Longrightarrow> map_option (\<lambda>(r, t). (map_sum id (shown t) r, stream t)) (read n s) = read_full n (stream s)"
    and keeps: "ok s \<Longrightarrow> read n s = Some (r, t) \<Longrightarrow> ok t"
begin

lemma enough:
  assumes "ok s" "stream s = (bs @ rest, en)" "length bs = n"
  obtains x t where "read n s = Some (Inr x, t)" "shown t x = bs" "stream t = (rest, en)" "ok t"
proof -
  have "map_option (\<lambda>(r, t). (map_sum id (shown t) r, stream t)) (read n s) = Some (Inr bs, rest, en)"
    using reads[OF assms(1), of n] assms(2,3) by simp
  then obtain r t where r: "read n s = Some (r, t)" "map_sum id (shown t) r = Inr bs" "stream t = (rest, en)" by auto
  then obtain x where "r = Inr x" "shown t x = bs" by (cases r) auto
  then show ?thesis using that r keeps[OF assms(1) r(1)] by blast
qed

lemma waits:
  assumes "ok s" "stream s = (bs, None)" "length bs < n"
  shows "read n s = None"
  using reads[OF assms(1), of n] assms(2,3) by (cases "read n s") auto

lemma ends:
  assumes "ok s" "stream s = (bs, Some e)" "length bs < n"
  obtains t where "read n s = Some (Inl e, t)" "ok t"
proof -
  have "map_option (\<lambda>(r, t). (map_sum id (shown t) r, stream t)) (read n s) = Some (Inl e, bs, Some e)"
    using reads[OF assms(1), of n] assms(2,3) by simp
  then obtain r t where r: "read n s = Some (r, t)" "map_sum id (shown t) r = Inl e" by auto
  then have "r = Inl e" by (cases r) auto
  then show ?thesis using that r keeps[OF assms(1) r(1)] by blast
qed

end

interpretation rd: full_reader readNext deref view buffer_ok
proof
  show "map_option (\<lambda>(r, t). (map_sum id (deref t) r, view t)) (readNext n s) = read_full n (view s)" if "buffer_ok s" for s n
    using readNext_view(1)[OF that, of n] by (simp add: bytes_read_def)
qed (rule readNext_view(2))

end
