(* ===== verification/MysqlCodec.thy ===== *)
theory MysqlCodec
  imports Wire
begin

text \<open>
  go-sql-driver/mysql, utils.go: the byte codecs of the MySQL protocol and the hashes of its logins.
  The Galera driver of the wrangler speaks to its servers through this package. Reading past the end of
  the bytes is a panic, None here; \<open>sha1\<close> is an argument.
\<close>

unbundle bit_operations_syntax

subsection \<open>Length-encoded integers\<close>

text \<open>A byte of a uint64 at a bit position.\<close>

definition at_bit :: "nat \<Rightarrow> byte \<Rightarrow> uint64" where
  "at_bit k b = push_bit k (ucast b)"

definition byte_of :: "nat \<Rightarrow> uint64 \<Rightarrow> byte" where
  "byte_of k n = ucast (drop_bit k n)"

text \<open>The number, whether it is NULL, and the number of bytes read.\<close>

fun readLengthEncodedInteger :: "bytes \<Rightarrow> (uint64 \<times> bool \<times> nat) option" where
  "readLengthEncodedInteger [] = None"
| "readLengthEncodedInteger (b0 # bs) =
    (if b0 = 0xfb then Some (0, True, 1)
     else if b0 = 0xfc then
       (case bs of b1 # b2 # _ \<Rightarrow> Some (ucast b1 OR at_bit 8 b2, False, 3) | _ \<Rightarrow> None)
     else if b0 = 0xfd then
       (case bs of b1 # b2 # b3 # _ \<Rightarrow> Some (ucast b1 OR at_bit 8 b2 OR at_bit 16 b3, False, 4) | _ \<Rightarrow> None)
     else if b0 = 0xfe then
       (case bs of
          b1 # b2 # b3 # b4 # b5 # b6 # b7 # b8 # _ \<Rightarrow>
            Some (ucast b1 OR at_bit 8 b2 OR at_bit 16 b3 OR at_bit 24 b4 OR at_bit 32 b5 OR at_bit 40 b6 OR
              at_bit 48 b7 OR at_bit 54 b8, False, 9)
        | _ \<Rightarrow> None)
     else Some (ucast b0, False, 1))"

definition appendLengthEncodedInteger :: "bytes \<Rightarrow> uint64 \<Rightarrow> bytes" where
  "appendLengthEncodedInteger b n =
    (if n \<le> 250 then b @ [ucast n]
     else if n \<le> 0xffff then b @ [0xfc, ucast n, byte_of 8 n]
     else if n \<le> 0xffffff then b @ [0xfd, ucast n, byte_of 8 n, byte_of 16 n]
     else b)"

definition uint64ToBytes :: "uint64 \<Rightarrow> bytes" where
  "uint64ToBytes n = [ucast n, byte_of 8 n, byte_of 16 n, byte_of 24 n, byte_of 32 n, byte_of 40 n, byte_of 48 n, byte_of 56 n]"

subsection \<open>Length-encoded strings\<close>

text \<open>The slice of \<open>b\<close> as its bounds, None for nil, whether it is NULL, the bytes read, and whether the error is \<open>io.EOF\<close>. The number is a
  length, converted to a signed int and added to the bytes of its own encoding, with Go's wrap-around.\<close>

definition string_end :: "nat \<Rightarrow> uint64 \<Rightarrow> int" where
  "string_end n num = sint (of_nat n + num)"

definition readLengthEnodedString :: "bytes \<Rightarrow> ((nat \<times> nat) option \<times> bool \<times> int \<times> bool) option" where
  "readLengthEnodedString b =
    (case readLengthEncodedInteger b of
       None \<Rightarrow> None
     | Some (num, isNull, n) \<Rightarrow>
         if num < 1 then Some (Some (n, n), isNull, int n, False)
         else
           let m = string_end n num in
           if int (length b) \<ge> m then
             (if m < int n then None
              else Some (Some (n, nat m), False, m, False))
           else Some (None, False, m, True))"

definition skipLengthEnodedString :: "bytes \<Rightarrow> (int \<times> bool) option" where
  "skipLengthEnodedString b =
    (case readLengthEncodedInteger b of
       None \<Rightarrow> None
     | Some (num, isNull, n) \<Rightarrow>
         if num < 1 then Some (int n, False)
         else let m = string_end n num in Some (m, \<not> int (length b) \<ge> m))"

subsection \<open>Decimal numbers\<close>

text \<open>\<open>uint64ToString\<close>: the loop that fills the array from its end.\<close>

function to_digits :: "uint64 \<Rightarrow> bytes \<Rightarrow> bytes" where
  "to_digits n a =
    (if n \<ge> 10 then let q = n div 10 in to_digits q ((ucast (n - q * 10) + 0x30) # a)
     else (ucast n + 0x30) # a)"
  by pat_completeness auto
termination
  by (relation "measure (\<lambda>(n, a). unat n)") (auto simp: unat_div word_le_nat_alt)

declare to_digits.simps [simp del]

definition uint64ToString :: "uint64 \<Rightarrow> bytes" where
  "uint64ToString n = to_digits n []"

text \<open>\<open>stringToInt\<close> in the 64 bits of Go's int.\<close>

definition stringToInt :: "bytes \<Rightarrow> 64 word" where
  "stringToInt b = fold (\<lambda>c v. v * 10 + ucast (c - 0x30)) b 0"

subsection \<open>Passwords\<close>

definition scramblePassword :: "(bytes \<Rightarrow> bytes) \<Rightarrow> bytes \<Rightarrow> bytes \<Rightarrow> bytes" where
  "scramblePassword sha1 scramble password =
    (if password = [] then []
     else
       let stage1 = sha1 password; hash = sha1 stage1; scramble = sha1 (scramble @ hash) in
       map2 (XOR) scramble stage1)"

definition myRndMaxVal :: uint32 where "myRndMaxVal = 0x3FFFFFFF"

record my_rnd =
  rn_seed1 :: uint32
  rn_seed2 :: uint32

definition newMyRnd :: "uint32 \<Rightarrow> uint32 \<Rightarrow> my_rnd" where
  "newMyRnd seed1 seed2 = \<lparr>rn_seed1 = seed1 mod myRndMaxVal, rn_seed2 = seed2 mod myRndMaxVal\<rparr>"

definition NextByte :: "my_rnd \<Rightarrow> byte \<times> my_rnd" where
  "NextByte r =
    (let s1 = (rn_seed1 r * 3 + rn_seed2 r) mod myRndMaxVal;
         s2 = (s1 + rn_seed2 r + 33) mod myRndMaxVal in
     (ucast (ucast s1 * 31 div (ucast myRndMaxVal :: uint64)), \<lparr>rn_seed1 = s1, rn_seed2 = s2\<rparr>))"

fun pw_hash_loop :: "bytes \<Rightarrow> uint32 \<times> uint32 \<times> uint32 \<Rightarrow> uint32 \<times> uint32 \<times> uint32" where
  "pw_hash_loop [] s = s"
| "pw_hash_loop (c # cs) (r0, r1, add) =
    (if c = 0x20 \<or> c = 0x09 then pw_hash_loop cs (r0, r1, add)
     else
       let tmp = ucast c;
           r0 = r0 XOR (((r0 AND 63) + add) * tmp + push_bit 8 r0);
           r1 = r1 + (push_bit 8 r1 XOR r0) in
       pw_hash_loop cs (r0, r1, add + tmp))"

definition pwHash :: "bytes \<Rightarrow> uint32 \<times> uint32" where
  "pwHash password =
    (case pw_hash_loop password (1345345333, 0x12345671, 7) of
       (r0, r1, add) \<Rightarrow> (r0 AND 0x7FFFFFFF, r1 AND 0x7FFFFFFF))"

fun next_bytes :: "nat \<Rightarrow> my_rnd \<Rightarrow> bytes \<times> my_rnd" where
  "next_bytes 0 r = ([], r)"
| "next_bytes (Suc n) r = (case NextByte r of (b, r) \<Rightarrow> apfst ((#) (b + 64)) (next_bytes n r))"

definition scrambleOldPassword :: "bytes \<Rightarrow> bytes \<Rightarrow> bytes option" where
  "scrambleOldPassword scramble password =
    (if password = [] then Some []
     else if length scramble < 8 then None
     else
       let (p0, p1) = pwHash password; (s0, s1) = pwHash (take 8 scramble);
           (out, r) = next_bytes 8 (newMyRnd (p0 XOR s0) (p1 XOR s1));
           mask = fst (NextByte r) in
       Some (map (\<lambda>b. b XOR mask) out))"

subsection \<open>Lemmas\<close>

lemma take_bit_small: "unat n < 2 ^ k \<Longrightarrow> take_bit k n = n" for n :: uint64
  by (simp add: word_unat_eq_iff unsigned_take_bit_eq take_bit_nat_eq_self)

lemma low_byte: "ucast (ucast n :: byte) = take_bit 8 (n :: uint64)"
  by (rule bit_word_eqI) (auto simp: bit_simps)

lemma next_byte: "take_bit k n OR at_bit k (byte_of k n) = take_bit (k + 8) n"
  by (rule bit_word_eqI) (auto simp: bit_simps at_bit_def byte_of_def)

lemmas bytes_up = low_byte next_byte[of 8, simplified] next_byte[of 16, simplified] next_byte[of 24, simplified]
  next_byte[of 32, simplified] next_byte[of 40, simplified] next_byte[of 48, simplified] or.assoc[symmetric]

lemma one_byte:
  assumes "(n :: uint64) \<le> 250"
  shows "ucast (ucast n :: byte) = n" "(ucast n :: byte) \<notin> {0xfb, 0xfc, 0xfd, 0xfe}"
proof -
  have u: "unat n \<le> 250" using assms by (simp add: word_le_nat_alt)
  then show "ucast (ucast n :: byte) = n" by (simp only: low_byte) (simp add: take_bit_small)
  have b: "unat (ucast n :: byte) = unat n" using u by (simp add: unsigned_ucast_eq take_bit_nat_eq_self)
  have "(ucast n :: byte) \<noteq> x" if "unat x > 250" for x using b u that by auto
  then show "(ucast n :: byte) \<notin> {0xfb, 0xfc, 0xfd, 0xfe}" by auto
qed

lemma two_bytes: "(n :: uint64) \<le> 0xffff \<Longrightarrow> ucast (ucast n :: byte) OR at_bit 8 (byte_of 8 n) = n"
  unfolding bytes_up by (rule take_bit_small) (simp add: word_le_nat_alt)

lemma three_bytes:
  "(n :: uint64) \<le> 0xffffff \<Longrightarrow> ucast (ucast n :: byte) OR at_bit 8 (byte_of 8 n) OR at_bit 16 (byte_of 16 n) = n"
  unfolding bytes_up by (rule take_bit_small) (simp add: word_le_nat_alt)

text \<open>The eight bytes as they are read.\<close>

definition read_eight :: "uint64 \<Rightarrow> uint64" where
  "read_eight n = take_bit 56 n OR at_bit 54 (byte_of 56 n)"

lemma read_eight: "readLengthEncodedInteger (0xfe # uint64ToBytes n @ rest) = Some (read_eight n, False, 9)"
  unfolding uint64ToBytes_def append.simps readLengthEncodedInteger.simps list.case bytes_up read_eight_def by simp

lemma bit_read_eight: "56 \<le> i \<Longrightarrow> i < 64 \<Longrightarrow> bit (read_eight n) i = bit n (i + 2)"
proof -
  assume i: "56 \<le> i" "i < 64"
  have "bit (read_eight n) i = (i < 62 \<and> bit n (i + 2))"
    using i by (auto simp: read_eight_def at_bit_def byte_of_def bit_simps)
  moreover have "bit n (i + 2) \<Longrightarrow> i + 2 < 64" using bit_imp_le_length by fastforce
  ultimately show ?thesis by auto
qed

lemma read_eight_right: "read_eight n = n \<longleftrightarrow> n < 2 ^ 56"
proof
  assume e: "read_eight n = n"
  have up: "bit n i = bit n (i + 2)" if "56 \<le> i" "i < 64" for i
    using bit_read_eight[OF that, of n] e by simp
  have "\<not> bit n 62" "\<not> bit n 63" using up[of 62] up[of 63] bit_imp_le_length by fastforce+
  then have "\<not> bit n 60" "\<not> bit n 61" using up[of 60] up[of 61] by simp_all
  then have "\<not> bit n 58" "\<not> bit n 59" using up[of 58] up[of 59] by simp_all
  then have "\<not> bit n 56" "\<not> bit n 57" using up[of 56] up[of 57] by simp_all
  have high: "\<not> bit n i" if h: "56 \<le> i" for i
  proof
    assume b: "bit n i"
    then have "i < 64" using bit_imp_le_length by fastforce
    with h have "i = 56 \<or> i = 57 \<or> i = 58 \<or> i = 59 \<or> i = 60 \<or> i = 61 \<or> i = 62 \<or> i = 63" by linarith
    then show False using b \<open>\<not> bit n 56\<close> \<open>\<not> bit n 57\<close> \<open>\<not> bit n 58\<close> \<open>\<not> bit n 59\<close> \<open>\<not> bit n 60\<close> \<open>\<not> bit n 61\<close>
      \<open>\<not> bit n 62\<close> \<open>\<not> bit n 63\<close> by blast
  qed
  have "take_bit 56 n = n"
  proof (rule bit_word_eqI)
    fix i
    show "bit (take_bit 56 n) i = bit n i"
      using high[of i] by (cases "i < 56") (simp_all add: bit_take_bit_iff)
  qed
  then have "unat n = take_bit 56 (unat n)" by (metis unsigned_take_bit_eq)
  then have "unat n < 2 ^ 56" by (metis take_bit_nat_less_exp)
  then show "n < 2 ^ 56" by (simp add: word_less_nat_alt)
next
  assume "n < 2 ^ 56"
  then have "unat n < 2 ^ 56" by (simp add: word_less_nat_alt)
  then have t: "take_bit 56 n = n" by (rule take_bit_small)
  have "byte_of 56 n = 0"
    by (subst t[symmetric]) (auto intro!: bit_word_eqI simp: byte_of_def bit_simps)
  then show "read_eight n = n" by (simp add: read_eight_def at_bit_def t)
qed

lemma digit_back: "(n :: uint64) div 10 * 10 + ucast ((ucast (n - n div 10 * 10) + 0x30 :: byte) - 0x30) = n"
proof -
  have m: "n - n div 10 * 10 = n mod 10" by (simp add: minus_div_mult_eq_mod)
  have "unat (n mod 10) < 10" by (simp add: unat_mod)
  then have "n mod 10 \<le> 250" by (simp add: word_le_nat_alt)
  then have "ucast (ucast (n mod 10) :: byte) = n mod 10" by (rule one_byte(1))
  then have "(n :: uint64) div 10 * 10 + ucast ((ucast (n - n div 10 * 10) + 0x30 :: byte) - 0x30) = n div 10 * 10 + n mod 10"
    by (simp add: m)
  also have "\<dots> = n" by (rule div_mult_mod_eq)
  finally show ?thesis .
qed

lemma stringToInt_digits: "fold (\<lambda>c v. v * 10 + ucast (c - 0x30)) (to_digits n a) 0 = fold (\<lambda>c v. v * 10 + ucast (c - 0x30)) a n"
proof (induction n a rule: to_digits.induct)
  case (1 n a)
  show ?case
  proof (cases "n \<ge> 10")
    case True
    then show ?thesis using 1 digit_back[of n] by (simp add: to_digits.simps[of n a] Let_def)
  next
    case False
    then have "n \<le> 250" by (simp add: word_le_nat_alt)
    then show ?thesis using False one_byte(1)[of n] by (simp add: to_digits.simps[of n a])
  qed
qed

text \<open>What is appended is read back.\<close>

lemma lenenc_read:
  assumes "n < 2 ^ 24"
  shows "readLengthEncodedInteger (appendLengthEncodedInteger [] n @ rest) = Some (n, False, length (appendLengthEncodedInteger [] n))"
proof -
  have "n \<le> 0xffffff" using assms by (simp add: word_less_nat_alt word_le_nat_alt)
  then consider "n \<le> 250" | "\<not> n \<le> 250" "n \<le> 0xffff" | "\<not> n \<le> 250" "\<not> n \<le> 0xffff" "n \<le> 0xffffff" by blast
  then show ?thesis
  proof cases
    case 1
    then show ?thesis using one_byte[OF 1] by (simp add: appendLengthEncodedInteger_def)
  next
    case 2
    then show ?thesis using two_bytes[OF 2(2)] by (simp add: appendLengthEncodedInteger_def)
  next
    case 3
    then show ?thesis using three_bytes[OF 3(3)] by (simp add: appendLengthEncodedInteger_def)
  qed
qed

lemma lenenc_first:
  assumes "n < 2 ^ 24"
  shows "appendLengthEncodedInteger [] n \<noteq> []" "hd (appendLengthEncodedInteger [] n) \<notin> {0xfb, 0xfe}"
proof -
  have "n \<le> 0xffffff" using assms by (simp add: word_less_nat_alt word_le_nat_alt)
  then show "appendLengthEncodedInteger [] n \<noteq> []" "hd (appendLengthEncodedInteger [] n) \<notin> {0xfb, 0xfe}"
    using one_byte(2)[of n] by (auto simp: appendLengthEncodedInteger_def)
qed

subsection \<open>Strings\<close>

text \<open>A string as the protocol sends it, NULL being a byte of its own.\<close>

definition cell :: "bytes option \<Rightarrow> bytes" where
  "cell c = (case c of None \<Rightarrow> [0xfb] | Some s \<Rightarrow> appendLengthEncodedInteger [] (of_nat (length s)) @ s)"

definition short_cell :: "bytes option \<Rightarrow> bool" where
  "short_cell c \<longleftrightarrow> (case c of None \<Rightarrow> True | Some s \<Rightarrow> length s < 2 ^ 24)"

lemma unat_length: "length s < 2 ^ 24 \<Longrightarrow> unat (of_nat (length s) :: uint64) = length s"
  by (simp add: unsigned_of_nat take_bit_nat_eq_self)

lemma length_lenenc: "length (appendLengthEncodedInteger [] n) \<le> 4"
  by (simp add: appendLengthEncodedInteger_def)

lemma sint_small:
  assumes "m < 2 ^ 63"
  shows "sint (of_nat m :: uint64) = int m"
proof -
  have "int m < 2 ^ 63" using assms by (simp add: nat_less_iff)
  then show ?thesis by (simp add: signed_of_nat signed_take_bit_int_eq_self)
qed

lemma cell_read:
  assumes "short_cell c"
  shows "\<exists>a. readLengthEnodedString (cell c @ rest) =
      Some (Some (a, length (cell c)), c = None, int (length (cell c)), False) \<and> a \<le> length (cell c) \<and>
      take (length (cell c) - a) (drop a (cell c)) = (case c of None \<Rightarrow> [] | Some s \<Rightarrow> s)"
proof (cases c)
  case None
  then show ?thesis by (intro exI[of _ 1]) (simp add: cell_def readLengthEnodedString_def)
next
  case (Some s)
  let ?n = "of_nat (length s) :: uint64" and ?k = "length (appendLengthEncodedInteger [] (of_nat (length s)))"
  have l: "length s < 2 ^ 24" using assms Some by (simp add: short_cell_def)
  then have n: "?n < 2 ^ 24" by (simp add: word_less_nat_alt unat_length)
  have c: "cell (Some s) = appendLengthEncodedInteger [] ?n @ s" by (simp add: cell_def)
  have e: "string_end ?k ?n = int (?k + length s)"
  proof -
    have "?k + length s < 2 ^ 63" using l length_lenenc[of ?n] by simp
    then have "sint (of_nat (?k + length s) :: uint64) = int (?k + length s)" by (rule sint_small)
    then show ?thesis by (simp add: string_end_def)
  qed
  have z: "?n < 1 \<longleftrightarrow> s = []" using l by (simp add: word_less_nat_alt unat_length)
  show ?thesis
    unfolding Some c using lenenc_read[OF n, of "s @ rest"] e z
    by (intro exI[of _ ?k]) (simp add: readLengthEnodedString_def Let_def nat_add_distrib)
qed

end
