(* ===== verification/MysqlDsn.thy ===== *)
theory MysqlDsn
  imports GoStrings "HOL-Library.AList"
begin

text \<open>
  go-sql-driver/mysql, utils.go: the data source name, and the register of TLS configurations it may name.
  \<open>url.QueryUnescape\<close>, \<open>time.LoadLocation\<close> and \<open>time.ParseDuration\<close> are arguments.
\<close>

subsection \<open>The configuration\<close>

text \<open>A \<open>*tls.Config\<close>: an empty one, one that skips the verification, or the one registered as a name.\<close>

datatype tls_config = TlsVerify | TlsSkipVerify | TlsNamed nat

record mysql_config =
  cf_user :: string
  cf_passwd :: string
  cf_net :: string
  cf_addr :: string
  cf_dbname :: string
  cf_params :: "(string \<times> string) list"
  cf_loc :: "string option"
  cf_timeout :: int
  cf_tls :: "tls_config option"
  cf_allowAllFiles :: bool
  cf_allowOldPasswords :: bool
  cf_clientFoundRows :: bool

definition new_config :: mysql_config where
  "new_config = \<lparr>cf_user = '''', cf_passwd = '''', cf_net = '''', cf_addr = '''', cf_dbname = '''', cf_params = [],
     cf_loc = None, cf_timeout = 0, cf_tls = None, cf_allowAllFiles = False, cf_allowOldPasswords = False,
     cf_clientFoundRows = False\<rparr>"

datatype dsn_error = errInvalidDSNUnescaped | errInvalidDSNAddr | InvalidBool string | UnknownTls string
  | UnknownNetwork string | LibraryError string

text \<open>What the parser takes from the standard library.\<close>

record dsn_lib =
  dl_QueryUnescape :: "string \<Rightarrow> string + string"
  dl_LoadLocation :: "string \<Rightarrow> string + string"
  dl_ParseDuration :: "string \<Rightarrow> string + int"

text \<open>The value, and whether the input was one.\<close>

definition readBool :: "string \<Rightarrow> bool \<times> bool" where
  "readBool input =
    (if input \<in> {''1'', ''true'', ''TRUE'', ''True''} then (True, True)
     else if input \<in> {''0'', ''false'', ''FALSE'', ''False''} then (False, True)
     else (False, False))"

text \<open>\<open>strings.ToLower\<close> on the letters of ASCII; the Kelvin sign, which Go takes to k as well, is left alone.\<close>

definition lower :: "char \<Rightarrow> char" where
  "lower c = (let n = (of_char c :: nat) in if 65 \<le> n \<and> n \<le> 90 then char_of (n + 32) else c)"

definition skip_verify :: "string \<Rightarrow> bool" where
  "skip_verify s \<longleftrightarrow> map lower s = ''skip-verify''"

subsection \<open>The register of TLS configurations\<close>

type_synonym tls_register = "(string \<times> tls_config) list"

text \<open>The error is the reserved key.\<close>

definition RegisterTLSConfig :: "string \<Rightarrow> tls_config \<Rightarrow> tls_register \<Rightarrow> string option \<times> tls_register" where
  "RegisterTLSConfig key conf reg =
    (if snd (readBool key) \<or> skip_verify key then (Some key, reg) else (None, AList.update key conf reg))"

definition DeregisterTLSConfig :: "string \<Rightarrow> tls_register \<Rightarrow> tls_register" where
  "DeregisterTLSConfig key reg = AList.delete key reg"

subsection \<open>Parameters\<close>

definition set_bool :: "(bool \<Rightarrow> mysql_config) \<Rightarrow> string \<Rightarrow> dsn_error + mysql_config" where
  "set_bool f s = (case readBool s of (b, isBool) \<Rightarrow> if isBool then Inr (f b) else Inl (InvalidBool s))"

definition lib_result :: "('a \<Rightarrow> mysql_config) \<Rightarrow> string + 'a \<Rightarrow> dsn_error + mysql_config" where
  "lib_result f r = (case r of Inl e \<Rightarrow> Inl (LibraryError e) | Inr v \<Rightarrow> Inr (f v))"

definition set_param :: "dsn_lib \<Rightarrow> tls_register \<Rightarrow> string \<Rightarrow> string \<Rightarrow> mysql_config \<Rightarrow> dsn_error + mysql_config" where
  "set_param lib reg key val cfg =
    (if key = ''allowAllFiles'' then set_bool (\<lambda>b. cfg\<lparr>cf_allowAllFiles := b\<rparr>) val
     else if key = ''clientFoundRows'' then set_bool (\<lambda>b. cfg\<lparr>cf_clientFoundRows := b\<rparr>) val
     else if key = ''allowOldPasswords'' then set_bool (\<lambda>b. cfg\<lparr>cf_allowOldPasswords := b\<rparr>) val
     else if key = ''loc'' then
       (case dl_QueryUnescape lib val of
          Inl e \<Rightarrow> Inl (LibraryError e)
        | Inr v \<Rightarrow> lib_result (\<lambda>l. cfg\<lparr>cf_loc := Some l\<rparr>) (dl_LoadLocation lib v))
     else if key = ''timeout'' then lib_result (\<lambda>t. cfg\<lparr>cf_timeout := t\<rparr>) (dl_ParseDuration lib val)
     else if key = ''tls'' then
       (case readBool val of
          (b, True) \<Rightarrow> Inr (if b then cfg\<lparr>cf_tls := Some TlsVerify\<rparr> else cfg)
        | (b, False) \<Rightarrow>
            if skip_verify val then Inr (cfg\<lparr>cf_tls := Some TlsSkipVerify\<rparr>)
            else case map_of reg val of
                   Some c \<Rightarrow> Inr (cfg\<lparr>cf_tls := Some c\<rparr>)
                 | None \<Rightarrow> Inl (UnknownTls val))
     else lib_result (\<lambda>v. cfg\<lparr>cf_params := AList.update key v (cf_params cfg)\<rparr>) (dl_QueryUnescape lib val))"

fun set_params :: "dsn_lib \<Rightarrow> tls_register \<Rightarrow> string list \<Rightarrow> mysql_config \<Rightarrow> dsn_error + mysql_config" where
  "set_params lib reg [] cfg = Inr cfg"
| "set_params lib reg (v # vs) cfg =
    (case SplitN v ''='' 2 of
       [key, val] \<Rightarrow>
         (case set_param lib reg key val cfg of Inl e \<Rightarrow> Inl e | Inr cfg \<Rightarrow> set_params lib reg vs cfg)
     | _ \<Rightarrow> set_params lib reg vs cfg)"

definition parseDSNParams :: "dsn_lib \<Rightarrow> tls_register \<Rightarrow> mysql_config \<Rightarrow> string \<Rightarrow> dsn_error + mysql_config" where
  "parseDSNParams lib reg cfg params = set_params lib reg (Split params ''&'') cfg"

subsection \<open>The name\<close>

text \<open>\<open>for k := k; k < stop; k++\<close> up to the first \<open>c\<close>: the index the loop leaves in \<open>k\<close>.\<close>

function index_up :: "char \<Rightarrow> string \<Rightarrow> nat \<Rightarrow> nat \<Rightarrow> nat" where
  "index_up c s k stop = (if k < stop then (if s ! k = c then k else index_up c s (Suc k) stop) else k)"
  by pat_completeness auto
termination by (relation "measure (\<lambda>(c, s, k, stop). stop - k)") auto

declare index_up.simps [simp del]

text \<open>\<open>for j := n - 1; j >= 0; j--\<close> down to the last \<open>c\<close>: its index, None for -1.\<close>

fun index_down :: "char \<Rightarrow> string \<Rightarrow> nat \<Rightarrow> nat option" where
  "index_down c s 0 = None"
| "index_down c s (Suc j) = (if s ! j = c then Some j else index_down c s j)"

definition slice_of :: "'a list \<Rightarrow> nat \<Rightarrow> nat \<Rightarrow> 'a list" where
  "slice_of s a b = take (b - a) (drop a s)"

text \<open>\<open>[username[:password]@]\<close>: the config and the index after the @.\<close>

definition parse_user :: "string \<Rightarrow> nat \<Rightarrow> mysql_config \<Rightarrow> mysql_config \<times> nat" where
  "parse_user dsn i cfg =
    (case index_down (CHR ''@'') dsn (Suc i) of
       None \<Rightarrow> (cfg, 0)
     | Some j \<Rightarrow>
         let k = index_up (CHR '':'') dsn 0 j;
             cfg = (if k < j then cfg\<lparr>cf_passwd := slice_of dsn (k + 1) j\<rparr> else cfg) in
         (cfg\<lparr>cf_user := slice_of dsn 0 k\<rparr>, Suc j))"

text \<open>\<open>[protocol[(address)]]\<close> in \<open>dsn[start:i]\<close>.\<close>

definition parse_net :: "string \<Rightarrow> nat \<Rightarrow> nat \<Rightarrow> mysql_config \<Rightarrow> dsn_error + mysql_config" where
  "parse_net dsn start i cfg =
    (let k = index_up (CHR ''('') dsn start i in
     if k < i then
       if dsn ! (i - 1) \<noteq> CHR '')'' then
         Inl (if CHR '')'' \<in> set (slice_of dsn (k + 1) i) then errInvalidDSNUnescaped else errInvalidDSNAddr)
       else Inr (cfg\<lparr>cf_addr := slice_of dsn (k + 1) (i - 1), cf_net := slice_of dsn start k\<rparr>)
     else Inr (cfg\<lparr>cf_net := slice_of dsn start k\<rparr>))"

text \<open>\<open>dbname[?param1=value1&...]\<close> from the last slash on.\<close>

definition parse_db :: "dsn_lib \<Rightarrow> tls_register \<Rightarrow> string \<Rightarrow> nat \<Rightarrow> mysql_config \<Rightarrow> dsn_error + mysql_config" where
  "parse_db lib reg dsn i cfg =
    (let j = index_up (CHR ''?'') dsn (i + 1) (length dsn) in
     case (if j < length dsn then parseDSNParams lib reg cfg (drop (j + 1) dsn) else Inr cfg) of
       Inl e \<Rightarrow> Inl e
     | Inr cfg \<Rightarrow> Inr (cfg\<lparr>cf_dbname := slice_of dsn (i + 1) j\<rparr>))"

definition default_net :: "mysql_config \<Rightarrow> dsn_error + mysql_config" where
  "default_net cfg =
    (let cfg = (if cf_net cfg = '''' then cfg\<lparr>cf_net := ''tcp''\<rparr> else cfg) in
     if cf_addr cfg = '''' then
       if cf_net cfg = ''tcp'' then Inr (cfg\<lparr>cf_addr := ''127.0.0.1:3306''\<rparr>)
       else if cf_net cfg = ''unix'' then Inr (cfg\<lparr>cf_addr := ''/tmp/mysql.sock''\<rparr>)
       else Inl (UnknownNetwork (cf_net cfg))
     else Inr cfg)"

definition default_loc :: "mysql_config \<Rightarrow> mysql_config" where
  "default_loc cfg = (if cf_loc cfg = None then cfg\<lparr>cf_loc := Some ''UTC''\<rparr> else cfg)"

definition parseDSN :: "dsn_lib \<Rightarrow> tls_register \<Rightarrow> string \<Rightarrow> dsn_error + mysql_config" where
  "parseDSN lib reg dsn =
    (case (case index_down (CHR ''/'') dsn (length dsn) of
             None \<Rightarrow> Inr new_config
           | Some i \<Rightarrow>
               (case (if i > 0 then (case parse_user dsn i new_config of (cfg, start) \<Rightarrow> parse_net dsn start i cfg)
                      else Inr new_config) of
                  Inl e \<Rightarrow> Inl e
                | Inr cfg \<Rightarrow> parse_db lib reg dsn i cfg)) of
       Inl e \<Rightarrow> Inl e
     | Inr cfg \<Rightarrow> map_sum id default_loc (default_net cfg))"

subsection \<open>Lemmas\<close>

lemma index_up_first:
  assumes "k \<le> m" "\<forall>i. k \<le> i \<and> i < m \<longrightarrow> s ! i \<noteq> c" "m < stop \<Longrightarrow> s ! m = c" "m \<le> stop"
  shows "index_up c s k stop = m"
  using assms
proof (induction c s k stop rule: index_up.induct)
  case (1 c s k stop)
  show ?case
  proof (cases "k = m")
    case True
    then show ?thesis using 1(4,5) by (subst index_up.simps) simp
  next
    case False
    then have "k < stop" "s ! k \<noteq> c" using 1(2,3,5) by auto
    moreover have "index_up c s (Suc k) stop = m" using False 1 by (intro 1(1)) auto
    ultimately show ?thesis by (subst index_up.simps) simp
  qed
qed

lemma index_down_last: "m < n \<Longrightarrow> s ! m = c \<Longrightarrow> \<forall>i. m < i \<and> i < n \<longrightarrow> s ! i \<noteq> c \<Longrightarrow> index_down c s n = Some m"
  by (induction n) (auto simp: less_Suc_eq)

text \<open>The same on the parts of a string.\<close>

lemma index_up_parts:
  "c \<notin> set b \<Longrightarrow> s = a @ b @ c # d \<Longrightarrow> k = length a \<Longrightarrow> m = length a + length b \<Longrightarrow> m < stop \<Longrightarrow> index_up c s k stop = m"
  by (rule index_up_first) (auto simp: nth_append in_set_conv_nth)

lemma index_down_parts:
  "c \<notin> set b \<Longrightarrow> s = a @ c # b @ d \<Longrightarrow> n = length a + Suc (length b) \<Longrightarrow> m = length a \<Longrightarrow> index_down c s n = Some m"
  by (rule index_down_last) (auto simp: nth_append nth_Cons' in_set_conv_nth)

lemma slice_of_parts: "s = a @ b @ c \<Longrightarrow> m = length a \<Longrightarrow> n = length a + length b \<Longrightarrow> slice_of s m n = b"
  by (simp add: slice_of_def)

end
