(* ===== verification/MysqlConn.thy ===== *)
theory MysqlConn
  imports MysqlBuffer MysqlCodec MysqlDsn
begin

text \<open>
  go-sql-driver/mysql, connection.go, errors.go and the first part of packets.go: the connection to a server and
  its packets, cut at 16 MB. A call takes the connection and returns a result or an error, a panic being an
  error nobody handles; None is a call that does not return.
\<close>

subsection \<open>Errors\<close>

datatype my_error = errInvalidConn | errMalformPkt | errNoTLS | errOldPassword | errOldProtocol | errPktSync
  | errPktSyncMul | errPktTooLarge | ErrBadConn | ErrSkip | ReadEOF | OldVersion byte | MySQLError uint16 bytes
  | MySQLWarnings "(bytes \<times> bytes \<times> bytes) list" | ColumnsMismatch | InvalidValue string | NoCompression
  | DsnError dsn_error | DialError string | LibError string

datatype my_fail = Error my_error | Crash panic

subsection \<open>The connection\<close>

text \<open>\<open>netConn\<close> is nil if \<open>mc_open\<close> is false; \<open>mc_net\<close> is what has been written to it.\<close>

record mysqlConn =
  mc_buf :: "buffer option"
  mc_open :: bool
  mc_net :: writer
  mc_affectedRows :: uint64
  mc_insertId :: uint64
  mc_cfg :: "mysql_config option"
  mc_maxPacketAllowed :: int
  mc_maxWriteSize :: int
  mc_flags :: uint32
  mc_sequence :: uint8
  mc_parseTime :: bool
  mc_strict :: bool

type_synonym 'a call = "mysqlConn \<Rightarrow> ((my_fail + 'a) \<times> mysqlConn) option"

definition ret :: "'a \<Rightarrow> 'a call" where "ret x mc = Some (Inr x, mc)"
definition raise :: "my_error \<Rightarrow> 'a call" where "raise e mc = Some (Inl (Error e), mc)"
definition crash :: "panic \<Rightarrow> 'a call" where "crash p mc = Some (Inl (Crash p), mc)"

text \<open>\<open>if err != nil return err\<close>, and the same for code that looks at the error.\<close>

definition seq :: "'a call \<Rightarrow> ('a \<Rightarrow> 'b call) \<Rightarrow> 'b call" where
  "seq a f mc = Option.bind (a mc) (\<lambda>(r, mc). case r of Inl e \<Rightarrow> Some (Inl e, mc) | Inr x \<Rightarrow> f x mc)"

definition attempt :: "'a call \<Rightarrow> (my_error + 'a \<Rightarrow> 'b call) \<Rightarrow> 'b call" where
  "attempt a f mc = Option.bind (a mc) (\<lambda>(r, mc).
     case r of Inl (Crash p) \<Rightarrow> Some (Inl (Crash p), mc) | Inl (Error e) \<Rightarrow> f (Inl e) mc | Inr x \<Rightarrow> f (Inr x) mc)"

definition modify :: "(mysqlConn \<Rightarrow> mysqlConn) \<Rightarrow> unit call" where "modify f mc = Some (Inr (), f mc)"

definition inspect :: "(mysqlConn \<Rightarrow> 'a call) \<Rightarrow> 'a call" where "inspect f mc = f mc mc"

definition in_range :: "'a option \<Rightarrow> 'a call" where
  "in_range x = (case x of Some v \<Rightarrow> ret v | None \<Rightarrow> crash IndexOutOfRange)"

definition with_buf :: "(buffer \<Rightarrow> 'a call) \<Rightarrow> 'a call" where
  "with_buf f mc = (case mc_buf mc of None \<Rightarrow> crash NilPointer mc | Some b \<Rightarrow> f b mc)"

definition with_cfg :: "(mysql_config \<Rightarrow> 'a call) \<Rightarrow> 'a call" where
  "with_cfg f mc = (case mc_cfg mc of None \<Rightarrow> crash NilPointer mc | Some c \<Rightarrow> f c mc)"

subsection \<open>Writing packets\<close>

text \<open>The header \<open>data[0..3]\<close>.\<close>

definition put_len :: "nat \<Rightarrow> bytes" where
  "put_len n = [of_nat n, of_nat (n div 2 ^ 8), of_nat (n div 2 ^ 16)]"

definition packet_header :: "nat \<Rightarrow> uint8 \<Rightarrow> bytes" where
  "packet_header n s = put_len n @ [s]"

text \<open>\<open>netConn.Write\<close> with the count of \<open>mc.sequence\<close>.\<close>

definition net_write :: "bytes \<Rightarrow> unit call" where
  "net_write data mc =
    (if \<not> mc_open mc then crash NilPointer mc
     else case put_bytes data (mc_net mc) of
       (None, w) \<Rightarrow> ret () (mc\<lparr>mc_net := w, mc_sequence := mc_sequence mc + 1\<rparr>)
     | (Some e, w) \<Rightarrow> raise ErrBadConn (mc\<lparr>mc_net := w\<rparr>))"

text \<open>The loop of \<open>splitPacket\<close>: what is left of \<open>data\<close>, behind four bytes for its header.\<close>

function split_loop :: "bytes \<Rightarrow> bytes call" where
  "split_loop data mc =
    (if maxPacketSize \<le> length data - 4 then
       (case net_write (packet_header maxPacketSize (mc_sequence mc) @ take maxPacketSize (drop 4 data)) mc of
          Some (Inr _, mc) \<Rightarrow> split_loop (drop maxPacketSize data) mc
        | Some (Inl e, mc) \<Rightarrow> Some (Inl e, mc)
        | None \<Rightarrow> None)
     else Some (Inr data, mc))"
  by pat_completeness auto
termination by (relation "measure (\<lambda>(data, mc). length data)") (auto simp: maxPacketSize_def)

declare split_loop.simps [simp del]

text \<open>\<open>writePacket\<close> and \<open>splitPacket\<close> call each other.\<close>

partial_function (option) writePacket :: "bytes \<Rightarrow> mysqlConn \<Rightarrow> ((my_fail + unit) \<times> mysqlConn) option" where
  "writePacket data mc =
    (if int (length data) - 4 \<le> mc_maxWriteSize mc then net_write data mc
     else if int (length data) - 4 > mc_maxPacketAllowed mc then raise errPktTooLarge mc
     else Option.bind (split_loop data mc) (\<lambda>(r, mc).
       case r of
         Inl e \<Rightarrow> Some (Inl e, mc)
       | Inr data \<Rightarrow> writePacket (packet_header (length data - 4) (mc_sequence mc) @ drop 4 data) mc))"

definition splitPacket :: "bytes \<Rightarrow> unit call" where
  "splitPacket data =
    inspect (\<lambda>mc.
      if int (length data) - 4 > mc_maxPacketAllowed mc then raise errPktTooLarge
      else seq (split_loop data) (\<lambda>data. inspect (\<lambda>mc. writePacket (packet_header (length data - 4) (mc_sequence mc) @ drop 4 data))))"

lemma writePacket_split:
  "writePacket data mc = (if int (length data) - 4 \<le> mc_maxWriteSize mc then net_write data mc else splitPacket data mc)"
  by (subst writePacket.simps) (simp add: splitPacket_def inspect_def[abs_def] seq_def)

subsection \<open>Command packets\<close>

text \<open>\<open>data := buf.take...; if data == nil return ErrBadConn\<close>, then writing into it and sending it. The bytes may
  depend on what the array held.\<close>

definition write_taken :: "(buffer \<Rightarrow> (slice option \<times> buffer) option) \<Rightarrow> (bytes \<Rightarrow> mysqlConn \<Rightarrow> bytes) \<Rightarrow> unit call" where
  "write_taken take_buf content =
    with_buf (\<lambda>b.
      case take_buf b of
        None \<Rightarrow> crash SliceBoundsOutOfRange
      | Some (None, b) \<Rightarrow> raise ErrBadConn
      | Some (Some s, b) \<Rightarrow>
          inspect (\<lambda>mc.
            let data = content (deref b s) mc in
            seq (modify (\<lambda>mc. mc\<lparr>mc_buf := Some (fill_slice s data b)\<rparr>)) (\<lambda>_. writePacket data)))"

definition small :: "nat \<Rightarrow> buffer \<Rightarrow> (slice option \<times> buffer) option" where
  "small n b = map_option (\<lambda>s. (s, b)) (takeSmallBuffer n b)"

definition comQuit :: byte where "comQuit = 1"
definition comQuery :: byte where "comQuery = 3"
definition comStmtPrepare :: byte where "comStmtPrepare = 22"
definition comStmtClose :: byte where "comStmtClose = 25"

definition reset_sequence :: "unit call" where
  "reset_sequence = modify (\<lambda>mc. mc\<lparr>mc_sequence := 0\<rparr>)"

definition writeCommandPacket :: "byte \<Rightarrow> unit call" where
  "writeCommandPacket command =
    seq reset_sequence (\<lambda>_. write_taken (small (4 + 1)) (\<lambda>old mc. [1, 0, 0, 0, command]))"

definition string_bytes :: "string \<Rightarrow> bytes" where
  "string_bytes s = map of_char s"

definition writeCommandPacketStr :: "byte \<Rightarrow> string \<Rightarrow> unit call" where
  "writeCommandPacketStr command arg =
    (let pktLen = 1 + length arg in
     seq reset_sequence (\<lambda>_. write_taken (takeBuffer (pktLen + 4)) (\<lambda>old mc. packet_header pktLen 0 @ [command] @ string_bytes arg)))"

definition writeCommandPacketUint32 :: "byte \<Rightarrow> uint32 \<Rightarrow> unit call" where
  "writeCommandPacketUint32 command arg =
    seq reset_sequence (\<lambda>_. write_taken (small (4 + 1 + 4))
      (\<lambda>old mc. [5, 0, 0, 0, command, ucast arg, ucast (drop_bit 8 arg), ucast (drop_bit 16 arg), ucast (drop_bit 24 arg)]))"

text \<open>\<open>Close\<close>: the error of the quit command is ignored.\<close>

definition conn_close :: "unit call" where
  "conn_close =
    seq (inspect (\<lambda>mc. if mc_open mc then
           seq (attempt (writeCommandPacket comQuit) (\<lambda>_. ret ())) (\<lambda>_. modify (\<lambda>mc. mc\<lparr>mc_open := False\<rparr>))
         else ret ()))
      (\<lambda>_. modify (\<lambda>mc. mc\<lparr>mc_cfg := None, mc_buf := None\<rparr>))"

subsection \<open>Reading packets\<close>

definition get_len :: "bytes \<Rightarrow> nat" where
  "get_len h = unat (ucast (h ! 0) OR push_bit 8 (ucast (h ! 1)) OR push_bit 16 (ucast (h ! 2)) :: uint32)"

text \<open>\<open>mc.Close(); return nil, driver.ErrBadConn\<close>\<close>

definition bad_conn :: "'a call" where
  "bad_conn = seq conn_close (\<lambda>_. raise ErrBadConn)"

partial_function (option) readPacket :: "mysqlConn \<Rightarrow> ((my_fail + slice) \<times> mysqlConn) option" where
  "readPacket mc =
    (case mc_buf mc of
       None \<Rightarrow> crash NilPointer mc
     | Some b \<Rightarrow>
         Option.bind (readNext 4 b) (\<lambda>(r, b). let mc = mc\<lparr>mc_buf := Some b\<rparr> in
           case r of
             Inl e \<Rightarrow> bad_conn mc
           | Inr s \<Rightarrow>
               let h = deref b s; pktLen = get_len h in
               if pktLen < 1 then bad_conn mc
               else if h ! 3 \<noteq> mc_sequence mc then
                 raise (if h ! 3 > mc_sequence mc then errPktSyncMul else errPktSync) mc
               else
                 let mc = mc\<lparr>mc_sequence := mc_sequence mc + 1\<rparr> in
                 Option.bind (readNext pktLen b) (\<lambda>(r, b). let mc = mc\<lparr>mc_buf := Some b\<rparr> in
                   case r of
                     Inl e \<Rightarrow> bad_conn mc
                   | Inr s \<Rightarrow>
                       if pktLen < maxPacketSize then ret s mc
                       else
                         let buf = deref b s in
                         Option.bind (readPacket mc) (\<lambda>(r, mc).
                           case r of
                             Inr s \<Rightarrow> ret (Own (buf @ (case mc_buf mc of Some b \<Rightarrow> deref b s | None \<Rightarrow> []))) mc
                           | Inl (Crash p) \<Rightarrow> crash p mc
                           | Inl (Error e) \<Rightarrow> bad_conn mc))))"

end
