(* ===== verification/MysqlAuth.thy ===== *)
theory MysqlAuth
  imports MysqlConn
begin

text \<open>
  go-sql-driver/mysql, packets.go and infile.go: the handshake, the answers of a server, and the files it may
  ask for. What a slice of a packet shows beyond the packet's end is what lies there in its array, up to the
  array's end; beyond that it is a panic.
\<close>

subsection \<open>The world around the driver\<close>

text \<open>\<open>me_dial\<close> connects within a timeout, in nanoseconds, and gives what the server will net_write and how many
  bytes the connection takes; \<open>me_upgrade\<close> is the handshake of TLS over a connection. \<open>me_readers\<close> is
  \<open>readerRegister\<close>: a name it does not have, a nil handler or reader, or a reader. \<open>me_params\<close> is the order in which
  Go visits the map of parameters.\<close>

record mysql_env =
  me_lib :: dsn_lib
  me_tls :: tls_register
  me_sha1 :: "bytes \<Rightarrow> bytes"
  me_dial :: "int \<Rightarrow> string \<Rightarrow> string \<Rightarrow> string + arrival list \<times> nat option"
  me_upgrade :: "tls_config \<Rightarrow> arrival list \<Rightarrow> writer \<Rightarrow> string + arrival list \<times> writer"
  me_fileRegister :: "string list"
  me_open_file :: "string \<Rightarrow> string + arrival list"
  me_close_file :: "string \<Rightarrow> string option"
  me_close_reader :: "string \<Rightarrow> string option"
  me_readers :: "string \<Rightarrow> arrival list option option"
  me_params :: "(string \<times> string) list \<Rightarrow> (string \<times> string) list"
  me_parse_time :: "nat \<Rightarrow> string \<Rightarrow> string + int"
  me_in_location :: "string \<Rightarrow> int \<Rightarrow> int"

subsection \<open>Slices of packets\<close>

fun whole :: "buffer \<Rightarrow> slice \<Rightarrow> bytes" where
  "whole b (InBuf g off n) = drop off (array b g)"
| "whole b (Own bs) = bs"

fun subslice :: "slice \<Rightarrow> nat \<Rightarrow> nat \<Rightarrow> slice" where
  "subslice (InBuf g off n) a c = InBuf g (off + a) (c - a)"
| "subslice (Own bs) a c = Own (take (c - a) (drop a bs))"

text \<open>\<open>append\<close> writes into the array behind the slice if there is room.\<close>

fun append_slice :: "slice \<Rightarrow> bytes \<Rightarrow> buffer \<Rightarrow> slice \<times> buffer" where
  "append_slice (InBuf g off n) bs b =
    (if g = length (bf_retired b) \<and> off + n + length bs \<le> length (bf_buf b)
     then (InBuf g off (n + length bs), b\<lparr>bf_buf := blit (bf_buf b) (off + n) bs\<rparr>)
     else (Own (deref b (InBuf g off n) @ bs), b))"
| "append_slice (Own as) bs b = (Own (as @ bs), b)"

definition sub :: "bytes \<Rightarrow> nat \<Rightarrow> nat \<Rightarrow> bytes call" where
  "sub bs a c = (if a \<le> c \<and> c \<le> length bs then ret (take (c - a) (drop a bs)) else crash SliceBoundsOutOfRange)"

definition byte_at :: "bytes \<Rightarrow> nat \<Rightarrow> byte call" where
  "byte_at bs i = (if i < length bs then ret (bs ! i) else crash IndexOutOfRange)"

definition tail_of :: "bytes \<Rightarrow> int \<Rightarrow> bytes call" where
  "tail_of bs i = (if 0 \<le> i \<and> i \<le> int (length bs) then ret (drop (nat i) bs) else crash SliceBoundsOutOfRange)"

definition le16 :: "bytes \<Rightarrow> uint16" where
  "le16 bs = ucast (bs ! 0) OR push_bit 8 (ucast (bs ! 1))"

definition le32 :: "uint32 \<Rightarrow> bytes" where
  "le32 x = [ucast x, ucast (drop_bit 8 x), ucast (drop_bit 16 x), ucast (drop_bit 24 x)]"

text \<open>A packet as the bytes it has and those of its array from its start on.\<close>

definition with_packet :: "(slice \<Rightarrow> bytes \<Rightarrow> bytes \<Rightarrow> 'a call) \<Rightarrow> 'a call" where
  "with_packet f = seq readPacket (\<lambda>s. with_buf (\<lambda>b. f s (deref b s) (whole b s)))"

subsection \<open>Constants\<close>

definition iOK :: byte where "iOK = 0x00"
definition iLocalInFile :: byte where "iLocalInFile = 0xfb"
definition iEOF :: byte where "iEOF = 0xfe"
definition iERR :: byte where "iERR = 0xff"
definition minProtocolVersion :: byte where "minProtocolVersion = 10"

definition clientLongPassword :: uint32 where "clientLongPassword = 0x1"
definition clientFoundRows :: uint32 where "clientFoundRows = 0x2"
definition clientLongFlag :: uint32 where "clientLongFlag = 0x4"
definition clientConnectWithDB :: uint32 where "clientConnectWithDB = 0x8"
definition clientLocalFiles :: uint32 where "clientLocalFiles = 0x80"
definition clientProtocol41 :: uint32 where "clientProtocol41 = 0x200"
definition clientSSL :: uint32 where "clientSSL = 0x800"
definition clientTransactions :: uint32 where "clientTransactions = 0x2000"
definition clientSecureConn :: uint32 where "clientSecureConn = 0x8000"
definition collation_utf8_general_ci :: byte where "collation_utf8_general_ci = 33"

subsection \<open>Error and OK packets\<close>

definition handleErrorPacket :: "bytes \<Rightarrow> bytes \<Rightarrow> 'a call" where
  "handleErrorPacket data all =
    seq (byte_at data 0) (\<lambda>c.
      if c \<noteq> iERR then raise errMalformPkt
      else seq (sub all 1 3) (\<lambda>errno. seq (byte_at data 3) (\<lambda>c.
        let pos = (if c = 0x23 then 9 else 3) in
        seq (tail_of data pos) (\<lambda>msg. raise (MySQLError (le16 errno) msg)))))"

text \<open>\<open>warn\<close> is \<open>mc.getWarnings()\<close>.\<close>

definition handleOkPacket :: "unit call \<Rightarrow> bytes \<Rightarrow> bytes \<Rightarrow> unit call" where
  "handleOkPacket warn data all =
    seq (in_range (readLengthEncodedInteger (drop 1 data))) (\<lambda>(rows, isNull, n).
    seq (modify (\<lambda>mc. mc\<lparr>mc_affectedRows := rows\<rparr>)) (\<lambda>_.
    seq (in_range (readLengthEncodedInteger (drop (1 + n) data))) (\<lambda>(insertId, isNull, m).
    seq (modify (\<lambda>mc. mc\<lparr>mc_insertId := insertId\<rparr>)) (\<lambda>_.
    inspect (\<lambda>mc.
      if \<not> mc_strict mc then ret ()
      else let pos = 1 + n + m + 2 in
        seq (sub all pos (pos + 2)) (\<lambda>w. if le16 w > 0 then warn else ret ()))))))"

definition readResultOK :: "unit call \<Rightarrow> unit call" where
  "readResultOK warn =
    with_packet (\<lambda>s data all. seq (byte_at data 0) (\<lambda>c.
      if c = iOK then handleOkPacket warn data all
      else if c = iEOF then raise errOldPassword
      else handleErrorPacket data all))"

subsection \<open>The handshake\<close>

definition readInitPacket :: "slice call" where
  "readInitPacket =
    with_packet (\<lambda>s data all. seq (byte_at data 0) (\<lambda>version.
      if version = iERR then handleErrorPacket data all
      else if version < minProtocolVersion then raise (OldVersion version)
      else
        let zero = (if 0 \<in> set (drop 1 data) then int (length (takeWhile (\<lambda>c. c \<noteq> 0) (drop 1 data))) else - 1);
            pos = nat (1 + zero + 1 + 4) in
        seq (sub all pos (pos + 8)) (\<lambda>_.
        seq (sub all (pos + 9) (pos + 9 + 2)) (\<lambda>fl.
        seq (modify (\<lambda>mc. mc\<lparr>mc_flags := ucast (le16 fl)\<rparr>)) (\<lambda>_.
        inspect (\<lambda>mc.
          if mc_flags mc AND clientProtocol41 = 0 then raise errOldProtocol
          else if mc_flags mc AND clientSSL = 0 \<and> Option.bind (mc_cfg mc) cf_tls \<noteq> None then raise errNoTLS
          else if length data > pos + 11 then
            let pos2 = pos + 11 + (1 + 2 + 2 + 1 + 10) in
            seq (sub all pos2 (pos2 + 12)) (\<lambda>more. with_buf (\<lambda>b.
              case append_slice (subslice s pos (pos + 8)) more b of
                (cipher, b) \<Rightarrow> seq (modify (\<lambda>mc. mc\<lparr>mc_buf := Some b\<rparr>)) (\<lambda>_. ret cipher)))
          else ret (subslice s pos (pos + 8))))))))"

definition auth_flags :: "mysql_config \<Rightarrow> uint32 \<Rightarrow> uint32" where
  "auth_flags cfg server =
    clientProtocol41 OR clientSecureConn OR clientLongPassword OR clientTransactions OR clientLocalFiles OR
    (server AND clientLongFlag) OR (if cf_clientFoundRows cfg then clientFoundRows else 0) OR
    (if cf_tls cfg \<noteq> None then clientSSL else 0) OR (if cf_dbname cfg \<noteq> '''' then clientConnectWithDB else 0)"

text \<open>The packet behind its packet_header, over what the buffer held: nobody writes the filler.\<close>

definition auth_body :: "mysql_config \<Rightarrow> uint32 \<Rightarrow> bytes \<Rightarrow> bytes \<Rightarrow> bytes" where
  "auth_body cfg server scrambleBuff old =
    le32 (auth_flags cfg server) @ [0, 0, 0, 0] @ [collation_utf8_general_ci] @ take 23 (drop 13 old) @
    string_bytes (cf_user cfg) @ [0] @ [of_nat (length scrambleBuff)] @ scrambleBuff @
    (if cf_dbname cfg \<noteq> '''' then string_bytes (cf_dbname cfg) @ [0] else [])"

text \<open>The request for TLS, and the connection within it from then on.\<close>

definition switch_to_tls :: "mysql_env \<Rightarrow> tls_config \<Rightarrow> bytes \<Rightarrow> unit call" where
  "switch_to_tls env t body =
    inspect (\<lambda>mc. seq (writePacket (packet_header (4 + 4 + 1 + 23) (mc_sequence mc) @ take (4 + 4 + 1 + 23) body)) (\<lambda>_.
      with_buf (\<lambda>b. inspect (\<lambda>mc.
        case me_upgrade env t (bf_rd b) (mc_net mc) of
          Inl e \<Rightarrow> raise (LibError e)
        | Inr (rd, w) \<Rightarrow> modify (\<lambda>mc. mc\<lparr>mc_net := w, mc_buf := Some (b\<lparr>bf_rd := rd\<rparr>)\<rparr>)))))"

definition writeAuthPacket :: "mysql_env \<Rightarrow> slice \<Rightarrow> unit call" where
  "writeAuthPacket env cipher =
    with_cfg (\<lambda>cfg. with_buf (\<lambda>b.
      let scrambleBuff = scramblePassword (me_sha1 env) (deref b cipher) (string_bytes (cf_passwd cfg));
          pktLen = 4 + 4 + 1 + 23 + length (cf_user cfg) + 1 + 1 + length scrambleBuff +
            (if cf_dbname cfg \<noteq> '''' then length (cf_dbname cfg) + 1 else 0) in
      case takeSmallBuffer (pktLen + 4) b of
        None \<Rightarrow> crash SliceBoundsOutOfRange
      | Some None \<Rightarrow> raise ErrBadConn
      | Some (Some s) \<Rightarrow>
          inspect (\<lambda>mc.
            let body = auth_body cfg (mc_flags mc) scrambleBuff (deref b s) in
            seq (case cf_tls cfg of None \<Rightarrow> ret () | Some t \<Rightarrow> switch_to_tls env t body) (\<lambda>_.
            inspect (\<lambda>mc.
              let data = packet_header pktLen (mc_sequence mc) @ body in
              seq (modify (\<lambda>mc. mc\<lparr>mc_buf := map_option (fill_slice s data) (mc_buf mc)\<rparr>)) (\<lambda>_. writePacket data))))))"

text \<open>The cipher is looked up now, and the byte behind the password is not written.\<close>

definition writeOldAuthPacket :: "slice \<Rightarrow> unit call" where
  "writeOldAuthPacket cipher =
    with_cfg (\<lambda>cfg. with_buf (\<lambda>b.
      case scrambleOldPassword (whole b cipher) (string_bytes (cf_passwd cfg)) of
        None \<Rightarrow> crash SliceBoundsOutOfRange
      | Some scrambleBuff \<Rightarrow>
          let pktLen = length scrambleBuff + 1 in
          write_taken (small (pktLen + 4))
            (\<lambda>old mc. packet_header pktLen (mc_sequence mc) @ scrambleBuff @ drop (4 + length scrambleBuff) old)))"

end
