(* ===== verification/MysqlQuery.thy ===== *)
theory MysqlQuery
  imports MysqlAuth
begin

text \<open>
  go-sql-driver/mysql, infile.go, rows.go, connection.go, transaction.go and driver.go: files a server asks for,
  result sets, the queries of a connection, and how a connection is opened. Warnings are asked for with a
  query whose answer may carry warnings, and so on; \<open>fuel\<close> bounds how often, each time costing the server a
  packet. The texts of errors are shortened.
\<close>

definition string_of :: "bytes \<Rightarrow> string" where
  "string_of bs = map (\<lambda>b. char_of (unat b)) bs"

subsection \<open>Files for the server\<close>

partial_function (option) send_file ::
  "arrival list \<Rightarrow> mysqlConn \<Rightarrow> ((my_fail + string option) \<times> mysqlConn) option"
where
  "send_file rdr mc =
    (if mc_maxWriteSize mc < 0 then crash SliceBoundsOutOfRange mc else
    Option.bind (conn_read (nat (mc_maxWriteSize mc)) rdr) (\<lambda>(c, err, rdr).
      Option.bind (if c \<noteq> [] then writePacket (packet_header (length c) (mc_sequence mc) @ c) mc else Some (Inr (), mc)) (\<lambda>(r, mc).
        case r of
          Inl (Crash p) \<Rightarrow> Some (Inl (Crash p), mc)
        | Inl (Error e) \<Rightarrow> Some (Inl (Error ErrBadConn), mc)
        | Inr _ \<Rightarrow>
            (case err of
               None \<Rightarrow> send_file rdr mc
             | Some IoEOF \<Rightarrow> Some (Inr None, mc)
             | Some (IoError e) \<Rightarrow> Some (Inr (Some e), mc)))))"

definition trim_quotes :: "string \<Rightarrow> string" where
  "trim_quotes s = rev (dropWhile (\<lambda>c. c = CHR 0x22) (rev (dropWhile (\<lambda>c. c = CHR 0x22) s)))"

definition RegisterLocalFile :: "string \<Rightarrow> string list \<Rightarrow> string list" where
  "RegisterLocalFile path reg = List.insert (trim_quotes path) reg"

definition DeregisterLocalFile :: "string \<Rightarrow> string list \<Rightarrow> string list" where
  "DeregisterLocalFile path reg = removeAll (trim_quotes path) reg"

text \<open>The reader or the error, and the error of closing the reader later, if it can be closed.\<close>

definition open_infile :: "mysql_env \<Rightarrow> bool \<Rightarrow> string \<Rightarrow> (string + arrival list) \<times> string option" where
  "open_infile env allowAll name =
    (if take 8 name = ''Reader::'' then
       (case me_readers env (drop 8 name) of
          Some (Some rdr) \<Rightarrow> (Inr rdr, me_close_reader env (drop 8 name))
        | None \<Rightarrow> (Inl ''Reader is not registered'', None)
        | Some None \<Rightarrow> (Inl ''Reader is <nil>'', None))
     else
       let name = trim_quotes name in
       if allowAll \<or> name \<in> set (me_fileRegister env) then
         (me_open_file env name, if isl (me_open_file env name) then None else me_close_file env name)
       else (Inl ''Local File is not registered'', None))"

definition handleInFileRequest :: "mysql_env \<Rightarrow> unit call \<Rightarrow> string \<Rightarrow> unit call" where
  "handleInFileRequest env warn name =
    inspect (\<lambda>mc.
      if mc_maxWriteSize mc < - 4 then crash SliceBoundsOutOfRange
      else with_cfg (\<lambda>cfg.
        let (rdr, close) = open_infile env (cf_allowAllFiles cfg) name;
            finish = (\<lambda>r. case r of
                Inl e \<Rightarrow> raise e
              | Inr _ \<Rightarrow> (case close of Some e \<Rightarrow> raise (LibError e) | None \<Rightarrow> ret ())) in
        attempt
          (seq (case rdr of Inl e \<Rightarrow> ret (Some e) | Inr rd \<Rightarrow> send_file rd) (\<lambda>err.
           seq (inspect (\<lambda>mc. attempt (writePacket [0, 0, 0, mc_sequence mc])
                  (\<lambda>r. case r of Inl e \<Rightarrow> raise ErrBadConn | Inr _ \<Rightarrow> ret ()))) (\<lambda>_.
           case err of
             None \<Rightarrow> readResultOK warn
           | Some e \<Rightarrow> attempt readPacket (\<lambda>_. raise (LibError e)))))
          finish))"

subsection \<open>Result sets\<close>

definition readResultSetHeaderPacket :: "mysql_env \<Rightarrow> unit call \<Rightarrow> int call" where
  "readResultSetHeaderPacket env warn =
    with_packet (\<lambda>s data all. seq (byte_at data 0) (\<lambda>c.
      if c = iOK then seq (handleOkPacket warn data all) (\<lambda>_. ret 0)
      else if c = iERR then handleErrorPacket data all
      else if c = iLocalInFile then
        seq (handleInFileRequest env warn (string_of (drop 1 data))) (\<lambda>_. ret 0)
      else
        seq (in_range (readLengthEncodedInteger data)) (\<lambda>(num, isNull, n).
        if n = length data then ret (sint num) else raise errMalformPkt)))"

record mysqlField =
  fd_fieldType :: byte
  fd_flags :: uint16
  fd_name :: bytes

text \<open>\<open>skipLengthEnodedString(data[pos:])\<close>, its error being \<open>io.EOF\<close>: the position behind.\<close>

definition skip_string :: "bytes \<Rightarrow> int \<Rightarrow> int call" where
  "skip_string data pos =
    seq (tail_of data pos) (\<lambda>rest. seq (in_range (skipLengthEnodedString rest)) (\<lambda>(n, eof).
    if eof then raise ReadEOF else ret (pos + n)))"

text \<open>The slice of the packet, None for nil, whether it is NULL, and the position behind.\<close>

definition read_string :: "bytes \<Rightarrow> int \<Rightarrow> ((nat \<times> nat) \<times> bool \<times> int) call" where
  "read_string data pos =
    seq (tail_of data pos) (\<lambda>rest. seq (in_range (readLengthEnodedString rest)) (\<lambda>(s, isNull, n, eof).
    case s of
      Some (a, c) \<Rightarrow> ret ((nat pos + a, nat pos + c), isNull, pos + n)
    | None \<Rightarrow> raise ReadEOF))"

text \<open>One column definition; the index panics once there are more of them than were announced.\<close>

definition read_column :: "nat \<Rightarrow> mysqlField list \<Rightarrow> bytes \<Rightarrow> bytes \<Rightarrow> mysqlField call" where
  "read_column cnt done_columns data all =
    seq (skip_string data 0) (\<lambda>pos.
    seq (skip_string data pos) (\<lambda>pos.
    seq (skip_string data pos) (\<lambda>pos.
    seq (skip_string data pos) (\<lambda>pos.
    seq (read_string data pos) (\<lambda>((a, c), isNull, pos).
    if length done_columns \<ge> cnt then crash IndexOutOfRange
    else
      seq (skip_string data pos) (\<lambda>pos.
      let pos = pos + 1 + 2 + 4 in
      seq (if pos < 0 then crash IndexOutOfRange else byte_at data (nat pos)) (\<lambda>fieldType.
      seq (sub all (nat pos + 1) (nat pos + 3)) (\<lambda>flags.
      ret \<lparr>fd_fieldType = fieldType, fd_flags = le16 flags, fd_name = take (c - a) (drop a data)\<rparr>))))))))"

partial_function (option) read_columns ::
  "nat \<Rightarrow> mysqlField list \<Rightarrow> mysqlConn \<Rightarrow> ((my_fail + mysqlField list) \<times> mysqlConn) option"
where
  "read_columns cnt columns mc =
    Option.bind (with_packet (\<lambda>s data all.
        seq (byte_at data 0) (\<lambda>c.
        if c = iEOF \<and> (length data = 5 \<or> length data = 1) then
          (if length columns = cnt then ret None else raise ColumnsMismatch)
        else seq (read_column cnt columns data all) (\<lambda>f. ret (Some f)))) mc) (\<lambda>(r, mc).
      case r of
        Inl e \<Rightarrow> Some (Inl e, mc)
      | Inr None \<Rightarrow> Some (Inr columns, mc)
      | Inr (Some f) \<Rightarrow> read_columns cnt (columns @ [f]) mc)"

definition readColumns :: "nat \<Rightarrow> mysqlField list call" where
  "readColumns cnt = read_columns cnt []"

partial_function (option) readUntilEOF :: "mysqlConn \<Rightarrow> ((my_fail + unit) \<times> mysqlConn) option" where
  "readUntilEOF mc =
    Option.bind (with_packet (\<lambda>s data all. byte_at data 0) mc) (\<lambda>(r, mc).
      case r of
        Inl e \<Rightarrow> Some (Inl e, mc)
      | Inr c \<Rightarrow> if c \<noteq> iEOF then readUntilEOF mc else Some (Inr (), mc))"

subsection \<open>Rows\<close>

datatype row_value = NullValue | Bytes slice | Time "int option"

record textRows =
  rw_columns :: "mysqlField list"
  rw_live :: bool

definition time_type :: "byte \<Rightarrow> bool" where
  "time_type t \<longleftrightarrow> t \<in> {0x07, 0x0c, 0x0a, 0x0e}"

text \<open>None is the zero time. The two layouts are told apart by their length.\<close>

definition parseDateTime :: "mysql_env \<Rightarrow> string \<Rightarrow> string \<Rightarrow> string + int option" where
  "parseDateTime env str loc =
    (if length str = 10 \<and> str = ''0000-00-00'' \<or> length str = 19 \<and> str = ''0000-00-00 00:00:00'' then Inr None
     else if length str = 10 \<or> length str = 19 then
       (case me_parse_time env (length str) str of
          Inl e \<Rightarrow> Inl e
        | Inr t \<Rightarrow> Inr (Some (if loc \<noteq> ''UTC'' then me_in_location env loc t else t)))
     else Inl ''Invalid Time-String'')"

text \<open>The fields of a row, from the column of index \<open>i\<close> on, one for each of \<open>n\<close> destinations.\<close>

fun row_fields :: "mysql_env \<Rightarrow> mysqlField list \<Rightarrow> slice \<Rightarrow> bytes \<Rightarrow> nat \<Rightarrow> nat \<Rightarrow> int \<Rightarrow> row_value list call" where
  "row_fields env columns s data i 0 pos = ret []"
| "row_fields env columns s data i (Suc n) pos =
    seq (read_string data pos) (\<lambda>((a, c), isNull, pos).
    seq (inspect (\<lambda>mc.
          if isNull then ret NullValue
          else if \<not> mc_parseTime mc then ret (Bytes (subslice s a c))
          else if i \<ge> length columns then crash IndexOutOfRange
          else if time_type (fd_fieldType (columns ! i)) then
            with_cfg (\<lambda>cfg.
              case parseDateTime env (string_of (take (c - a) (drop a data))) (the (cf_loc cfg)) of
                Inl e \<Rightarrow> raise (LibError e)
              | Inr t \<Rightarrow> ret (Time t))
          else ret (Bytes (subslice s a c)))) (\<lambda>v.
    seq (row_fields env columns s data (Suc i) n pos) (\<lambda>vs. ret (v # vs))))"

text \<open>\<open>ReadEOF\<close> is the error at the end of the rows, and also that of a row that is too short.\<close>

definition readRow :: "mysql_env \<Rightarrow> mysqlField list \<Rightarrow> nat \<Rightarrow> row_value list call" where
  "readRow env columns n =
    with_packet (\<lambda>s data all. seq (byte_at data 0) (\<lambda>c.
      if c = iEOF \<and> length data = 5 then raise ReadEOF
      else row_fields env columns s data 0 n 0))"

definition rows_Next :: "mysql_env \<Rightarrow> nat \<Rightarrow> textRows \<Rightarrow> (row_value list option \<times> textRows) call" where
  "rows_Next env n rows =
    (if rw_live rows then
       inspect (\<lambda>mc.
         if \<not> mc_open mc then raise errInvalidConn
         else attempt (readRow env (rw_columns rows) n) (\<lambda>r.
           case r of
             Inr vs \<Rightarrow> ret (Some vs, rows)
           | Inl e \<Rightarrow> if e = ReadEOF then ret (None, rows\<lparr>rw_live := False\<rparr>) else raise e))
     else ret (None, rows))"

definition rows_Columns :: "textRows \<Rightarrow> bytes list" where
  "rows_Columns rows = map fd_name (rw_columns rows)"

definition rows_Close :: "textRows \<Rightarrow> textRows call" where
  "rows_Close rows =
    (if \<not> rw_live rows then ret rows
     else inspect (\<lambda>mc.
       if \<not> mc_open mc then raise errInvalidConn
       else seq readUntilEOF (\<lambda>_. ret (rows\<lparr>rw_live := False\<rparr>))))"

subsection \<open>Queries\<close>

definition if_open :: "'a call \<Rightarrow> 'a call" where
  "if_open f = inspect (\<lambda>mc. if mc_open mc then f else raise ErrBadConn)"

definition query_rows :: "mysql_env \<Rightarrow> unit call \<Rightarrow> string \<Rightarrow> textRows call" where
  "query_rows env warn query =
    seq (writeCommandPacketStr comQuery query) (\<lambda>_.
    seq (readResultSetHeaderPacket env warn) (\<lambda>resLen.
    if resLen > 0 then
      seq (readColumns (nat resLen)) (\<lambda>columns. ret \<lparr>rw_columns = columns, rw_live = True\<rparr>)
    else ret \<lparr>rw_columns = [], rw_live = True\<rparr>))"

text \<open>A value as text: bytes as they are, NULL as \<open>Sprintf\<close> prints them. A message that is not bytes
  is printed from the level.\<close>

definition value_bytes :: "mysqlConn \<Rightarrow> row_value \<Rightarrow> bytes" where
  "value_bytes mc v =
    (case v of
       Bytes s \<Rightarrow> (case mc_buf mc of Some b \<Rightarrow> deref b s | None \<Rightarrow> [])
     | _ \<Rightarrow> string_bytes ''%!s(<nil>)'')"

definition warning_of :: "mysqlConn \<Rightarrow> row_value list \<Rightarrow> bytes \<times> bytes \<times> bytes" where
  "warning_of mc vs =
    (value_bytes mc (vs ! 0), value_bytes mc (vs ! 1),
     case vs ! 2 of Bytes s \<Rightarrow> value_bytes mc (Bytes s) | _ \<Rightarrow> value_bytes mc (vs ! 0))"

partial_function (option) collect_warnings ::
  "mysql_env \<Rightarrow> textRows \<Rightarrow> (bytes \<times> bytes \<times> bytes) list \<Rightarrow> mysqlConn \<Rightarrow> ((my_fail + unit) \<times> mysqlConn) option"
where
  "collect_warnings env rows ws mc =
    Option.bind (rows_Next env 3 rows mc) (\<lambda>(r, mc).
      case r of
        Inl (Crash p) \<Rightarrow> Some (Inl (Crash p), mc)
      | Inl (Error e) \<Rightarrow> attempt (rows_Close rows) (\<lambda>_. raise e) mc
      | Inr (None, rows) \<Rightarrow> raise (MySQLWarnings ws) mc
      | Inr (Some vs, rows) \<Rightarrow>
          collect_warnings env rows (ws @ [warning_of mc vs]) mc)"

fun getWarnings :: "mysql_env \<Rightarrow> nat \<Rightarrow> unit call" where
  "getWarnings env 0 = (\<lambda>mc. None)"
| "getWarnings env (Suc fuel) =
    seq (if_open (query_rows env (getWarnings env fuel) ''SHOW WARNINGS'')) (\<lambda>rows. collect_warnings env rows [])"

definition conn_Query :: "mysql_env \<Rightarrow> nat \<Rightarrow> string \<Rightarrow> 'v list \<Rightarrow> textRows call" where
  "conn_Query env fuel query args =
    if_open (if args = [] then query_rows env (getWarnings env fuel) query else raise ErrSkip)"

definition conn_exec :: "mysql_env \<Rightarrow> nat \<Rightarrow> string \<Rightarrow> unit call" where
  "conn_exec env fuel query =
    seq (writeCommandPacketStr comQuery query) (\<lambda>_.
    seq (readResultSetHeaderPacket env (getWarnings env fuel)) (\<lambda>resLen.
    if resLen > 0 then seq readUntilEOF (\<lambda>_. readUntilEOF) else ret ()))"

text \<open>The affected rows and the last insert id.\<close>

definition conn_Exec :: "mysql_env \<Rightarrow> nat \<Rightarrow> string \<Rightarrow> 'v list \<Rightarrow> (uint64 \<times> uint64) call" where
  "conn_Exec env fuel query args =
    if_open (if args = [] then
      seq (modify (\<lambda>mc. mc\<lparr>mc_affectedRows := 0, mc_insertId := 0\<rparr>)) (\<lambda>_.
      seq (conn_exec env fuel query) (\<lambda>_.
      inspect (\<lambda>mc. ret (mc_affectedRows mc, mc_insertId mc))))
    else raise ErrSkip)"

definition conn_Begin :: "mysql_env \<Rightarrow> nat \<Rightarrow> unit call" where
  "conn_Begin env fuel = if_open (conn_exec env fuel ''START TRANSACTION'')"

text \<open>A transaction is over once it has been committed or rolled back: whether it is live afterwards.\<close>

definition tx_end :: "mysql_env \<Rightarrow> nat \<Rightarrow> string \<Rightarrow> bool \<Rightarrow> unit call" where
  "tx_end env fuel command live =
    inspect (\<lambda>mc. if \<not> live \<or> \<not> mc_open mc then raise errInvalidConn else conn_exec env fuel command)"

definition tx_Commit :: "mysql_env \<Rightarrow> nat \<Rightarrow> bool \<Rightarrow> unit call" where
  "tx_Commit env fuel = tx_end env fuel ''COMMIT''"

definition tx_Rollback :: "mysql_env \<Rightarrow> nat \<Rightarrow> bool \<Rightarrow> unit call" where
  "tx_Rollback env fuel = tx_end env fuel ''ROLLBACK''"

subsection \<open>Opening a connection\<close>

text \<open>The slice of the value is returned after the packets behind it have been read.\<close>

definition system_var_value :: "mysql_env \<Rightarrow> nat \<Rightarrow> slice call" where
  "system_var_value env n =
    seq (readRow env [] n) (\<lambda>vs.
    case vs of
      Bytes s # _ \<Rightarrow> seq readUntilEOF (\<lambda>_. ret s)
    | [] \<Rightarrow> crash IndexOutOfRange
    | _ \<Rightarrow> crash TypeAssertion)"

definition getSystemVar :: "mysql_env \<Rightarrow> nat \<Rightarrow> string \<Rightarrow> slice call" where
  "getSystemVar env fuel name =
    seq (writeCommandPacketStr comQuery (''SELECT @@'' @ name)) (\<lambda>_.
    seq (readResultSetHeaderPacket env (getWarnings env fuel)) (\<lambda>resLen.
    seq (if resLen > 0 then readUntilEOF else ret ()) (\<lambda>_.
    if resLen < 0 then crash SliceBoundsOutOfRange else system_var_value env (nat resLen))))"

fun set_charset :: "mysql_env \<Rightarrow> nat \<Rightarrow> my_error option \<Rightarrow> string list \<Rightarrow> unit call" where
  "set_charset env fuel err [] = (case err of None \<Rightarrow> ret () | Some e \<Rightarrow> raise e)"
| "set_charset env fuel err (c # cs) =
    attempt (conn_exec env fuel (''SET NAMES '' @ c)) (\<lambda>r. case r of Inr _ \<Rightarrow> ret () | Inl e \<Rightarrow> set_charset env fuel (Some e) cs)"

definition handleParam :: "mysql_env \<Rightarrow> nat \<Rightarrow> string \<Rightarrow> string \<Rightarrow> unit call" where
  "handleParam env fuel param val =
    (if param = ''charset'' then set_charset env fuel None (Split val '','')
     else if param = ''parseTime'' then
       (case readBool val of (b, isBool) \<Rightarrow>
          seq (modify (\<lambda>mc. mc\<lparr>mc_parseTime := b\<rparr>)) (\<lambda>_. if isBool then ret () else raise (InvalidValue val)))
     else if param = ''strict'' then
       (case readBool val of (b, isBool) \<Rightarrow>
          seq (modify (\<lambda>mc. mc\<lparr>mc_strict := b\<rparr>)) (\<lambda>_. if isBool then ret () else raise (InvalidValue val)))
     else if param = ''compress'' then raise NoCompression
     else conn_exec env fuel (''SET '' @ param @ ''='' @ val))"

fun handle_params :: "mysql_env \<Rightarrow> nat \<Rightarrow> (string \<times> string) list \<Rightarrow> unit call" where
  "handle_params env fuel [] = ret ()"
| "handle_params env fuel ((param, val) # ps) =
    seq (handleParam env fuel param val) (\<lambda>_. handle_params env fuel ps)"

definition handleParams :: "mysql_env \<Rightarrow> nat \<Rightarrow> unit call" where
  "handleParams env fuel = with_cfg (\<lambda>cfg. handle_params env fuel (me_params env (cf_params cfg)))"

definition new_conn :: "mysql_config \<Rightarrow> arrival list \<Rightarrow> nat option \<Rightarrow> mysqlConn" where
  "new_conn cfg rd room = \<lparr>mc_buf = Some (newBuffer rd), mc_open = True, mc_net = \<lparr>wt_out = [], wt_room = room\<rparr>,
     mc_affectedRows = 0, mc_insertId = 0, mc_cfg = Some cfg, mc_maxPacketAllowed = int maxPacketSize,
     mc_maxWriteSize = int maxPacketSize - 1, mc_flags = 0, mc_sequence = 0, mc_parseTime = False, mc_strict = False\<rparr>"

text \<open>\<open>if err != nil \{ mc.Close(); return nil, err \}\<close>\<close>

definition or_close :: "'a call \<Rightarrow> 'a call" where
  "or_close a = attempt a (\<lambda>r. case r of Inl e \<Rightarrow> seq conn_close (\<lambda>_. raise e) | Inr x \<Rightarrow> ret x)"

definition login :: "mysql_env \<Rightarrow> nat \<Rightarrow> slice \<Rightarrow> unit call" where
  "login env fuel cipher =
    attempt (readResultOK (getWarnings env fuel)) (\<lambda>r.
      case r of
        Inr _ \<Rightarrow> ret ()
      | Inl e \<Rightarrow> inspect (\<lambda>mc.
          if (case mc_cfg mc of Some cfg \<Rightarrow> cf_allowOldPasswords cfg | None \<Rightarrow> False) \<and> e = errOldPassword then
            seq (or_close (writeOldAuthPacket cipher)) (\<lambda>_. or_close (readResultOK (getWarnings env fuel)))
          else seq conn_close (\<lambda>_. raise e)))"

definition handshake :: "mysql_env \<Rightarrow> nat \<Rightarrow> unit call" where
  "handshake env fuel =
    seq (or_close readInitPacket) (\<lambda>cipher.
    seq (or_close (writeAuthPacket env cipher)) (\<lambda>_.
    seq (login env fuel cipher) (\<lambda>_.
    seq (or_close (getSystemVar env fuel ''max_allowed_packet'')) (\<lambda>maxap.
    seq (with_buf (\<lambda>b. modify (\<lambda>mc. mc\<lparr>mc_maxPacketAllowed := sint (stringToInt (deref b maxap) - 1)\<rparr>))) (\<lambda>_.
    seq (modify (\<lambda>mc. if mc_maxPacketAllowed mc < int maxPacketSize then mc\<lparr>mc_maxWriteSize := mc_maxPacketAllowed mc\<rparr> else mc)) (\<lambda>_.
    or_close (handleParams env fuel)))))))"

text \<open>The connection, or the error before or after there was one.\<close>

definition driver_Open :: "mysql_env \<Rightarrow> nat \<Rightarrow> string \<Rightarrow> (my_fail + mysqlConn) option" where
  "driver_Open env fuel dsn =
    (case parseDSN (me_lib env) (me_tls env) dsn of
       Inl e \<Rightarrow> Some (Inl (Error (DsnError e)))
     | Inr cfg \<Rightarrow>
         (case me_dial env (cf_timeout cfg) (cf_net cfg) (cf_addr cfg) of
            Inl e \<Rightarrow> Some (Inl (Error (DialError e)))
          | Inr (rd, room) \<Rightarrow>
              map_option (\<lambda>(r, mc). map_sum id (\<lambda>_. mc) r) (handshake env fuel (new_conn cfg rd room))))"

end
