(* ===== verification/MysqlPacket.thy ===== *)
theory MysqlPacket
  imports MysqlConn
begin

text \<open>
  go-sql-driver/mysql, packets.go: what writing a packet puts on the wire, and that reading it gives the
  payload back, unless the payload fills whole packets.
\<close>

definition limits :: "mysqlConn \<Rightarrow> bool" where
  "limits mc \<longleftrightarrow> mc_maxWriteSize mc = min (int maxPacketSize - 1) (mc_maxPacketAllowed mc)"

subsection \<open>Writing\<close>

text \<open>The packets of a payload.\<close>

function packets :: "bytes \<Rightarrow> uint8 \<Rightarrow> bytes" where
  "packets p s =
    (if maxPacketSize \<le> length p then packet_header maxPacketSize s @ take maxPacketSize p @ packets (drop maxPacketSize p) (s + 1)
     else packet_header (length p) s @ p)"
  by pat_completeness auto
termination by (relation "measure (\<lambda>(p, s). length p)") (auto simp: maxPacketSize_def)

declare packets.simps [simp del]

lemma length_header [simp]: "length (packet_header n s) = 4"
  by (simp add: packet_header_def put_len_def)

lemma net_write_open:
  assumes "mc_open mc" "wt_room (mc_net mc) = None"
  shows "net_write data mc = Some (Inr (), mc\<lparr>mc_net := (mc_net mc)\<lparr>wt_out := wt_out (mc_net mc) @ data\<rparr>, mc_sequence := mc_sequence mc + 1\<rparr>)"
  using assms by (simp add: net_write_def put_bytes_open ret_def)

definition sent :: "bytes \<Rightarrow> nat \<Rightarrow> mysqlConn \<Rightarrow> mysqlConn" where
  "sent bs k mc = mc\<lparr>mc_net := (mc_net mc)\<lparr>wt_out := wt_out (mc_net mc) @ bs\<rparr>, mc_sequence := mc_sequence mc + of_nat k\<rparr>"

lemma sent_sent [simp]: "sent bs k (sent as j mc) = sent (as @ bs) (j + k) mc"
  by (simp add: sent_def add.assoc)

lemma sent_same [simp]:
  "mc_open (sent bs k mc) = mc_open mc" "wt_room (mc_net (sent bs k mc)) = wt_room (mc_net mc)"
  "mc_maxWriteSize (sent bs k mc) = mc_maxWriteSize mc" "mc_maxPacketAllowed (sent bs k mc) = mc_maxPacketAllowed mc"
  "mc_sequence (sent bs k mc) = mc_sequence mc + of_nat k" "wt_out (mc_net (sent bs k mc)) = wt_out (mc_net mc) @ bs"
  "mc_buf (sent bs k mc) = mc_buf mc"
  by (simp_all add: sent_def)

lemma net_write_sent:
  "mc_open mc \<Longrightarrow> wt_room (mc_net mc) = None \<Longrightarrow> net_write data mc = Some (Inr (), sent data 1 mc)"
  by (simp add: net_write_open sent_def)

text \<open>The whole packets the loop sends, and the last one that is left.\<close>

lemma split_loop_sent:
  assumes "mc_open mc" "wt_room (mc_net mc) = None" "length h = 4"
  shows "\<exists>h' bs p' k. split_loop (h @ p) mc = Some (Inr (h' @ p'), sent bs k mc) \<and> length h' = 4 \<and> length p' < maxPacketSize \<and>
    p' = drop (maxPacketSize * k) p \<and> length p = maxPacketSize * k + length p' \<and>
    packets p (mc_sequence mc) = bs @ packet_header (length p') (mc_sequence mc + of_nat k) @ p'"
  using assms
proof (induction "length p" arbitrary: p h mc rule: less_induct)
  case less
  show ?case
  proof (cases "maxPacketSize \<le> length p")
    case False
    then have "split_loop (h @ p) mc = Some (Inr (h @ p), sent [] 0 mc)" using less.prems
      by (subst split_loop.simps) (simp add: sent_def)
    moreover have "packets p (mc_sequence mc) = packet_header (length p) (mc_sequence mc) @ p"
      using False by (subst packets.simps) simp
    ultimately show ?thesis using False less.prems(3) by (intro exI[of _ h] exI[of _ "[]"] exI[of _ p] exI[of _ 0]) auto
  next
    case True
    let ?f = "packet_header maxPacketSize (mc_sequence mc) @ take maxPacketSize p"
    let ?h = "drop maxPacketSize (h @ p)" and ?m = "sent ?f 1 mc"
    have m: "4 \<le> maxPacketSize" by (simp add: maxPacketSize_def)
    define g where "g = take 4 ?h"
    have "drop 4 ?h = drop maxPacketSize p" using less.prems(3) m by (simp add: drop_drop)
    then have split: "?h = g @ drop maxPacketSize p" unfolding g_def by (metis append_take_drop_id)
    have "length g = 4" using True less.prems(3) unfolding g_def length_take length_drop length_append by linarith
    note split = split this
    have s: "split_loop (h @ p) mc = split_loop (g @ drop maxPacketSize p) ?m"
      using True less.prems split(1) by (subst split_loop.simps) (simp add: net_write_sent)
    have lt: "length (drop maxPacketSize p) < length p" using True m by simp
    obtain h' bs p' k where r: "split_loop (g @ drop maxPacketSize p) ?m = Some (Inr (h' @ p'), sent bs k ?m)" "length h' = 4"
      "length p' < maxPacketSize" "p' = drop (maxPacketSize * k) (drop maxPacketSize p)"
      "length (drop maxPacketSize p) = maxPacketSize * k + length p'"
      "packets (drop maxPacketSize p) (mc_sequence ?m) = bs @ packet_header (length p') (mc_sequence ?m + of_nat k) @ p'"
      using less.hyps[OF lt, of ?m g] less.prems split(2) by auto
    have pk: "packets p (mc_sequence mc) = ?f @ packets (drop maxPacketSize p) (mc_sequence mc + 1)"
      using True by (subst packets.simps) simp
    show ?thesis
      unfolding s r(1) pk using r(2-6) True
      by (intro exI[of _ h'] exI[of _ "?f @ bs"] exI[of _ p'] exI[of _ "Suc k"]) (simp add: add.commute add.left_commute)
  qed
qed

text \<open>A payload within the server's limit goes out as its packets.\<close>

lemma writePacket_sends:
  assumes "mc_open mc" "wt_room (mc_net mc) = None" "limits mc" "int (length p) \<le> mc_maxPacketAllowed mc"
  shows "writePacket (packet_header (length p) (mc_sequence mc) @ p) mc =
    Some (Inr (), sent (packets p (mc_sequence mc)) (length p div maxPacketSize + 1) mc)"
proof (cases "maxPacketSize \<le> length p")
  case False
  then have "int (length p) \<le> mc_maxWriteSize mc" using assms(3,4) by (simp add: limits_def)
  moreover have "packets p (mc_sequence mc) = packet_header (length p) (mc_sequence mc) @ p" using False by (subst packets.simps) simp
  ultimately show ?thesis using assms(1,2) False by (subst writePacket.simps) (simp add: net_write_sent)
next
  case True
  have "\<not> int (length p) \<le> mc_maxWriteSize mc" using True assms(3) by (simp add: limits_def)
  obtain h' bs p' k where r: "split_loop (packet_header (length p) (mc_sequence mc) @ p) mc = Some (Inr (h' @ p'), sent bs k mc)" "length h' = 4"
    "length p' < maxPacketSize" "length p = maxPacketSize * k + length p'"
    "packets p (mc_sequence mc) = bs @ packet_header (length p') (mc_sequence mc + of_nat k) @ p'"
    using split_loop_sent[OF assms(1,2) length_header, of "length p" "mc_sequence mc" p] by (elim exE conjE) (rule that)
  have "length p' \<le> length p" using r(4) by simp
  then have "int (length p') \<le> mc_maxPacketAllowed mc" using assms(4) by linarith
  then have "int (length p') \<le> mc_maxWriteSize mc" using r(3) assms(3) by (simp add: limits_def)
  then have w: "writePacket (packet_header (length p') (mc_sequence mc + of_nat k) @ p') (sent bs k mc) =
      Some (Inr (), sent (packet_header (length p') (mc_sequence mc + of_nat k) @ p') 1 (sent bs k mc))"
    using assms(1,2) by (subst writePacket.simps) (simp add: net_write_sent)
  have "length p div maxPacketSize = k" using r(3,4) by simp
  then show ?thesis
    using \<open>\<not> int (length p) \<le> mc_maxWriteSize mc\<close> assms(4) r w by (subst writePacket.simps) simp
qed

text \<open>One beyond it does not go out at all.\<close>

lemma writePacket_refuses:
  assumes "limits mc" "mc_maxPacketAllowed mc < int (length p)" "length h = 4"
  shows "writePacket (h @ p) mc = Some (Inl (Error errPktTooLarge), mc)"
proof -
  have "\<not> int (length p) \<le> mc_maxWriteSize mc" using assms by (simp add: limits_def)
  then show ?thesis using assms by (subst writePacket.simps) (simp add: raise_def)
qed

subsection \<open>Reading\<close>

definition bytes_of :: "mysqlConn \<Rightarrow> slice \<Rightarrow> bytes" where
  "bytes_of mc s = (case mc_buf mc of Some b \<Rightarrow> deref b s | None \<Rightarrow> [])"

definition net_view :: "mysqlConn \<Rightarrow> bytes \<times> io_error option" where
  "net_view mc = (case mc_buf mc of Some b \<Rightarrow> view b | None \<Rightarrow> ([], None))"

definition conn_ok :: "mysqlConn \<Rightarrow> bool" where
  "conn_ok mc \<longleftrightarrow> limits mc \<and> (case mc_buf mc of Some b \<Rightarrow> buffer_ok b | None \<Rightarrow> False)"

lemma get_len_header:
  assumes "n < 2 ^ 24"
  shows "get_len (packet_header n s) = n"
proof -
  have d: "n div 2 ^ 8 = drop_bit 8 n" "n div 2 ^ 16 = drop_bit 16 n" by (simp_all add: drop_bit_eq_div)
  have "(ucast (of_nat n :: byte) OR push_bit 8 (ucast (of_nat (n div 2 ^ 8) :: byte)) OR
      push_bit 16 (ucast (of_nat (n div 2 ^ 16) :: byte)) :: uint32) = of_nat n" (is "?l = _")
  proof (rule bit_word_eqI)
    fix i assume "i < LENGTH(32)"
    moreover have "bit n i \<Longrightarrow> i < 24" using assms
      by (metis bit_take_bit_iff take_bit_nat_eq_self)
    ultimately show "bit ?l i = bit (of_nat n :: uint32) i"
      unfolding d by (cases "i < 16") (auto simp: bit_simps)
  qed
  moreover have "unat (of_nat n :: uint32) = n" using assms by (simp add: unsigned_of_nat take_bit_nat_eq_self)
  ultimately show ?thesis by (simp add: get_len_def packet_header_def put_len_def)
qed

lemma packet_header_nth [simp]: "packet_header n s ! 3 = s"
  by (simp add: packet_header_def put_len_def)

text \<open>Closing a connection always ends, and says nothing of its error.\<close>

lemma writeCommandPacket_ends:
  assumes "conn_ok mc" "mc_open mc"
  obtains r mc' where "writeCommandPacket command mc = Some (r, mc')" "\<forall>p. r \<noteq> Inl (Crash p)"
proof -
  obtain b where b: "mc_buf mc = Some b" "buffer_ok b" "limits mc" using assms(1) by (auto simp: conn_ok_def split: option.splits)
  define data where "data = [1, 0, 0, 0, command]"
  have w: "\<exists>r mc''. writePacket data mc' = Some (r, mc'') \<and> (\<forall>p. r \<noteq> Inl (Crash p))"
    if "limits mc'" "mc_open mc'" for mc'
  proof (cases "1 \<le> mc_maxWriteSize mc'")
    case True
    then show ?thesis using that
      by (subst writePacket.simps) (auto simp: data_def net_write_def ret_def raise_def split: prod.splits option.splits)
  next
    case False
    then have "mc_maxPacketAllowed mc' < 1" using that by (auto simp: limits_def maxPacketSize_def)
    then show ?thesis using False by (subst writePacket.simps) (auto simp: data_def raise_def)
  qed
  show ?thesis
  proof (cases "bf_length b = 0")
    case True
    then have t: "takeSmallBuffer 5 b = Some (Some (InBuf (length (bf_retired b)) 0 5))"
      using b(2) by (simp add: takeSmallBuffer_def buffer_ok_def defaultBufSize_def)
    define mc1 where "mc1 = mc\<lparr>mc_sequence := 0, mc_buf := Some (fill_slice (InBuf (length (bf_retired b)) 0 5) data b)\<rparr>"
    have "writeCommandPacket command mc = writePacket data mc1"
      using b(1) t by (simp add: writeCommandPacket_def seq_def reset_sequence_def modify_def write_taken_def with_buf_def small_def
        inspect_def data_def mc1_def Let_def)
    moreover obtain r mc'' where "writePacket data mc1 = Some (r, mc'')" "\<forall>p. r \<noteq> Inl (Crash p)"
      using w[of mc1] b(3) assms(2) by (auto simp: mc1_def limits_def)
    ultimately show ?thesis using that by simp
  next
    case False
    then show ?thesis using b(1) that
      by (simp add: writeCommandPacket_def seq_def reset_sequence_def modify_def write_taken_def with_buf_def small_def
        takeSmallBuffer_def raise_def)
  qed
qed

lemma conn_close_ends:
  assumes "conn_ok mc"
  obtains mc' where "conn_close mc = Some (Inr (), mc')" "\<not> mc_open mc'" "mc_buf mc' = None"
proof (cases "mc_open mc")
  case True
  obtain r mc' where r: "writeCommandPacket comQuit mc = Some (r, mc')" "\<forall>p. r \<noteq> Inl (Crash p)"
    by (rule writeCommandPacket_ends[OF assms True])
  then have "attempt (writeCommandPacket comQuit) (\<lambda>_. ret ()) mc = Some (Inr (), mc')"
    by (auto simp: attempt_def ret_def split: sum.splits my_fail.splits)
  then show ?thesis using True that by (simp add: conn_close_def seq_def inspect_def modify_def)
next
  case False
  then show ?thesis using that by (simp add: conn_close_def seq_def inspect_def modify_def ret_def)
qed

lemma bad_conn_ends:
  assumes "conn_ok mc"
  obtains mc' where "bad_conn mc = Some (Inl (Error ErrBadConn), mc')" "\<not> mc_open mc'" "mc_buf mc' = None"
  by (rule conn_close_ends[OF assms]) (simp add: that bad_conn_def seq_def raise_def)

lemma bad_conn_closed:
  "\<not> mc_open mc \<Longrightarrow> bad_conn mc = Some (Inl (Error ErrBadConn), mc\<lparr>mc_cfg := None, mc_buf := None\<rparr>)"
  by (simp add: bad_conn_def seq_def conn_close_def inspect_def ret_def modify_def raise_def)

text \<open>What reading goes on with after the first packet of a payload.\<close>

definition read_more :: "bytes \<Rightarrow> mysqlConn \<Rightarrow> ((my_fail + slice) \<times> mysqlConn) option" where
  "read_more buf mc = Option.bind (readPacket mc) (\<lambda>(r, mc).
     case r of
       Inr s \<Rightarrow> ret (Own (buf @ bytes_of mc s)) mc
     | Inl (Crash p) \<Rightarrow> crash p mc
     | Inl (Error e) \<Rightarrow> bad_conn mc)"

lemma readPacket_step:
  assumes "mc_buf mc = Some b" "buffer_ok b" "view b = (packet_header (length p) (mc_sequence mc) @ p @ rest, en)"
    and "p \<noteq> []" "length p < 2 ^ 24"
  obtains x b' where "buffer_ok b'" "view b' = (rest, en)" "deref b' x = p"
    "readPacket mc = (if length p < maxPacketSize then Some (Inr x, mc\<lparr>mc_sequence := mc_sequence mc + 1, mc_buf := Some b'\<rparr>)
      else read_more p (mc\<lparr>mc_sequence := mc_sequence mc + 1, mc_buf := Some b'\<rparr>))"
proof -
  obtain h b1 where h: "readNext 4 b = Some (Inr h, b1)" "deref b1 h = packet_header (length p) (mc_sequence mc)" "view b1 = (p @ rest, en)"
    "buffer_ok b1"
    by (rule rd.enough[OF assms(2,3) length_header])
  obtain x b' where x: "readNext (length p) b1 = Some (Inr x, b')" "deref b' x = p" "view b' = (rest, en)" "buffer_ok b'"
    by (rule rd.enough[OF h(4,3) refl])
  note l = get_len_header[OF assms(5)]
  have "readPacket mc = (if length p < maxPacketSize then Some (Inr x, mc\<lparr>mc_sequence := mc_sequence mc + 1, mc_buf := Some b'\<rparr>)
      else read_more p (mc\<lparr>mc_sequence := mc_sequence mc + 1, mc_buf := Some b'\<rparr>))"
    using assms(4) unfolding read_more_def bytes_of_def
    by (subst readPacket.simps) (simp add: assms(1) h(1,2) l Let_def x(1,2) ret_def del: deref.simps)
  then show ?thesis using that x by blast
qed

text \<open>An empty packet is malformed.\<close>

lemma readPacket_empty:
  assumes "conn_ok mc" "net_view mc = (packet_header 0 s @ rest, en)"
  obtains mc' where "readPacket mc = Some (Inl (Error ErrBadConn), mc')" "\<not> mc_open mc'" "mc_buf mc' = None"
proof -
  obtain b where b: "mc_buf mc = Some b" "buffer_ok b" "limits mc" "view b = (packet_header 0 s @ rest, en)"
    using assms by (auto simp: conn_ok_def net_view_def split: option.splits)
  obtain h b1 where h: "readNext 4 b = Some (Inr h, b1)" "deref b1 h = packet_header 0 s" "buffer_ok b1"
    by (rule rd.enough[OF b(2,4) length_header]) blast
  have "conn_ok (mc\<lparr>mc_buf := Some b1\<rparr>)" using h(3) b(3) by (simp add: conn_ok_def limits_def)
  then obtain mc' where "(bad_conn :: slice call) (mc\<lparr>mc_buf := Some b1\<rparr>) = Some (Inl (Error ErrBadConn), mc')" "\<not> mc_open mc'" "mc_buf mc' = None"
    by (rule bad_conn_ends)
  moreover have "readPacket mc = bad_conn (mc\<lparr>mc_buf := Some b1\<rparr>)"
    by (subst readPacket.simps) (simp add: b(1) h(1,2) get_len_header Let_def)
  ultimately show ?thesis using that by metis
qed

text \<open>The packets of a payload are read back as the payload, unless the last of them is empty.\<close>

definition reads_back :: "bytes \<Rightarrow> bytes \<Rightarrow> io_error option \<Rightarrow> mysqlConn \<Rightarrow> bool" where
  "reads_back p rest en mc \<longleftrightarrow>
    (if length p mod maxPacketSize = 0 then \<exists>mc'. readPacket mc = Some (Inl (Error ErrBadConn), mc') \<and> \<not> mc_open mc'
     else \<exists>x b'. readPacket mc =
         Some (Inr x, mc\<lparr>mc_sequence := mc_sequence mc + of_nat (length p div maxPacketSize + 1), mc_buf := Some b'\<rparr>) \<and>
       deref b' x = p \<and> buffer_ok b' \<and> view b' = (rest, en))"

lemma packets_read_back:
  "conn_ok mc \<Longrightarrow> net_view mc = (packets p (mc_sequence mc) @ rest, en) \<Longrightarrow> reads_back p rest en mc"
proof (induction "length p" arbitrary: p mc rule: less_induct)
  case less
  obtain b where b: "mc_buf mc = Some b" "buffer_ok b" "limits mc" "view b = (packets p (mc_sequence mc) @ rest, en)"
    using less.prems by (auto simp: conn_ok_def net_view_def split: option.splits)
  have m: "0 < maxPacketSize" "maxPacketSize < 2 ^ 24" by (simp_all add: maxPacketSize_def)
  show ?case
  proof (cases "maxPacketSize \<le> length p")
    case False
    then have v: "view b = (packet_header (length p) (mc_sequence mc) @ p @ rest, en)"
      using b(4) by (subst (asm) packets.simps) simp
    show ?thesis
    proof (cases "p = []")
      case True
      then obtain mc' where "readPacket mc = Some (Inl (Error ErrBadConn), mc')" "\<not> mc_open mc'"
        using readPacket_empty[OF less.prems(1), of "mc_sequence mc" rest en] b(1) v by (auto simp: net_view_def)
      then show ?thesis using True by (simp add: reads_back_def)
    next
      case ne: False
      obtain x b' where x: "buffer_ok b'" "view b' = (rest, en)" "deref b' x = p"
        "readPacket mc = Some (Inr x, mc\<lparr>mc_sequence := mc_sequence mc + 1, mc_buf := Some b'\<rparr>)"
        by (rule readPacket_step[OF b(1,2) v ne]) (use False m in auto)
      show ?thesis using False ne x by (auto simp: reads_back_def)
    qed
  next
    case True
    let ?p = "take maxPacketSize p" and ?q = "drop maxPacketSize p"
    have l: "length ?p = maxPacketSize" using True by simp
    have v: "view b = (packet_header (length ?p) (mc_sequence mc) @ ?p @ packets ?q (mc_sequence mc + 1) @ rest, en)"
      using b(4) True l by (subst (asm) packets.simps) simp
    have ne: "?p \<noteq> []" "length ?p < 2 ^ 24" using l m by auto
    obtain x b' where x: "buffer_ok b'" "view b' = (packets ?q (mc_sequence mc + 1) @ rest, en)"
      "readPacket mc = read_more ?p (mc\<lparr>mc_sequence := mc_sequence mc + 1, mc_buf := Some b'\<rparr>)"
      by (rule readPacket_step[OF b(1,2) v ne]) (use l in auto)
    define m1 where "m1 = mc\<lparr>mc_sequence := mc_sequence mc + 1, mc_buf := Some b'\<rparr>"
    have m1: "conn_ok m1" "net_view m1 = (packets ?q (mc_sequence m1) @ rest, en)"
      using x b(3) by (simp_all add: m1_def conn_ok_def net_view_def limits_def)
    have "length ?q < length p" using True m by simp
    then have r: "reads_back ?q rest en m1" using less.hyps m1 by blast
    have q: "length p mod maxPacketSize = length ?q mod maxPacketSize" "length p div maxPacketSize = length ?q div maxPacketSize + 1"
      using True m by (simp_all add: le_mod_geq le_div_geq)
    show ?thesis
    proof (cases "length ?q mod maxPacketSize = 0")
      case True
      then obtain m2 where m2: "readPacket m1 = Some (Inl (Error ErrBadConn), m2)" "\<not> mc_open m2"
        using r by (auto simp: reads_back_def)
      have "readPacket mc = bad_conn m2"
        unfolding x(3) m1_def[symmetric] read_more_def m2(1) by simp
      then show ?thesis using True q(1) m2(2) by (simp add: reads_back_def bad_conn_closed)
    next
      case False
      then obtain y b2 where y: "readPacket m1 =
         Some (Inr y, m1\<lparr>mc_sequence := mc_sequence m1 + of_nat (length ?q div maxPacketSize + 1), mc_buf := Some b2\<rparr>)"
         "deref b2 y = ?q" "buffer_ok b2" "view b2 = (rest, en)" using r by (auto simp: reads_back_def)
      have "readPacket mc = Some (Inr (Own p), mc\<lparr>mc_sequence := mc_sequence mc + of_nat (length p div maxPacketSize + 1), mc_buf := Some b2\<rparr>)"
        unfolding x(3) m1_def[symmetric] read_more_def y(1) q(2)
        by (simp add: ret_def bytes_of_def y(2)) (simp add: m1_def)
      then show ?thesis using False y q by (auto simp: reads_back_def)
    qed
  qed
qed

end
