(* ===== verification/MysqlRows.thy ===== *)
theory MysqlRows
  imports MysqlQuery MysqlPacket
begin

text \<open>
  go-sql-driver/mysql: what a call does with a packet that has come, and the rows of a result set as a server
  encodes them.
\<close>

subsection \<open>Calls on a packet\<close>

lemma with_packet_payload:
  assumes "conn_ok mc" "net_view mc = (packets p (mc_sequence mc) @ rest, en)" "length p mod maxPacketSize \<noteq> 0"
  obtains x b' where "deref b' x = p" "buffer_ok b'" "view b' = (rest, en)"
    "\<And>f :: slice \<Rightarrow> bytes \<Rightarrow> bytes \<Rightarrow> 'a call. with_packet f mc = f x p (whole b' x)
      (mc\<lparr>mc_sequence := mc_sequence mc + of_nat (length p div maxPacketSize + 1), mc_buf := Some b'\<rparr>)"
proof -
  have "reads_back p rest en mc" using packets_read_back[OF assms(1,2)] .
  then obtain x b' where r: "readPacket mc =
      Some (Inr x, mc\<lparr>mc_sequence := mc_sequence mc + of_nat (length p div maxPacketSize + 1), mc_buf := Some b'\<rparr>)"
    "deref b' x = p" "buffer_ok b'" "view b' = (rest, en)" using assms(3) by (auto simp: reads_back_def)
  have "with_packet f mc = f x p (whole b' x)
      (mc\<lparr>mc_sequence := mc_sequence mc + of_nat (length p div maxPacketSize + 1), mc_buf := Some b'\<rparr>)" for f :: "slice \<Rightarrow> bytes \<Rightarrow> bytes \<Rightarrow> 'a call"
    using r by (simp add: with_packet_def seq_def with_buf_def)
  then show ?thesis using that r by blast
qed

lemma conn_ok_next:
  "conn_ok mc \<Longrightarrow> buffer_ok b \<Longrightarrow> conn_ok (mc\<lparr>mc_sequence := s, mc_buf := Some b\<rparr>)"
  by (simp add: conn_ok_def limits_def)

lemma net_view_buf [simp]: "net_view (mc\<lparr>mc_sequence := s, mc_buf := Some b\<rparr>) = view b"
  by (simp add: net_view_def)

text \<open>A connection on which nothing more comes: a call that reads a packet does not return.\<close>

lemma readPacket_waits:
  assumes "conn_ok mc" "net_view mc = (bs, None)" "length bs < 4"
  shows "readPacket mc = None"
proof -
  obtain b where b: "mc_buf mc = Some b" "buffer_ok b" "view b = (bs, None)"
    using assms by (auto simp: conn_ok_def net_view_def split: option.splits)
  show ?thesis using rd.waits[OF b(2,3) assms(3)] by (subst readPacket.simps) (simp add: b(1))
qed

subsection \<open>Rows\<close>

definition row_packet :: "bytes option list \<Rightarrow> bytes" where
  "row_packet cells = concat (map cell cells)"

text \<open>What a destination holds: None for NULL.\<close>

definition shown :: "mysqlConn \<Rightarrow> row_value \<Rightarrow> bytes option" where
  "shown mc v = (case v of NullValue \<Rightarrow> None | Bytes s \<Rightarrow> Some (bytes_of mc s) | Time t \<Rightarrow> None)"

lemma deref_subslice:
  assumes "c \<le> length (deref b s)"
  shows "deref b (subslice s a c) = take (c - a) (drop a (deref b s))"
proof (cases s)
  case (InBuf g off n)
  then have "c \<le> n" using assms by simp
  then have "c - a \<le> n - a" by (rule diff_le_mono)
  then show ?thesis by (simp add: InBuf drop_take min_absorb1 add.commute)
qed simp

lemma row_fields_decodes:
  assumes "mc_buf mc = Some b" "\<not> mc_parseTime mc"
  shows "deref b s = data \<Longrightarrow> data = pre @ row_packet cells \<Longrightarrow> \<forall>c \<in> set cells. short_cell c \<Longrightarrow>
    \<exists>vs. row_fields env columns s data i (length cells) (int (length pre)) mc = Some (Inr vs, mc) \<and> map (shown mc) vs = cells"
proof (induction cells arbitrary: pre i)
  case Nil
  then show ?case by (simp add: ret_def)
next
  case (Cons c cells)
  let ?k = "length (cell c)" and ?p = "length pre"
  obtain a where a: "readLengthEnodedString (cell c @ row_packet cells) = Some (Some (a, ?k), c = None, int ?k, False)"
    "a \<le> ?k" "take (?k - a) (drop a (cell c)) = (case c of None \<Rightarrow> [] | Some t \<Rightarrow> t)"
    using cell_read[of c "row_packet cells"] Cons.prems(3) by auto
  have d: "data = pre @ cell c @ row_packet cells" using Cons.prems(2) by (simp add: row_packet_def)
  have r: "read_string data (int ?p) mc = Some (Inr ((?p + a, ?p + ?k), c = None, int (?p + ?k)), mc)"
    by (simp add: read_string_def tail_of_def seq_def ret_def d a(1) in_range_def)
  have "deref b (subslice s (?p + a) (?p + ?k)) = (case c of None \<Rightarrow> [] | Some t \<Rightarrow> t)"
  proof -
    have "deref b (subslice s (?p + a) (?p + ?k)) = take (?k - a) (drop a (cell c @ row_packet cells))"
      using Cons.prems(1) by (subst deref_subslice) (simp_all add: d)
    then show ?thesis using a(2,3) by simp
  qed
  then have v: "shown mc (if c = None then NullValue else Bytes (subslice s (?p + a) (?p + ?k))) = c"
    using assms(1) by (simp add: shown_def bytes_of_def split: option.splits)
  obtain vs where vs: "row_fields env columns s data (Suc i) (length cells) (int (length (pre @ cell c))) mc = Some (Inr vs, mc)"
    "map (shown mc) vs = cells"
    using Cons.IH[of "pre @ cell c" "Suc i"] Cons.prems by (auto simp: d)
  have "row_fields env columns s data i (length (c # cells)) (int ?p) mc =
      Some (Inr ((if c = None then NullValue else Bytes (subslice s (?p + a) (?p + ?k))) # vs), mc)"
    using r vs(1) assms(2) by (cases c) (simp_all add: seq_def inspect_def ret_def)
  then show ?case using v vs(2) by auto
qed

lemma row_packet_first:
  assumes "cells \<noteq> []" "\<forall>c \<in> set cells. short_cell c"
  shows "row_packet cells \<noteq> []" "row_packet cells ! 0 \<noteq> iEOF"
proof -
  obtain c cs where c: "cells = c # cs" using assms(1) by (cases cells) auto
  have "cell c \<noteq> [] \<and> hd (cell c) \<noteq> 0xfe"
  proof (cases c)
    case (Some s)
    have "(of_nat (length s) :: uint64) < 2 ^ 24" using assms(2) by (simp add: c Some short_cell_def word_less_nat_alt unat_length)
    then show ?thesis using lenenc_first[of "of_nat (length s)"] by (simp add: cell_def Some)
  qed (simp add: cell_def)
  then show "row_packet cells \<noteq> []" "row_packet cells ! 0 \<noteq> iEOF"
    by (auto simp: row_packet_def c iEOF_def nth_append hd_conv_nth)
qed

text \<open>The connection once a payload has been read, its buffer being \<open>b\<close> then.\<close>

definition advanced :: "bytes \<Rightarrow> buffer \<Rightarrow> mysqlConn \<Rightarrow> mysqlConn" where
  "advanced p b mc = mc\<lparr>mc_sequence := mc_sequence mc + of_nat (length p div maxPacketSize + 1), mc_buf := Some b\<rparr>"

lemma advanced_facts [simp]:
  "mc_open (advanced p b mc) = mc_open mc" "mc_parseTime (advanced p b mc) = mc_parseTime mc" "mc_net (advanced p b mc) = mc_net mc"
  "mc_buf (advanced p b mc) = Some b" "net_view (advanced p b mc) = view b" "mc_cfg (advanced p b mc) = mc_cfg mc"
  "mc_sequence (advanced p b mc) = mc_sequence mc + of_nat (length p div maxPacketSize + 1)"
  "conn_ok mc \<Longrightarrow> buffer_ok b \<Longrightarrow> conn_ok (advanced p b mc)"
  by (simp_all add: advanced_def net_view_def conn_ok_next)

lemma rows_Next_row:
  assumes "conn_ok mc" "mc_open mc" "\<not> mc_parseTime mc" "rw_live rows"
    and "net_view mc = (packets (row_packet cells) (mc_sequence mc) @ rest, en)"
    and "cells \<noteq> []" "\<forall>c \<in> set cells. short_cell c" "length (row_packet cells) mod maxPacketSize \<noteq> 0"
  obtains vs b where "rows_Next env (length cells) rows mc = Some (Inr (Some vs, rows), advanced (row_packet cells) b mc)"
    "map (shown (advanced (row_packet cells) b mc)) vs = cells" "buffer_ok b" "view b = (rest, en)"
proof -
  let ?p = "row_packet cells"
  obtain x b where b: "deref b x = ?p" "buffer_ok b" "view b = (rest, en)"
    "\<And>f :: slice \<Rightarrow> bytes \<Rightarrow> bytes \<Rightarrow> row_value list call. with_packet f mc = f x ?p (whole b x) (advanced ?p b mc)"
    unfolding advanced_def by (rule with_packet_payload[OF assms(1,5,8)]) blast
  obtain vs where vs: "row_fields env (rw_columns rows) x ?p 0 (length cells) 0 (advanced ?p b mc) = Some (Inr vs, advanced ?p b mc)"
    "map (shown (advanced ?p b mc)) vs = cells"
    using row_fields_decodes[of "advanced ?p b mc" b x ?p "[]" cells env "rw_columns rows" 0] assms(3,7) b(1) by auto
  have "readRow env (rw_columns rows) (length cells) mc = Some (Inr vs, advanced ?p b mc)"
    unfolding readRow_def b(4)
    using row_packet_first[OF assms(6,7)] vs(1) by (simp add: seq_def byte_at_def ret_def)
  then have "rows_Next env (length cells) rows mc = Some (Inr (Some vs, rows), advanced ?p b mc)"
    using assms(2,4) by (simp add: rows_Next_def inspect_def attempt_def ret_def)
  then show ?thesis using that vs(2) b(2,3) by blast
qed

subsection \<open>Where a packet lies in the buffer\<close>

text \<open>A packet that is in the buffer is read without touching the array.\<close>

lemma readPacket_buffered:
  assumes "mc_buf mc = Some b" "4 + length p \<le> bf_length b" "p \<noteq> []" "length p < maxPacketSize"
    and "take (4 + length p) (drop (bf_idx b) (bf_buf b)) = packet_header (length p) (mc_sequence mc) @ p"
  shows "readPacket mc = Some (Inr (InBuf (length (bf_retired b)) (bf_idx b + 4) (length p)),
    mc\<lparr>mc_sequence := mc_sequence mc + 1,
       mc_buf := Some (b\<lparr>bf_idx := bf_idx b + 4 + length p, bf_length := bf_length b - 4 - length p\<rparr>)\<rparr>)"
proof -
  have h: "take 4 (drop (bf_idx b) (bf_buf b)) = packet_header (length p) (mc_sequence mc)"
  proof -
    have "take 4 (take (4 + length p) (drop (bf_idx b) (bf_buf b))) = packet_header (length p) (mc_sequence mc)"
      unfolding assms(5) by simp
    then show ?thesis by simp
  qed
  have l: "get_len (packet_header (length p) (mc_sequence mc)) = length p"
    using assms(4) by (intro get_len_header) (simp add: maxPacketSize_def)
  have r1: "readNext 4 b = Some (Inr (InBuf (length (bf_retired b)) (bf_idx b) 4), b\<lparr>bf_idx := bf_idx b + 4, bf_length := bf_length b - 4\<rparr>)"
    using assms(2) by (simp add: readNext_def)
  have "\<not> bf_length b - 4 < length p" using assms(2) by simp
  then have r2: "readNext (length p) (b\<lparr>bf_idx := bf_idx b + 4, bf_length := bf_length b - 4\<rparr>) =
      Some (Inr (InBuf (length (bf_retired b)) (bf_idx b + 4) (length p)),
        b\<lparr>bf_idx := bf_idx b + 4 + length p, bf_length := bf_length b - 4 - length p\<rparr>)"
    by (simp add: readNext_def)
  show ?thesis
    using assms(3,4) by (subst readPacket.simps) (simp add: assms(1) r1 r2 Let_def array_def h l ret_def)
qed

definition after_fill :: "bytes \<Rightarrow> arrival list \<Rightarrow> buffer \<Rightarrow> buffer" where
  "after_fill c as b = b\<lparr>bf_buf := blit (bf_buf b) 0 c, bf_length := length c, bf_rd := as, bf_idx := 0\<rparr>"

text \<open>A packet that comes when the buffer is empty is put at its beginning.\<close>

lemma readPacket_filled:
  assumes "mc_buf mc = Some b" "buffer_ok b" "bf_length b = 0" "bf_rd b = Chunk c # as" "4 \<le> length c" "length c \<le> defaultBufSize"
  shows "readPacket mc = readPacket (mc\<lparr>mc_buf := Some (after_fill c as b)\<rparr>)"
proof -
  have l: "length c \<le> length (bf_buf b)" "4 \<le> length (bf_buf b)" using assms(2,5,6) by (auto simp: buffer_ok_def)
  then have "fill 4 b = Some (None, after_fill c as b)"
    using assms(3-5) by (simp add: fill_def compacted_def grown_buffer_def, subst fill_loop.simps) (simp add: Let_def after_fill_def)
  then have "readNext 4 b = readNext 4 (after_fill c as b)"
    using assms(3,5) by (simp add: readNext_def after_fill_def)
  then show ?thesis by (subst (1 2) readPacket.simps) (simp add: assms(1) Let_def cong: option.case_cong)
qed

lemma readUntilEOF_one:
  assumes "readPacket mc = Some (Inr x, mc')" "mc_buf mc' = Some b" "deref b x = iEOF # bs"
  shows "readUntilEOF mc = Some (Inr (), mc')"
  using assms by (subst readUntilEOF.simps) (simp add: with_packet_def seq_def with_buf_def byte_at_def ret_def)

lemma short_string_read:
  assumes "v \<noteq> []" "length v \<le> 250"
  shows "readLengthEnodedString (of_nat (length v) # v) = Some (Some (1, Suc (length v)), False, int (Suc (length v)), False)"
    "row_packet [Some v] = of_nat (length v) # v"
proof -
  let ?n = "of_nat (length v) :: uint64"
  have u: "unat ?n = length v" using assms(2) by (simp add: unsigned_of_nat take_bit_nat_eq_self)
  then have n: "?n \<le> 250" using assms(2) by (simp add: word_le_nat_alt)
  have "(ucast ?n :: byte) = of_nat (length v)" by (rule bit_word_eqI) (simp add: bit_simps)
  with n have a: "appendLengthEncodedInteger [] ?n = [of_nat (length v)]" by (simp add: appendLengthEncodedInteger_def)
  show c: "row_packet [Some v] = of_nat (length v) # v" by (simp add: row_packet_def cell_def a)
  have "\<not> ?n < 1" using assms(1) u by (simp add: word_less_nat_alt)
  moreover have "?n < 2 ^ 24" using u assms(2) by (simp add: word_less_nat_alt)
  moreover have "string_end 1 ?n = int (Suc (length v))"
    using sint_small[of "Suc (length v)"] assms(2) by (simp add: string_end_def)
  ultimately show "readLengthEnodedString (of_nat (length v) # v) = Some (Some (1, Suc (length v)), False, int (Suc (length v)), False)"
    using lenenc_read[of ?n v] by (simp add: readLengthEnodedString_def a nat_add_distrib)
qed

lemma packets_one: "length p < maxPacketSize \<Longrightarrow> packets p s = packet_header (length p) s @ p"
  by (subst packets.simps) simp

text \<open>A row of one short value that comes at the beginning of a piece of at most a buffer, the buffer being empty.\<close>

lemma readRow_first:
  assumes "mc_buf mc = Some b" "buffer_ok b" "bf_length b = 0" "\<not> mc_parseTime mc" "v \<noteq> []" "length v \<le> 250"
    and "c = packets (row_packet [Some v]) (mc_sequence mc) @ behind" "bf_rd b = Chunk c # as" "length c \<le> defaultBufSize"
  shows "readRow env [] 1 mc = Some (Inr [Bytes (InBuf (length (bf_retired b)) 5 (length v))],
    mc\<lparr>mc_sequence := mc_sequence mc + 1, mc_buf := Some ((after_fill c as b)\<lparr>bf_idx := 5 + length v, bf_length := length behind\<rparr>)\<rparr>)"
proof -
  let ?p = "row_packet [Some v]" and ?b = "after_fill c as b"
  let ?mc = "mc\<lparr>mc_sequence := mc_sequence mc + 1, mc_buf := Some (?b\<lparr>bf_idx := 5 + length v, bf_length := length behind\<rparr>)\<rparr>"
  note s = short_string_read[OF assms(5,6)]
  have p: "length ?p = Suc (length v)" "?p \<noteq> []" "length ?p < maxPacketSize" using assms(6) by (simp_all add: s(2) maxPacketSize_def)
  have c: "c = packet_header (length ?p) (mc_sequence mc) @ ?p @ behind" using assms(7) packets_one[OF p(3)] by simp
  have l: "length c = 5 + length v + length behind" by (simp add: c p(1))
  have cl: "length c \<le> length (bf_buf b)" using assms(2,9) by (auto simp: buffer_ok_def)
  have t: "take (4 + length ?p) (blit (bf_buf b) 0 c) = packet_header (length ?p) (mc_sequence mc) @ ?p"
    using cl by (simp add: blit_def c)
  have r: "readPacket mc = Some (Inr (InBuf (length (bf_retired b)) 4 (length ?p)), ?mc)"
    using readPacket_filled[OF assms(1-3,8)] readPacket_buffered[of "mc\<lparr>mc_buf := Some ?b\<rparr>" ?b ?p] assms(9) p l t
    by (simp add: after_fill_def)
  have d: "take (length ?p) (drop 4 (blit (bf_buf b) 0 c)) = ?p"
    using cl by (simp add: blit_def c)
  have len: "min (length (bf_buf b) - 4) (length ?p) = length ?p" using cl l p(1) by simp
  have in_place: "deref (?b\<lparr>bf_idx := 5 + length v, bf_length := length behind\<rparr>) (InBuf (length (bf_retired b)) 4 (length ?p)) = ?p"
    using d by (simp add: array_def after_fill_def)
  have ne: "?p ! 0 \<noteq> iEOF" using row_packet_first(2)[of "[Some v]"] assms(6) by (simp add: short_cell_def)
  have rs: "read_string ?p 0 m = Some (Inr ((1, Suc (length v)), False, int (Suc (length v))), m)" for m
    using s by (simp add: read_string_def tail_of_def seq_def ret_def in_range_def)
  have rf: "row_fields env [] (InBuf (length (bf_retired b)) 4 (length ?p)) ?p 0 1 0 ?mc =
      Some (Inr [Bytes (InBuf (length (bf_retired b)) 5 (length v))], ?mc)"
    using assms(4) by (simp add: rs seq_def ret_def inspect_def)
  then show ?thesis
    using ne p(2) rf
    by (simp add: readRow_def with_packet_def seq_def r with_buf_def in_place byte_at_def ret_def del: row_fields.simps deref.simps)
qed

end
