(* ===== verification/MysqlResult.thy ===== *)
theory MysqlResult
  imports MysqlRows
begin

text \<open>
  A whole query of go-sql-driver/mysql: the command goes out, and the result set a server encodes, column by
  column and row by row, comes back as database/sql sees it, which copies the values of each row before it asks
  for the next.
\<close>

subsection \<open>What a server sends\<close>

text \<open>Payloads as packets with their sequence numbers.\<close>

fun wire :: "bytes list \<Rightarrow> uint8 \<Rightarrow> bytes" where
  "wire [] s = []"
| "wire (p # ps) s = packets p s @ wire ps (s + of_nat (length p div maxPacketSize + 1))"

text \<open>The packet that ends the columns, and that which ends the rows.\<close>

definition eof_packet :: bytes where "eof_packet = [0xfe, 0, 0, 2, 0]"

text \<open>A column: catalog, schema, table and original table, the two names, charset and length, type, flags, the rest.\<close>

record column_def =
  cd_head :: "bytes list"
  cd_name :: bytes
  cd_orgname :: bytes
  cd_fixed :: bytes
  cd_type :: byte
  cd_flags :: bytes
  cd_rest :: bytes

definition column_packet :: "column_def \<Rightarrow> bytes" where
  "column_packet c = row_packet (map Some (cd_head c @ [cd_name c, cd_orgname c])) @ cd_fixed c @ cd_type c # cd_flags c @ cd_rest c"

definition column_ok :: "column_def \<Rightarrow> bool" where
  "column_ok c \<longleftrightarrow> length (cd_head c) = 4 \<and> length (cd_fixed c) = 7 \<and> length (cd_flags c) = 2 \<and>
    (\<forall>s \<in> set (cd_head c @ [cd_name c, cd_orgname c]). short_cell (Some s)) \<and> length (column_packet c) < maxPacketSize"

definition field_of :: "column_def \<Rightarrow> mysqlField" where
  "field_of c = \<lparr>fd_fieldType = cd_type c, fd_flags = le16 (cd_flags c), fd_name = cd_name c\<rparr>"

definition row_ok :: "nat \<Rightarrow> bytes option list \<Rightarrow> bool" where
  "row_ok n cells \<longleftrightarrow> length cells = n \<and> (\<forall>c \<in> set cells. short_cell c) \<and> length (row_packet cells) mod maxPacketSize \<noteq> 0"

definition result_set :: "column_def list \<Rightarrow> bytes option list list \<Rightarrow> bytes list" where
  "result_set cols rows = appendLengthEncodedInteger [] (of_nat (length cols)) # map column_packet cols @ eof_packet #
    map row_packet rows @ [eof_packet]"

subsection \<open>What database/sql does with the rows\<close>

text \<open>The rows until the driver reports their end or an error; the caller asks for the error separately.\<close>

partial_function (option) fetch ::
  "mysql_env \<Rightarrow> textRows \<Rightarrow> bytes option list list \<Rightarrow> mysqlConn \<Rightarrow> ((my_fail + bytes option list list) \<times> mysqlConn) option"
where
  "fetch env rows seen mc =
    Option.bind (rows_Next env (length (rw_columns rows)) rows mc) (\<lambda>(r, mc).
      case r of
        Inl (Crash p) \<Rightarrow> Some (Inl (Crash p), mc)
      | Inl (Error e) \<Rightarrow> Some (Inr seen, mc)
      | Inr (None, rows) \<Rightarrow> Some (Inr seen, mc)
      | Inr (Some vs, rows) \<Rightarrow> fetch env rows (seen @ [map (shown mc) vs]) mc)"

subsection \<open>Sending the query\<close>

lemma view_empty: "bf_length b = 0 \<Longrightarrow> view b = incoming (bf_rd b)"
  by (simp add: view_def buffered_def apfst_def map_prod_def split: prod.splits)

lemma length_string_bytes [simp]: "length (string_bytes s) = length s"
  by (simp add: string_bytes_def)

text \<open>Writing goes through the buffer, but does not touch what is to be read.\<close>

lemma takeBuffer_filled:
  assumes "buffer_ok b" "bf_length b = 0" "length data = n"
  obtains s b' where "takeBuffer n b = Some (Some s, b')" "buffer_ok (fill_slice s data b')" "view (fill_slice s data b') = view b"
proof -
  consider "n \<le> length (bf_buf b)" | "\<not> n \<le> length (bf_buf b)" "n < maxPacketSize" | "\<not> n \<le> length (bf_buf b)" "\<not> n < maxPacketSize"
    by linarith
  then show ?thesis
  proof cases
    case 1
    then show ?thesis using assms that by (simp add: takeBuffer_def buffer_ok_def view_empty)
  next
    case 2
    then have "\<not> n \<le> defaultBufSize" using assms(1) by (simp add: buffer_ok_def)
    then show ?thesis using 2 assms that
      by (simp add: takeBuffer_def buffer_ok_def view_empty set_array_def Let_def)
  next
    case 3
    then have "\<not> n \<le> defaultBufSize" using assms(1) by (simp add: buffer_ok_def)
    then show ?thesis using 3 assms that by (simp add: takeBuffer_def)
  qed
qed

lemma writeCommandPacketStr_sends:
  assumes "conn_ok mc" "mc_open mc" "wt_room (mc_net mc) = None" "mc_buf mc = Some b" "bf_length b = 0"
    and "int (length arg) < mc_maxPacketAllowed mc"
  obtains b' where "writeCommandPacketStr command arg mc =
      Some (Inr (), sent (packets (command # string_bytes arg) 0) (Suc (length arg) div maxPacketSize + 1) (mc\<lparr>mc_sequence := 0, mc_buf := Some b'\<rparr>))"
    "buffer_ok b'" "view b' = view b"
proof -
  let ?p = "command # string_bytes arg"
  let ?data = "packet_header (length ?p) 0 @ ?p"
  have l: "length ?p = Suc (length arg)" by simp
  have b: "buffer_ok b" using assms(1,4) by (simp add: conn_ok_def)
  have "length ?data = 5 + length arg" by (simp add: l)
  then obtain s b1 where t: "takeBuffer (5 + length arg) b = Some (Some s, b1)" "buffer_ok (fill_slice s ?data b1)"
    "view (fill_slice s ?data b1) = view b" by (rule takeBuffer_filled[OF b assms(5)])
  let ?mc = "mc\<lparr>mc_sequence := 0, mc_buf := Some (fill_slice s ?data b1)\<rparr>"
  have w: "writePacket ?data ?mc = Some (Inr (), sent (packets ?p 0) (length ?p div maxPacketSize + 1) ?mc)"
    using writePacket_sends[of ?mc ?p] assms(1-3,6) by (simp add: conn_ok_def limits_def l)
  have "writeCommandPacketStr command arg mc = writePacket ?data ?mc"
    using t(1) assms(4)
    by (simp add: writeCommandPacketStr_def Let_def seq_def reset_sequence_def modify_def write_taken_def with_buf_def inspect_def
        l add.commute)
  then show ?thesis using that[of "fill_slice s ?data b1"] w t(2,3) by (simp add: l)
qed

subsection \<open>Reading the columns\<close>

lemma cell_skip:
  assumes "short_cell (Some s)"
  shows "skipLengthEnodedString (cell (Some s) @ rest) = Some (int (length (cell (Some s))), False)"
proof -
  let ?n = "of_nat (length s) :: uint64"
  let ?k = "length (appendLengthEncodedInteger [] ?n)"
  have l: "length s < 2 ^ 24" using assms by (simp add: short_cell_def)
  then have n: "?n < 2 ^ 24" by (simp add: word_less_nat_alt unat_length)
  have "?k + length s < 2 ^ 63" using l length_lenenc[of ?n] by simp
  then have "sint (of_nat (?k + length s) :: uint64) = int (?k + length s)" by (rule sint_small)
  then have e: "string_end ?k ?n = int (?k + length s)" by (simp add: string_end_def)
  have z: "?n < 1 \<longleftrightarrow> s = []" using l by (simp add: word_less_nat_alt unat_length)
  show ?thesis using lenenc_read[OF n, of "s @ rest"] e z
    by (simp add: cell_def skipLengthEnodedString_def Let_def)
qed

text \<open>The encoded strings of a packet in front of some position are passed over one by one.\<close>

lemma skip_string_cell:
  assumes "data = pre @ cell (Some s) @ post" "short_cell (Some s)"
  shows "skip_string data (int (length pre)) mc = Some (Inr (int (length (pre @ cell (Some s)))), mc)"
  using cell_skip[OF assms(2), of post] by (simp add: skip_string_def tail_of_def seq_def ret_def in_range_def assms(1))

lemma read_string_cell:
  assumes "data = pre @ cell (Some s) @ post" "short_cell (Some s)"
  obtains a where "read_string data (int (length pre)) mc =
      Some (Inr ((length pre + a, length (pre @ cell (Some s))), False, int (length (pre @ cell (Some s)))), mc)"
    "drop a (cell (Some s)) = s" "a \<le> length (cell (Some s))"
proof -
  obtain a where a: "readLengthEnodedString (cell (Some s) @ post) = Some (Some (a, length (cell (Some s))), False, int (length (cell (Some s))), False)"
    "a \<le> length (cell (Some s))" "drop a (cell (Some s)) = s"
    using cell_read[OF assms(2), of post] by auto
  then show ?thesis using that[of a] by (simp add: read_string_def tail_of_def seq_def ret_def in_range_def assms(1))
qed

lemma read_column_decodes:
  assumes "column_ok c" "length ds < cnt" "all = column_packet c @ behind"
  shows "read_column cnt ds (column_packet c) all mc = Some (Inr (field_of c), mc)"
proof -
  obtain h0 h1 h2 h3 where h: "cd_head c = [h0, h1, h2, h3]"
    using assms(1) by (auto simp: column_ok_def numeral_eq_Suc length_Suc_conv)
  have f: "length (cd_fixed c) = 7" "length (cd_flags c) = 2" and
    sh: "short_cell (Some h0)" "short_cell (Some h1)" "short_cell (Some h2)" "short_cell (Some h3)"
    "short_cell (Some (cd_name c))" "short_cell (Some (cd_orgname c))" using assms(1) by (auto simp: column_ok_def h)
  let ?d = "column_packet c" and ?tail = "cd_fixed c @ cd_type c # cd_flags c @ cd_rest c"
  define p1 where "p1 = cell (Some h0)"
  define p2 where "p2 = p1 @ cell (Some h1)"
  define p3 where "p3 = p2 @ cell (Some h2)"
  define p4 where "p4 = p3 @ cell (Some h3)"
  define p5 where "p5 = p4 @ cell (Some (cd_name c))"
  define p6 where "p6 = p5 @ cell (Some (cd_orgname c))"
  note ps = p1_def p2_def p3_def p4_def p5_def p6_def
  have d: "?d = [] @ cell (Some h0) @ drop (length p1) ?d" "?d = p1 @ cell (Some h1) @ drop (length p2) ?d"
    "?d = p2 @ cell (Some h2) @ drop (length p3) ?d" "?d = p3 @ cell (Some h3) @ drop (length p4) ?d"
    "?d = p4 @ cell (Some (cd_name c)) @ drop (length p5) ?d" "?d = p5 @ cell (Some (cd_orgname c)) @ drop (length p6) ?d"
    "?d = p6 @ ?tail"
    by (simp_all add: column_packet_def row_packet_def h ps)
  have s1: "skip_string ?d 0 m = Some (Inr (int (length p1)), m)" for m using skip_string_cell[OF d(1) sh(1), of m] by (simp add: p1_def)
  have s2: "skip_string ?d (int (length p1)) m = Some (Inr (int (length p2)), m)" for m using skip_string_cell[OF d(2) sh(2), of m] by (simp add: p2_def)
  have s3: "skip_string ?d (int (length p2)) m = Some (Inr (int (length p3)), m)" for m using skip_string_cell[OF d(3) sh(3), of m] by (simp add: p3_def)
  have s4: "skip_string ?d (int (length p3)) m = Some (Inr (int (length p4)), m)" for m using skip_string_cell[OF d(4) sh(4), of m] by (simp add: p4_def)
  obtain a where a: "read_string ?d (int (length p4)) mc = Some (Inr ((length p4 + a, length p5), False, int (length p5)), mc)"
    "drop a (cell (Some (cd_name c))) = cd_name c" "a \<le> length (cell (Some (cd_name c)))"
    using read_string_cell[OF d(5) sh(5), of mc] unfolding p5_def by blast
  have s6: "skip_string ?d (int (length p5)) m = Some (Inr (int (length p6)), m)" for m using skip_string_cell[OF d(6) sh(6), of m] by (simp add: p6_def)
  have name: "take (length p5 - (length p4 + a)) (drop (length p4 + a) ?d) = cd_name c"
  proof -
    have "length (cell (Some (cd_name c))) - a = length (cd_name c)" using arg_cong[OF a(2), of length] by simp
    then show ?thesis using a(2,3) by (subst d(5)) (simp add: p5_def)
  qed
  have ty: "?d ! (length p6 + 7) = cd_type c" "length p6 + 7 < length ?d" "length p6 + 10 \<le> length all"
    using f by (simp_all add: d(7) nth_append assms(3))
  have fl: "take 2 (drop (length p6 + 8) all) = cd_flags c" using f by (simp add: assms(3) d(7))
  show ?thesis
    using assms(2) ty fl
    by (simp add: read_column_def seq_def s1 s2 s3 s4 a(1) s6 Let_def byte_at_def sub_def ret_def name[unfolded add.commute[of "length p4" a]] field_of_def
        nat_add_distrib add.commute)
qed

lemma small_payload: "length p < maxPacketSize \<Longrightarrow> p \<noteq> [] \<Longrightarrow> length p mod maxPacketSize \<noteq> 0"
  by simp

lemma eof_payload: "eof_packet \<noteq> []" "length eof_packet = 5" "length eof_packet mod maxPacketSize \<noteq> 0" "eof_packet ! 0 = iEOF"
  by (simp_all add: eof_packet_def maxPacketSize_def iEOF_def)

lemma cells_first:
  assumes "cells \<noteq> []" "\<forall>c \<in> set cells. short_cell c"
  shows "row_packet cells @ rest \<noteq> [] \<and> (row_packet cells @ rest) ! 0 \<noteq> iEOF"
  using row_packet_first[OF assms] by (simp add: nth_append)

lemma column_first:
  assumes "column_ok c"
  shows "column_packet c \<noteq> []" "column_packet c ! 0 \<noteq> iEOF"
  using cells_first[of "map Some (cd_head c @ [cd_name c, cd_orgname c])" "cd_fixed c @ cd_type c # cd_flags c @ cd_rest c"] assms
  by (auto simp: column_packet_def column_ok_def)

lemma whole_prefix: "deref b x = p \<Longrightarrow> \<exists>behind. whole b x = p @ behind"
  by (cases x) (auto, metis append_take_drop_id)

lemma read_columns_decodes:
  "conn_ok mc \<Longrightarrow> net_view mc = (wire (map column_packet cols @ eof_packet # ps) (mc_sequence mc) @ rest, en) \<Longrightarrow>
   \<forall>c \<in> set cols. column_ok c \<Longrightarrow> length ds + length cols = cnt \<Longrightarrow>
   \<exists>b k. read_columns cnt ds mc = Some (Inr (ds @ map field_of cols), mc\<lparr>mc_sequence := k, mc_buf := Some b\<rparr>) \<and>
     buffer_ok b \<and> view b = (wire ps k @ rest, en)"
proof (induction cols arbitrary: mc ds)
  case Nil
  then have v: "net_view mc = (packets eof_packet (mc_sequence mc) @ wire ps (mc_sequence mc + of_nat (length eof_packet div maxPacketSize + 1)) @ rest, en)"
    by simp
  obtain x b where b: "deref b x = eof_packet" "buffer_ok b"
    "view b = (wire ps (mc_sequence mc + of_nat (length eof_packet div maxPacketSize + 1)) @ rest, en)"
    "\<And>f :: slice \<Rightarrow> bytes \<Rightarrow> bytes \<Rightarrow> mysqlField option call. with_packet f mc = f x eof_packet (whole b x) (advanced eof_packet b mc)"
    unfolding advanced_def by (rule with_packet_payload[OF Nil.prems(1) v eof_payload(3)]) blast
  have "read_columns cnt ds mc = Some (Inr ds, advanced eof_packet b mc)"
    using Nil.prems(4) eof_payload by (subst read_columns.simps) (simp add: b(4) seq_def byte_at_def ret_def)
  then show ?case using b(2,3) by (simp add: advanced_def) blast
next
  case (Cons c cols)
  let ?p = "column_packet c"
  have c: "column_ok c" "?p \<noteq> []" "?p ! 0 \<noteq> iEOF" "length ?p mod maxPacketSize \<noteq> 0"
    using Cons.prems(3) column_first[of c] by (auto simp: column_ok_def)
  have v: "net_view mc = (packets ?p (mc_sequence mc) @ wire (map column_packet cols @ eof_packet # ps)
      (mc_sequence mc + of_nat (length ?p div maxPacketSize + 1)) @ rest, en)"
    using Cons.prems(2) by simp
  obtain x b where b: "deref b x = ?p" "buffer_ok b" "view b = (wire (map column_packet cols @ eof_packet # ps)
      (mc_sequence mc + of_nat (length ?p div maxPacketSize + 1)) @ rest, en)"
    "\<And>f :: slice \<Rightarrow> bytes \<Rightarrow> bytes \<Rightarrow> mysqlField option call. with_packet f mc = f x ?p (whole b x) (advanced ?p b mc)"
    unfolding advanced_def by (rule with_packet_payload[OF Cons.prems(1) v c(4)]) blast
  obtain behind where "whole b x = ?p @ behind" using whole_prefix[OF b(1)] by blast
  then have f: "read_column cnt ds ?p (whole b x) m = Some (Inr (field_of c), m)" for m
    using read_column_decodes[OF c(1)] Cons.prems(4) by simp
  have r: "read_columns cnt ds mc = read_columns cnt (ds @ [field_of c]) (advanced ?p b mc)"
    using c by (subst read_columns.simps) (simp add: b(4) seq_def byte_at_def ret_def f)
  have "\<exists>b' k. read_columns cnt (ds @ [field_of c]) (advanced ?p b mc) =
      Some (Inr ((ds @ [field_of c]) @ map field_of cols), (advanced ?p b mc)\<lparr>mc_sequence := k, mc_buf := Some b'\<rparr>) \<and>
      buffer_ok b' \<and> view b' = (wire ps k @ rest, en)"
    by (rule Cons.IH) (use Cons.prems b(2,3) in simp_all)
  then show ?case unfolding r by (simp add: advanced_def)
qed

subsection \<open>Reading the rows\<close>

lemma rows_Next_end:
  assumes "conn_ok mc" "mc_open mc" "rw_live rows" "net_view mc = (packets eof_packet (mc_sequence mc) @ rest, en)"
  obtains b where "rows_Next env n rows mc = Some (Inr (None, rows\<lparr>rw_live := False\<rparr>), advanced eof_packet b mc)"
    "buffer_ok b" "view b = (rest, en)"
proof -
  obtain x b where b: "deref b x = eof_packet" "buffer_ok b" "view b = (rest, en)"
    "\<And>f :: slice \<Rightarrow> bytes \<Rightarrow> bytes \<Rightarrow> row_value list call. with_packet f mc = f x eof_packet (whole b x) (advanced eof_packet b mc)"
    unfolding advanced_def by (rule with_packet_payload[OF assms(1,4) eof_payload(3)]) blast
  have "readRow env (rw_columns rows) n mc = Some (Inl (Error ReadEOF), advanced eof_packet b mc)"
    unfolding readRow_def b(4) using eof_payload by (simp add: seq_def byte_at_def ret_def raise_def)
  then have "rows_Next env n rows mc = Some (Inr (None, rows\<lparr>rw_live := False\<rparr>), advanced eof_packet b mc)"
    using assms(2,3) by (simp add: rows_Next_def inspect_def attempt_def ret_def)
  then show ?thesis using that b(2,3) by blast
qed

lemma fetch_decodes:
  "conn_ok mc \<Longrightarrow> mc_open mc \<Longrightarrow> \<not> mc_parseTime mc \<Longrightarrow> rw_live rows \<Longrightarrow> rw_columns rows \<noteq> [] \<Longrightarrow>
   net_view mc = (wire (map row_packet rs @ eof_packet # ps) (mc_sequence mc) @ rest, en) \<Longrightarrow>
   \<forall>r \<in> set rs. row_ok (length (rw_columns rows)) r \<Longrightarrow>
   \<exists>b k. fetch env rows seen mc = Some (Inr (seen @ rs), mc\<lparr>mc_sequence := k, mc_buf := Some b\<rparr>) \<and>
     buffer_ok b \<and> view b = (wire ps k @ rest, en)"
proof (induction rs arbitrary: mc seen)
  case Nil
  have v: "net_view mc = (packets eof_packet (mc_sequence mc) @ wire ps (mc_sequence mc + of_nat (length eof_packet div maxPacketSize + 1)) @ rest, en)"
    using Nil.prems(6) by simp
  obtain b where b: "rows_Next env (length (rw_columns rows)) rows mc = Some (Inr (None, rows\<lparr>rw_live := False\<rparr>), advanced eof_packet b mc)"
    "buffer_ok b" "view b = (wire ps (mc_sequence mc + of_nat (length eof_packet div maxPacketSize + 1)) @ rest, en)"
    by (rule rows_Next_end[OF Nil.prems(1,2,4) v])
  then have "fetch env rows seen mc = Some (Inr seen, advanced eof_packet b mc)" by (subst fetch.simps) simp
  then show ?case using b(2,3) by (simp add: advanced_def) blast
next
  case (Cons r rs)
  let ?p = "row_packet r"
  have r: "length r = length (rw_columns rows)" "\<forall>c \<in> set r. short_cell c" "length ?p mod maxPacketSize \<noteq> 0" "r \<noteq> []"
    using Cons.prems(5,7) by (auto simp: row_ok_def)
  have v: "net_view mc = (packets ?p (mc_sequence mc) @ wire (map row_packet rs @ eof_packet # ps)
      (mc_sequence mc + of_nat (length ?p div maxPacketSize + 1)) @ rest, en)"
    using Cons.prems(6) by simp
  obtain vs b where b: "rows_Next env (length r) rows mc = Some (Inr (Some vs, rows), advanced ?p b mc)"
    "map (shown (advanced ?p b mc)) vs = r" "buffer_ok b" "view b = (wire (map row_packet rs @ eof_packet # ps)
      (mc_sequence mc + of_nat (length ?p div maxPacketSize + 1)) @ rest, en)"
    by (rule rows_Next_row[OF Cons.prems(1-4) v r(4,2,3)])
  have f: "fetch env rows seen mc = fetch env rows (seen @ [r]) (advanced ?p b mc)"
    using b(1,2) by (subst fetch.simps) (simp add: r(1))
  have "\<exists>b' k. fetch env rows (seen @ [r]) (advanced ?p b mc) =
      Some (Inr ((seen @ [r]) @ rs), (advanced ?p b mc)\<lparr>mc_sequence := k, mc_buf := Some b'\<rparr>) \<and>
      buffer_ok b' \<and> view b' = (wire ps k @ rest, en)"
    by (rule Cons.IH) (use Cons.prems b(3,4) in simp_all)
  then show ?case unfolding f by (simp add: advanced_def)
qed

subsection \<open>The whole query\<close>

text \<open>The packet with the number of columns; more than 250 would take a longer integer.\<close>

lemma header_read:
  assumes "conn_ok mc" "1 \<le> n" "n \<le> 250"
    and "net_view mc = (packets (appendLengthEncodedInteger [] (of_nat n)) (mc_sequence mc) @ rest, en)"
  obtains b where "readResultSetHeaderPacket env warn mc = Some (Inr (int n), mc\<lparr>mc_sequence := mc_sequence mc + 1, mc_buf := Some b\<rparr>)"
    "buffer_ok b" "view b = (rest, en)"
proof -
  let ?n = "of_nat n :: uint64"
  have u: "unat ?n = n" using assms(3) by (simp add: unsigned_of_nat take_bit_nat_eq_self)
  then have small: "?n \<le> 250" using assms(3) by (simp add: word_le_nat_alt)
  have "(ucast ?n :: byte) = of_nat n" by (rule bit_word_eqI) (simp add: bit_simps)
  with small have p: "appendLengthEncodedInteger [] ?n = [of_nat n]" by (simp add: appendLengthEncodedInteger_def)
  have ub: "unat (of_nat n :: byte) = n" using assms(3) by (simp add: unsigned_of_nat take_bit_nat_eq_self)
  have ne: "(of_nat n :: byte) \<noteq> iOK" "(of_nat n :: byte) \<noteq> iERR" "(of_nat n :: byte) \<noteq> iLocalInFile"
    using ub assms(2,3) by (auto simp: iOK_def iERR_def iLocalInFile_def)
  have "?n < 2 ^ 24" using u assms(3) by (simp add: word_less_nat_alt)
  then have num: "readLengthEncodedInteger [of_nat n] = Some (?n, False, 1)" using lenenc_read[of ?n "[]"] p by simp
  have si: "sint ?n = int n" using assms(3) by (intro sint_small) simp
  have v: "net_view mc = (packets [of_nat n] (mc_sequence mc) @ rest, en)" using assms(4) p by simp
  have l: "length [of_nat n :: byte] mod maxPacketSize \<noteq> 0" "length [of_nat n :: byte] div maxPacketSize = 0"
    by (simp_all add: maxPacketSize_def)
  obtain x b where b: "buffer_ok b" "view b = (rest, en)"
    "\<And>f :: slice \<Rightarrow> bytes \<Rightarrow> bytes \<Rightarrow> int call. with_packet f mc = f x [of_nat n] (whole b x) (mc\<lparr>mc_sequence := mc_sequence mc + 1, mc_buf := Some b\<rparr>)"
    by (rule with_packet_payload[OF assms(1) v l(1)]) (simp only: l(2) add_0 of_nat_1, blast)
  have "readResultSetHeaderPacket env warn mc = Some (Inr (int n), mc\<lparr>mc_sequence := mc_sequence mc + 1, mc_buf := Some b\<rparr>)"
    unfolding readResultSetHeaderPacket_def b(3) using ne
    by (simp add: seq_def byte_at_def ret_def num in_range_def si del: readLengthEncodedInteger.simps)
  then show ?thesis using that b(1,2) by blast
qed

lemma sent_ok:
  "conn_ok mc \<Longrightarrow> buffer_ok b \<Longrightarrow> conn_ok (sent bs k (mc\<lparr>mc_sequence := s, mc_buf := Some b\<rparr>))"
  "net_view (sent bs k (mc\<lparr>mc_sequence := s, mc_buf := Some b\<rparr>)) = view b"
  "mc_parseTime (sent bs k mc) = mc_parseTime mc"
  by (simp_all add: sent_def conn_ok_def limits_def net_view_def)

text \<open>The result set begins with the packet number behind those of the query.\<close>

definition answer_at :: "string \<Rightarrow> uint8" where
  "answer_at query = of_nat (Suc (length query) div maxPacketSize + 1)"

lemma query_columns:
  assumes "conn_ok mc" "mc_open mc" "wt_room (mc_net mc) = None" "\<not> mc_parseTime mc"
    and "mc_buf mc = Some b" "bf_length b = 0" "int (length query) < mc_maxPacketAllowed mc"
    and "cols \<noteq> []" "length cols \<le> 250" "\<forall>c \<in> set cols. column_ok c"
    and "net_view mc = (wire (appendLengthEncodedInteger [] (of_nat (length cols)) # map column_packet cols @ eof_packet # ps)
      (answer_at query) @ rest, en)"
  shows "\<exists>m. conn_Query env fuel query ([] :: 'v list) mc = Some (Inr \<lparr>rw_columns = map field_of cols, rw_live = True\<rparr>, m) \<and>
    conn_ok m \<and> mc_open m \<and> \<not> mc_parseTime m \<and> net_view m = (wire ps (mc_sequence m) @ rest, en) \<and>
    wt_out (mc_net m) = wt_out (mc_net mc) @ packets (comQuery # string_bytes query) 0"
proof -
  obtain b1 where b1: "writeCommandPacketStr comQuery query mc = Some (Inr (), sent (packets (comQuery # string_bytes query) 0)
      (Suc (length query) div maxPacketSize + 1) (mc\<lparr>mc_sequence := 0, mc_buf := Some b1\<rparr>))" "buffer_ok b1" "view b1 = view b"
    by (rule writeCommandPacketStr_sends[OF assms(1-3,5-7)])
  define m0 where "m0 = sent (packets (comQuery # string_bytes query) 0) (Suc (length query) div maxPacketSize + 1)
      (mc\<lparr>mc_sequence := 0, mc_buf := Some b1\<rparr>)"
  have m0: "conn_ok m0" "net_view m0 = net_view mc" "mc_sequence m0 = answer_at query" "mc_open m0" "\<not> mc_parseTime m0"
    "wt_out (mc_net m0) = wt_out (mc_net mc) @ packets (comQuery # string_bytes query) 0"
    using sent_ok(1)[OF assms(1) b1(2)] b1(3) assms(2,4,5) by (simp_all add: m0_def net_view_def answer_at_def sent_def)
  let ?p = "appendLengthEncodedInteger [] (of_nat (length cols))" and ?ps = "map column_packet cols @ eof_packet # ps"
  have "length ?p \<le> 4" by (rule length_lenenc)
  then have one: "length ?p div maxPacketSize = 0" by (simp add: maxPacketSize_def)
  have v0: "net_view m0 = (packets ?p (mc_sequence m0) @ wire ?ps (mc_sequence m0 + 1) @ rest, en)"
    using assms(11) m0(2,3) one by simp
  have n: "1 \<le> length cols" using assms(8) by (simp add: Suc_le_eq)
  obtain b2 where b2: "readResultSetHeaderPacket env (getWarnings env fuel) m0 =
      Some (Inr (int (length cols)), m0\<lparr>mc_sequence := mc_sequence m0 + 1, mc_buf := Some b2\<rparr>)" "buffer_ok b2"
    "view b2 = (wire ?ps (mc_sequence m0 + 1) @ rest, en)"
    by (rule header_read[OF m0(1) n assms(9) v0])
  define m1 where "m1 = m0\<lparr>mc_sequence := mc_sequence m0 + 1, mc_buf := Some b2\<rparr>"
  have m1: "conn_ok m1" "net_view m1 = (wire ?ps (mc_sequence m1) @ rest, en)"
    using conn_ok_next[OF m0(1) b2(2)] b2(3) by (simp_all add: m1_def)
  obtain b3 k where b3: "read_columns (length cols) [] m1 = Some (Inr (map field_of cols), m1\<lparr>mc_sequence := k, mc_buf := Some b3\<rparr>)"
    "buffer_ok b3" "view b3 = (wire ps k @ rest, en)"
    using read_columns_decodes[OF m1 assms(10), of "[]" "length cols"] by auto
  define m2 where "m2 = m1\<lparr>mc_sequence := k, mc_buf := Some b3\<rparr>"
  have "conn_Query env fuel query ([] :: 'v list) mc = Some (Inr \<lparr>rw_columns = map field_of cols, rw_live = True\<rparr>, m2)"
    using assms(2,8) b1(1)[folded m0_def] b2(1)[folded m1_def] b3(1)[folded m2_def]
    by (simp add: conn_Query_def if_open_def inspect_def query_rows_def seq_def ret_def readColumns_def)
  moreover have "conn_ok m2" "mc_open m2" "\<not> mc_parseTime m2" "net_view m2 = (wire ps (mc_sequence m2) @ rest, en)"
    "mc_net m2 = mc_net m0"
    using conn_ok_next[OF m1(1) b3(2)] b3(3) m0(4,5) by (simp_all add: m2_def m1_def)
  ultimately show ?thesis using m0(6) by auto
qed

lemma query_result:
  assumes "conn_ok mc" "mc_open mc" "wt_room (mc_net mc) = None" "\<not> mc_parseTime mc"
    and "mc_buf mc = Some b" "bf_length b = 0" "int (length query) < mc_maxPacketAllowed mc"
    and "cols \<noteq> []" "length cols \<le> 250" "\<forall>c \<in> set cols. column_ok c" "\<forall>r \<in> set rs. row_ok (length cols) r"
    and "net_view mc = (wire (result_set cols rs) (answer_at query) @ rest, en)"
  shows "\<exists>rows m1 m2. conn_Query env fuel query ([] :: 'v list) mc = Some (Inr rows, m1) \<and> rows_Columns rows = map cd_name cols \<and>
    fetch env rows [] m1 = Some (Inr rs, m2) \<and> net_view m2 = (rest, en) \<and>
    wt_out (mc_net m2) = wt_out (mc_net mc) @ packets (comQuery # string_bytes query) 0"
proof -
  let ?rows = "\<lparr>rw_columns = map field_of cols, rw_live = True\<rparr>"
  obtain m where m: "conn_Query env fuel query ([] :: 'v list) mc = Some (Inr ?rows, m)" "conn_ok m" "mc_open m" "\<not> mc_parseTime m"
    "net_view m = (wire (map row_packet rs @ eof_packet # []) (mc_sequence m) @ rest, en)"
    "wt_out (mc_net m) = wt_out (mc_net mc) @ packets (comQuery # string_bytes query) 0"
    using query_columns[OF assms(1-10), of "map row_packet rs @ [eof_packet]" rest en env fuel] assms(12) by (auto simp: result_set_def)
  obtain b' k where b': "fetch env ?rows [] m = Some (Inr rs, m\<lparr>mc_sequence := k, mc_buf := Some b'\<rparr>)" "view b' = (rest, en)"
    using fetch_decodes[OF m(2-4) _ _ m(5), of ?rows env "[]"] assms(8,11) by auto
  have "rows_Columns ?rows = map cd_name cols" by (simp add: rows_Columns_def field_of_def)
  then show ?thesis
    using m(1,6) b' by - (rule exI[of _ ?rows], rule exI[of _ m], rule exI[of _ "m\<lparr>mc_sequence := k, mc_buf := Some b'\<rparr>"], simp)
qed

subsection \<open>A connection that ends\<close>

text \<open>Where a packet should begin, the connection ends.\<close>

lemma rows_Next_cut:
  assumes "conn_ok mc" "mc_open mc" "rw_live rows" "net_view mc = (bs, Some e)" "length bs < 4"
  obtains mc' where "rows_Next env n rows mc = Some (Inl (Error ErrBadConn), mc')"
proof -
  obtain b where b: "mc_buf mc = Some b" "buffer_ok b" "limits mc" "view b = (bs, Some e)"
    using assms(1,4) by (auto simp: conn_ok_def net_view_def split: option.splits)
  obtain b1 where b1: "readNext 4 b = Some (Inl e, b1)" "buffer_ok b1" by (rule rd.ends[OF b(2,4) assms(5)])
  have "conn_ok (mc\<lparr>mc_buf := Some b1\<rparr>)" using b1(2) b(3) by (simp add: conn_ok_def limits_def)
  then obtain mc' where "(bad_conn :: slice call) (mc\<lparr>mc_buf := Some b1\<rparr>) = Some (Inl (Error ErrBadConn), mc')" by (rule bad_conn_ends)
  moreover have "readPacket mc = bad_conn (mc\<lparr>mc_buf := Some b1\<rparr>)" by (subst readPacket.simps) (simp add: b(1) b1(1))
  ultimately have "readRow env (rw_columns rows) n mc = Some (Inl (Error ErrBadConn), mc')"
    by (simp add: readRow_def with_packet_def seq_def)
  then show ?thesis using that assms(2,3) by (simp add: rows_Next_def inspect_def attempt_def raise_def)
qed

lemma fetch_cut:
  "conn_ok mc \<Longrightarrow> mc_open mc \<Longrightarrow> \<not> mc_parseTime mc \<Longrightarrow> rw_live rows \<Longrightarrow> rw_columns rows \<noteq> [] \<Longrightarrow>
   net_view mc = (wire (map row_packet rs) (mc_sequence mc) @ bs, Some e) \<Longrightarrow> length bs < 4 \<Longrightarrow>
   \<forall>r \<in> set rs. row_ok (length (rw_columns rows)) r \<Longrightarrow> \<exists>mc'. fetch env rows seen mc = Some (Inr (seen @ rs), mc')"
proof (induction rs arbitrary: mc seen)
  case Nil
  have "net_view mc = (bs, Some e)" using Nil.prems(6) by simp
  then obtain mc' where "rows_Next env (length (rw_columns rows)) rows mc = Some (Inl (Error ErrBadConn), mc')"
    using rows_Next_cut[OF Nil.prems(1,2,4) _ Nil.prems(7)] by blast
  then show ?case by (subst fetch.simps) simp
next
  case (Cons r rs)
  let ?p = "row_packet r"
  have r: "length r = length (rw_columns rows)" "\<forall>c \<in> set r. short_cell c" "length ?p mod maxPacketSize \<noteq> 0" "r \<noteq> []"
    using Cons.prems(5,8) by (auto simp: row_ok_def)
  have v: "net_view mc = (packets ?p (mc_sequence mc) @ wire (map row_packet rs)
      (mc_sequence mc + of_nat (length ?p div maxPacketSize + 1)) @ bs, Some e)"
    using Cons.prems(6) by simp
  obtain vs b where b: "rows_Next env (length r) rows mc = Some (Inr (Some vs, rows), advanced ?p b mc)"
    "map (shown (advanced ?p b mc)) vs = r" "buffer_ok b" "view b = (wire (map row_packet rs)
      (mc_sequence mc + of_nat (length ?p div maxPacketSize + 1)) @ bs, Some e)"
    by (rule rows_Next_row[OF Cons.prems(1-4) v r(4,2,3)])
  have "fetch env rows seen mc = fetch env rows (seen @ [r]) (advanced ?p b mc)"
    using b(1,2) by (subst fetch.simps) (simp add: r(1))
  moreover have "\<exists>mc'. fetch env rows (seen @ [r]) (advanced ?p b mc) = Some (Inr ((seen @ [r]) @ rs), mc')"
    by (rule Cons.IH) (use Cons.prems b(3,4) in simp_all)
  ultimately show ?case by simp
qed

lemma query_cut:
  assumes "conn_ok mc" "mc_open mc" "wt_room (mc_net mc) = None" "\<not> mc_parseTime mc"
    and "mc_buf mc = Some b" "bf_length b = 0" "int (length query) < mc_maxPacketAllowed mc"
    and "cols \<noteq> []" "length cols \<le> 250" "\<forall>c \<in> set cols. column_ok c" "\<forall>r \<in> set rs. row_ok (length cols) r"
    and "net_view mc = (wire (appendLengthEncodedInteger [] (of_nat (length cols)) # map column_packet cols @ eof_packet # map row_packet rs)
      (answer_at query) @ bs, Some e)" "length bs < 4"
  shows "\<exists>rows m1 m2. conn_Query env fuel query ([] :: 'v list) mc = Some (Inr rows, m1) \<and> fetch env rows [] m1 = Some (Inr rs, m2)"
proof -
  let ?rows = "\<lparr>rw_columns = map field_of cols, rw_live = True\<rparr>"
  obtain m where m: "conn_Query env fuel query ([] :: 'v list) mc = Some (Inr ?rows, m)" "conn_ok m" "mc_open m" "\<not> mc_parseTime m"
    "net_view m = (wire (map row_packet rs) (mc_sequence m) @ bs, Some e)"
    using query_columns[OF assms(1-10,12), of env fuel] by auto
  obtain m2 where "fetch env ?rows [] m = Some (Inr rs, m2)"
    using fetch_cut[OF m(2-4) _ _ m(5) assms(13), of ?rows env "[]"] assms(8,11) by auto
  then show ?thesis using m(1) by blast
qed

end
