(* ===== verification/MysqlProps.thy ===== *)
theory MysqlProps
  imports MysqlResult Health
begin

text \<open>
  What the MySQL driver does for the probe of a Galera node: it reads the bytes of the connection in order, takes
  packets apart as they were put together, recognises the probe's data source name and reads the rows of an
  answer; and where it does not.
\<close>

subsection \<open>Reading\<close>

text \<open>C26. \<open>readNext\<close> refines \<open>io.ReadFull\<close>: whatever the pieces in which the network delivers the bytes, and
  whatever has been buffered, moved and reallocated before, it returns exactly the next bytes of the connection
  if they come, the connection's error if that comes first, and waits otherwise.\<close>

theorem readNext_refines:
  assumes "buffer_ok b"
  shows "map_option bytes_read (readNext need b) = read_full need (view b)"
  by (rule readNext_view(1)[OF assms])

theorem readNext_refines_witness:
  "map_option bytes_read (readNext 3 (newBuffer [Chunk [1, 2], Chunk [3, 4], Failure IoEOF])) = Some (Inr [1, 2, 3], [4], Some IoEOF)"
  using readNext_refines[OF newBuffer_ok(1), of 3 "[Chunk [1, 2], Chunk [3, 4], Failure IoEOF]"] by (simp add: newBuffer_ok(2))

text \<open>C27. A payload that one connection writes is read as the payload by the other, however the bytes are cut up on the
  way, if and only if it does not fill its packets: the empty packet that ends such a payload is taken as malformed,
  and the reader closes the connection.\<close>

theorem packet_roundtrip:
  assumes "mc_open c" "wt_room (mc_net c) = None" "limits c"
    and "writePacket (packet_header (length p) (mc_sequence c) @ p) c = Some (Inr (), c')"
    and "wt_out (mc_net c') = wt_out (mc_net c) @ out"
    and "conn_ok r" "mc_sequence r = mc_sequence c" "net_view r = (out @ rest, en)"
  shows "(\<exists>s r'. readPacket r = Some (Inr s, r') \<and> bytes_of r' s = p \<and> net_view r' = (rest, en) \<and> mc_sequence r' = mc_sequence c') \<longleftrightarrow>
    length p mod maxPacketSize \<noteq> 0"
proof -
  have "int (length p) \<le> mc_maxPacketAllowed c"
    using writePacket_refuses[OF assms(3) _ length_header, of p "length p" "mc_sequence c"] assms(4) by (cases "int (length p) \<le> mc_maxPacketAllowed c") simp_all
  then have c': "c' = sent (packets p (mc_sequence c)) (length p div maxPacketSize + 1) c"
    using writePacket_sends[OF assms(1-3)] assms(4) by simp
  then have "out = packets p (mc_sequence r)" using assms(5,7) by simp
  then have "reads_back p rest en r" using packets_read_back[OF assms(6), of p rest en] assms(8) by simp
  then show ?thesis
    using assms(7) c' by (auto simp: reads_back_def bytes_of_def net_view_def split: if_splits)
qed

definition ex_conn :: "arrival list \<Rightarrow> mysqlConn" where
  "ex_conn rd = new_conn new_config rd None"

lemma ex_conn_facts [simp]:
  "mc_open (ex_conn rd)" "wt_room (mc_net (ex_conn rd)) = None" "limits (ex_conn rd)" "conn_ok (ex_conn rd)"
  "mc_sequence (ex_conn rd) = 0" "net_view (ex_conn rd) = incoming rd" "wt_out (mc_net (ex_conn rd)) = []"
  "mc_maxPacketAllowed (ex_conn rd) = int maxPacketSize"
  by (simp_all add: ex_conn_def new_conn_def limits_def conn_ok_def newBuffer_ok net_view_def)

theorem packet_roundtrip_witness:
  "\<exists>s r'. readPacket (ex_conn [Chunk [1, 0], Chunk [0, 0, 7, 9]]) = Some (Inr s, r') \<and> bytes_of r' s = [7]"
proof -
  have m: "maxPacketSize = 16777215" by (simp add: maxPacketSize_def)
  have p: "packets [7] 0 = [1, 0, 0, 0, 7]" by (subst packets.simps) (simp add: m packet_header_def put_len_def)
  have w: "writePacket (packet_header (length [7 :: byte]) (mc_sequence (ex_conn [])) @ [7]) (ex_conn []) =
      Some (Inr (), sent [1, 0, 0, 0, 7] 1 (ex_conn []))"
    by (subst writePacket_sends) (simp_all add: p m)
  show ?thesis
    using packet_roundtrip[OF _ _ _ w, of "[1, 0, 0, 0, 7]" "ex_conn [Chunk [1, 0], Chunk [0, 0, 7, 9]]" "[9]" None] by (auto simp: m)
qed

subsection \<open>Numbers\<close>

text \<open>A number is read back as it was appended, with the length of its encoding, if and only if it is below 2^24, larger
  ones being appended as nothing; and the eight bytes of a number are read as the number if and only if it is below
  2^56, since the last byte is shifted by 54 bits.\<close>

theorem length_encoded_integers:
  "((\<forall>rest. readLengthEncodedInteger (appendLengthEncodedInteger [] n @ rest) =
       Some (n, False, length (appendLengthEncodedInteger [] n))) \<longleftrightarrow> n < 2 ^ 24) \<and>
   (readLengthEncodedInteger (0xfe # uint64ToBytes n @ rest) = Some (n, False, 9) \<longleftrightarrow> n < 2 ^ 56)"
proof -
  have big: "\<not> n < 2 ^ 24 \<Longrightarrow> appendLengthEncodedInteger [] n = []"
    by (simp add: appendLengthEncodedInteger_def word_less_nat_alt word_le_nat_alt)
  have "(\<forall>rest. readLengthEncodedInteger (appendLengthEncodedInteger [] n @ rest) =
       Some (n, False, length (appendLengthEncodedInteger [] n))) \<longleftrightarrow> n < 2 ^ 24"
  proof (cases "n < 2 ^ 24")
    case False
    then show ?thesis using big[OF False] by (auto intro!: exI[of _ "[]"])
  qed (simp add: lenenc_read)
  then show ?thesis using read_eight_right[of n] by (simp only: read_eight) simp
qed

text \<open>A server that keeps only the hash of the hash of a password accepts the answer the client computes from its
  challenge: undoing the mask with it gives the hash the stored one was made of.\<close>

theorem scramble_verifies:
  assumes "\<And>x. length (sha1 x) = 20" "password \<noteq> []"
  shows "sha1 (map2 (XOR) (scramblePassword sha1 challenge password) (sha1 (challenge @ sha1 (sha1 password)))) = sha1 (sha1 password)"
proof -
  have x: "map2 (XOR) (map2 (XOR) as bs) as = bs" if "length as = length bs" for as bs :: bytes
    using that by (induction as bs rule: list_induct2) (simp_all add: xor.left_commute xor.commute)
  show ?thesis using x assms by (simp add: scramblePassword_def Let_def)
qed

definition ex_sha1 :: "bytes \<Rightarrow> bytes" where
  "ex_sha1 x = take 20 (x @ replicate 20 (of_nat (length x)))"

theorem scramble_verifies_witness:
  "ex_sha1 (map2 (XOR) (scramblePassword ex_sha1 [1, 2] [7]) (ex_sha1 ([1, 2] @ ex_sha1 (ex_sha1 [7])))) = ex_sha1 (ex_sha1 [7])"
  by (rule scramble_verifies) (simp_all add: ex_sha1_def)

subsection \<open>The probe's data source name\<close>

definition probe_config :: "string \<Rightarrow> string \<Rightarrow> string \<Rightarrow> int \<Rightarrow> mysql_config" where
  "probe_config user pass host t =
    new_config\<lparr>cf_user := user, cf_passwd := pass, cf_net := ''tcp'', cf_addr := host, cf_timeout := t, cf_loc := Some ''UTC''\<rparr>"

lemma timeout_param:
  "dl_ParseDuration lib ''1s'' = Inr t \<Longrightarrow> parseDSNParams lib reg cfg ''timeout=1s'' = Inr (cfg\<lparr>cf_timeout := t\<rparr>)"
proof -
  have "SplitN ''timeout=1s'' ''&'' (Suc (length ''timeout=1s'')) = [''timeout=1s'']" by (simp add: cut_char)
  moreover have "SplitN ''timeout=1s'' ''='' 2 = [''timeout'', ''1s'']" by (simp add: numeral_2_eq_2 cut_char)
  moreover assume "dl_ParseDuration lib ''1s'' = Inr t"
  ultimately show ?thesis
    by (simp add: parseDSNParams_def Split_def set_param_def lib_result_def)
qed

lemma parse_probe_dsn:
  assumes "CHR '':'' \<notin> set user" "CHR ''@'' \<notin> set host" "host \<noteq> ''''" "dl_ParseDuration lib ''1s'' = Inr t"
  shows "parseDSN lib reg (dsn user pass host) = Inr (probe_config user pass host t)"
proof -
  let ?A = "user @ '':'' @ pass" and ?tail = "''?timeout=1s''"
  let ?d = "dsn user pass host"
  define i where "i = length user + length pass + length host + 7"
  have d: "?d = ?A @ ''@tcp('' @ host @ '')/'' @ ?tail" by (simp add: dsn_def)
  have slash: "index_down (CHR ''/'') ?d (length ?d) = Some i"
    by (rule index_down_parts[of _ ?tail _ "?A @ ''@tcp('' @ host @ '')''" "[]"]) (simp_all add: d i_def)
  have at: "index_down (CHR ''@'') ?d (Suc i) = Some (length ?A)"
    by (rule index_down_parts[of _ "''tcp('' @ host @ '')/''" _ ?A ?tail]) (use assms(2) in \<open>simp_all add: d i_def\<close>)
  have colon: "index_up (CHR '':'') ?d 0 (length ?A) = length user"
    by (rule index_up_parts[OF assms(1), of _ "[]" "pass @ ''@tcp('' @ host @ '')/'' @ ?tail"]) (simp_all add: d)
  have pw: "slice_of ?d (length user + 1) (length ?A) = pass"
    by (rule slice_of_parts[of _ "user @ '':''" pass "''@tcp('' @ host @ '')/'' @ ?tail"]) (simp_all add: d)
  have us: "slice_of ?d 0 (length user) = user"
    by (rule slice_of_parts[of _ "[]" user "'':'' @ pass @ ''@tcp('' @ host @ '')/'' @ ?tail"]) (simp_all add: d)
  have u: "parse_user ?d i new_config = (new_config\<lparr>cf_passwd := pass, cf_user := user\<rparr>, Suc (length ?A))"
    using at colon pw us by (simp add: parse_user_def Let_def)
  have open_b: "index_up (CHR ''('') ?d (Suc (length ?A)) i = length ?A + 4"
    by (rule index_up_parts[of _ "''tcp''" _ "?A @ ''@''" "host @ '')/'' @ ?tail"]) (simp_all add: d i_def)
  have close_b: "?d ! (i - 1) = CHR '')''"
  proof -
    have "i - 1 = length (?A @ ''@tcp('' @ host)" by (simp add: i_def)
    moreover have "?d = (?A @ ''@tcp('' @ host) @ CHR '')'' # ''/'' @ ?tail" by (simp add: d)
    ultimately show ?thesis by (metis nth_append_length)
  qed
  have addr: "slice_of ?d (length ?A + 4 + 1) (i - 1) = host"
    by (rule slice_of_parts[of _ "?A @ ''@tcp(''" host "'')/'' @ ?tail"]) (simp_all add: d i_def)
  have net: "slice_of ?d (Suc (length ?A)) (length ?A + 4) = ''tcp''"
    by (rule slice_of_parts[of _ "?A @ ''@''" "''tcp''" "''('' @ host @ '')/'' @ ?tail"]) (simp_all add: d)
  have n: "parse_net ?d (Suc (length ?A)) i cfg = Inr (cfg\<lparr>cf_addr := host, cf_net := ''tcp''\<rparr>)" for cfg
    unfolding parse_net_def open_b Let_def close_b addr net by (simp add: i_def)
  have q: "index_up (CHR ''?'') ?d (i + 1) (length ?d) = i + 1"
    by (rule index_up_parts[of _ "[]" _ "?A @ ''@tcp('' @ host @ '')/''" "''timeout=1s''"]) (simp_all add: d i_def)
  have dr: "drop (i + 1 + 1) ?d = ''timeout=1s''"
  proof -
    have "i + 1 + 1 = length (?A @ ''@tcp('' @ host @ '')/?'')" by (simp add: i_def)
    moreover have "?d = (?A @ ''@tcp('' @ host @ '')/?'') @ ''timeout=1s''" by (simp add: d)
    ultimately show ?thesis by (metis append_eq_conv_conj)
  qed
  have db: "parse_db lib reg ?d i cfg = Inr (cfg\<lparr>cf_timeout := t, cf_dbname := ''''\<rparr>)" for cfg
  proof -
    have "i + 1 < length ?d" by (simp add: d i_def)
    then show ?thesis
      using timeout_param[OF assms(4), of reg cfg] unfolding parse_db_def q Let_def dr by (simp add: slice_of_def)
  qed
  have i: "0 < i" by (simp add: i_def)
  show ?thesis
    unfolding parseDSN_def slash option.case u prod.case n if_P[OF i] sum.case db
    using assms(3) by (simp add: default_net_def default_loc_def probe_config_def new_config_def)
qed

text \<open>C28. The probe of a Galera node names the node, the user and the password as configured and a timeout of a
  second: the driver dials the host over TCP with that timeout, provided that the user name has no colon and
  the host no @, whatever the password holds.\<close>

theorem probe_dsn:
  assumes "CHR '':'' \<notin> set user" "CHR ''@'' \<notin> set host" "host \<noteq> ''''" "dl_ParseDuration lib ''1s'' = Inr t"
  shows "parseDSN lib reg (dsn user pass host) = Inr (probe_config user pass host t)"
  by (rule parse_probe_dsn[OF assms])

definition ex_lib :: dsn_lib where
  "ex_lib = \<lparr>dl_QueryUnescape = Inr, dl_LoadLocation = Inr,
     dl_ParseDuration = (\<lambda>d. if d = ''1s'' then Inr 1000000000 else Inl ''invalid duration'')\<rparr>"

theorem probe_dsn_witness:
  "parseDSN ex_lib [] (dsn ''root'' ''p:a@s/s'' ''db1:3306'') = Inr (probe_config ''root'' ''p:a@s/s'' ''db1:3306'' 1000000000)"
  by (rule probe_dsn) (simp_all add: ex_lib_def)

text \<open>C25. The timeout ends the dialling only: against a server that accepts the connection and then says nothing, or
  stops within its first four bytes, opening the probe's connection never returns, and with it the round of checks.\<close>

theorem silent_server_blocks_probe:
  assumes "CHR '':'' \<notin> set user" "CHR ''@'' \<notin> set host" "host \<noteq> ''''"
    and "dl_ParseDuration (me_lib env) ''1s'' = Inr t"
    and "me_dial env t ''tcp'' host = Inr (rd, room)" "incoming rd = (bs, None)" "length bs < 4"
  shows "driver_Open env fuel (dsn user pass host) = None"
proof -
  let ?mc = "new_conn (probe_config user pass host t) rd room"
  have "conn_ok ?mc" "net_view ?mc = (bs, None)"
    using assms(6) by (simp_all add: new_conn_def conn_ok_def limits_def newBuffer_ok net_view_def)
  then have "readPacket ?mc = None" using assms(7) by (rule readPacket_waits)
  then have "handshake env fuel ?mc = None"
    by (simp add: handshake_def seq_def or_close_def attempt_def readInitPacket_def with_packet_def)
  then show ?thesis
    using parse_probe_dsn[OF assms(1-4)] assms(5) by (simp add: driver_Open_def probe_config_def new_config_def)
qed

definition ex_env :: "arrival list \<Rightarrow> mysql_env" where
  "ex_env rd = \<lparr>me_lib = ex_lib, me_tls = [], me_sha1 = ex_sha1, me_dial = (\<lambda>t net addr. Inr (rd, None)),
     me_upgrade = (\<lambda>t rd w. Inr (rd, w)), me_fileRegister = [], me_open_file = (\<lambda>f. Inl ''none''),
     me_close_file = (\<lambda>f. None), me_close_reader = (\<lambda>f. None), me_readers = (\<lambda>r. None), me_params = (\<lambda>ps. ps),
     me_parse_time = (\<lambda>n s. Inl ''none''), me_in_location = (\<lambda>l t. t)\<rparr>"

theorem silent_server_blocks_probe_witness:
  "driver_Open (ex_env [Chunk [74, 0]]) 5 (dsn ''root'' ''secret'' ''db1:3306'') = None"
  by (rule silent_server_blocks_probe[where t = 1000000000 and rd = "[Chunk [74, 0]]" and room = None and bs = "[74, 0]"])
    (simp_all add: ex_env_def ex_lib_def)

subsection \<open>Rows\<close>

text \<open>A row that a server encodes, NULL or bytes in each column, is what \<open>Next\<close> puts into its destinations, if its
  cells are below 16 MB and it does not fill whole packets; what follows it on the connection is untouched.\<close>

theorem rows_Next_decodes:
  assumes "conn_ok mc" "mc_open mc" "\<not> mc_parseTime mc" "rw_live rows"
    and "net_view mc = (packets (row_packet cells) (mc_sequence mc) @ rest, en)"
    and "cells \<noteq> []" "\<forall>c \<in> set cells. short_cell c" "length (row_packet cells) mod maxPacketSize \<noteq> 0"
  shows "\<exists>vs mc'. rows_Next env (length cells) rows mc = Some (Inr (Some vs, rows), mc') \<and>
    map (shown mc') vs = cells \<and> net_view mc' = (rest, en)"
  using rows_Next_row[OF assms] by (metis advanced_facts(5))

lemma ex_conn_parse [simp]: "\<not> mc_parseTime (ex_conn rd)" "\<not> mc_strict (ex_conn rd)"
  by (simp_all add: ex_conn_def new_conn_def)

definition ex_rows :: textRows where "ex_rows = \<lparr>rw_columns = [], rw_live = True\<rparr>"

lemma ex_rows_live [simp]: "rw_live ex_rows" by (simp add: ex_rows_def)

lemma ex_row: "row_packet [Some [79, 78], None] = [2, 79, 78, 0xfb]"
  by (simp add: row_packet_def cell_def appendLengthEncodedInteger_def)

lemma max_packet: "maxPacketSize = 16777215" by (simp add: maxPacketSize_def)

theorem rows_Next_decodes_witness:
  "\<exists>vs mc'. rows_Next (ex_env []) 2 ex_rows (ex_conn [Chunk (packets (row_packet [Some [79, 78], None]) 0)]) = Some (Inr (Some vs, ex_rows), mc') \<and>
    map (shown mc') vs = [Some [79, 78], None]"
  using rows_Next_decodes[of "ex_conn [Chunk (packets (row_packet [Some [79, 78], None]) 0)]" ex_rows "[Some [79, 78], None]" "[]" None "ex_env []"]
  by (auto simp: short_cell_def ex_row max_packet simp flip: numeral_2_eq_2)

text \<open>A row whose first field is longer than its packet is not an error to the reader of the rows: \<open>Next\<close> reports the end
  of the rows, as after the last row.\<close>

theorem truncated_row_ends_rows:
  assumes "conn_ok mc" "mc_open mc" "rw_live rows"
    and "net_view mc = (packets p (mc_sequence mc) @ rest, en)" "length p mod maxPacketSize \<noteq> 0"
    and "readLengthEnodedString p = Some (None, isNull, m, True)"
  shows "\<exists>mc'. rows_Next env (Suc n) rows mc = Some (Inr (None, rows\<lparr>rw_live := False\<rparr>), mc') \<and> net_view mc' = (rest, en)"
proof -
  obtain x b' where b: "view b' = (rest, en)"
    "\<And>f :: slice \<Rightarrow> bytes \<Rightarrow> bytes \<Rightarrow> row_value list call. with_packet f mc = f x p (whole b' x)
      (mc\<lparr>mc_sequence := mc_sequence mc + of_nat (length p div maxPacketSize + 1), mc_buf := Some b'\<rparr>)"
    by (rule with_packet_payload[OF assms(1,4,5)]) blast
  have "p \<noteq> []" using assms(5) by auto
  then have "readRow env (rw_columns rows) (Suc n) mc = Some (Inl (Error ReadEOF),
      mc\<lparr>mc_sequence := mc_sequence mc + of_nat (length p div maxPacketSize + 1), mc_buf := Some b'\<rparr>)"
    unfolding readRow_def b(2)
    using assms(6) by (simp add: seq_def byte_at_def ret_def raise_def read_string_def tail_of_def in_range_def)
  then show ?thesis
    using assms(2,3) b(1) by (simp add: rows_Next_def inspect_def attempt_def ret_def)
qed

theorem truncated_row_ends_rows_witness:
  "\<exists>mc'. rows_Next (ex_env []) 2 ex_rows (ex_conn [Chunk (packets [9, 79, 78] 0)]) = Some (Inr (None, ex_rows\<lparr>rw_live := False\<rparr>), mc')"
proof -
  have "readLengthEnodedString [9, 79, 78] = Some (None, False, 10, True)"
    by (simp add: readLengthEnodedString_def string_end_def)
  then show ?thesis
    using truncated_row_ends_rows[of "ex_conn [Chunk (packets [9, 79, 78] 0)]" ex_rows "[9, 79, 78]" "[]" None False 10 "ex_env []" 1]
    by (auto simp: max_packet simp flip: numeral_2_eq_2)
qed

subsection \<open>The server's limit\<close>

lemma eof_length: "length eof_packet = 5" "eof_packet \<noteq> []"
  by (simp_all add: eof_packet_def)

lemma eof_bytes: "packets eof_packet s = packet_header 5 s @ eof_packet" "length (packets eof_packet s) = 9"
  by (simp_all add: packets_one eof_length maxPacketSize_def)

lemma eof_buffered:
  assumes "mc_buf m = Some b" "9 \<le> bf_length b" "take 9 (drop (bf_idx b) (bf_buf b)) = packets eof_packet (mc_sequence m)"
  shows "readUntilEOF m = Some (Inr (), m\<lparr>mc_sequence := mc_sequence m + 1,
    mc_buf := Some (b\<lparr>bf_idx := bf_idx b + 9, bf_length := bf_length b - 9\<rparr>)\<rparr>)"
proof -
  have r: "readPacket m = Some (Inr (InBuf (length (bf_retired b)) (bf_idx b + 4) 5), m\<lparr>mc_sequence := mc_sequence m + 1,
      mc_buf := Some (b\<lparr>bf_idx := bf_idx b + 9, bf_length := bf_length b - 9\<rparr>)\<rparr>)"
    using readPacket_buffered[OF assms(1), of eof_packet] assms(2,3) eof_bytes by (simp add: maxPacketSize_def eof_length add.commute)
  have "take 5 (drop (bf_idx b + 4) (bf_buf b)) = drop 4 (take 9 (drop (bf_idx b) (bf_buf b)))"
    by (simp add: drop_take add.commute)
  also have "\<dots> = eof_packet" unfolding assms(3) by (simp add: eof_bytes)
  finally have d: "take 5 (drop (bf_idx b + 4) (bf_buf b)) = eof_packet" .
  show ?thesis
    by (rule readUntilEOF_one[OF r, of "b\<lparr>bf_idx := bf_idx b + 9, bf_length := bf_length b - 9\<rparr>" "tl eof_packet"])
      (simp_all add: array_def d, simp add: eof_packet_def iEOF_def)
qed

lemma eof_filled:
  assumes "mc_buf m = Some b" "buffer_ok b" "bf_length b = 0" "bf_rd b = [Chunk (packets eof_packet (mc_sequence m))]"
  shows "readUntilEOF m = Some (Inr (), m\<lparr>mc_sequence := mc_sequence m + 1,
    mc_buf := Some ((after_fill (packets eof_packet (mc_sequence m)) [] b)\<lparr>bf_idx := 9, bf_length := 0\<rparr>)\<rparr>)"
proof -
  let ?e = "packets eof_packet (mc_sequence m)"
  let ?m = "m\<lparr>mc_buf := Some (after_fill ?e [] b)\<rparr>"
  have "length ?e \<le> length (bf_buf b)" using assms(2) by (simp add: eof_bytes(2) buffer_ok_def defaultBufSize_def)
  then have "take 9 (bf_buf (after_fill ?e [] b)) = ?e"
    using take_blit_0[of ?e "bf_buf b"] by (simp add: after_fill_def eof_bytes(2))
  then have "readUntilEOF ?m = Some (Inr (), ?m\<lparr>mc_sequence := mc_sequence m + 1,
      mc_buf := Some ((after_fill ?e [] b)\<lparr>bf_idx := 9, bf_length := 0\<rparr>)\<rparr>)"
    using eof_buffered[of ?m "after_fill ?e [] b"] by (simp add: after_fill_def eof_bytes(2))
  moreover have "readPacket m = readPacket ?m"
    by (rule readPacket_filled[OF assms]) (simp_all add: eof_bytes(2) defaultBufSize_def)
  then have "readUntilEOF m = readUntilEOF ?m" by (subst (1 2) readUntilEOF.simps) (simp add: with_packet_def seq_def)
  ultimately show ?thesis by simp
qed

text \<open>The value is read and then the end of the result set, in a piece with it or behind it.\<close>

lemma system_var_read:
  assumes "mc_buf mc = Some b" "buffer_ok b" "bf_length b = 0" "\<not> mc_parseTime mc" "v \<noteq> []" "length v \<le> 250"
    and "c = packets (row_packet [Some v]) (mc_sequence mc) @ behind" "bf_rd b = Chunk c # as" "length c \<le> defaultBufSize"
    and "readUntilEOF (mc\<lparr>mc_sequence := mc_sequence mc + 1,
        mc_buf := Some ((after_fill c as b)\<lparr>bf_idx := 5 + length v, bf_length := length behind\<rparr>)\<rparr>) = Some (Inr (), mc')"
    and "mc_buf mc' = Some b'" "bf_retired b' = bf_retired b"
  shows "\<exists>x mc'. system_var_value env 1 mc = Some (Inr x, mc') \<and> bytes_of mc' x = take (length v) (drop 5 (bf_buf b'))"
  using readRow_first[OF assms(1-9), of env] assms(10-12)
  by (simp add: system_var_value_def seq_def ret_def bytes_of_def array_def)

lemma row_length:
  assumes "v \<noteq> []" "length v \<le> 250"
  shows "packets (row_packet [Some v]) s = packet_header (Suc (length v)) s @ of_nat (length v) # v"
  using short_string_read(2)[OF assms] assms(2) by (simp add: packets_one maxPacketSize_def)

lemma system_var_one_piece:
  assumes "mc_buf mc = Some b" "buffer_ok b" "bf_length b = 0" "\<not> mc_parseTime mc" "v \<noteq> []" "length v \<le> 250"
    and "c = packets (row_packet [Some v]) (mc_sequence mc) @ packets eof_packet (mc_sequence mc + 1)" "bf_rd b = [Chunk c]"
  shows "\<exists>x mc'. system_var_value env 1 mc = Some (Inr x, mc') \<and> bytes_of mc' x = v"
proof -
  let ?row = "packets (row_packet [Some v]) (mc_sequence mc)" and ?eof = "packets eof_packet (mc_sequence mc + 1)"
  note row = row_length[OF assms(5,6), of "mc_sequence mc"]
  have l: "length c = 14 + length v" by (simp add: assms(7) row eof_bytes(2))
  have lc: "length c \<le> length (bf_buf b)" "length c \<le> defaultBufSize"
    using assms(2,6) by (simp_all add: l buffer_ok_def defaultBufSize_def)
  have t: "take (14 + length v) (blit (bf_buf b) 0 c) = c" using take_blit_0[OF lc(1)] by (simp add: l)
  have "take 9 (drop (5 + length v) (blit (bf_buf b) 0 c)) = drop (5 + length v) (take (14 + length v) (blit (bf_buf b) 0 c))"
    by (simp add: drop_take)
  also have "\<dots> = ?eof" unfolding t by (simp add: assms(7) row)
  finally have e: "take 9 (drop (5 + length v) (blit (bf_buf b) 0 c)) = ?eof" .
  have "take (length v) (drop 5 (blit (bf_buf b) 0 c)) = take (length v) (drop 5 (take (14 + length v) (blit (bf_buf b) 0 c)))"
    by (simp add: drop_take)
  also have "\<dots> = v" unfolding t by (simp add: assms(7) row)
  finally have val: "take (length v) (drop 5 (blit (bf_buf b) 0 c)) = v" .
  define m1 where "m1 = mc\<lparr>mc_sequence := mc_sequence mc + 1,
    mc_buf := Some ((after_fill c [] b)\<lparr>bf_idx := 5 + length v, bf_length := length ?eof\<rparr>)\<rparr>"
  have r: "readUntilEOF m1 = Some (Inr (), m1\<lparr>mc_sequence := mc_sequence m1 + 1,
      mc_buf := Some ((after_fill c [] b)\<lparr>bf_idx := 5 + length v + 9, bf_length := 0\<rparr>)\<rparr>)"
    using eof_buffered[of m1 "(after_fill c [] b)\<lparr>bf_idx := 5 + length v, bf_length := length ?eof\<rparr>"] e
    by (simp add: m1_def after_fill_def eof_bytes(2))
  show ?thesis
    using system_var_read[OF assms(1-8) lc(2) r[unfolded m1_def], of _ env] val by (simp add: after_fill_def)
qed

lemma system_var_two_pieces:
  assumes "mc_buf mc = Some b" "buffer_ok b" "bf_length b = 0" "\<not> mc_parseTime mc" "4 \<le> length v" "length v \<le> 250"
    and "bf_rd b = [Chunk (packets (row_packet [Some v]) (mc_sequence mc)), Chunk (packets eof_packet (mc_sequence mc + 1))]"
  shows "\<exists>x mc'. system_var_value env 1 mc = Some (Inr x, mc') \<and> bytes_of mc' x = [0, 0, 2, 0] @ drop 4 v"
proof -
  let ?row = "packets (row_packet [Some v]) (mc_sequence mc)" and ?eof = "packets eof_packet (mc_sequence mc + 1)"
  have v: "v \<noteq> []" using assms(5) by auto
  note row = row_length[OF v assms(6), of "mc_sequence mc"]
  have l: "length ?row = 5 + length v" by (simp add: row)
  have lc: "length ?row \<le> length (bf_buf b)" "length ?row \<le> defaultBufSize" "9 \<le> length (bf_buf b)"
    using assms(2,6) by (simp_all add: l buffer_ok_def defaultBufSize_def)
  define m1 where "m1 = mc\<lparr>mc_sequence := mc_sequence mc + 1,
    mc_buf := Some ((after_fill ?row [Chunk ?eof] b)\<lparr>bf_idx := 5 + length v, bf_length := length ([] :: bytes)\<rparr>)\<rparr>"
  have r: "readUntilEOF m1 = Some (Inr (), m1\<lparr>mc_sequence := mc_sequence m1 + 1,
      mc_buf := Some ((after_fill ?eof [] ((after_fill ?row [Chunk ?eof] b)\<lparr>bf_idx := 5 + length v, bf_length := 0\<rparr>))\<lparr>bf_idx := 9, bf_length := 0\<rparr>)\<rparr>)"
    using eof_filled[of m1 "(after_fill ?row [Chunk ?eof] b)\<lparr>bf_idx := 5 + length v, bf_length := 0\<rparr>"] assms(2) lc
    by (simp add: m1_def after_fill_def buffer_ok_def l)
  have "take (length v - 4) (drop 9 (blit (bf_buf b) 0 ?row)) = drop 9 (take (5 + length v) (blit (bf_buf b) 0 ?row))"
    by (simp add: drop_take)
  also have "\<dots> = drop 4 v" using take_blit_0[OF lc(1)] by (simp add: l) (simp add: row)
  finally have tail: "take (length v - 4) (drop 9 (blit (bf_buf b) 0 ?row)) = drop 4 v" .
  obtain k where "length v = 4 + k" using le_Suc_ex[OF assms(5)] by auto
  then have k: "length v = Suc (Suc (Suc (Suc k)))" by simp
  have "drop 5 ?eof = [0, 0, 2, 0]" by (simp add: eof_bytes(1)) (simp add: eof_packet_def)
  then have "take (length v) (drop 5 (blit (blit (bf_buf b) 0 ?row) 0 ?eof)) = [0, 0, 2, 0] @ drop 4 v"
    using lc tail eof_bytes(2)[of "mc_sequence mc + 1"] by (simp add: blit_def[of _ _ ?eof] k)
  then show ?thesis
    using system_var_read[OF assms(1-4) v assms(6) _ assms(7) lc(2) r[unfolded m1_def], of _ env]
    by (simp add: after_fill_def)
qed

text \<open>What \<open>getSystemVar\<close> returns, and so the limit on packets that is taken from it, depends on how the network cuts
  up the server's answer: if the row and the end of the result set come in one piece, it is the value; if the end
  comes in a piece of its own, it has overwritten the first four bytes of the value by the time the value is used.\<close>

theorem system_var_depends_on_pieces:
  assumes "mc_buf mc = Some b" "buffer_ok b" "bf_length b = 0" "\<not> mc_parseTime mc" "4 \<le> length v" "length v \<le> 250"
    and "row = packets (row_packet [Some v]) (mc_sequence mc)" "eof = packets eof_packet (mc_sequence mc + 1)"
  shows "(\<exists>x mc'. system_var_value env 1 (mc\<lparr>mc_buf := Some (b\<lparr>bf_rd := [Chunk (row @ eof)]\<rparr>)\<rparr>) = Some (Inr x, mc') \<and>
      bytes_of mc' x = v) \<and>
    (\<exists>x mc'. system_var_value env 1 (mc\<lparr>mc_buf := Some (b\<lparr>bf_rd := [Chunk row, Chunk eof]\<rparr>)\<rparr>) = Some (Inr x, mc') \<and>
      bytes_of mc' x = [0, 0, 2, 0] @ drop 4 v)"
proof
  have b: "buffer_ok (b\<lparr>bf_rd := rd\<rparr>)" for rd using assms(2) by (simp add: buffer_ok_def)
  have v: "v \<noteq> []" using assms(5) by auto
  show "\<exists>x mc'. system_var_value env 1 (mc\<lparr>mc_buf := Some (b\<lparr>bf_rd := [Chunk (row @ eof)]\<rparr>)\<rparr>) = Some (Inr x, mc') \<and> bytes_of mc' x = v"
    by (rule system_var_one_piece[OF _ b]) (use assms v in simp_all)
  show "\<exists>x mc'. system_var_value env 1 (mc\<lparr>mc_buf := Some (b\<lparr>bf_rd := [Chunk row, Chunk eof]\<rparr>)\<rparr>) = Some (Inr x, mc') \<and>
      bytes_of mc' x = [0, 0, 2, 0] @ drop 4 v"
    by (rule system_var_two_pieces[OF _ b]) (use assms in simp_all)
qed

theorem system_var_depends_on_pieces_witness:
  "(\<exists>x mc'. system_var_value (ex_env []) 1 ((ex_conn [])\<lparr>mc_buf := Some ((newBuffer [])\<lparr>bf_rd :=
      [Chunk (packets (row_packet [Some [49, 48, 50, 52]]) 0 @ packets eof_packet 1)]\<rparr>)\<rparr>) = Some (Inr x, mc') \<and>
      bytes_of mc' x = [49, 48, 50, 52]) \<and>
    (\<exists>x mc'. system_var_value (ex_env []) 1 ((ex_conn [])\<lparr>mc_buf := Some ((newBuffer [])\<lparr>bf_rd :=
      [Chunk (packets (row_packet [Some [49, 48, 50, 52]]) 0), Chunk (packets eof_packet 1)]\<rparr>)\<rparr>) = Some (Inr x, mc') \<and>
      bytes_of mc' x = [0, 0, 2, 0])"
proof -
  have "mc_buf (ex_conn []) = Some (newBuffer [])" "bf_length (newBuffer []) = 0"
    by (simp_all add: ex_conn_def new_conn_def newBuffer_def)
  from system_var_depends_on_pieces[OF this(1) newBuffer_ok(1) this(2), of "[49, 48, 50, 52]" "packets (row_packet [Some [49, 48, 50, 52]]) 0"
      "packets eof_packet 1" "ex_env []"]
  show ?thesis by simp
qed

subsection \<open>Malformed packets\<close>

text \<open>A reply to the login makes the driver panic, which nobody recovers in the goroutine of a probe, exactly if it is an
  OK packet without its two numbers, or an error packet that is cut off before its message.\<close>

theorem login_reply_panics_iff:
  assumes "conn_ok mc" "\<not> mc_strict mc" "net_view mc = (packets p (mc_sequence mc) @ rest, en)" "length p mod maxPacketSize \<noteq> 0"
  shows "(\<exists>q mc'. readResultOK warn mc = Some (Inl (Crash q), mc')) \<longleftrightarrow>
    p ! 0 = iOK \<and> (case readLengthEncodedInteger (drop 1 p) of None \<Rightarrow> True
       | Some (rows, isNull, n) \<Rightarrow> readLengthEncodedInteger (drop (1 + n) p) = None) \<or>
    p ! 0 = iERR \<and> (length p \<le> 3 \<or> p ! 3 = 0x23 \<and> length p < 9)"
proof -
  obtain x b' where b: "deref b' x = p"
    "\<And>f :: slice \<Rightarrow> bytes \<Rightarrow> bytes \<Rightarrow> unit call. with_packet f mc = f x p (whole b' x)
      (mc\<lparr>mc_sequence := mc_sequence mc + of_nat (length p div maxPacketSize + 1), mc_buf := Some b'\<rparr>)"
    by (rule with_packet_payload[OF assms(1,3,4)]) blast
  have ne: "p \<noteq> []" using assms(4) by auto
  have w: "length p \<le> length (whole b' x)" using b(1) by (cases x) auto
  have codes: "iOK \<noteq> iERR" "iOK \<noteq> iEOF" "iERR \<noteq> iEOF" by (simp_all add: iOK_def iERR_def iEOF_def)
  note calls = seq_def byte_at_def ret_def raise_def crash_def in_range_def modify_def inspect_def sub_def tail_of_def Let_def
  consider "p ! 0 = iOK" | "p ! 0 = iEOF" | "p ! 0 = iERR" | "p ! 0 \<notin> {iOK, iEOF, iERR}" by blast
  then show ?thesis
  proof cases
    case 1
    then show ?thesis using codes ne assms(2)
      by (auto simp: readResultOK_def b(2) handleOkPacket_def calls split: option.splits)
  next
    case 2
    then show ?thesis using codes ne by (simp add: readResultOK_def b(2) calls)
  next
    case 3
    show ?thesis
    proof (cases "length p \<le> 3")
      case True
      then show ?thesis using 3 codes ne by (simp add: readResultOK_def b(2) handleErrorPacket_def calls)
    next
      case False
      then show ?thesis using 3 codes ne w by (auto simp: readResultOK_def b(2) handleErrorPacket_def calls)
    qed
  next
    case 4
    then show ?thesis using ne by (auto simp: readResultOK_def b(2) handleErrorPacket_def calls)
  qed
qed

theorem login_reply_panics_iff_witness:
  "\<exists>q mc'. readResultOK (ret ()) (ex_conn [Chunk (packets [0] 0)]) = Some (Inl (Crash q), mc')"
  using login_reply_panics_iff[of "ex_conn [Chunk (packets [0] 0)]" "[0]" "[]" None "ret ()"]
  by (simp add: max_packet iOK_def)

end
