(* ===== verification/GaleraWire.thy ===== *)
theory GaleraWire
  imports MysqlProps
begin

text \<open>
  The probe of a Galera node over the driver, from the bytes the database sends to the verdict: what
  wrangler_galera.go makes of a result set that arrives in pieces, or only in part.
\<close>

subsection \<open>The values of a row\<close>

lemma string_of_bytes [simp]: "string_of (string_bytes s) = s"
proof -
  have "char_of (unat (of_char c :: byte)) = c" for c
  proof -
    have "(of_char c :: byte) = of_nat (of_char c)"
      by (cases c) (simp only: of_char_Char horner_sum_simps, auto)
    moreover have "(of_char c :: nat) < 256" by simp
    ultimately have "unat (of_char c :: byte) = (of_char c :: nat)" by (simp add: unsigned_of_nat take_bit_eq_mod)
    then show ?thesis by simp
  qed
  then show ?thesis by (simp add: string_of_def string_bytes_def comp_def)
qed

text \<open>\<open>Scan\<close> into the new strings \<open>key\<close> and \<open>value\<close>, its error being dropped: it stops at the first value it cannot
  convert.\<close>

definition scan_pair :: "bytes option list \<Rightarrow> string \<times> string" where
  "scan_pair cells =
    (case cells of
       [Some k, Some v] \<Rightarrow> (string_of k, string_of v)
     | [Some k, None] \<Rightarrow> (string_of k, '''')
     | _ \<Rightarrow> ('''', ''''))"

text \<open>\<open>db.Query\<close> on a connection and the loop over \<open>rows.Next\<close>. A panic, which would end the process, is shown as an
  error.\<close>

definition wire_query :: "mysql_env \<Rightarrow> nat \<Rightarrow> (my_fail \<Rightarrow> string) \<Rightarrow> mysqlConn \<Rightarrow> string \<Rightarrow> (string + (string \<times> string) list) option" where
  "wire_query env fuel text mc query =
    map_option (\<lambda>(r, mc). map_sum text (map scan_pair) r)
      (seq (conn_Query env fuel query ([] :: unit list)) (\<lambda>rows. fetch env rows []) mc)"

subsection \<open>A row of two strings\<close>

definition pair_row :: "string \<times> string \<Rightarrow> bytes option list" where
  "pair_row p = [Some (string_bytes (fst p)), Some (string_bytes (snd p))]"

definition short_pair :: "string \<times> string \<Rightarrow> bool" where
  "short_pair p \<longleftrightarrow> length (fst p) + length (snd p) + 8 < maxPacketSize"

lemma scan_pair_row [simp]: "scan_pair (pair_row p) = p"
  by (simp add: scan_pair_def pair_row_def)

lemma pair_row_ok:
  assumes "short_pair p"
  shows "row_ok 2 (pair_row p)"
proof -
  have l: "length (fst p) < 2 ^ 24" "length (snd p) < 2 ^ 24" using assms by (simp_all add: short_pair_def maxPacketSize_def)
  have "length (row_packet (pair_row p)) \<le> 8 + length (fst p) + length (snd p)"
    using length_lenenc[of "of_nat (length (fst p))"] length_lenenc[of "of_nat (length (snd p))"]
    by (simp add: row_packet_def pair_row_def cell_def)
  moreover have "row_packet (pair_row p) \<noteq> []"
    using row_packet_first(1)[of "pair_row p"] l by (simp add: pair_row_def short_cell_def)
  ultimately have "length (row_packet (pair_row p)) mod maxPacketSize \<noteq> 0"
    using assms by (simp add: short_pair_def)
  then show ?thesis using l by (simp add: row_ok_def pair_row_def short_cell_def)
qed

subsection \<open>Properties\<close>

text \<open>A connection between two queries: open, writable, nothing buffered, within the server's limit.\<close>

definition query_ready :: "string \<Rightarrow> mysqlConn \<Rightarrow> bool" where
  "query_ready query mc \<longleftrightarrow> conn_ok mc \<and> mc_open mc \<and> wt_room (mc_net mc) = None \<and> \<not> mc_parseTime mc \<and>
    (case mc_buf mc of None \<Rightarrow> False | Some b \<Rightarrow> bf_length b = 0) \<and> int (length query) < mc_maxPacketAllowed mc"

lemma query_readyE:
  assumes "query_ready query mc"
  obtains b where "conn_ok mc" "mc_open mc" "wt_room (mc_net mc) = None" "\<not> mc_parseTime mc" "mc_buf mc = Some b" "bf_length b = 0"
    "int (length query) < mc_maxPacketAllowed mc"
  using assms by (auto simp: query_ready_def split: option.splits)

text \<open>C24. A query and its answer: the command goes out as one payload, and whatever the pieces in which the result set
  arrives, the caller gets the names of the columns and then the rows of the server in order, NULLs as NULLs, and the
  connection is left behind the last packet of the result set.\<close>

theorem result_set_arrives:
  assumes "query_ready query mc" "cols \<noteq> []" "length cols \<le> 250" "\<forall>c \<in> set cols. column_ok c" "\<forall>r \<in> set rs. row_ok (length cols) r"
    and "net_view mc = (wire (result_set cols rs) (answer_at query) @ rest, en)"
  shows "\<exists>rows m1 m2. conn_Query env fuel query ([] :: 'v list) mc = Some (Inr rows, m1) \<and> rows_Columns rows = map cd_name cols \<and>
    fetch env rows [] m1 = Some (Inr rs, m2) \<and> net_view m2 = (rest, en) \<and>
    wt_out (mc_net m2) = wt_out (mc_net mc) @ packets (comQuery # string_bytes query) 0"
  by (rule query_readyE[OF assms(1)]) (rule query_result[OF _ _ _ _ _ _ _ assms(2-6)])

definition ex_column :: column_def where
  "ex_column = \<lparr>cd_head = [[], [], [], []], cd_name = [120], cd_orgname = [], cd_fixed = [12, 33, 0, 0, 1, 0, 0], cd_type = 0xfd,
    cd_flags = [1, 0], cd_rest = [0, 0, 0]\<rparr>"

lemma ex_column_ok: "column_ok ex_column"
  by (simp add: column_ok_def ex_column_def short_cell_def column_packet_def row_packet_def cell_def appendLengthEncodedInteger_def max_packet)

lemma ex_ready: "length query < 1000 \<Longrightarrow> query_ready query (ex_conn rd)"
  using ex_conn_facts[of rd] by (simp add: query_ready_def ex_conn_parse) (simp add: ex_conn_def new_conn_def newBuffer_def max_packet)

lemma ex_answer: "length query < 1000 \<Longrightarrow> answer_at query = 1"
  by (simp add: answer_at_def max_packet)

theorem result_set_arrives_witness:
  "\<exists>rows m1 m2. conn_Query (ex_env []) 1 ''select 1'' ([] :: unit list)
      (ex_conn [Chunk (wire (result_set [ex_column] [[Some [49]], [None]]) 1), Failure IoEOF]) = Some (Inr rows, m1) \<and>
    rows_Columns rows = [[120]] \<and> fetch (ex_env []) rows [] m1 = Some (Inr [[Some [49]], [None]], m2) \<and> net_view m2 = ([], Some IoEOF)"
proof -
  have "row_ok 1 [Some [49]]" "row_ok 1 [None]"
    by (simp_all add: row_ok_def short_cell_def row_packet_def cell_def appendLengthEncodedInteger_def max_packet)
  moreover have "cd_name ex_column = [120]" by (simp add: ex_column_def)
  ultimately show ?thesis
    using result_set_arrives[of "''select 1''" "ex_conn [Chunk (wire (result_set [ex_column] [[Some [49]], [None]]) 1), Failure IoEOF]"
        "[ex_column]" "[[Some [49]], [None]]" "[]" "Some IoEOF" "ex_env []" 1] ex_column_ok ex_ready ex_answer
    by auto
qed

text \<open>The verdict on the rows of an answer.\<close>

lemma galeraProbe_rows:
  assumes "db_open db (dsn user pass host) = None" "db_query db (dsn user pass host) wsrep_query = Inr rows"
  shows "(snd (galeraProbe db user pass host) = None \<longleftrightarrow> last_row WsrepConnected rows = ''ON'') \<and>
    map_of (fst (galeraProbe db user pass host)) WsrepAddresses = Some (last_row WsrepAddresses rows)"
proof -
  have "WsrepConnected \<noteq> WsrepAddresses" by (simp add: WsrepConnected_def WsrepAddresses_def)
  then have "map_of (scan_rows rows [(WsrepConnected, ''''), (WsrepAddresses, '''')]) WsrepConnected = Some (last_row WsrepConnected rows)"
    "map_of (scan_rows rows [(WsrepConnected, ''''), (WsrepAddresses, '''')]) WsrepAddresses = Some (last_row WsrepAddresses rows)"
    using last_row_none[of rows] by (simp_all add: scan_rows_map)
  then show ?thesis using assms by (simp add: galeraProbe_def Let_def)
qed

text \<open>What a query of two columns gives, whether its answer is complete or is cut off.\<close>

lemma pair_rows_ok:
  "length cols = 2 \<Longrightarrow> \<forall>p \<in> set pairs. short_pair p \<Longrightarrow> \<forall>r \<in> set (map pair_row pairs). row_ok (length cols) r"
  using pair_row_ok by auto

lemma two_columns: "length cols = 2 \<Longrightarrow> cols \<noteq> [] \<and> length cols \<le> 250"
  by auto

lemma wire_query_complete:
  assumes "query_ready query mc" "length cols = 2" "\<forall>c \<in> set cols. column_ok c" "\<forall>p \<in> set pairs. short_pair p"
    and "net_view mc = (wire (result_set cols (map pair_row pairs)) (answer_at query) @ rest, en)"
  shows "wire_query env fuel text mc query = Some (Inr pairs)"
proof -
  note c = two_columns[OF assms(2), THEN conjunct1] two_columns[OF assms(2), THEN conjunct2]
  obtain rows m1 m2 where "conn_Query env fuel query ([] :: unit list) mc = Some (Inr rows, m1)"
    "fetch env rows [] m1 = Some (Inr (map pair_row pairs), m2)"
    by (rule query_readyE[OF assms(1)]) (metis query_result[OF _ _ _ _ _ _ _ c assms(3) pair_rows_ok[OF assms(2,4)] assms(5)])
  then show ?thesis by (simp add: wire_query_def seq_def comp_def)
qed

lemma wire_query_cut:
  assumes "query_ready query mc" "length cols = 2" "\<forall>c \<in> set cols. column_ok c" "\<forall>p \<in> set pairs. short_pair p"
    and "net_view mc = (wire (appendLengthEncodedInteger [] 2 # map column_packet cols @ eof_packet # map row_packet (map pair_row pairs))
      (answer_at query) @ bs, Some e)" "length bs < 4"
  shows "wire_query env fuel text mc query = Some (Inr pairs)"
proof -
  note c = two_columns[OF assms(2), THEN conjunct1] two_columns[OF assms(2), THEN conjunct2]
  have v: "net_view mc = (wire (appendLengthEncodedInteger [] (of_nat (length cols)) # map column_packet cols @ eof_packet #
      map row_packet (map pair_row pairs)) (answer_at query) @ bs, Some e)" using assms(2,5) by simp
  obtain rows m1 m2 where "conn_Query env fuel query ([] :: unit list) mc = Some (Inr rows, m1)"
    "fetch env rows [] m1 = Some (Inr (map pair_row pairs), m2)"
    by (rule query_readyE[OF assms(1)]) (metis query_cut[OF _ _ _ _ _ _ _ c assms(3) pair_rows_ok[OF assms(2,4)] v assms(6)])
  then show ?thesis by (simp add: wire_query_def seq_def comp_def)
qed

text \<open>C21. A Galera node is up exactly if the last row for \<open>wsrep_connected\<close> that its database sends says \<open>ON\<close>, and its members
  are the last row for \<open>wsrep_incoming_addresses\<close>, however the answer is cut up on its way.\<close>

theorem galera_verdict_on_the_wire:
  assumes "query_ready wsrep_query mc" "length cols = 2" "\<forall>c \<in> set cols. column_ok c" "\<forall>p \<in> set pairs. short_pair p"
    and "net_view mc = (wire (result_set cols (map pair_row pairs)) (answer_at wsrep_query) @ rest, en)"
    and "db_open db (dsn user pass host) = None"
    and "wire_query env fuel text mc wsrep_query = Some (db_query db (dsn user pass host) wsrep_query)"
  shows "(snd (galeraProbe db user pass host) = None \<longleftrightarrow> last_row WsrepConnected pairs = ''ON'') \<and>
    map_of (fst (galeraProbe db user pass host)) WsrepAddresses = Some (last_row WsrepAddresses pairs)"
  using galeraProbe_rows[OF assms(6)] wire_query_complete[OF assms(1-5)] assms(7) by simp

text \<open>C31. An answer that is cut off between two rows is taken as complete, since the error behind the rows is not asked for:
  a node whose connection breaks behind the row \<open>wsrep_connected\<close> counts as up, without the members that would have
  followed.\<close>

theorem cut_answer_believed:
  assumes "query_ready wsrep_query mc" "length cols = 2" "\<forall>c \<in> set cols. column_ok c" "\<forall>p \<in> set pairs. short_pair p"
    and "net_view mc = (wire (appendLengthEncodedInteger [] 2 # map column_packet cols @ eof_packet # map row_packet (map pair_row pairs))
      (answer_at wsrep_query) @ bs, Some e)" "length bs < 4"
    and "db_open db (dsn user pass host) = None"
    and "wire_query env fuel text mc wsrep_query = Some (db_query db (dsn user pass host) wsrep_query)"
  shows "(snd (galeraProbe db user pass host) = None \<longleftrightarrow> last_row WsrepConnected pairs = ''ON'') \<and>
    map_of (fst (galeraProbe db user pass host)) WsrepAddresses = Some (last_row WsrepAddresses pairs)"
  using galeraProbe_rows[OF assms(7)] wire_query_cut[OF assms(1-6)] assms(8) by simp

text \<open>A database behind a connection.\<close>

definition ex_database :: "arrival list \<Rightarrow> database" where
  "ex_database rd = \<lparr>db_open = (\<lambda>d. None), db_query = (\<lambda>d q. the (wire_query (ex_env []) 1 (\<lambda>e. '''') (ex_conn rd) q))\<rparr>"

lemma ex_wsrep: "length wsrep_query < 1000" "query_ready wsrep_query (ex_conn rd)" "answer_at wsrep_query = 1"
proof -
  show l: "length wsrep_query < 1000" by (simp add: wsrep_query_def)
  then show "query_ready wsrep_query (ex_conn rd)" "answer_at wsrep_query = 1" by (simp_all add: ex_ready ex_answer)
qed

definition ex_status :: "(string \<times> string) list" where
  "ex_status = [(WsrepConnected, ''ON''), (WsrepAddresses, ''a:1,b:2'')]"

lemma ex_short: "\<forall>p \<in> set ex_status. short_pair p"
  by (simp add: ex_status_def short_pair_def WsrepConnected_def WsrepAddresses_def max_packet)

lemma ex_columns: "length [ex_column, ex_column] = 2" "\<forall>c \<in> set [ex_column, ex_column]. column_ok c"
  using ex_column_ok by simp_all

theorem galera_verdict_on_the_wire_witness:
  "snd (galeraProbe (ex_database [Chunk (wire (result_set [ex_column, ex_column] (map pair_row ex_status)) 1)]) ''u'' ''p'' ''a:1'') = None"
proof -
  let ?rd = "[Chunk (wire (result_set [ex_column, ex_column] (map pair_row ex_status)) 1)]"
  have v: "net_view (ex_conn ?rd) = (wire (result_set [ex_column, ex_column] (map pair_row ex_status)) (answer_at wsrep_query) @ [], None)"
    by (simp add: ex_wsrep)
  have "wire_query (ex_env []) 1 (\<lambda>e. '''') (ex_conn ?rd) wsrep_query = Some (db_query (ex_database ?rd) (dsn ''u'' ''p'' ''a:1'') wsrep_query)"
    using wire_query_complete[OF ex_wsrep(2) ex_columns ex_short v] by (simp add: ex_database_def)
  from galera_verdict_on_the_wire[OF ex_wsrep(2) ex_columns ex_short v _ this]
  show ?thesis by (simp add: ex_database_def ex_status_def last_row_def WsrepConnected_def WsrepAddresses_def)
qed

theorem cut_answer_believed_witness:
  "snd (galeraProbe (ex_database [Chunk (wire (appendLengthEncodedInteger [] 2 # map column_packet [ex_column, ex_column] @ eof_packet #
      map row_packet (map pair_row [(WsrepConnected, ''ON'')])) 1), Failure IoEOF]) ''u'' ''p'' ''a:1'') = None"
proof -
  let ?ps = "appendLengthEncodedInteger [] 2 # map column_packet [ex_column, ex_column] @ eof_packet #
      map row_packet (map pair_row [(WsrepConnected, ''ON'')])"
  let ?rd = "[Chunk (wire ?ps 1), Failure IoEOF]"
  have s: "\<forall>p \<in> set [(WsrepConnected, ''ON'')]. short_pair p" using ex_short by (simp add: ex_status_def)
  have v: "net_view (ex_conn ?rd) = (wire ?ps (answer_at wsrep_query) @ [], Some IoEOF)"
    by (simp add: ex_wsrep del: wire.simps)
  have "wire_query (ex_env []) 1 (\<lambda>e. '''') (ex_conn ?rd) wsrep_query = Some (db_query (ex_database ?rd) (dsn ''u'' ''p'' ''a:1'') wsrep_query)"
    using wire_query_cut[OF ex_wsrep(2) ex_columns s v] by (simp add: ex_database_def)
  from cut_answer_believed[OF ex_wsrep(2) ex_columns s v _ _ this]
  show ?thesis by (simp add: ex_database_def last_row_def)
qed

end
