(* ===== verification/MysqlStmt.thy ===== *)
theory MysqlStmt
  imports MysqlRows
begin

text \<open>
  go-sql-driver/mysql, statement.go, binaryRows of packets.go and the times of utils.go: prepared statements,
  whose parameters and rows are in the binary protocol.
\<close>

unbundle bit_operations_syntax

subsection \<open>Statements\<close>

text \<open>\<open>st_open\<close> says that \<open>stmt.mc\<close> is not nil; \<open>st_columns\<close> is None for nil.\<close>

record mysqlStmt =
  st_open :: bool
  st_id :: uint32
  st_paramCount :: nat
  st_columns :: "mysqlField list option"

definition comStmtExecute :: byte where "comStmtExecute = 23"
definition comStmtSendLongData :: byte where "comStmtSendLongData = 24"

definition u32 :: "bytes \<Rightarrow> uint32" where
  "u32 bs = ucast (bs ! 0) OR push_bit 8 (ucast (bs ! 1)) OR push_bit 16 (ucast (bs ! 2)) OR push_bit 24 (ucast (bs ! 3))"

definition u64 :: "bytes \<Rightarrow> uint64" where
  "u64 bs = ucast (u32 bs) OR push_bit 32 (ucast (u32 (drop 4 bs)))"

text \<open>The columns and the statement with its number and its parameters, with the error of the warnings.\<close>

definition readPrepareResultPacket :: "unit call \<Rightarrow> mysqlStmt \<Rightarrow> (uint16 \<times> mysqlStmt) call" where
  "readPrepareResultPacket warn st =
    with_packet (\<lambda>s data all. seq (byte_at data 0) (\<lambda>c.
      if c \<noteq> iOK then handleErrorPacket data all
      else
        seq (sub all 1 5) (\<lambda>i. seq (sub all 5 7) (\<lambda>n. seq (sub all 7 9) (\<lambda>p.
        let st = st\<lparr>st_id := u32 i, st_paramCount := unat (le16 p)\<rparr> in
        inspect (\<lambda>mc.
          if \<not> mc_strict mc \<or> length data < 12 then ret (le16 n, st)
          else seq (sub all 10 12) (\<lambda>w. if le16 w > 0 then seq warn (\<lambda>_. ret (le16 n, st)) else ret (le16 n, st))))))))"

definition conn_Prepare :: "mysql_env \<Rightarrow> nat \<Rightarrow> string \<Rightarrow> mysqlStmt call" where
  "conn_Prepare env fuel query =
    if_open (seq (writeCommandPacketStr comStmtPrepare query) (\<lambda>_.
      seq (readPrepareResultPacket (getWarnings env fuel) \<lparr>st_open = True, st_id = 0, st_paramCount = 0, st_columns = None\<rparr>) (\<lambda>(columnCount, st).
      seq (if st_paramCount st > 0 then readUntilEOF else ret ()) (\<lambda>_.
      seq (if columnCount > 0 then readUntilEOF else ret ()) (\<lambda>_. ret st)))))"

text \<open>The error of \<open>Close\<close> and the statement, which is closed whether the command was sent or not.\<close>

definition stmt_Close :: "mysqlStmt \<Rightarrow> (my_error option \<times> mysqlStmt) call" where
  "stmt_Close st =
    inspect (\<lambda>mc.
      if \<not> st_open st \<or> \<not> mc_open mc then ret (Some ErrBadConn, st)
      else attempt (writeCommandPacketUint32 comStmtClose (st_id st))
        (\<lambda>r. ret (case r of Inl e \<Rightarrow> Some e | Inr _ \<Rightarrow> None, st\<lparr>st_open := False\<rparr>)))"

definition NumInput :: "mysqlStmt \<Rightarrow> nat" where
  "NumInput st = st_paramCount st"

subsection \<open>Parameters\<close>

text \<open>A float as its bits; a time None if it is zero; \<open>ArgBytes None\<close> is a nil slice.\<close>

datatype arg = ArgNil | ArgInt64 uint64 | ArgFloat64 uint64 | ArgBool bool | ArgBytes "bytes option" | ArgString bytes
  | ArgTime "int option" | ArgOther

definition fieldTypeTiny :: byte where "fieldTypeTiny = 1"
definition fieldTypeDouble :: byte where "fieldTypeDouble = 5"
definition fieldTypeNULL :: byte where "fieldTypeNULL = 6"
definition fieldTypeLongLong :: byte where "fieldTypeLongLong = 8"
definition fieldTypeString :: byte where "fieldTypeString = 0xfe"

text \<open>The header of a packet whose length is an int.\<close>

definition put_int :: "int \<Rightarrow> bytes" where
  "put_int n = [of_int n, of_int (n div 2 ^ 8), of_int (n div 2 ^ 16)]"

text \<open>The loop of \<open>writeCommandLongData\<close> on what is left of the argument, which does not end if a packet has no room for any
  of it. The bytes of the header are written over those that have been sent.\<close>

partial_function (option) long_data ::
  "uint32 \<Rightarrow> nat \<Rightarrow> bytes \<Rightarrow> mysqlConn \<Rightarrow> ((my_fail + unit) \<times> mysqlConn) option"
where
  "long_data sid paramID arg mc =
    (if arg = [] then Some (Inr (), mc\<lparr>mc_sequence := 0\<rparr>)
     else
       let maxLen = mc_maxPacketAllowed mc - 1;
           pktLen = (if 7 + int (length arg) < maxLen then 7 + int (length arg) else maxLen);
           data = put_int pktLen @ [0, comStmtSendLongData] @ le32 sid @ [of_nat paramID, of_nat (paramID div 2 ^ 8)] @ arg in
       if 4 + pktLen < 0 then crash SliceBoundsOutOfRange mc
       else Option.bind (writePacket (take (nat (4 + pktLen)) data) mc) (\<lambda>(r, mc).
         case r of
           Inl e \<Rightarrow> Some (Inl e, mc)
         | Inr _ \<Rightarrow> if pktLen < 7 then crash SliceBoundsOutOfRange mc else long_data sid paramID (drop (nat pktLen - 7) arg) mc))"

definition writeCommandLongData :: "mysqlStmt \<Rightarrow> nat \<Rightarrow> bytes \<Rightarrow> unit call" where
  "writeCommandLongData st paramID arg = long_data (st_id st) paramID arg"

text \<open>A string is part of the packet unless it is too long: then it has been sent before.\<close>

definition string_value :: "mysqlStmt \<Rightarrow> nat \<Rightarrow> int \<Rightarrow> nat \<Rightarrow> bytes \<Rightarrow> bytes \<Rightarrow> bytes call" where
  "string_value st n pos i v values =
    inspect (\<lambda>mc.
      if int (length v) < mc_maxPacketAllowed mc - pos - int (length values) - (int n - (int i + 1)) * 64
      then ret (appendLengthEncodedInteger values (of_nat (length v)) @ v)
      else seq (writeCommandLongData st i v) (\<lambda>_. ret values))"

text \<open>The loop over the arguments from index \<open>i\<close> on: the mask of the NULLs, which are shifted out of its 64 bits from the
  65th on, the types and the values. \<open>fmt\<close> formats a time in a location.\<close>

fun exec_args ::
  "(string \<Rightarrow> int \<Rightarrow> bytes) \<Rightarrow> mysqlStmt \<Rightarrow> nat \<Rightarrow> int \<Rightarrow> nat \<Rightarrow> arg list \<Rightarrow> uint64 \<Rightarrow> bytes \<Rightarrow> bytes \<Rightarrow> (uint64 \<times> bytes \<times> bytes) call"
where
  "exec_args fmt st n pos i [] nulls types values = ret (nulls, types, values)"
| "exec_args fmt st n pos i (a # as) nulls types values =
    (let isnull = exec_args fmt st n pos (Suc i) as (nulls OR push_bit i 1) (types @ [fieldTypeNULL, 0]) values;
         put = (\<lambda>t vs. exec_args fmt st n pos (Suc i) as nulls (types @ [t, 0]) vs) in
     case a of
       ArgNil \<Rightarrow> isnull
     | ArgInt64 v \<Rightarrow> put fieldTypeLongLong (values @ uint64ToBytes v)
     | ArgFloat64 v \<Rightarrow> put fieldTypeDouble (values @ uint64ToBytes v)
     | ArgBool b \<Rightarrow> put fieldTypeTiny (values @ [if b then 1 else 0])
     | ArgBytes None \<Rightarrow> isnull
     | ArgBytes (Some v) \<Rightarrow> seq (string_value st n pos i v values) (put fieldTypeString)
     | ArgString v \<Rightarrow> seq (string_value st n pos i v values) (put fieldTypeString)
     | ArgTime t \<Rightarrow>
         (case t of
            None \<Rightarrow> put fieldTypeString (appendLengthEncodedInteger values 10 @ string_bytes ''0000-00-00'')
          | Some t \<Rightarrow> with_cfg (\<lambda>cfg. let v = fmt (the (cf_loc cfg)) t in
              put fieldTypeString (appendLengthEncodedInteger values (of_nat (length v)) @ v)))
     | ArgOther \<Rightarrow> raise (LibError ''Can't convert type''))"

text \<open>The mask as bytes.\<close>

definition mask_bytes :: "nat \<Rightarrow> uint64 \<Rightarrow> bytes" where
  "mask_bytes n nulls = map (\<lambda>i. ucast (drop_bit (8 * i) nulls)) [0..<(n + 7) div 8]"

definition exec_head :: "uint32 \<Rightarrow> bytes" where
  "exec_head sid = comStmtExecute # le32 sid @ [0, 1, 0, 0, 0]"

text \<open>Where the values begin: after the bitmap, the flag and the types.\<close>

definition values_pos :: "nat \<Rightarrow> nat" where
  "values_pos n = 14 + (n + 7) div 8 + 1 + 2 * n"

text \<open>The packet is built in the buffer; if the values do not fit in, in a new array that becomes the buffer's, its capacity being
  its length. What an error on the way has left in the buffer, or the values before they outgrew it in its old array, is not kept: there
  is nothing to be read in them.\<close>

definition writeExecutePacket :: "(string \<Rightarrow> int \<Rightarrow> bytes) \<Rightarrow> mysqlStmt \<Rightarrow> arg list \<Rightarrow> unit call" where
  "writeExecutePacket fmt st args =
    (if length args \<noteq> st_paramCount st then raise (LibError ''Arguments count mismatch'')
     else seq reset_sequence (\<lambda>_.
       if args = [] then write_taken (takeBuffer (4 + 10)) (\<lambda>old mc. packet_header 10 0 @ exec_head (st_id st))
       else with_buf (\<lambda>b.
         case takeCompleteBuffer b of
           None \<Rightarrow> raise ErrBadConn
         | Some s \<Rightarrow>
             let n = length args; flag = 14 + (n + 7) div 8; pos = values_pos n in
             if flag \<ge> length (bf_buf b) then crash IndexOutOfRange
             else if pos > length (bf_buf b) then crash SliceBoundsOutOfRange
             else seq (exec_args fmt st n (int pos) 0 args 0 [] []) (\<lambda>(nulls, types, values).
               inspect (\<lambda>mc.
                 let pktLen = pos + length values - 4;
                     data = packet_header pktLen (mc_sequence mc) @ exec_head (st_id st) @ mask_bytes n nulls @ [1] @ types @ values in
                 seq (modify (\<lambda>mc. mc\<lparr>mc_buf := Some (if length data \<le> length (bf_buf b) then fill_slice s data b else set_array data b)\<rparr>))
                   (\<lambda>_. writePacket data))))))"

subsection \<open>Times\<close>

definition padded :: "nat \<Rightarrow> nat \<Rightarrow> bytes" where
  "padded w n = string_bytes (replicate (w - length (decimal n)) CHR ''0'' @ decimal n)"

text \<open>The numbers of a date or a time in a packet: year, month, day, and what follows it; the last has four bytes. The lengths are
  4, 7 and 11.\<close>

definition date_numbers :: "nat \<Rightarrow> bytes \<Rightarrow> bytes \<Rightarrow> nat \<Rightarrow> nat list call" where
  "date_numbers num data all pos =
    seq (sub all pos (pos + 2)) (\<lambda>y. seq (byte_at data (pos + 2)) (\<lambda>mo. seq (byte_at data (pos + 3)) (\<lambda>d.
    if num = 4 then ret [unat (le16 y), unat mo, unat d]
    else seq (byte_at data (pos + 4)) (\<lambda>h. seq (byte_at data (pos + 5)) (\<lambda>mi. seq (byte_at data (pos + 6)) (\<lambda>s.
      if num = 7 then ret [unat (le16 y), unat mo, unat d, unat h, unat mi, unat s]
      else seq (sub all (pos + 7) (pos + 11)) (\<lambda>us. ret [unat (le16 y), unat mo, unat d, unat h, unat mi, unat s, unat (u32 us)])))))))"

text \<open>The arguments of \<open>time.Date\<close>, the last the nanoseconds, and the location.\<close>

datatype binary_value = BNull | BInt int | BText bytes | BSlice slice | BFloat32 uint32 | BFloat64 uint64
  | BZeroTime | BTime "nat list" string

definition parseBinaryDateTime :: "uint64 \<Rightarrow> bytes \<Rightarrow> bytes \<Rightarrow> nat \<Rightarrow> string \<Rightarrow> binary_value call" where
  "parseBinaryDateTime num data all pos loc =
    (if num = 0 then ret BZeroTime
     else if num \<in> {4, 7, 11} then
       seq (date_numbers (unat num) data all pos) (\<lambda>ns.
         ret (BTime (if num = 4 then ns @ [0, 0, 0, 0] else if num = 7 then ns @ [0] else butlast ns @ [last ns * 1000]) loc))
     else raise (LibError ''Invalid DATETIME-packet length''))"

definition formatBinaryDate :: "uint64 \<Rightarrow> bytes \<Rightarrow> bytes \<Rightarrow> nat \<Rightarrow> binary_value call" where
  "formatBinaryDate num data all pos =
    (if num = 0 then ret (BText (string_bytes ''0000-00-00''))
     else if num = 4 then
       seq (date_numbers 4 data all pos) (\<lambda>ns.
         ret (BText (padded 4 (ns ! 0) @ string_bytes ''-'' @ padded 2 (ns ! 1) @ string_bytes ''-'' @ padded 2 (ns ! 2))))
     else raise (LibError ''Invalid DATE-packet length''))"

definition formatBinaryDateTime :: "uint64 \<Rightarrow> bytes \<Rightarrow> bytes \<Rightarrow> nat \<Rightarrow> binary_value call" where
  "formatBinaryDateTime num data all pos =
    (if num = 0 then ret (BText (string_bytes ''0000-00-00 00:00:00''))
     else if num \<in> {4, 7, 11} then
       seq (date_numbers (unat num) data all pos) (\<lambda>ns.
         let date = padded 4 (ns ! 0) @ string_bytes ''-'' @ padded 2 (ns ! 1) @ string_bytes ''-'' @ padded 2 (ns ! 2);
             clock = (\<lambda>h mi s. string_bytes '' '' @ padded 2 h @ string_bytes '':'' @ padded 2 mi @ string_bytes '':'' @ padded 2 s) in
         ret (BText (if num = 4 then date @ clock 0 0 0
           else date @ clock (ns ! 3) (ns ! 4) (ns ! 5) @ (if num = 7 then [] else string_bytes ''.'' @ padded 6 (ns ! 6)))))
     else raise (LibError ''Invalid DATETIME-packet length''))"

subsection \<open>Rows\<close>

definition flagUnsigned :: uint16 where "flagUnsigned = 0x20"

definition text_types :: "byte list" where
  "text_types = [0x00, 0xf6, 0x0f, 0x10, 0xf7, 0xf8, 0xf9, 0xfa, 0xfb, 0xfc, 0xfd, 0xfe, 0xff]"

text \<open>A field that is not marked in the bitmap: Go's switch on the type of its column. The position is that behind the field.\<close>

definition read_text :: "slice \<Rightarrow> bytes \<Rightarrow> nat \<Rightarrow> (binary_value \<times> nat) call" where
  "read_text s data pos =
    seq (read_string data (int pos)) (\<lambda>((a, c), isNull, pos). ret (if isNull then BNull else BSlice (subslice s a c), nat pos))"

text \<open>\<open>with_length\<close> is the length-encoded number in front of a date, a time or a timestamp.\<close>

definition with_length :: "bytes \<Rightarrow> nat \<Rightarrow> (uint64 \<Rightarrow> bool \<Rightarrow> nat \<Rightarrow> 'a call) \<Rightarrow> 'a call" where
  "with_length data pos f =
    seq (tail_of data (int pos)) (\<lambda>rest. seq (in_range (readLengthEncodedInteger rest)) (\<lambda>(num, isNull, n). f num isNull (pos + n)))"

definition read_date :: "(uint64 \<Rightarrow> bytes \<Rightarrow> bytes \<Rightarrow> nat \<Rightarrow> binary_value call) \<Rightarrow> bytes \<Rightarrow> bytes \<Rightarrow> nat \<Rightarrow> (binary_value \<times> nat) call" where
  "read_date format data all pos =
    with_length data pos (\<lambda>num isNull pos.
      if isNull then ret (BNull, pos)
      else seq (inspect (\<lambda>mc.
          if mc_parseTime mc then with_cfg (\<lambda>cfg. parseBinaryDateTime num data all pos (the (cf_loc cfg)))
          else format num data all pos)) (\<lambda>v. ret (v, pos + unat num)))"

text \<open>The hours are those of the day and those of the lowest byte of the number of days, in 16 bits.\<close>

definition read_time :: "bytes \<Rightarrow> bytes \<Rightarrow> nat \<Rightarrow> (binary_value \<times> nat) call" where
  "read_time data all pos =
    with_length data pos (\<lambda>num isNull pos.
      if num = 0 then ret (if isNull then BNull else BText (string_bytes ''00:00:00''), pos)
      else seq (byte_at data pos) (\<lambda>sign.
        if num \<noteq> 8 \<and> num \<noteq> 12 then raise (LibError ''Invalid TIME-packet length'')
        else seq (byte_at data (pos + 1)) (\<lambda>d. seq (byte_at data (pos + 5)) (\<lambda>h.
          seq (byte_at data (pos + 6)) (\<lambda>mi. seq (byte_at data (pos + 7)) (\<lambda>s.
          seq (if num = 12 then sub all (pos + 8) (pos + 12) else ret []) (\<lambda>us.
          let hours = ucast d * 24 + ucast h :: uint16 in
          ret (BText ((if sign = 1 then string_bytes ''-'' else []) @ padded 2 (unat hours) @ string_bytes '':'' @ padded 2 (unat mi) @
              string_bytes '':'' @ padded 2 (unat s) @ (if num = 12 then string_bytes ''.'' @ padded 6 (unat (u32 us)) else [])),
            pos + unat num))))))))"

definition binary_field :: "mysqlField \<Rightarrow> slice \<Rightarrow> bytes \<Rightarrow> bytes \<Rightarrow> nat \<Rightarrow> (binary_value \<times> nat) call" where
  "binary_field f s data all pos =
    (let t = fd_fieldType f; unsigned = (fd_flags f AND flagUnsigned \<noteq> 0) in
     if t = fieldTypeNULL then ret (BNull, pos)
     else if t = fieldTypeTiny then
       seq (byte_at data pos) (\<lambda>b. ret (BInt (if unsigned then uint b else sint b), pos + 1))
     else if t = 0x02 \<or> t = 0x0d then
       seq (sub all pos (pos + 2)) (\<lambda>bs. ret (BInt (if unsigned then uint (le16 bs) else sint (le16 bs)), pos + 2))
     else if t = 0x09 \<or> t = 0x03 then
       seq (sub all pos (pos + 4)) (\<lambda>bs. ret (BInt (if unsigned then uint (u32 bs) else sint (u32 bs)), pos + 4))
     else if t = fieldTypeLongLong then
       seq (sub all pos (pos + 8)) (\<lambda>bs. let v = u64 bs in
         ret (if \<not> unsigned then BInt (sint v) else if v > 2 ^ 63 - 1 then BText (uint64ToString v) else BInt (uint v), pos + 8))
     else if t = 0x04 then seq (sub all pos (pos + 4)) (\<lambda>bs. ret (BFloat32 (u32 bs), pos + 4))
     else if t = fieldTypeDouble then seq (sub all pos (pos + 8)) (\<lambda>bs. ret (BFloat64 (u64 bs), pos + 8))
     else if t \<in> set text_types then read_text s data pos
     else if t = 0x0a \<or> t = 0x0e then read_date formatBinaryDate data all pos
     else if t = 0x0b then read_time data all pos
     else if t = 0x07 \<or> t = 0x0c then read_date formatBinaryDateTime data all pos
     else raise (LibError ''Unknown FieldType''))"

text \<open>The bit of column \<open>i\<close> in the bitmap of a row, whose first two bits are not used.\<close>

definition null_bit :: "bytes \<Rightarrow> nat \<Rightarrow> bool" where
  "null_bit nulls i \<longleftrightarrow> drop_bit ((i + 2) mod 8) (nulls ! ((i + 2) div 8)) AND 1 = 1"

fun binary_fields :: "mysqlField list \<Rightarrow> slice \<Rightarrow> bytes \<Rightarrow> bytes \<Rightarrow> bytes \<Rightarrow> nat \<Rightarrow> nat \<Rightarrow> nat \<Rightarrow> binary_value list call" where
  "binary_fields columns s data all nulls i 0 pos = ret []"
| "binary_fields columns s data all nulls i (Suc n) pos =
    seq (if null_bit nulls i then ret (BNull, pos)
         else if i \<ge> length columns then crash IndexOutOfRange
         else binary_field (columns ! i) s data all pos) (\<lambda>(v, pos).
    seq (binary_fields columns s data all nulls (Suc i) n pos) (\<lambda>vs. ret (v # vs)))"

definition binary_readRow :: "mysqlField list \<Rightarrow> nat \<Rightarrow> binary_value list call" where
  "binary_readRow columns n =
    with_packet (\<lambda>s data all. seq (byte_at data 0) (\<lambda>c.
      if c \<noteq> iOK then (if c = iEOF \<and> length data = 5 then raise ReadEOF else handleErrorPacket data all)
      else let pos = 1 + (n + 7 + 2) div 8 in
        seq (sub all 1 pos) (\<lambda>nulls. binary_fields columns s data all nulls 0 n pos)))"

definition binary_Next :: "nat \<Rightarrow> textRows \<Rightarrow> (binary_value list option \<times> textRows) call" where
  "binary_Next n rows =
    (if rw_live rows then
       inspect (\<lambda>mc.
         if \<not> mc_open mc then raise errInvalidConn
         else attempt (binary_readRow (rw_columns rows) n) (\<lambda>r.
           case r of
             Inr vs \<Rightarrow> ret (Some vs, rows)
           | Inl e \<Rightarrow> if e = ReadEOF then ret (None, rows\<lparr>rw_live := False\<rparr>) else raise e))
     else ret (None, rows))"

subsection \<open>Running a statement\<close>

definition with_stmt :: "mysqlStmt \<Rightarrow> 'a call \<Rightarrow> 'a call" where
  "with_stmt st f = (if st_open st then if_open f else crash NilPointer)"

definition stmt_Exec :: "mysql_env \<Rightarrow> nat \<Rightarrow> (string \<Rightarrow> int \<Rightarrow> bytes) \<Rightarrow> mysqlStmt \<Rightarrow> arg list \<Rightarrow> (uint64 \<times> uint64) call" where
  "stmt_Exec env fuel fmt st args =
    with_stmt st (seq (writeExecutePacket fmt st args) (\<lambda>_.
      seq (modify (\<lambda>mc. mc\<lparr>mc_affectedRows := 0, mc_insertId := 0\<rparr>)) (\<lambda>_.
      seq (readResultSetHeaderPacket env (getWarnings env fuel)) (\<lambda>resLen.
      seq (if resLen > 0 then seq readUntilEOF (\<lambda>_. readUntilEOF) else ret ()) (\<lambda>_.
      inspect (\<lambda>mc. ret (mc_affectedRows mc, mc_insertId mc)))))))"

text \<open>The columns are read once; afterwards those of the statement are taken, whatever the server says.\<close>

definition stmt_Query :: "mysql_env \<Rightarrow> nat \<Rightarrow> (string \<Rightarrow> int \<Rightarrow> bytes) \<Rightarrow> mysqlStmt \<Rightarrow> arg list \<Rightarrow> (textRows \<times> mysqlStmt) call" where
  "stmt_Query env fuel fmt st args =
    with_stmt st (seq (writeExecutePacket fmt st args) (\<lambda>_.
      seq (readResultSetHeaderPacket env (getWarnings env fuel)) (\<lambda>resLen.
      if resLen > 0 then
        (case st_columns st of
           None \<Rightarrow> seq (readColumns (nat resLen)) (\<lambda>cs. ret (\<lparr>rw_columns = cs, rw_live = True\<rparr>, st\<lparr>st_columns := Some cs\<rparr>))
         | Some cs \<Rightarrow> seq readUntilEOF (\<lambda>_. ret (\<lparr>rw_columns = cs, rw_live = True\<rparr>, st)))
      else ret (\<lparr>rw_columns = [], rw_live = True\<rparr>, st))))"

subsection \<open>Times that may be NULL\<close>

text \<open>\<open>NullTime\<close>: the time, None for the zero one, and whether it is valid.\<close>

type_synonym nullTime = "int option \<times> bool"

datatype scanned = SNil | STime "int option" | SText string | SOther

definition NullTime_Scan :: "mysql_env \<Rightarrow> scanned \<Rightarrow> nullTime \<Rightarrow> string option \<times> nullTime" where
  "NullTime_Scan env v nt =
    (case v of
       SNil \<Rightarrow> (None, (None, False))
     | STime t \<Rightarrow> (None, (t, True))
     | SText s \<Rightarrow>
         (case parseDateTime env s ''UTC'' of
            Inl e \<Rightarrow> (Some e, (None, False))
          | Inr t \<Rightarrow> (None, (t, True)))
     | SOther \<Rightarrow> (Some ''Can't convert to time.Time'', (fst nt, False)))"

definition NullTime_Value :: "nullTime \<Rightarrow> int option option" where
  "NullTime_Value nt = (if snd nt then Some (fst nt) else None)"

end
