(* ===== verification/MysqlBinary.thy ===== *)
theory MysqlBinary
  imports MysqlStmt MysqlProps
begin

text \<open>
  go-sql-driver/mysql, the binary protocol: rows as a server encodes them and what the driver reads of them, and the
  packet that runs a statement.
\<close>

subsection \<open>Bitmaps\<close>

definition bitmap :: "bool list \<Rightarrow> bytes" where
  "bitmap bs = map (\<lambda>j. horner_sum of_bool 2 (take 8 (drop (8 * j) bs))) [0..<(length bs + 7) div 8]"

lemma length_bitmap [simp]: "length (bitmap bs) = (length bs + 7) div 8"
  by (simp add: bitmap_def)

lemma bit_bitmap:
  assumes "j < (length bs + 7) div 8" "k < 8"
  shows "bit (bitmap bs ! j) k \<longleftrightarrow> 8 * j + k < length bs \<and> bs ! (8 * j + k)"
proof -
  have "bit (horner_sum of_bool 2 (take 8 (drop (8 * j) bs)) :: byte) k \<longleftrightarrow> k < length (take 8 (drop (8 * j) bs)) \<and> take 8 (drop (8 * j) bs) ! k"
    using assms(2) by (simp add: bit_horner_sum_bit_iff)
  then show ?thesis using assms by (auto simp: bitmap_def)
qed

lemma null_bit_bitmap:
  assumes "i < length bs"
  shows "null_bit (bitmap (False # False # bs)) i \<longleftrightarrow> bs ! i"
proof -
  let ?w = "bitmap (False # False # bs) ! ((i + 2) div 8)"
  have "null_bit (bitmap (False # False # bs)) i \<longleftrightarrow> bit ?w ((i + 2) mod 8)"
    by (simp add: null_bit_def bit_iff_odd_drop_bit and_one_eq odd_iff_mod_2_eq_one)
  also have "\<dots> \<longleftrightarrow> (False # False # bs) ! (8 * ((i + 2) div 8) + (i + 2) mod 8)"
    using assms by (subst bit_bitmap) auto
  also have "\<dots> \<longleftrightarrow> bs ! i" by (simp add: mult_div_mod_eq)
  finally show ?thesis .
qed

subsection \<open>Numbers\<close>

definition le_bytes :: "nat \<Rightarrow> int \<Rightarrow> bytes" where
  "le_bytes w k = map (\<lambda>i. of_int (drop_bit (8 * i) k)) [0..<w]"

lemma length_le_bytes [simp]: "length (le_bytes w k) = w"
  by (simp add: le_bytes_def)

lemma nth_le_bytes: "i < w \<Longrightarrow> le_bytes w k ! i = of_int (drop_bit (8 * i) k)"
  by (simp add: le_bytes_def)

lemma le16_bytes: "le16 (le_bytes 2 k) = of_int k"
  by (rule bit_word_eqI) (auto simp: le16_def nth_le_bytes bit_simps)

lemma u32_bytes:
  assumes "\<And>i. i < 4 \<Longrightarrow> bs ! i = of_int (drop_bit (8 * i) k)"
  shows "u32 bs = of_int k"
proof (rule bit_word_eqI)
  fix i assume "i < LENGTH(32)"
  then consider "i < 8" | "8 \<le> i" "i < 16" | "16 \<le> i" "i < 24" | "24 \<le> i" "i < 32" by (cases "i < 8"; cases "i < 16"; cases "i < 24") auto
  then show "bit (u32 bs) i = bit (of_int k :: uint32) i"
    by cases (auto simp: u32_def assms bit_simps)
qed

lemma u64_bytes: "u64 (le_bytes 8 k) = of_int k"
proof -
  have a: "u32 (le_bytes 8 k) = of_int k" by (rule u32_bytes) (simp add: nth_le_bytes)
  have b: "u32 (drop 4 (le_bytes 8 k)) = of_int (drop_bit 32 k)"
    by (rule u32_bytes) (simp add: nth_le_bytes drop_bit_drop_bit add.commute)
  show ?thesis
    unfolding u64_def a b
  proof (rule bit_word_eqI)
    fix i assume "i < LENGTH(64)"
    then show "bit (ucast (of_int k :: uint32) OR push_bit 32 (ucast (of_int (drop_bit 32 k) :: uint32)) :: uint64) i = bit (of_int k :: uint64) i"
      by (cases "i < 32") (auto simp: bit_simps)
  qed
qed

lemma uint_of:
  fixes w :: "'a :: len word"
  assumes "w = of_int k" "0 \<le> k" "k < 2 ^ LENGTH('a)"
  shows "uint w = k"
  using assms by (simp add: take_bit_int_eq_self unsigned_of_int)

lemma sint_of:
  fixes w :: "'a :: len word"
  assumes "w = of_int k" "- (2 ^ (LENGTH('a) - 1)) \<le> k" "k < 2 ^ (LENGTH('a) - 1)"
  shows "sint w = k"
  using assms by (simp add: signed_of_int signed_take_bit_int_eq_self)

subsection \<open>Rows\<close>

text \<open>A value of a column that is not NULL, and its bytes. Dates and times are not among them.\<close>

datatype sql_value = VInt int | VFloat uint32 | VDouble uint64 | VText bytes

definition unsigned_column :: "mysqlField \<Rightarrow> bool" where
  "unsigned_column f \<longleftrightarrow> fd_flags f AND flagUnsigned \<noteq> 0"

definition int_width :: "byte \<Rightarrow> nat" where
  "int_width t = (if t = 0x01 then 1 else if t = 0x02 \<or> t = 0x0d then 2 else if t = 0x09 \<or> t = 0x03 then 4 else if t = 0x08 then 8 else 0)"

definition fits :: "mysqlField \<Rightarrow> sql_value \<Rightarrow> bool" where
  "fits f v \<longleftrightarrow>
    (case v of
       VInt k \<Rightarrow> (let w = int_width (fd_fieldType f) in 0 < w \<and>
         (if unsigned_column f then 0 \<le> k \<and> k < 2 ^ (8 * w) else - (2 ^ (8 * w - 1)) \<le> k \<and> k < 2 ^ (8 * w - 1)))
     | VFloat w \<Rightarrow> fd_fieldType f = 0x04
     | VDouble w \<Rightarrow> fd_fieldType f = 0x05
     | VText s \<Rightarrow> fd_fieldType f \<in> set text_types \<and> length s < 2 ^ 24)"

definition put_value :: "mysqlField \<Rightarrow> sql_value \<Rightarrow> bytes" where
  "put_value f v =
    (case v of
       VInt k \<Rightarrow> le_bytes (int_width (fd_fieldType f)) k
     | VFloat w \<Rightarrow> le_bytes 4 (uint w)
     | VDouble w \<Rightarrow> le_bytes 8 (uint w)
     | VText s \<Rightarrow> cell (Some s))"

text \<open>What the destination of a value holds, the bytes of a slice being looked up: an unsigned number that an int64 cannot hold is
  given as text.\<close>

definition scanned_as :: "sql_value option \<Rightarrow> binary_value" where
  "scanned_as v =
    (case v of
       None \<Rightarrow> BNull
     | Some (VInt k) \<Rightarrow> if k < 2 ^ 63 then BInt k else BText (uint64ToString (of_int k))
     | Some (VFloat w) \<Rightarrow> BFloat32 w
     | Some (VDouble w) \<Rightarrow> BFloat64 w
     | Some (VText s) \<Rightarrow> BSlice (Own s))"

definition looked_up :: "mysqlConn \<Rightarrow> binary_value \<Rightarrow> binary_value" where
  "looked_up mc v = (case v of BSlice s \<Rightarrow> BSlice (Own (bytes_of mc s)) | _ \<Rightarrow> v)"

fun row_values :: "mysqlField list \<Rightarrow> sql_value option list \<Rightarrow> bytes" where
  "row_values (f # fs) (v # vs) = (case v of None \<Rightarrow> [] | Some v \<Rightarrow> put_value f v) @ row_values fs vs"
| "row_values _ _ = []"

definition binary_row :: "mysqlField list \<Rightarrow> sql_value option list \<Rightarrow> bytes" where
  "binary_row fs vs = 0 # bitmap (False # False # map (\<lambda>v. v = None) vs) @ row_values fs vs"

definition fit :: "mysqlField list \<Rightarrow> sql_value option list \<Rightarrow> bool" where
  "fit fs vs \<longleftrightarrow> list_all2 (\<lambda>f v. case v of None \<Rightarrow> True | Some v \<Rightarrow> fits f v) fs vs"

lemma sub_within:
  "pos + n \<le> length data \<Longrightarrow> sub (data @ beyond) pos (pos + n) mc = Some (Inr (take n (drop pos data)), mc)"
  by (simp add: sub_def ret_def)

lemma whole_extends: "\<exists>beyond. whole b s = deref b s @ beyond"
proof (cases s)
  case (InBuf g off n)
  then show ?thesis by (intro exI[of _ "drop n (drop off (array b g))"]) (simp only: whole.simps deref.simps append_take_drop_id)
qed simp

text \<open>The numbers.\<close>

lemma int_field_reads:
  assumes "fits f (VInt k)" "data = pre @ put_value f (VInt k) @ rest"
  shows "binary_field f s data (data @ beyond) (length pre) mc =
    Some (Inr (scanned_as (Some (VInt k)), length pre + length (put_value f (VInt k))), mc)"
proof -
  let ?t = "fd_fieldType f" and ?p = "length pre"
  let ?w = "int_width ?t"
  have w: "0 < ?w" and r: "if unsigned_column f then 0 \<le> k \<and> k < 2 ^ (8 * ?w) else - (2 ^ (8 * ?w - 1)) \<le> k \<and> k < 2 ^ (8 * ?w - 1)"
    using assms(1) unfolding fits_def sql_value.case Let_def by blast+
  have d: "data = pre @ le_bytes ?w k @ rest" using assms(2) by (simp add: put_value_def)
  have s: "sub (data @ beyond) ?p (?p + ?w) mc = Some (Inr (le_bytes ?w k), mc)"
    by (subst sub_within) (simp_all add: d)
  consider "?t = 0x01" | "?t = 0x02 \<or> ?t = 0x0d" | "?t = 0x09 \<or> ?t = 0x03" | "?t = 0x08"
    using w by (auto simp: int_width_def split: if_splits)
  then show ?thesis
  proof cases
    case 1
    have "data ! ?p = of_int k" by (simp add: d nth_append 1 int_width_def le_bytes_def)
    then show ?thesis using r 1 sint_of[of "data ! ?p" k] uint_of[of "data ! ?p" k]
      by (auto simp: binary_field_def int_width_def put_value_def scanned_as_def seq_def byte_at_def ret_def d fieldTypeNULL_def
        fieldTypeTiny_def unsigned_column_def split: if_splits)
  next
    case 2
    then have l: "le16 (le_bytes ?w k) = of_int k" using le16_bytes by (auto simp: int_width_def)
    show ?thesis using r 2 s sint_of[OF l] uint_of[OF l]
      by (auto simp: binary_field_def int_width_def put_value_def scanned_as_def seq_def ret_def fieldTypeNULL_def
        fieldTypeTiny_def unsigned_column_def split: if_splits)
  next
    case 3
    have l: "u32 (le_bytes ?w k) = of_int k" using 3 by (intro u32_bytes) (auto simp: int_width_def nth_le_bytes)
    show ?thesis using r 3 s sint_of[OF l] uint_of[OF l]
      by (auto simp: binary_field_def int_width_def put_value_def scanned_as_def seq_def ret_def fieldTypeNULL_def
        fieldTypeTiny_def unsigned_column_def split: if_splits)
  next
    case 4
    then have l: "u64 (le_bytes ?w k) = of_int k" using u64_bytes by (simp add: int_width_def)
    have c: "(of_int k :: uint64) > 2 ^ 63 - 1 \<longleftrightarrow> \<not> k < 2 ^ 63" if "0 \<le> k" "k < 2 ^ 64"
      using that by (simp add: word_less_alt word_le_nat_alt unsigned_of_int take_bit_int_eq_self) arith
    show ?thesis using r 4 s sint_of[OF l] uint_of[OF l] c
      by (auto simp: binary_field_def int_width_def put_value_def scanned_as_def seq_def ret_def fieldTypeNULL_def u64_bytes
        fieldTypeTiny_def fieldTypeLongLong_def unsigned_column_def Let_def split: if_splits)
  qed
qed

lemma text_field_reads:
  assumes "fits f (VText t)" "mc_buf mc = Some b" "deref b s = data" "data = pre @ put_value f (VText t) @ rest"
  shows "\<exists>r. binary_field f s data all (length pre) mc = Some (Inr (r, length pre + length (put_value f (VText t))), mc) \<and>
    looked_up mc r = scanned_as (Some (VText t))"
proof -
  have ty: "fd_fieldType f \<in> set text_types" and sh: "short_cell (Some t)" using assms(1) by (simp_all add: fits_def short_cell_def)
  have bf: "binary_field f s data all (length pre) = read_text s data (length pre)"
    using ty by (auto simp: binary_field_def text_types_def fieldTypeNULL_def fieldTypeTiny_def fieldTypeLongLong_def fieldTypeDouble_def)
  let ?c = "cell (Some t)" and ?p = "length pre"
  have d: "data = pre @ ?c @ rest" using assms(4) by (simp add: put_value_def)
  obtain a where a: "readLengthEnodedString (?c @ rest) = Some (Some (a, length ?c), False, int (length ?c), False)"
    "a \<le> length ?c" "take (length ?c - a) (drop a ?c) = t"
    using cell_read[OF sh, of rest] by auto
  have r: "read_text s data ?p mc = Some (Inr (BSlice (subslice s (?p + a) (?p + length ?c)), ?p + length ?c), mc)"
    by (simp add: read_text_def read_string_def tail_of_def seq_def ret_def d a(1) in_range_def nat_add_distrib)
  have "deref b (subslice s (?p + a) (?p + length ?c)) = take (length ?c - a) (drop a (?c @ rest))"
    using assms(3) by (subst deref_subslice) (simp_all add: d)
  then have "deref b (subslice s (?p + a) (?p + length ?c)) = t" using a(2,3) by simp
  then show ?thesis unfolding bf r using assms(2)
    by (simp add: looked_up_def scanned_as_def bytes_of_def put_value_def)
qed

lemma field_reads:
  assumes "fits f v" "mc_buf mc = Some b" "deref b s = data" "data = pre @ put_value f v @ rest"
  shows "\<exists>r. binary_field f s data (data @ beyond) (length pre) mc = Some (Inr (r, length pre + length (put_value f v)), mc) \<and>
    looked_up mc r = scanned_as (Some v)"
proof (cases v)
  case (VInt k)
  then show ?thesis using int_field_reads[of f k data pre rest s beyond mc] assms by (simp add: looked_up_def scanned_as_def)
next
  case (VFloat w)
  have u: "u32 (le_bytes 4 (uint w)) = w" using u32_bytes[of "le_bytes 4 (uint w)" "uint w"] by (simp add: nth_le_bytes)
  have "sub (data @ beyond) (length pre) (length pre + 4) mc = Some (Inr (le_bytes 4 (uint w)), mc)"
    by (subst sub_within) (simp_all add: assms(4) VFloat put_value_def)
  then show ?thesis using assms(1) u
    by (simp add: binary_field_def VFloat fits_def put_value_def scanned_as_def looked_up_def seq_def ret_def
      fieldTypeNULL_def fieldTypeTiny_def fieldTypeLongLong_def)
next
  case (VDouble w)
  have u: "u64 (le_bytes 8 (uint w)) = w" by (simp add: u64_bytes)
  have "sub (data @ beyond) (length pre) (length pre + 8) mc = Some (Inr (le_bytes 8 (uint w)), mc)"
    by (subst sub_within) (simp_all add: assms(4) VDouble put_value_def)
  then show ?thesis using assms(1) u
    by (simp add: binary_field_def VDouble fits_def put_value_def scanned_as_def looked_up_def seq_def ret_def
      fieldTypeNULL_def fieldTypeTiny_def fieldTypeLongLong_def fieldTypeDouble_def)
next
  case (VText t)
  then show ?thesis using text_field_reads[of f t mc b s data pre rest] assms by simp
qed

lemma fields_read:
  assumes "mc_buf mc = Some b" "deref b s = data"
  shows "fit fs vs \<Longrightarrow> data = pre @ row_values fs vs \<Longrightarrow> columns = done_columns @ fs \<Longrightarrow> i = length done_columns \<Longrightarrow>
    (\<forall>j < length vs. null_bit nulls (i + j) \<longleftrightarrow> vs ! j = None) \<Longrightarrow>
    \<exists>rs. binary_fields columns s data (data @ beyond) nulls i (length vs) (length pre) mc = Some (Inr rs, mc) \<and>
      map (looked_up mc) rs = map scanned_as vs"
proof (induction fs vs arbitrary: pre done_columns i rule: row_values.induct)
  case (1 f fs v vs)
  let ?c = "case v of None \<Rightarrow> [] | Some v \<Rightarrow> put_value f v"
  have n: "null_bit nulls i \<longleftrightarrow> v = None" using 1(6)[rule_format, of 0] by simp
  have f: "columns ! i = f" "i < length columns" using 1(4,5) by simp_all
  have d: "data = pre @ ?c @ row_values fs vs" using 1(3) by simp
  have "\<exists>r. (if null_bit nulls i then ret (BNull, length pre) else if i \<ge> length columns then crash IndexOutOfRange
      else binary_field (columns ! i) s data (data @ beyond) (length pre)) mc = Some (Inr (r, length (pre @ ?c)), mc) \<and> looked_up mc r = scanned_as v"
  proof (cases v)
    case None
    then show ?thesis using n by (simp add: ret_def looked_up_def scanned_as_def)
  next
    case (Some x)
    then have "fits f x" using 1(2) by (simp add: fit_def)
    then show ?thesis using field_reads[OF _ assms, of f x pre "row_values fs vs" beyond] n f d Some by simp
  qed
  then obtain r where r: "(if null_bit nulls i then ret (BNull, length pre) else if i \<ge> length columns then crash IndexOutOfRange
      else binary_field (columns ! i) s data (data @ beyond) (length pre)) mc = Some (Inr (r, length (pre @ ?c)), mc)" "looked_up mc r = scanned_as v"
    by blast
  have "\<forall>j < length vs. null_bit nulls (Suc i + j) \<longleftrightarrow> vs ! j = None"
    using 1(6) by (metis Suc_less_eq add_Suc_shift length_Cons nth_Cons_Suc)
  then obtain rs where rs: "binary_fields columns s data (data @ beyond) nulls (Suc i) (length vs) (length (pre @ ?c)) mc = Some (Inr rs, mc)"
    "map (looked_up mc) rs = map scanned_as vs"
    using 1(1)[of "pre @ ?c" "done_columns @ [f]" "Suc i"] 1(2,4,5) d by (auto simp: fit_def)
  have "binary_fields columns s data (data @ beyond) nulls i (length (v # vs)) (length pre) mc = Some (Inr (r # rs), mc)"
    using r(1) rs(1) by (simp add: seq_def ret_def)
  then show ?case using r(2) rs(2) by auto
qed (simp_all add: ret_def fit_def)

text \<open>A row in the binary protocol is what \<open>Next\<close> puts into its destinations, if its values are in the range of their columns: signed
  and unsigned numbers of every width, floats, text and NULLs by the bitmap, whatever lies behind the row in the buffer. Only
  an unsigned number from 2^63 on is given as its digits.\<close>

theorem binary_row_read:
  assumes "conn_ok mc" "mc_open mc" "rw_live rows" "fit (rw_columns rows) vs"
    and "net_view mc = (packets (binary_row (rw_columns rows) vs) (mc_sequence mc) @ rest, en)"
    and "length (binary_row (rw_columns rows) vs) mod maxPacketSize \<noteq> 0"
  shows "\<exists>rs mc'. binary_Next (length vs) rows mc = Some (Inr (Some rs, rows), mc') \<and>
    map (looked_up mc') rs = map scanned_as vs \<and> conn_ok mc' \<and> net_view mc' = (rest, en)"
proof -
  let ?cs = "rw_columns rows"
  let ?p = "binary_row ?cs vs" and ?bm = "bitmap (False # False # map (\<lambda>v. v = None) vs)"
  obtain x b where b: "deref b x = ?p" "buffer_ok b" "view b = (rest, en)"
    "\<And>f :: slice \<Rightarrow> bytes \<Rightarrow> bytes \<Rightarrow> binary_value list call. with_packet f mc = f x ?p (whole b x) (advanced ?p b mc)"
    unfolding advanced_def by (rule with_packet_payload[OF assms(1,5,6)]) blast
  obtain beyond where w: "whole b x = ?p @ beyond" using whole_extends[of b x] b(1) by auto
  let ?pos = "1 + (length vs + 7 + 2) div 8"
  have l: "length ?bm = (length vs + 7 + 2) div 8" by simp
  have d: "?p = (0 # ?bm) @ row_values ?cs vs" by (simp add: binary_row_def)
  have s: "sub (?p @ beyond) 1 ?pos (advanced ?p b mc) = Some (Inr ?bm, advanced ?p b mc)"
    by (subst sub_within) (simp_all add: d)
  have "\<forall>j < length vs. null_bit ?bm (0 + j) \<longleftrightarrow> vs ! j = None" by (simp add: null_bit_bitmap)
  then obtain rs where rs: "binary_fields ?cs x ?p (?p @ beyond) ?bm 0 (length vs) ?pos (advanced ?p b mc) = Some (Inr rs, advanced ?p b mc)"
    "map (looked_up (advanced ?p b mc)) rs = map scanned_as vs"
    using fields_read[of "advanced ?p b mc" b x ?p ?cs vs "0 # ?bm" ?cs "[]" 0 ?bm beyond] b(1) assms(4) d l by auto
  have "binary_readRow ?cs (length vs) mc = Some (Inr rs, advanced ?p b mc)"
    unfolding binary_readRow_def b(4) w using s rs(1) by (simp add: seq_def byte_at_def ret_def d iOK_def)
  then have "binary_Next (length vs) rows mc = Some (Inr (Some rs, rows), advanced ?p b mc)"
    using assms(2,3) by (simp add: binary_Next_def inspect_def attempt_def ret_def)
  then show ?thesis using rs(2) b(2,3) assms(1) by (intro exI[of _ rs] exI[of _ "advanced ?p b mc"]) simp
qed

lemma max_packets: "maxPacketSize = 16777215"
  by (simp add: maxPacketSize_def)

definition ex_fields :: "mysqlField list" where
  "ex_fields = [\<lparr>fd_fieldType = 0x02, fd_flags = 0, fd_name = []\<rparr>, \<lparr>fd_fieldType = 0x08, fd_flags = flagUnsigned, fd_name = []\<rparr>,
     \<lparr>fd_fieldType = 0xfd, fd_flags = 0, fd_name = []\<rparr>]"

definition ex_values :: "sql_value option list" where
  "ex_values = [Some (VInt (- 2)), None, Some (VText [79, 78])]"

lemma ex_fields_fit: "fit ex_fields ex_values" "length (binary_row ex_fields ex_values) = 7"
  by (simp_all add: fit_def ex_fields_def ex_values_def fits_def int_width_def unsigned_column_def text_types_def binary_row_def
    put_value_def cell_def appendLengthEncodedInteger_def)

theorem binary_row_read_witness:
  "\<exists>rs mc'. binary_Next 3 \<lparr>rw_columns = ex_fields, rw_live = True\<rparr> (ex_conn [Chunk (packets (binary_row ex_fields ex_values) 0)]) =
      Some (Inr (Some rs, \<lparr>rw_columns = ex_fields, rw_live = True\<rparr>), mc') \<and>
    map (looked_up mc') rs = [BInt (- 2), BNull, BSlice (Own [79, 78])]"
proof -
  have "map scanned_as ex_values = [BInt (- 2), BNull, BSlice (Own [79, 78])]" "length ex_values = 3"
    by (simp_all add: ex_values_def scanned_as_def)
  then show ?thesis
    using binary_row_read[of "ex_conn [Chunk (packets (binary_row ex_fields ex_values) 0)]" "\<lparr>rw_columns = ex_fields, rw_live = True\<rparr>" ex_values "[]" None]
      ex_fields_fit by (auto simp: max_packets)
qed

subsection \<open>The packet that runs a statement\<close>

definition arg_null :: "arg \<Rightarrow> bool" where
  "arg_null a \<longleftrightarrow> a = ArgNil \<or> a = ArgBytes None"

definition arg_type :: "arg \<Rightarrow> byte" where
  "arg_type a =
    (if arg_null a then fieldTypeNULL
     else case a of ArgInt64 v \<Rightarrow> fieldTypeLongLong | ArgFloat64 v \<Rightarrow> fieldTypeDouble | ArgBool b \<Rightarrow> fieldTypeTiny | _ \<Rightarrow> fieldTypeString)"

definition lenenc_text :: "bytes \<Rightarrow> bytes" where
  "lenenc_text v = appendLengthEncodedInteger [] (of_nat (length v)) @ v"

definition arg_bytes :: "(string \<Rightarrow> int \<Rightarrow> bytes) \<Rightarrow> string \<Rightarrow> arg \<Rightarrow> bytes" where
  "arg_bytes fmt loc a =
    (case a of
       ArgInt64 v \<Rightarrow> uint64ToBytes v
     | ArgFloat64 v \<Rightarrow> uint64ToBytes v
     | ArgBool b \<Rightarrow> [if b then 1 else 0]
     | ArgBytes (Some v) \<Rightarrow> lenenc_text v
     | ArgString v \<Rightarrow> lenenc_text v
     | ArgTime (Some t) \<Rightarrow> lenenc_text (fmt loc t)
     | ArgTime None \<Rightarrow> lenenc_text (string_bytes ''0000-00-00'')
     | _ \<Rightarrow> [])"

text \<open>The bits that are set: those of the NULLs among the first 64 parameters.\<close>

definition null_flags :: "arg list \<Rightarrow> bool list" where
  "null_flags args = map (\<lambda>i. i < 64 \<and> arg_null (args ! i)) [0..<length args]"

definition execute_payload :: "(string \<Rightarrow> int \<Rightarrow> bytes) \<Rightarrow> string \<Rightarrow> uint32 \<Rightarrow> arg list \<Rightarrow> bytes" where
  "execute_payload fmt loc sid args =
    exec_head sid @ bitmap (null_flags args) @ [1] @ concat (map (\<lambda>a. [arg_type a, 0]) args) @ concat (map (arg_bytes fmt loc) args)"

lemma lenenc_append: "appendLengthEncodedInteger b n = b @ appendLengthEncodedInteger [] n"
  by (simp add: appendLengthEncodedInteger_def)

lemma exec_args_inline:
  assumes "mc_cfg mc = Some cfg" "cf_loc cfg = Some loc" "n = i0 + length args0"
    and "pos + int (length values0) + int (length (concat (map (arg_bytes fmt loc) args0))) + int n * 64 < mc_maxPacketAllowed mc"
    and "ArgOther \<notin> set args0"
  shows "\<exists>nulls. exec_args fmt st n pos i0 args0 nulls0 types0 values0 mc =
      Some (Inr (nulls, types0 @ concat (map (\<lambda>a. [arg_type a, 0]) args0), values0 @ concat (map (arg_bytes fmt loc) args0)), mc) \<and>
    (\<forall>k. bit nulls k \<longleftrightarrow> bit nulls0 k \<or> i0 \<le> k \<and> k < i0 + length args0 \<and> k < 64 \<and> arg_null (args0 ! (k - i0)))"
  using assms(3-)
proof (induction args0 arbitrary: i0 nulls0 types0 values0)
  case Nil
  then show ?case by (auto simp: ret_def)
next
  case (Cons a as)
  let ?nulls = "if arg_null a then nulls0 OR push_bit i0 1 else nulls0"
  let ?types = "types0 @ [arg_type a, 0]" and ?vals = "values0 @ arg_bytes fmt loc a"
  have str: "string_value st n pos i0 v values0 mc = Some (Inr (values0 @ lenenc_text v), mc)" if "arg_bytes fmt loc a = lenenc_text v" for v
  proof -
    have "(int n - (int i0 + 1)) * 64 \<le> int n * 64" by simp
    moreover have "int (length v) \<le> int (length (arg_bytes fmt loc a))" using that by (simp add: lenenc_text_def)
    ultimately have "int (length v) < mc_maxPacketAllowed mc - pos - int (length values0) - (int n - (int i0 + 1)) * 64"
      using Cons.prems(2) by simp
    then show ?thesis
      by (simp add: string_value_def inspect_def ret_def lenenc_text_def lenenc_append[of values0])
  qed
  have st: "exec_args fmt st n pos i0 (a # as) nulls0 types0 values0 mc = exec_args fmt st n pos (Suc i0) as ?nulls ?types ?vals mc"
  proof (cases a)
    case (ArgBytes v)
    then show ?thesis using str by (cases v) (simp_all add: arg_null_def arg_type_def arg_bytes_def seq_def)
  next
    case (ArgString v)
    then show ?thesis using str by (simp add: arg_null_def arg_type_def arg_bytes_def seq_def)
  next
    case (ArgTime t)
    then show ?thesis using assms(1,2)
      by (cases t) (simp_all add: arg_null_def arg_type_def arg_bytes_def with_cfg_def lenenc_text_def lenenc_append[of values0] string_bytes_def Let_def)
  qed (use Cons.prems(3) in \<open>simp_all add: arg_null_def arg_type_def arg_bytes_def\<close>)
  obtain nulls where n: "exec_args fmt st n pos (Suc i0) as ?nulls ?types ?vals mc =
      Some (Inr (nulls, ?types @ concat (map (\<lambda>a. [arg_type a, 0]) as), ?vals @ concat (map (arg_bytes fmt loc) as)), mc)"
    "\<forall>k. bit nulls k \<longleftrightarrow> bit ?nulls k \<or> Suc i0 \<le> k \<and> k < Suc i0 + length as \<and> k < 64 \<and> arg_null (as ! (k - Suc i0))"
    using Cons.IH[of "Suc i0" ?vals ?nulls ?types] Cons.prems by auto
  have "bit nulls k \<longleftrightarrow> bit nulls0 k \<or> i0 \<le> k \<and> k < i0 + length (a # as) \<and> k < 64 \<and> arg_null ((a # as) ! (k - i0))" for k
    unfolding n(2)[rule_format, of k]
    by (cases "k = i0") (auto simp: bit_simps nth_Cons' Suc_le_eq dest: bit_imp_le_length)
  then show ?case using n(1) st by (intro exI[of _ nulls]) simp
qed

lemma mask_bitmap:
  assumes "\<forall>k. bit (nulls :: uint64) k \<longleftrightarrow> k < length args \<and> k < 64 \<and> arg_null (args ! k)"
  shows "mask_bytes (length args) nulls = bitmap (null_flags args)"
proof (rule nth_equalityI)
  show "length (mask_bytes (length args) nulls) = length (bitmap (null_flags args))" by (simp add: mask_bytes_def null_flags_def)
  fix j assume "j < length (mask_bytes (length args) nulls)"
  then have j: "j < (length args + 7) div 8" by (simp add: mask_bytes_def)
  show "mask_bytes (length args) nulls ! j = bitmap (null_flags args) ! j"
  proof (rule bit_word_eqI)
    fix k assume "k < LENGTH(8)"
    then have k: "k < 8" by simp
    have "bit (mask_bytes (length args) nulls ! j) k \<longleftrightarrow> bit nulls (8 * j + k)"
      using j k by (simp add: mask_bytes_def bit_simps)
    also have "\<dots> \<longleftrightarrow> bit (bitmap (null_flags args) ! j) k"
      using j k by (subst bit_bitmap) (auto simp: assms null_flags_def)
    finally show "bit (mask_bytes (length args) nulls ! j) k \<longleftrightarrow> bit (bitmap (null_flags args) ! j) k" .
  qed
qed

text \<open>What running a statement sends: its id, the bitmap of the parameters that are NULL, their types and the bytes of the others, in order. In
  the bitmap only the first 64 parameters can be NULL: a later one is sent as a type NULL without a value whose bit is not set.\<close>

theorem execute_packet_sent:
  assumes "conn_ok mc" "mc_open mc" "wt_room (mc_net mc) = None" "mc_buf mc = Some b" "bf_length b = 0"
    and "mc_cfg mc = Some cfg" "cf_loc cfg = Some loc" "args \<noteq> []" "length args = st_paramCount st" "ArgOther \<notin> set args"
    and "values_pos (length args) \<le> length (bf_buf b)"
    and "p = execute_payload fmt loc (st_id st) args" "int (4 + length p + 64 * length args) < mc_maxPacketAllowed mc"
  shows "\<exists>mc'. writeExecutePacket fmt st args mc = Some (Inr (), mc') \<and> wt_out (mc_net mc') = wt_out (mc_net mc) @ packets p 0"
proof -
  let ?n = "length args" and ?m = "mc\<lparr>mc_sequence := 0\<rparr>"
  let ?pos = "values_pos ?n"
  let ?types = "concat (map (\<lambda>a. [arg_type a, 0]) args)" and ?vals = "concat (map (arg_bytes fmt loc) args)"
  have "length ?types = 2 * length args" by (induction args) simp_all
  then have lp: "4 + length p = ?pos + length ?vals"
    using assms(12) by (simp add: execute_payload_def exec_head_def le32_def null_flags_def values_pos_def)
  have "?pos + length ?vals + 64 * ?n = 4 + length p + 64 * ?n" using lp by simp
  then have fit: "int ?pos + int (length ([] :: bytes)) + int (length ?vals) + int ?n * 64 < mc_maxPacketAllowed mc" using assms(13) by simp
  obtain nulls where e: "exec_args fmt st ?n (int ?pos) 0 args 0 [] [] ?m = Some (Inr (nulls, ?types, ?vals), ?m)"
    "\<forall>k. bit nulls k \<longleftrightarrow> k < length args \<and> k < 64 \<and> arg_null (args ! k)"
    using exec_args_inline[of ?m cfg loc ?n 0 args "int ?pos" "[]" fmt st 0 "[]"] assms(6,7,10) fit by auto
  have data: "packet_header (?pos + length ?vals - 4) 0 @ exec_head (st_id st) @ mask_bytes ?n nulls @ [1] @ ?types @ ?vals =
      packet_header (length p) 0 @ p"
  proof -
    have "?pos + length ?vals - 4 = length p" using lp by simp
    then show ?thesis unfolding mask_bitmap[OF e(2)] by (simp only: assms(12) execute_payload_def append_assoc)
  qed
  have len: "5 + (length (exec_head (st_id st)) + (length (mask_bytes ?n nulls) + (length ?types + length ?vals))) = 4 + length p"
    using arg_cong[OF data, of length] by simp
  define buf where "buf = Some (if length (packet_header (length p) 0 @ p) \<le> length (bf_buf b)
    then fill_slice (InBuf (length (bf_retired b)) 0 (length (bf_buf b))) (packet_header (length p) 0 @ p) b
    else set_array (packet_header (length p) 0 @ p) b)"
  have flag: "14 + (?n + 7) div 8 < length (bf_buf b)" using assms(11) by (simp add: values_pos_def)
  have "writeExecutePacket fmt st args mc = writePacket (packet_header (length p) 0 @ p) (?m\<lparr>mc_buf := buf\<rparr>)"
    using assms(4,5,8,11) e(1) data assms(9)[symmetric] flag len
    by (simp add: writeExecutePacket_def seq_def reset_sequence_def modify_def with_buf_def takeCompleteBuffer_def Let_def inspect_def buf_def)
  moreover have "writePacket (packet_header (length p) (mc_sequence (?m\<lparr>mc_buf := buf\<rparr>)) @ p) (?m\<lparr>mc_buf := buf\<rparr>) =
      Some (Inr (), sent (packets p (mc_sequence (?m\<lparr>mc_buf := buf\<rparr>))) (length p div maxPacketSize + 1) (?m\<lparr>mc_buf := buf\<rparr>))"
    using assms(1-3,13) by (intro writePacket_sends) (simp_all add: conn_ok_def limits_def)
  ultimately show ?thesis by simp
qed

definition ex_stmt_conn :: mysqlConn where
  "ex_stmt_conn = new_conn (new_config\<lparr>cf_loc := Some ''UTC''\<rparr>) [] None"

definition ex_stmt :: mysqlStmt where
  "ex_stmt = \<lparr>st_open = True, st_id = 7, st_paramCount = 65, st_columns = None\<rparr>"

text \<open>65 NULLs: the last byte of the bitmap is zero.\<close>

theorem execute_packet_sent_witness:
  "\<exists>mc'. writeExecutePacket (\<lambda>loc t. []) ex_stmt (replicate 65 ArgNil) ex_stmt_conn = Some (Inr (), mc') \<and>
    wt_out (mc_net mc') = packets (execute_payload (\<lambda>loc t. []) ''UTC'' 7 (replicate 65 ArgNil)) 0 \<and>
    execute_payload (\<lambda>loc t. []) ''UTC'' 7 (replicate 65 ArgNil) ! 18 = 0"
proof -
  let ?args = "replicate 65 ArgNil" and ?b = "newBuffer []"
  have "length (execute_payload (\<lambda>loc t. []) ''UTC'' 7 ?args) = 150"
    by (simp add: execute_payload_def exec_head_def le32_def null_flags_def) (simp add: numeral_nat arg_bytes_def)
  moreover have "bitmap (null_flags ?args) ! 8 = 0"
  proof (rule bit_word_eqI)
    fix k assume "k < LENGTH(8)"
    then show "bit (bitmap (null_flags ?args) ! 8) k = bit (0 :: byte) k"
      by (cases "k = 0") (auto simp: bit_bitmap null_flags_def)
  qed
  then have "execute_payload (\<lambda>loc t. []) ''UTC'' 7 ?args ! 18 = 0"
    by (simp add: execute_payload_def exec_head_def le32_def nth_append null_flags_def)
  moreover have "conn_ok ex_stmt_conn" "mc_buf ex_stmt_conn = Some ?b"
    by (simp_all add: ex_stmt_conn_def new_conn_def conn_ok_def limits_def newBuffer_ok max_packets)
  ultimately show ?thesis
    using execute_packet_sent[of ex_stmt_conn ?b "new_config\<lparr>cf_loc := Some ''UTC''\<rparr>" "''UTC''" ?args ex_stmt _ "\<lambda>loc t. []"]
    by (simp add: ex_stmt_conn_def new_conn_def ex_stmt_def max_packets values_pos_def newBuffer_def defaultBufSize_def)
qed

subsection \<open>What a statement does not do\<close>

text \<open>The types of the parameters are written into the buffer as it is: with more than it has room for, 1,921 in the first one, the
  driver panics.\<close>

theorem too_many_parameters:
  assumes "mc_buf mc = Some b" "bf_length b = 0" "args \<noteq> []" "length args = st_paramCount st" "length (bf_buf b) < values_pos (length args)"
  shows "\<exists>p mc'. writeExecutePacket fmt st args mc = Some (Inl (Crash p), mc')"
  using assms
  by (simp add: writeExecutePacket_def seq_def reset_sequence_def modify_def with_buf_def takeCompleteBuffer_def Let_def crash_def)

lemma parameters_in_first_buffer: "length (bf_buf (newBuffer rd)) < values_pos n \<longleftrightarrow> 1921 \<le> n"
proof
  assume "length (bf_buf (newBuffer rd)) < values_pos n"
  then show "1921 \<le> n" by (simp add: values_pos_def newBuffer_def defaultBufSize_def)
next
  assume "1921 \<le> n"
  then show "length (bf_buf (newBuffer rd)) < values_pos n" by (simp add: values_pos_def newBuffer_def defaultBufSize_def)
qed

lemma seq_result: "seq a f mc = Some (Inr y, mc') \<longleftrightarrow> (\<exists>x m. a mc = Some (Inr x, m) \<and> f x m = Some (Inr y, mc'))"
  by (cases "a mc") (auto simp: seq_def split: sum.splits)

text \<open>The columns of the first query are those of every later one, whatever the server announces.\<close>

theorem columns_of_first_query:
  assumes "st_columns st = Some cs" "stmt_Query env fuel fmt st args mc = Some (Inr (rows, st'), mc')"
  shows "st' = st \<and> (rw_columns rows = cs \<or> rw_columns rows = [])"
  using assms
  by (auto simp: stmt_Query_def with_stmt_def if_open_def inspect_def seq_result ret_def crash_def raise_def split: if_splits)

end
