(* ===== verification/SpdyServe.thy ===== *)
theory SpdyServe
  imports StreamDelivery FrameQueue
begin

text \<open>
  docker/spdystream, connection.go: \<open>Serve\<close> with its reader, the five queues and the worker of each, as actions in
  any order; and that the frames of a stream are handled in the order in which they were read.
\<close>

subsection \<open>The server\<close>

text \<open>A worker is free, has popped a frame, or waits for ever in handling one.\<close>

datatype worker = Free | Holds frame | HangsWith frame

text \<open>\<open>sv_push\<close>: what the reader has admitted and pushes into a queue, which may wait; \<open>sv_dead\<close>: the panic that has
  ended the process.\<close>

record ('c, 'd) server =
  sv_conn :: "('c, 'd) connection"
  sv_push :: "(nat \<times> uint8 \<times> frame) option"
  sv_queues :: "nat \<Rightarrow> frame_priority_queue"
  sv_worker :: "nat \<Rightarrow> worker"
  sv_rr :: nat
  sv_over :: bool
  sv_dead :: "panic option"

definition new_server :: "('c, 'd) connection \<Rightarrow> ('c, 'd) server" where
  "new_server s = \<lparr>sv_conn = s, sv_push = None, sv_queues = (\<lambda>_. NewPriorityFrameQueue QUEUE_SIZE), sv_worker = (\<lambda>_. Free),
     sv_rr = 0, sv_over = False, sv_dead = None\<rparr>"

text \<open>The reader gets a frame, pushes it, or fails to read; the goroutine of a queue drains it; a worker pops a frame and
  handles it, \<open>reading\<close> saying whether somebody takes what it sends; the user calls an operation.\<close>

datatype serve_act = Arrive frame | PushFrame | ReadFails | DrainQueue nat | PopFrame nat | HandleFrame nat bool | UserOp conn_op

datatype serve_event = Accepted frame uint8 | Taken nat frame

fun user_op :: "conn_op \<Rightarrow> bool" where
  "user_op (OpServe fr rr) \<longleftrightarrow> False"
| "user_op OpServeEnd \<longleftrightarrow> False"
| "user_op (OpHandle reading fr) \<longleftrightarrow> False"
| "user_op op \<longleftrightarrow> True"

definition settle :: "('c, 'd) connection step \<Rightarrow> ('c, 'd) server \<Rightarrow> ('c, 'd) server" where
  "settle x sv = sv\<lparr>sv_conn := step_state x, sv_dead := (case x of Crash p s \<Rightarrow> Some p | _ \<Rightarrow> sv_dead sv)\<rparr>"

text \<open>One action; one that is not possible changes nothing.\<close>

fun serve_do ::
  "('c, 'd) zlib \<Rightarrow> (ref \<Rightarrow> ('c, 'd) connection \<Rightarrow> ('c, 'd) connection step) \<Rightarrow> serve_act \<Rightarrow> ('c, 'd) server \<Rightarrow>
   ('c, 'd) server \<times> serve_event list"
where
  "serve_do zl h (Arrive fr) sv =
    (if sv_over sv \<or> sv_push sv \<noteq> None then (sv, [])
     else case serve_frame fr (sv_rr sv) (sv_conn sv) of
       (None, rr, s) \<Rightarrow> (sv\<lparr>sv_rr := rr, sv_conn := s\<rparr>, [])
     | (Some (i, p), rr, s) \<Rightarrow> (sv\<lparr>sv_rr := rr, sv_conn := s, sv_push := Some (i, p, fr)\<rparr>, [Accepted fr p]))"
| "serve_do zl h PushFrame sv =
    (case sv_push sv of
       None \<Rightarrow> (sv, [])
     | Some (i, p, fr) \<Rightarrow>
         (case queue_Push fr p (sv_queues sv i) of
            Waits \<Rightarrow> (sv, [])
          | Panics \<Rightarrow> (sv\<lparr>sv_dead := Some IndexOutOfRange\<rparr>, [])
          | Goes q \<Rightarrow> (sv\<lparr>sv_push := None, sv_queues := (sv_queues sv)(i := q)\<rparr>, [])))"
| "serve_do zl h ReadFails sv =
    (if sv_over sv \<or> sv_push sv \<noteq> None then (sv, []) else (settle (serve_end (sv_conn sv)) (sv\<lparr>sv_over := True\<rparr>), []))"
| "serve_do zl h (DrainQueue i) sv =
    (if cn_closed (sv_conn sv) then (sv\<lparr>sv_queues := (sv_queues sv)(i := queue_Drain (sv_queues sv i))\<rparr>, []) else (sv, []))"
| "serve_do zl h (PopFrame i) sv =
    (if sv_worker sv i \<noteq> Free then (sv, [])
     else case queue_Pop (sv_queues sv i) of
       Goes (Some fr, q) \<Rightarrow> (sv\<lparr>sv_queues := (sv_queues sv)(i := q), sv_worker := (sv_worker sv)(i := Holds fr)\<rparr>, [Taken i fr])
     | Panics \<Rightarrow> (sv\<lparr>sv_dead := Some IndexOutOfRange\<rparr>, [])
     | _ \<Rightarrow> (sv, []))"
| "serve_do zl h (HandleFrame i reading) sv =
    (case sv_worker sv i of
       Holds fr \<Rightarrow>
         let x = handleFrame zl h reading fr (sv_conn sv) in
         (settle x (sv\<lparr>sv_worker := (sv_worker sv)(i := case x of Stuck s \<Rightarrow> HangsWith fr | _ \<Rightarrow> Free)\<rparr>), [])
     | _ \<Rightarrow> (sv, []))"
| "serve_do zl h (UserOp op) sv = (if user_op op then (settle (conn_do zl op (sv_conn sv)) sv, []) else (sv, []))"

fun serve_run ::
  "('c, 'd) zlib \<Rightarrow> (ref \<Rightarrow> ('c, 'd) connection \<Rightarrow> ('c, 'd) connection step) \<Rightarrow> serve_act list \<Rightarrow> ('c, 'd) server \<Rightarrow>
   ('c, 'd) server \<times> serve_event list"
where
  "serve_run zl h [] sv = (sv, [])"
| "serve_run zl h (a # acts) sv =
    (if sv_dead sv \<noteq> None then (sv, [])
     else case serve_do zl h a sv of (sv, es) \<Rightarrow> apsnd ((@) es) (serve_run zl h acts sv))"

subsection \<open>Order\<close>

fun frame_stream :: "frame \<Rightarrow> stream_id option" where
  "frame_stream (SynStreamFrame fr) = Some (fs_StreamId fr)"
| "frame_stream (SynReplyFrame fr) = Some (fy_StreamId fr)"
| "frame_stream (DataFrame fr) = Some (fd_StreamId fr)"
| "frame_stream (RstStreamFrame fr) = Some (fr_StreamId fr)"
| "frame_stream (HeadersFrame fr) = Some (fh_StreamId fr)"
| "frame_stream fr = None"

definition worker_of :: "stream_id \<Rightarrow> nat" where
  "worker_of sid = unat (sid mod FRAME_WORKERS)"

definition admitted :: "serve_event list \<Rightarrow> (frame \<times> uint8) list" where
  "admitted es = concat (map (\<lambda>e. case e of Accepted fr p \<Rightarrow> [(fr, p)] | Taken i fr \<Rightarrow> []) es)"

definition taken :: "serve_event list \<Rightarrow> frame list" where
  "taken es = concat (map (\<lambda>e. case e of Accepted fr p \<Rightarrow> [] | Taken i fr \<Rightarrow> [fr]) es)"

definition of_id :: "stream_id \<Rightarrow> frame \<times> uint8 \<Rightarrow> bool" where
  "of_id sid x \<longleftrightarrow> frame_stream (fst x) = Some sid"

definition pushing :: "nat \<Rightarrow> ('c, 'd) server \<Rightarrow> (frame \<times> uint8) list" where
  "pushing i sv = (case sv_push sv of Some (j, p, fr) \<Rightarrow> if j = i then [(fr, p)] else [] | None \<Rightarrow> [])"

text \<open>What waits for a worker.\<close>

definition in_line :: "nat \<Rightarrow> ('c, 'd) server \<Rightarrow> (frame \<times> uint8) list" where
  "in_line i sv = abstract_queue (sv_queues sv i) @ pushing i sv"

lemma trace_simps [simp]:
  "admitted [] = []" "taken [] = []" "admitted (a @ b) = admitted a @ admitted b" "taken (a @ b) = taken a @ taken b"
  "admitted [Accepted fr p] = [(fr, p)]" "taken [Accepted fr p] = []" "admitted [Taken i fr] = []" "taken [Taken i fr] = [fr]"
  by (simp_all add: admitted_def taken_def)

lemma abstract_queue_sorted: "sorted (map snd (abstract_queue q))"
proof -
  have "sorted (map fq_key (by_urgency (pq_queue q)))" by (simp add: by_urgency_def)
  then have "sorted (map fst (map fq_key (by_urgency (pq_queue q))))"
    by (induction "by_urgency (pq_queue q)") (auto simp: sorted_map sorted_wrt_map less_eq_prod_def elim!: sorted_wrt_mono_rel[rotated])
  then show ?thesis by (simp add: abstract_queue_def fq_key_def o_def)
qed

lemma spec_push_other: "\<not> R (fr, p) \<Longrightarrow> filter R (spec_push fr p xs) = filter R xs"
  by (simp add: spec_push_def) (metis filter_append takeWhile_dropWhile_id)

lemma dropWhile_above: "sorted (map snd xs) \<Longrightarrow> x \<in> set (dropWhile (\<lambda>x. snd x \<le> p) xs) \<Longrightarrow> (p :: uint8) < snd x"
  by (induction xs) (auto split: if_splits)

lemma spec_push_last:
  assumes "sorted (map snd xs)" "\<forall>x \<in> set xs. R x \<longrightarrow> snd x \<le> p"
  shows "filter R (spec_push fr p xs) = filter R xs @ filter R [(fr, p)]"
proof -
  have "filter R (dropWhile (\<lambda>x. snd x \<le> p) xs) = []"
    using dropWhile_above[OF assms(1), of _ p] assms(2) by (fastforce simp: filter_empty_conv dest: set_dropWhileD)
  moreover have "filter R xs = filter R (takeWhile (\<lambda>x. snd x \<le> p) xs) @ filter R (dropWhile (\<lambda>x. snd x \<le> p) xs)"
    by (metis filter_append takeWhile_dropWhile_id)
  ultimately show ?thesis by (simp add: spec_push_def)
qed

lemma serve_frame_route:
  "serve_frame fr rr s = (Some (i, p), rr', s') \<Longrightarrow> frame_stream fr = Some sid \<Longrightarrow> i = worker_of sid"
  by (cases fr) (auto simp: worker_of_def of_stream_def split: prod.splits bool.splits)

text \<open>The invariant: the queues are in order, the frames of a stream wait for its worker only, and they were accepted in the
  order in which they were taken and will be taken.\<close>

definition queues_ok :: "('c, 'd) server \<Rightarrow> serve_event list \<Rightarrow> bool" where
  "queues_ok sv es \<longleftrightarrow> (\<forall>i. queue_inv (sv_queues sv i) \<and>
    unat (pq_nextInsertId (sv_queues sv i)) + length (pushing i sv) \<le> length (admitted es))"

definition routed :: "stream_id \<Rightarrow> ('c, 'd) server \<Rightarrow> bool" where
  "routed sid sv \<longleftrightarrow> (\<forall>i. \<forall>x \<in> set (in_line i sv). of_id sid x \<longrightarrow> i = worker_of sid)"

definition in_order :: "stream_id \<Rightarrow> ('c, 'd) server \<Rightarrow> serve_event list \<Rightarrow> bool" where
  "in_order sid sv es \<longleftrightarrow> (\<exists>T. map fst T = filter (\<lambda>fr. frame_stream fr = Some sid) (taken es) \<and>
    filter (of_id sid) (admitted es) = T @ filter (of_id sid) (in_line (worker_of sid) sv))"

definition serve_inv :: "stream_id \<Rightarrow> ('c, 'd) server \<Rightarrow> serve_event list \<Rightarrow> bool" where
  "serve_inv sid sv es \<longleftrightarrow> (length (admitted es) < 2 ^ 64 \<longrightarrow> sorted (map snd (filter (of_id sid) (admitted es))) \<longrightarrow>
    queues_ok sv es \<and> routed sid sv \<and> in_order sid sv es)"

lemma serve_inv_same:
  "serve_inv sid sv es \<Longrightarrow> sv_push sv' = sv_push sv \<Longrightarrow> sv_queues sv' = sv_queues sv \<Longrightarrow> serve_inv sid sv' es"
  by (simp add: serve_inv_def queues_ok_def routed_def in_order_def in_line_def pushing_def)

lemma serve_inv_arrive:
  assumes "serve_inv sid sv es" "sv_push sv = None" "frame_stream fr = Some sid \<Longrightarrow> i = worker_of sid"
    and "sv' = sv\<lparr>sv_rr := rr, sv_conn := s, sv_push := Some (i, p, fr)\<rparr>"
  shows "serve_inv sid sv' (es @ [Accepted fr p])"
proof -
  have q: "sv_queues sv' = sv_queues sv" "pushing j sv = []" "pushing j sv' = (if i = j then [(fr, p)] else [])" for j
    using assms(2,4) by (simp_all add: pushing_def)
  have "queues_ok sv' (es @ [Accepted fr p]) \<and> routed sid sv' \<and> in_order sid sv' (es @ [Accepted fr p])"
    if ok: "queues_ok sv es" "routed sid sv" "in_order sid sv es"
  proof (intro conjI)
    show "queues_ok sv' (es @ [Accepted fr p])" using ok(1) by (auto simp: queues_ok_def q le_SucI)
    show "routed sid sv'" using ok(2) assms(3) by (auto simp: routed_def in_line_def q of_id_def)
    obtain T where "map fst T = filter (\<lambda>fr. frame_stream fr = Some sid) (taken es)"
      "filter (of_id sid) (admitted es) = T @ filter (of_id sid) (in_line (worker_of sid) sv)"
      using ok(3) by (auto simp: in_order_def)
    then show "in_order sid sv' (es @ [Accepted fr p])"
      using assms(3) by (auto simp: in_order_def in_line_def q of_id_def)
  qed
  then show ?thesis using assms(1) by (auto simp: serve_inv_def sorted_append)
qed

lemma serve_inv_push:
  assumes "serve_inv sid sv es" "sv_push sv = Some (i, p, fr)" "queue_Push fr p (sv_queues sv i) = Goes q"
    and "sv' = sv\<lparr>sv_push := None, sv_queues := (sv_queues sv)(i := q)\<rparr>"
  shows "serve_inv sid sv' es"
proof -
  let ?q = "sv_queues sv i"
  have p: "pushing j sv' = []" "pushing j sv = (if i = j then [(fr, p)] else [])" for j
    using assms(2,4) by (simp_all add: pushing_def)
  have qs: "sv_queues sv' = (sv_queues sv)(i := q)" using assms(4) by simp
  have "queues_ok sv' es \<and> routed sid sv' \<and> in_order sid sv' es"
    if ok: "queues_ok sv es" "routed sid sv" "in_order sid sv es" "length (admitted es) < 2 ^ 64"
      "sorted (map snd (filter (of_id sid) (admitted es)))"
  proof -
    have room: "length (pq_queue ?q) < pq_size ?q" using assms(3) by (auto simp: queue_Push_def fq_Len_def split: if_splits)
    have n: "Suc (unat (pq_nextInsertId ?q)) \<le> length (admitted es)" using ok(1) p(2)[of i] by (auto simp: queues_ok_def dest: spec[of _ i])
    have "unat (- 1 :: uint64) = 2 ^ 64 - 1" by (simp add: unsigned_minus_1_eq_mask mask_eq_exp_minus_1)
    then have "pq_nextInsertId ?q \<noteq> - 1" using n ok(4) by auto
    moreover have "queue_inv ?q" using ok(1) by (simp add: queues_ok_def)
    ultimately have q: "queue_inv q" "abstract_queue q = spec_push fr p (abstract_queue ?q)" "pq_nextInsertId q = pq_nextInsertId ?q + 1"
      using queue_Push_step[of ?q fr p] room assms(3) by auto
    have "unat (pq_nextInsertId ?q + 1) \<le> Suc (unat (pq_nextInsertId ?q))"
      by (metis add.commute le_refl nat_le_linear not_less_eq_eq unatSuc unat_0 zero_le)
    moreover have "unat (pq_nextInsertId (sv_queues sv j)) \<le> length (admitted es)" for j
      using ok(1) by (auto simp: queues_ok_def dest: spec[of _ j])
    ultimately have a: "queues_ok sv' es" using ok(1) n q by (auto simp: queues_ok_def qs p)
    have set: "set (abstract_queue q) = insert (fr, p) (set (abstract_queue ?q))"
      unfolding q(2) spec_push_def by (metis Un_insert_right list.simps(15) set_append takeWhile_dropWhile_id)
    then have b: "routed sid sv'" using ok(2) by (auto simp: routed_def in_line_def p qs split: if_splits)
    have f: "filter (of_id sid) (in_line (worker_of sid) sv') = filter (of_id sid) (in_line (worker_of sid) sv)"
    proof (cases "i = worker_of sid")
      case True
      show ?thesis
      proof (cases "of_id sid (fr, p)")
        case of: True
        obtain T where T: "filter (of_id sid) (admitted es) = T @ filter (of_id sid) (in_line (worker_of sid) sv)"
          using ok(3) by (auto simp: in_order_def)
        have "\<forall>x \<in> set (abstract_queue ?q). of_id sid x \<longrightarrow> snd x \<le> p"
          using ok(5) True of unfolding T by (auto simp: in_line_def p sorted_append)
        then show ?thesis using spec_push_last[OF abstract_queue_sorted] True
          by (simp add: in_line_def p qs q(2))
      next
        case False
        then show ?thesis using True by (simp add: in_line_def p qs q(2) spec_push_other)
      qed
    qed (simp add: in_line_def p qs)
    then have "in_order sid sv' es" using ok(3) by (simp add: in_order_def)
    then show ?thesis using a b by blast
  qed
  then show ?thesis using assms(1) by (auto simp: serve_inv_def)
qed

lemma serve_inv_pop:
  assumes "serve_inv sid sv es" "queue_Pop (sv_queues sv i) = Goes (Some fr, q)"
    and "sv' = sv\<lparr>sv_queues := (sv_queues sv)(i := q), sv_worker := w\<rparr>"
  shows "serve_inv sid sv' (es @ [Taken i fr])"
proof -
  let ?q = "sv_queues sv i"
  have p: "pushing j sv' = pushing j sv" for j by (simp add: pushing_def assms(3))
  have qs: "sv_queues sv' = (sv_queues sv)(i := q)" using assms(3) by simp
  have "queues_ok sv' (es @ [Taken i fr]) \<and> routed sid sv' \<and> in_order sid sv' (es @ [Taken i fr])"
    if ok: "queues_ok sv es" "routed sid sv" "in_order sid sv es"
  proof -
    have ne: "pq_queue ?q \<noteq> []" using assms(2) by (auto simp: queue_Pop_def fq_Len_def split: if_splits)
    moreover have "queue_inv ?q" using ok(1) by (simp add: queues_ok_def)
    ultimately have q: "fr = fst (hd (abstract_queue ?q))" "queue_inv q" "abstract_queue q = tl (abstract_queue ?q)"
      "pq_nextInsertId q = pq_nextInsertId ?q"
      using queue_Pop_step[of ?q] assms(2) by auto
    obtain x xs where x: "abstract_queue ?q = x # xs" using ne by (metis length_0_conv length_abstract list.exhaust)
    have fx: "fr = fst x" "abstract_queue q = xs" using q x by simp_all
    have a: "queues_ok sv' (es @ [Taken i fr])" using ok(1) q(2,4) p by (simp add: queues_ok_def qs)
    have b: "routed sid sv'" using ok(2) x fx by (auto simp: routed_def in_line_def p qs split: if_splits)
    obtain T where T: "map fst T = filter (\<lambda>fr. frame_stream fr = Some sid) (taken es)"
      "filter (of_id sid) (admitted es) = T @ filter (of_id sid) (in_line (worker_of sid) sv)"
      using ok(3) by (auto simp: in_order_def)
    have "in_order sid sv' (es @ [Taken i fr])"
    proof (cases "of_id sid x")
      case True
      then have "i = worker_of sid" using ok(2) x unfolding routed_def in_line_def by (metis append_Cons list.set_intros(1))
      then show ?thesis using T True x fx
        by (auto simp: in_order_def in_line_def p qs of_id_def intro!: exI[of _ "T @ [x]"])
    next
      case False
      then have "filter (of_id sid) (in_line (worker_of sid) sv') = filter (of_id sid) (in_line (worker_of sid) sv)"
        using x fx by (auto simp: in_line_def p qs)
      then show ?thesis using T False fx(1) by (auto simp: in_order_def of_id_def)
    qed
    then show ?thesis using a b by blast
  qed
  then show ?thesis using assms(1) by (auto simp: serve_inv_def)
qed

lemma serve_inv_drain:
  assumes "serve_inv sid sv es"
  shows "serve_inv sid (sv\<lparr>sv_queues := (sv_queues sv)(i := queue_Drain (sv_queues sv i))\<rparr>) es"
proof -
  have d: "queue_inv (queue_Drain q) = queue_inv q" "abstract_queue (queue_Drain q) = abstract_queue q"
    "pq_nextInsertId (queue_Drain q) = pq_nextInsertId q" for q
    by (simp_all add: queue_inv_def queue_Drain_def abstract_queue_def)
  have "abstract_queue (((sv_queues sv)(i := queue_Drain (sv_queues sv i))) j) = abstract_queue (sv_queues sv j)" for j
    by (simp add: d)
  then show ?thesis using assms by (simp add: serve_inv_def queues_ok_def routed_def in_order_def in_line_def pushing_def d)
qed

lemma serve_inv_do:
  assumes "serve_inv sid sv es"
  shows "serve_inv sid (fst (serve_do zl h a sv)) (es @ snd (serve_do zl h a sv))"
proof (cases a)
  case (Arrive fr)
  show ?thesis
  proof (cases "sv_over sv \<or> sv_push sv \<noteq> None")
    case True
    then show ?thesis using assms Arrive by simp
  next
    case False
    obtain r rr s where f: "serve_frame fr (sv_rr sv) (sv_conn sv) = (r, rr, s)" by (metis prod_cases3)
    show ?thesis
    proof (cases r)
      case None
      then show ?thesis using False f Arrive serve_inv_same[OF assms, of "sv\<lparr>sv_rr := rr, sv_conn := s\<rparr>"] by simp
    next
      case (Some x)
      obtain i p where x: "x = (i, p)" by fastforce
      have n: "sv_push sv = None" using False by (cases "sv_push sv") auto
      from x show ?thesis using False n f Arrive Some serve_inv_arrive[OF assms _ _ refl, where fr = fr and i = i and p = p and rr = rr and s = s] serve_frame_route[of fr "sv_rr sv" "sv_conn sv" i p rr s sid]
        by simp
    qed
  qed
next
  case PushFrame
  show ?thesis
  proof (cases "sv_push sv")
    case None
    then show ?thesis using assms PushFrame by simp
  next
    case (Some x)
    obtain i p fr where x: "x = (i, p, fr)" by (metis prod_cases3)
    show ?thesis
    proof (cases "queue_Push fr p (sv_queues sv i)")
      case (Goes q)
      then show ?thesis using PushFrame Some x serve_inv_push[OF assms _ _ refl, where i = i and p = p and fr = fr and q = q] by simp
    qed (use assms PushFrame Some x in \<open>simp_all add: serve_inv_same[OF assms]\<close>)
  qed
next
  case ReadFails
  then show ?thesis using assms by (simp add: settle_def serve_inv_same[OF assms])
next
  case (DrainQueue i)
  then show ?thesis using assms serve_inv_drain[OF assms, of i] by simp
next
  case (PopFrame i)
  show ?thesis
  proof (cases "sv_worker sv i = Free")
    case True
    show ?thesis
    proof (cases "queue_Pop (sv_queues sv i)")
      case (Goes x)
      obtain r q where x: "x = (r, q)" by fastforce
      show ?thesis
      proof (cases r)
        case (Some fr)
        then show ?thesis using PopFrame True Goes x serve_inv_pop[OF assms _ refl, where i = i and fr = fr and q = q] by simp
      qed (use assms PopFrame True Goes x in simp)
    qed (use assms PopFrame True in \<open>simp_all add: serve_inv_same[OF assms]\<close>)
  qed (use assms PopFrame in simp)
next
  case (HandleFrame i reading)
  then show ?thesis using assms by (cases "sv_worker sv i") (simp_all add: Let_def settle_def serve_inv_same[OF assms])
next
  case (UserOp op)
  then show ?thesis using assms by (simp add: settle_def serve_inv_same[OF assms])
qed

lemma serve_inv_run:
  "serve_inv sid sv es \<Longrightarrow> serve_run zl h acts sv = (sv', es') \<Longrightarrow> serve_inv sid sv' (es @ es')"
proof (induction acts arbitrary: sv es es')
  case (Cons a acts)
  show ?case
  proof (cases "sv_dead sv = None")
    case True
    obtain sv1 es1 where d: "serve_do zl h a sv = (sv1, es1)" by fastforce
    obtain es2 where r: "serve_run zl h acts sv1 = (sv', es2)" "es' = es1 @ es2"
      using Cons.prems(2) True d by (auto simp: apsnd_def map_prod_def split: prod.splits)
    show ?thesis using Cons.IH[OF _ r(1), of "es @ es1"] serve_inv_do[OF Cons.prems(1), of zl h a] d r(2) by simp
  qed (use Cons.prems in auto)
qed simp

lemma serve_inv_new: "serve_inv sid (new_server s) []"
proof -
  have "abstract_queue (NewPriorityFrameQueue QUEUE_SIZE) = []" "pq_nextInsertId (NewPriorityFrameQueue QUEUE_SIZE) = 0"
    by (simp_all add: NewPriorityFrameQueue_def abstract_queue_def by_urgency_def)
  then show ?thesis
    by (simp add: serve_inv_def queues_ok_def routed_def in_order_def in_line_def pushing_def new_server_def new_queue_inv)
qed

lemma serve_do_admits: "length (admitted (snd (serve_do zl h a sv))) \<le> 1"
  by (cases a) (auto simp: Let_def split: prod.splits option.splits wait.splits worker.splits)

lemma serve_run_admits: "serve_run zl h acts sv = (sv', es) \<Longrightarrow> length (admitted es) \<le> length acts"
proof (induction acts arbitrary: sv es)
  case (Cons a acts)
  show ?case
  proof (cases "sv_dead sv = None")
    case True
    obtain sv1 es1 where d: "serve_do zl h a sv = (sv1, es1)" by fastforce
    obtain es2 where r: "serve_run zl h acts sv1 = (sv', es2)" "es = es1 @ es2"
      using Cons.prems True d by (auto simp: apsnd_def map_prod_def split: prod.splits)
    show ?thesis using Cons.IH[OF r(1)] r(2) d serve_do_admits[of zl h a sv] by simp
  qed (use Cons.prems in auto)
qed simp

lemma stream_frames:
  assumes "serve_run zl h acts (new_server s) = (sv, es)" "length acts < 2 ^ 64"
    and "sorted (map snd (filter (of_id sid) (admitted es)))"
  shows "filter (\<lambda>fr. frame_stream fr = Some sid) (map fst (admitted es)) =
    filter (\<lambda>fr. frame_stream fr = Some sid) (taken es) @
    filter (\<lambda>fr. frame_stream fr = Some sid) (map fst (in_line (worker_of sid) sv))"
proof -
  have f: "filter (\<lambda>fr. frame_stream fr = Some sid) (map fst xs) = map fst (filter (of_id sid) xs)" for xs
    by (induction xs) (auto simp: of_id_def)
  have "length (admitted es) < 2 ^ 64" using serve_run_admits[OF assms(1)] assms(2) by simp
  then have "in_order sid sv es" using serve_inv_run[OF serve_inv_new assms(1), of sid] assms(3) by (simp add: serve_inv_def)
  then show ?thesis unfolding f by (auto simp: in_order_def)
qed

subsection \<open>Properties\<close>

text \<open>C10. Whatever the reader, the five workers, the peer and the user do and in whatever order, the frames of a stream are
  those its worker has taken, in the order in which they were read, followed by those that wait for it: none is lost,
  doubled or overtaken, as long as the priorities under which they are queued do not fall.\<close>

theorem stream_frames_in_order:
  assumes "serve_run zl h acts (new_server s) = (sv, es)" "length acts < 2 ^ 64"
    and "sorted (map snd (filter (of_id sid) (admitted es)))"
  shows "filter (\<lambda>fr. frame_stream fr = Some sid) (map fst (admitted es)) =
    filter (\<lambda>fr. frame_stream fr = Some sid) (taken es) @
    filter (\<lambda>fr. frame_stream fr = Some sid) (map fst (in_line (worker_of sid) sv))"
  by (rule stream_frames[OF assms])

definition ex_acts :: "serve_act list" where
  "ex_acts = [Arrive (SynStreamFrame (ex_syn 1)), PushFrame, Arrive (DataFrame (data_frame_of 1 True [7])), PushFrame, PopFrame 1,
     HandleFrame 1 True, PopFrame 1]"

lemma ex_acts_run:
  "admitted (snd (serve_run ex_zlib (\<lambda>r s. Ok s) ex_acts (new_server (ex_conn True)))) =
     [(SynStreamFrame (ex_syn 1), 0), (DataFrame (data_frame_of 1 True [7]), 0)]"
  "taken (snd (serve_run ex_zlib (\<lambda>r s. Ok s) ex_acts (new_server (ex_conn True)))) = [SynStreamFrame (ex_syn 1), DataFrame (data_frame_of 1 True [7])]"
  by code_simp+

theorem stream_frames_in_order_witness:
  "\<exists>sv es. serve_run ex_zlib (\<lambda>r s. Ok s) ex_acts (new_server (ex_conn True)) = (sv, es) \<and>
    [SynStreamFrame (ex_syn 1), DataFrame (data_frame_of 1 True [7])] =
      filter (\<lambda>fr. frame_stream fr = Some 1) (taken es) @ filter (\<lambda>fr. frame_stream fr = Some 1) (map fst (in_line (worker_of 1) sv)) \<and>
    taken es = [SynStreamFrame (ex_syn 1), DataFrame (data_frame_of 1 True [7])]"
proof -
  obtain sv es where r: "serve_run ex_zlib (\<lambda>r s. Ok s) ex_acts (new_server (ex_conn True)) = (sv, es)" by fastforce
  have t: "admitted es = [(SynStreamFrame (ex_syn 1), 0), (DataFrame (data_frame_of 1 True [7]), 0)]"
    "taken es = [SynStreamFrame (ex_syn 1), DataFrame (data_frame_of 1 True [7])]"
    using ex_acts_run unfolding r snd_conv by blast+
  have "sorted (map snd (filter (of_id 1) (admitted es)))" unfolding t by (simp add: of_id_def ex_syn_def data_frame_of_def)
  moreover have "length ex_acts < 2 ^ 64" by (simp add: ex_acts_def)
  ultimately have "filter (\<lambda>fr. frame_stream fr = Some 1) (map fst (admitted es)) =
      filter (\<lambda>fr. frame_stream fr = Some 1) (taken es) @ filter (\<lambda>fr. frame_stream fr = Some 1) (map fst (in_line (worker_of 1) sv))"
    using stream_frames_in_order[OF r] by blast
  moreover have "filter (\<lambda>fr. frame_stream fr = Some 1) (map fst (admitted es)) = [SynStreamFrame (ex_syn 1), DataFrame (data_frame_of 1 True [7])]"
    unfolding t by (simp add: ex_syn_def data_frame_of_def)
  ultimately have "[SynStreamFrame (ex_syn 1), DataFrame (data_frame_of 1 True [7])] =
      filter (\<lambda>fr. frame_stream fr = Some 1) (taken es) @ filter (\<lambda>fr. frame_stream fr = Some 1) (map fst (in_line (worker_of 1) sv))"
    by (rule trans[OF sym, rotated])
  then show ?thesis using r t(2) by blast
qed

text \<open>The priorities do fall when the peer opens a stream with a priority other than 0: the frame that opens it is queued under its own
  priority, those that follow under the priority of the stream, which is 0 at this end. Data that is read before the worker
  gets to the stream overtakes it, and is dropped, since the stream has not been answered.\<close>

theorem data_overtakes_its_stream:
  assumes "checkStreamFrame fr s = (True, s1)" "0 < fs_Priority fr" "fd_StreamId d = fs_StreamId fr" "i = worker_of (fs_StreamId fr)"
    and "serve_run zl h [Arrive (SynStreamFrame fr), PushFrame, Arrive (DataFrame d), PushFrame, PopFrame i, HandleFrame i reading, PopFrame i]
      (new_server s) = (sv, es)"
  shows "map fst (admitted es) = [SynStreamFrame fr, DataFrame d] \<and> taken es = [DataFrame d, SynStreamFrame fr] \<and>
    sv_conn sv = addStreamFrame fr s1"
proof -
  let ?p = "fs_Priority fr" and ?q = "NewPriorityFrameQueue QUEUE_SIZE" and ?s = "addStreamFrame fr s1"
  note q0 = new_queue_inv[of QUEUE_SIZE]
  have n: "abstract_queue ?q = []" "pq_nextInsertId ?q = 0" "pq_size ?q = 50" "length (pq_queue ?q) = 0"
    by (simp_all add: NewPriorityFrameQueue_def abstract_queue_def by_urgency_def QUEUE_SIZE_def)
  obtain q1 where q1: "queue_Push (SynStreamFrame fr) ?p ?q = Goes q1" "queue_inv q1" "abstract_queue q1 = [(SynStreamFrame fr, ?p)]"
    "length (pq_queue q1) = 1" "pq_size q1 = 50" "pq_nextInsertId q1 = 1"
    using queue_Push_step[OF q0, of "SynStreamFrame fr" ?p] n by (auto simp: spec_push_def)
  obtain q2 where q2: "queue_Push (DataFrame d) 0 q1 = Goes q2" "queue_inv q2" "abstract_queue q2 = [(DataFrame d, 0), (SynStreamFrame fr, ?p)]"
    "length (pq_queue q2) = 2"
    using queue_Push_step[OF q1(2), of "DataFrame d" 0] q1 assms(2) by (auto simp: spec_push_def)
  have ne: "pq_queue q2 \<noteq> []" using q2(4) by auto
  obtain q3 where q3: "queue_Pop q2 = Goes (Some (DataFrame d), q3)" "queue_inv q3" "abstract_queue q3 = [(SynStreamFrame fr, ?p)]"
    "length (pq_queue q3) = 1"
    using queue_Pop_step[OF q2(2) ne] q2(3,4) by auto
  have ne: "pq_queue q3 \<noteq> []" using q3(4) by auto
  obtain q4 where q4: "queue_Pop q3 = Goes (Some (SynStreamFrame fr), q4)"
    using queue_Pop_step[OF q3(2) ne] q3(3) by auto
  have g: "getStream ?s (fs_StreamId fr) = Some (cn_next s1)" "sm_priority (cn_mem ?s (cn_next s1)) = 0"
    "\<not> sm_replied (cn_mem ?s (cn_next s1))"
    by (simp_all add: addStreamFrame_def addStream_def getStream_def blank_stream_def Let_def)
  have f: "serve_frame (SynStreamFrame fr) 0 s = (Some (i, ?p), 0, ?s)" "serve_frame (DataFrame d) 0 ?s = (Some (i, 0), 0, ?s)"
    using assms(1,3,4) g by (simp_all add: worker_of_def of_stream_def getStreamPriority_def)
  have h: "handleDataFrame reading d ?s = Ok ?s" using g assms(3) by (simp add: handleDataFrame_def)
  show ?thesis
    using assms(5) by (auto simp: new_server_def f q1(1) q2(1) q3(1) q4 h settle_def admitted_def taken_def simp del: serve_frame.simps)
qed

theorem data_overtakes_its_stream_witness:
  "\<exists>sv es. serve_run ex_zlib (\<lambda>r s. Ok s) [Arrive (SynStreamFrame ((ex_syn 1)\<lparr>fs_Priority := 3\<rparr>)), PushFrame,
      Arrive (DataFrame (data_frame_of 1 False [7])), PushFrame, PopFrame 1, HandleFrame 1 True, PopFrame 1] (new_server (ex_conn True)) = (sv, es) \<and>
    taken es = [DataFrame (data_frame_of 1 False [7]), SynStreamFrame ((ex_syn 1)\<lparr>fs_Priority := 3\<rparr>)]"
proof -
  let ?fr = "(ex_syn 1)\<lparr>fs_Priority := 3\<rparr>" and ?d = "data_frame_of 1 False [7]"
  obtain s1 where c: "checkStreamFrame ?fr (ex_conn True) = (True, s1)"
    by (simp add: checkStreamFrame_def validateStreamId_def ex_conn_def NewConnection_def ex_syn_def)
  obtain sv es where r: "serve_run ex_zlib (\<lambda>r s. Ok s) [Arrive (SynStreamFrame ?fr), PushFrame,
      Arrive (DataFrame ?d), PushFrame, PopFrame 1, HandleFrame 1 True, PopFrame 1] (new_server (ex_conn True)) = (sv, es)"
    by fastforce
  have "(0 :: uint8) < fs_Priority ?fr" "fd_StreamId ?d = fs_StreamId ?fr" "1 = worker_of (fs_StreamId ?fr)"
    by (simp_all add: ex_syn_def data_frame_of_def worker_of_def FRAME_WORKERS_def)
  then show ?thesis using data_overtakes_its_stream[OF c _ _ _ r] r by blast
qed

end
