(* ===== verification/SpdyDelivery.thy ===== *)
theory SpdyDelivery
  imports SpdyServe
begin

unbundle bit_operations_syntax

text \<open>
  docker/spdystream: what reaches a stream through the reader, the queues and the workers of its connection, whatever else the
  connection carries at the same time.
\<close>

subsection \<open>What an operation leaves alone\<close>

text \<open>Streams are found under their ids.\<close>

definition map_ok :: "('c, 'd) connection \<Rightarrow> bool" where
  "map_ok s \<longleftrightarrow> (\<forall>j r. cn_streams s j = Some r \<longrightarrow> sm_streamId (cn_mem s r) = j \<and> r < cn_next s)"

definition home :: "stream_id \<Rightarrow> ref \<Rightarrow> ('c, 'd) connection \<Rightarrow> bool" where
  "home i q s \<longleftrightarrow> map_ok s \<and> sm_streamId (cn_mem s q) = i \<and> q < cn_next s"

text \<open>An operation that does not touch stream \<open>q\<close> and its place \<open>i\<close> in the map.\<close>

definition keeps :: "stream_id \<Rightarrow> ref \<Rightarrow> ('c, 'd) connection \<Rightarrow> ('c, 'd) connection \<Rightarrow> bool" where
  "keeps i q s s' \<longleftrightarrow> (home i q s \<longrightarrow> home i q s' \<and> cn_mem s' q = cn_mem s q \<and> cn_streams s' i = cn_streams s i)"

lemma keeps_refl [simp]: "keeps i q s s"
  by (simp add: keeps_def)

lemma keeps_trans: "keeps i q s s1 \<Longrightarrow> keeps i q s1 s2 \<Longrightarrow> keeps i q s s2"
  by (auto simp: keeps_def)

text \<open>One that makes no stream: it changes others and takes some out of the map.\<close>

definition aside :: "stream_id \<Rightarrow> ref \<Rightarrow> ('c, 'd) connection \<Rightarrow> ('c, 'd) connection \<Rightarrow> bool" where
  "aside i q s s' \<longleftrightarrow> (\<forall>r. sm_streamId (cn_mem s' r) = sm_streamId (cn_mem s r)) \<and> cn_next s' = cn_next s \<and>
    cn_mem s' q = cn_mem s q \<and> cn_streams s' i = cn_streams s i \<and> (\<forall>j. cn_streams s' j = cn_streams s j \<or> cn_streams s' j = None)"

lemma aside_keeps:
  assumes "aside i q s s'"
  shows "keeps i q s s'"
proof -
  have "map_ok s'" if "map_ok s"
    unfolding map_ok_def
  proof (intro allI impI)
    fix j r assume "cn_streams s' j = Some r"
    then have "cn_streams s j = Some r" using assms unfolding aside_def by (metis option.distinct(1))
    then show "sm_streamId (cn_mem s' r) = j \<and> r < cn_next s'" using that assms by (simp add: aside_def map_ok_def)
  qed
  then show ?thesis using assms by (simp add: aside_def keeps_def home_def)
qed

lemma aside_refl [simp]: "aside i q s s"
  by (simp add: aside_def)

lemma aside_trans: "aside i q s s1 \<Longrightarrow> aside i q s1 s2 \<Longrightarrow> aside i q s s2"
  unfolding aside_def by metis

lemma aside_step:
  assumes "aside i q s (step_state x)" "\<And>s1. x = Ok s1 \<Longrightarrow> aside i q s s1 \<Longrightarrow> aside i q s1 (step_state (f s1))"
  shows "aside i q s (step_state (and_step x f))"
  using assms by (cases x) (auto intro: aside_trans)

lemma aside_upd: "r \<noteq> q \<Longrightarrow> (\<And>t. sm_streamId (f t) = sm_streamId t) \<Longrightarrow> aside i q s (upd_stream r f s)"
  by (simp add: aside_def upd_stream_def)

lemma aside_id: "aside i q s s1 \<Longrightarrow> sm_streamId (cn_mem s1 r) = sm_streamId (cn_mem s r)"
  by (simp add: aside_def)

lemma remove_aside: "sm_streamId (cn_mem s r) \<noteq> i \<Longrightarrow> aside i q s (removeStream r s)"
  by (simp add: aside_def removeStream_def)

lemma close_data_aside:
  assumes "r \<noteq> q"
  shows "aside i q s (step_state (close_data r s))"
proof -
  have u: "aside i q s (upd_stream r (\<lambda>t. t\<lparr>sm_dataClosed := True\<rparr>) s)" by (rule aside_upd[OF assms]) simp
  then have "aside i q s (upd_stream r (\<lambda>t. t\<lparr>sm_closed := True\<rparr>) (upd_stream r (\<lambda>t. t\<lparr>sm_dataClosed := True\<rparr>) s))"
    by (rule aside_trans) (rule aside_upd[OF assms], simp)
  then show ?thesis using u by (simp add: close_data_def Let_def)
qed

lemma close_once_aside: "r \<noteq> q \<Longrightarrow> aside i q s (step_state (close_once r s))"
  by (simp add: close_once_def close_data_aside)

lemma close_start_aside: "r \<noteq> q \<Longrightarrow> aside i q s (step_state (close_start r s))"
  by (simp add: close_start_def aside_upd)

lemma finish_aside:
  "r \<noteq> q \<Longrightarrow> sm_streamId (cn_mem s r) \<noteq> i \<Longrightarrow> aside i q s (step_state (remoteStreamFinish r s))"
  unfolding remoteStreamFinish_def by (rule aside_step[OF close_once_aside]) (auto intro!: remove_aside simp: aside_id)

lemma other_ref:
  assumes "home i q s" "cn_streams s j = Some r" "j \<noteq> i"
  shows "r \<noteq> q" "sm_streamId (cn_mem s r) \<noteq> i"
  using assms by (auto simp: home_def map_ok_def)

lemma data_aside:
  assumes "home i q s" "fd_StreamId fr \<noteq> i"
  shows "aside i q s (step_state (handleDataFrame reading fr s))"
proof (cases "cn_streams s (fd_StreamId fr)")
  case (Some r)
  note o = other_ref[OF assms(1) Some assms(2)]
  have "aside i q s (step_state (and_step
     (if fd_Data fr \<noteq> [] \<and> \<not> sm_closed (cn_mem s r) then
        if sm_dataClosed (cn_mem s r) then Crash SendOnClosedChannel s else if \<not> reading then Stuck s
        else Ok (upd_stream r (\<lambda>t. t\<lparr>sm_inbox := sm_inbox t @ [fd_Data fr]\<rparr>) s) else Ok s)
     (\<lambda>s. if fd_Flags fr AND 0x01 \<noteq> 0 then remoteStreamFinish r s else Ok s)))"
    using o by (intro aside_step) (auto intro!: aside_upd finish_aside simp: aside_id)
  then show ?thesis using Some by (simp add: handleDataFrame_def getStream_def)
qed (simp add: handleDataFrame_def getStream_def)

lemma reply_aside:
  assumes "home i q s" "fy_StreamId fr \<noteq> i"
  shows "aside i q s (step_state (handleReplyFrame fr s))"
proof (cases "cn_streams s (fy_StreamId fr)")
  case (Some r)
  note o = other_ref[OF assms(1) Some assms(2)]
  let ?s = "upd_stream r (\<lambda>t. t\<lparr>sm_replied := True\<rparr>) s"
  have u: "aside i q s ?s" by (rule aside_upd[OF o(1)]) simp
  have "aside i q ?s (step_state (and_step (if ch_Flags (fy_CFHeader fr) AND 0x01 \<noteq> 0 then remoteStreamFinish r ?s else Ok ?s) (close_start r)))"
    using o by (intro aside_step) (auto intro!: finish_aside close_start_aside simp: aside_id[OF u])
  then show ?thesis using Some aside_trans[OF u] by (simp add: handleReplyFrame_def getStream_def Let_def)
qed (simp add: handleReplyFrame_def getStream_def)

lemma header_aside:
  assumes "home i q s" "fh_StreamId fr \<noteq> i"
  shows "aside i q s (step_state (handleHeaderFrame reading fr s))"
proof (cases "cn_streams s (fh_StreamId fr)")
  case (Some r)
  note o = other_ref[OF assms(1) Some assms(2)]
  let ?s = "upd_stream r (\<lambda>t. t\<lparr>sm_headerInbox := sm_headerInbox t @ [fh_Headers fr]\<rparr>) s"
  have u: "aside i q s ?s" by (rule aside_upd[OF o(1)]) simp
  then have "aside i q s (step_state (remoteStreamFinish r ?s))"
    by (rule aside_trans) (rule finish_aside[OF o(1)], simp add: aside_id[OF u] o(2))
  then show ?thesis using Some u by (simp add: handleHeaderFrame_def getStream_def Let_def)
qed (simp add: handleHeaderFrame_def getStream_def)

lemma reset_aside:
  assumes "home i q s" "fr_StreamId fr \<noteq> i"
  shows "aside i q s (step_state (handleResetFrame waiting fr s))"
proof (cases "cn_streams s (fr_StreamId fr)")
  case (Some r)
  note o = other_ref[OF assms(1) Some assms(2)]
  have rep: "aside i q s1 (upd_stream r (\<lambda>t. t\<lparr>sm_replied := True\<rparr>) s1)" for s1 :: "('a, 'b) connection" by (rule aside_upd[OF o(1)]) simp
  have err: "aside i q s1 (step_state (close_start r (upd_stream r (\<lambda>t. t\<lparr>sm_startErrs := sm_startErrs t @ [ErrReset]\<rparr>)
      (upd_stream r (\<lambda>t. t\<lparr>sm_replied := True\<rparr>) s1))))" for s1 :: "('a, 'b) connection"
    by (rule aside_trans[OF rep], rule aside_trans[OF _ close_start_aside[OF o(1)]], rule aside_upd[OF o(1)]) simp
  have fin: "aside i q s1 (upd_stream r (\<lambda>t. t\<lparr>sm_finished := True\<rparr>) s1)" for s1 :: "('a, 'b) connection" by (rule aside_upd[OF o(1)]) simp
  let ?x = "close_once r (removeStream r s)"
  have "aside i q s (step_state ?x)" by (rule aside_trans[OF remove_aside[OF o(2)] close_once_aside[OF o(1)]])
  then have "aside i q s (step_state (and_step ?x (\<lambda>s. and_step
      (if sm_replied (cn_mem s r) then Ok s
       else let s = upd_stream r (\<lambda>t. t\<lparr>sm_replied := True\<rparr>) s in
         if sm_startClosed (cn_mem s r) then Crash SendOnClosedChannel s else if \<not> waiting then Stuck s
         else close_start r (upd_stream r (\<lambda>t. t\<lparr>sm_startErrs := sm_startErrs t @ [ErrReset]\<rparr>) s))
      (\<lambda>s. Ok (upd_stream r (\<lambda>t. t\<lparr>sm_finished := True\<rparr>) s)))))"
    by (rule aside_step, intro aside_step) (auto simp: Let_def intro: rep err fin)
  then show ?thesis using Some by (simp add: handleResetFrame_def getStream_def)
qed (simp add: handleResetFrame_def getStream_def)

lemma ping_aside: "aside i q s (step_state (handlePingFrame zl fr s))"
  by (auto simp: handlePingFrame_def write_frame_def aside_def split: prod.splits option.splits bool.splits)

lemma goaway_aside: "aside i q s (step_state (handleGoAwayFrame fr s))"
  by (auto simp: handleGoAwayFrame_def Let_def aside_def)

lemma add_keeps:
  assumes "sm_streamId st \<noteq> i"
  shows "keeps i q s (snd (addStream st s))"
proof -
  have "home i q (snd (addStream st s))" if h: "home i q s"
    using h assms by (auto simp: home_def map_ok_def addStream_def Let_def intro: less_SucI)
  then show ?thesis using assms by (auto simp: keeps_def addStream_def Let_def home_def)
qed

lemma serve_keeps:
  assumes "serve_frame fr rr s = (r, rr', s')" "r \<noteq> None \<Longrightarrow> frame_stream fr = Some i \<Longrightarrow> \<exists>d. fr = DataFrame d"
  shows "keeps i q s s'"
proof (cases fr)
  case (SynStreamFrame x)
  have v: "aside i q s (snd (checkStreamFrame x s))"
    by (auto simp: checkStreamFrame_def validateStreamId_def aside_def)
  obtain ok s1 where c: "checkStreamFrame x s = (ok, s1)" by fastforce
  show ?thesis
  proof (cases ok)
    case True
    then have "fs_StreamId x \<noteq> i" "s' = addStreamFrame x s1" using assms c SynStreamFrame by auto
    then have "keeps i q s1 s'" by (auto simp: addStreamFrame_def Let_def intro!: add_keeps)
    then show ?thesis using aside_keeps[OF v] c by (auto intro: keeps_trans)
  next
    case False
    then show ?thesis using aside_keeps[OF v] c assms(1) SynStreamFrame by simp
  qed
qed (use assms(1) in auto)

lemma handle_keeps:
  assumes "\<And>r s. r \<noteq> q \<Longrightarrow> keeps i q s (step_state (h r s))" "frame_stream fr \<noteq> Some i"
  shows "keeps i q s (step_state (handleFrame zl h reading fr s))"
proof (cases "home i q s")
  case True
  note a = aside_keeps[OF data_aside[OF True]] aside_keeps[OF reply_aside[OF True]] aside_keeps[OF reset_aside[OF True]]
    aside_keeps[OF header_aside[OF True]] aside_keeps[OF ping_aside] aside_keeps[OF goaway_aside]
  show ?thesis
  proof (cases fr)
    case (SynStreamFrame x)
    then show ?thesis using assms True by (auto simp: getStream_def split: option.splits dest: other_ref)
  qed (use a assms(2) in simp_all)
qed (simp add: keeps_def)

subsection \<open>A stream that receives\<close>

definition finishes :: "data_frame \<Rightarrow> bool" where
  "finishes d \<longleftrightarrow> fd_Flags d AND 0x01 \<noteq> 0"

text \<open>The stream after the frames \<open>ds\<close>, from the one it was, \<open>t\<close>.\<close>

definition received :: "stream_id \<Rightarrow> ref \<Rightarrow> stream \<Rightarrow> data_frame list \<Rightarrow> ('c, 'd) connection \<Rightarrow> bool" where
  "received i q t ds s \<longleftrightarrow> home i q s \<and> sm_replied (cn_mem s q) \<and> sm_priority (cn_mem s q) = sm_priority t \<and>
    sm_unread (cn_mem s q) = sm_unread t \<and> sm_inbox (cn_mem s q) = sm_inbox t @ filter (\<lambda>b. b \<noteq> []) (map fd_Data ds) \<and>
    (if \<exists>d \<in> set ds. finishes d then sm_closed (cn_mem s q)
     else cn_streams s i = Some q \<and> \<not> sm_closed (cn_mem s q) \<and> \<not> sm_dataClosed (cn_mem s q))"

lemma received_keeps: "received i q t ds s \<Longrightarrow> keeps i q s s' \<Longrightarrow> received i q t ds s'"
  by (auto simp: received_def keeps_def split: if_splits)

lemma received_data:
  assumes "received i q t ds s" "fd_StreamId d = i" "\<forall>d \<in> set ds. \<not> finishes d"
  shows "\<exists>s'. handleDataFrame True d s = Ok s' \<and> received i q t (ds @ [d]) s'"
proof -
  have o: "cn_streams s i = Some q" "\<not> sm_closed (cn_mem s q)" "\<not> sm_dataClosed (cn_mem s q)" "sm_replied (cn_mem s q)"
    "sm_streamId (cn_mem s q) = i"
    using assms(1,3) by (auto simp: received_def home_def split: if_splits)
  have h: "home i q s" using assms(1) by (simp add: received_def)
  have u: "home i q (upd_stream q f s')" if "home i q s'" "\<And>t. sm_streamId (f t) = sm_streamId t" for f s'
    using that by (auto simp: home_def map_ok_def upd_stream_def)
  have r: "home i q (removeStream q s')" if "home i q s'" for s'
    using that by (auto simp: home_def map_ok_def removeStream_def split: if_splits)
  let ?s = "if fd_Data d \<noteq> [] then upd_stream q (\<lambda>t. t\<lparr>sm_inbox := sm_inbox t @ [fd_Data d]\<rparr>) s else s"
  have h1: "home i q ?s" using u[OF h, of "\<lambda>t. t\<lparr>sm_inbox := sm_inbox t @ [fd_Data d]\<rparr>"] h by simp
  have d: "handleDataFrame True d s = (if finishes d then remoteStreamFinish q ?s else Ok ?s)"
    using o assms(2) by (simp add: handleDataFrame_def getStream_def finishes_def)
  show ?thesis
  proof (cases "finishes d")
    case False
    then show ?thesis using assms h1 o d by (auto simp: received_def upd_stream_def)
  next
    case True
    let ?s2 = "upd_stream q (\<lambda>t. t\<lparr>sm_closed := True\<rparr>) (upd_stream q (\<lambda>t. t\<lparr>sm_dataClosed := True\<rparr>) ?s)"
    let ?s3 = "if sm_finished (cn_mem ?s2 q) then removeStream q ?s2 else ?s2"
    have h2: "home i q ?s2" by (intro u h1) simp_all
    have "remoteStreamFinish q ?s = Ok ?s3"
      using o by (simp add: remoteStreamFinish_def close_once_def close_data_def Let_def upd_stream_def)
    moreover have "home i q ?s3" using h2 r[OF h2] by simp
    moreover have "cn_mem ?s3 q = (cn_mem s q)\<lparr>sm_inbox := sm_inbox (cn_mem s q) @ (if fd_Data d \<noteq> [] then [fd_Data d] else []),
        sm_dataClosed := True, sm_closed := True\<rparr>"
      by (simp add: upd_stream_def removeStream_def)
    ultimately show ?thesis using assms(1) True d by (auto simp: received_def)
  qed
qed

subsection \<open>The invariant\<close>

text \<open>Frames of data, of which at most the last one finishes the stream.\<close>

definition stream_data :: "frame list \<Rightarrow> bool" where
  "stream_data frs \<longleftrightarrow> (\<forall>fr \<in> set (butlast frs). \<exists>d. fr = DataFrame d \<and> \<not> finishes d) \<and> (frs \<noteq> [] \<longrightarrow> (\<exists>d. last frs = DataFrame d))"

lemma stream_data_init:
  assumes "stream_data (frs @ gs)" "gs \<noteq> []"
  shows "stream_data frs" "\<forall>fr \<in> set frs. \<exists>d. fr = DataFrame d \<and> \<not> finishes d"
proof -
  show all: "\<forall>fr \<in> set frs. \<exists>d. fr = DataFrame d \<and> \<not> finishes d" using assms by (auto simp: stream_data_def butlast_append)
  then show "stream_data frs" using assms(1) by (auto simp: stream_data_def dest: in_set_butlastD)
qed

lemma stream_data_data: "stream_data frs \<Longrightarrow> fr \<in> set frs \<Longrightarrow> \<exists>d. fr = DataFrame d"
  by (cases frs rule: rev_cases) (auto simp: stream_data_def)

definition of_stream_id :: "stream_id \<Rightarrow> frame list \<Rightarrow> frame list" where
  "of_stream_id i frs = filter (\<lambda>fr. frame_stream fr = Some i) frs"

fun held :: "worker \<Rightarrow> frame list" where
  "held Free = []"
| "held (Holds fr) = [fr]"
| "held (HangsWith fr) = [fr]"

text \<open>The frames of the stream that have been taken are those that have been handled, and the one its worker is about to.\<close>

definition delivering :: "stream_id \<Rightarrow> ref \<Rightarrow> stream \<Rightarrow> ('c, 'd) server \<Rightarrow> serve_event list \<Rightarrow> bool" where
  "delivering i q t sv es \<longleftrightarrow> (\<forall>x \<in> set (admitted es). of_id i x \<longrightarrow> snd x = sm_priority t) \<and>
    (\<forall>j. j \<noteq> worker_of i \<longrightarrow> of_stream_id i (held (sv_worker sv j)) = []) \<and>
    (\<exists>ds. of_stream_id i (taken es) = map DataFrame ds @ of_stream_id i (held (sv_worker sv (worker_of i))) \<and> received i q t ds (sv_conn sv))"

lemma of_stream_id_simps [simp]:
  "of_stream_id i [] = []" "of_stream_id i (frs @ gs) = of_stream_id i frs @ of_stream_id i gs"
  "of_stream_id i [fr] = (if frame_stream fr = Some i then [fr] else [])"
  by (simp_all add: of_stream_id_def)

lemma same_priority_sorted: "\<forall>x \<in> set xs. of_id i x \<longrightarrow> snd x = p \<Longrightarrow> sorted (map snd (filter (of_id i) xs))"
  by (induction xs) auto

text \<open>What has been taken comes first among what has been admitted.\<close>

lemma taken_first:
  assumes "serve_inv i sv es" "delivering i q t sv es" "length (admitted es) < 2 ^ 64"
  obtains gs where "of_stream_id i (map fst (admitted es)) = of_stream_id i (taken es) @ gs"
    "queues_ok sv es" "routed i sv"
proof -
  have "sorted (map snd (filter (of_id i) (admitted es)))"
    using assms(2) by (auto simp: delivering_def intro: same_priority_sorted)
  then have o: "queues_ok sv es" "routed i sv" "in_order i sv es" using assms(1,3) by (simp_all add: serve_inv_def)
  have f: "of_stream_id i (map fst xs) = map fst (filter (of_id i) xs)" for xs
    by (induction xs) (auto simp: of_id_def of_stream_id_def)
  obtain T where T: "map fst T = of_stream_id i (taken es)" "filter (of_id i) (admitted es) = T @ filter (of_id i) (in_line (worker_of i) sv)"
    using o(3) by (auto simp: in_order_def of_stream_id_def)
  show ?thesis by (rule that[of "map fst (filter (of_id i) (in_line (worker_of i) sv))"]) (simp_all add: f T o)
qed

text \<open>The actions of a run in which the rest of the connection leaves the stream alone.\<close>

fun quiet :: "('c, 'd) zlib \<Rightarrow> stream_id \<Rightarrow> ref \<Rightarrow> serve_act \<Rightarrow> bool" where
  "quiet zl i q ReadFails \<longleftrightarrow> False"
| "quiet zl i q (HandleFrame j reading) \<longleftrightarrow> reading \<or> j \<noteq> worker_of i"
| "quiet zl i q (UserOp op) \<longleftrightarrow> (\<forall>s. keeps i q s (step_state (conn_do zl op s)))"
| "quiet zl i q a \<longleftrightarrow> True"

text \<open>Users of other streams are quiet when they read, write and set a priority, and so are pings.\<close>

lemma on_stream_keeps:
  assumes "r \<noteq> q" "\<And>a. x = Ok a \<Longrightarrow> sm_streamId (get a) = sm_streamId (cn_mem s r)"
  shows "keeps i q s (step_state (on_stream r s get x))"
  using assms by (cases x) (auto simp: on_stream_def upd_stream_def aside_def intro!: aside_keeps)

lemma send_keeps: "keeps i q s (step_state (call_step (send zl fr s)))"
  by (auto simp: send_def write_frame_def aside_def intro!: aside_keeps split: prod.splits)

lemma other_users_quiet:
  assumes "r \<noteq> q"
  shows "quiet zl i q (UserOp (OpRead n r))" "quiet zl i q (UserOp (OpReadData r))" "quiet zl i q (UserOp (OpWrite data fin r))"
    "quiet zl i q (UserOp (OpPriority p r))" "quiet zl i q (UserOp OpPing)"
proof -
  show "quiet zl i q (UserOp (OpRead n r))"
    by (simp, intro allI on_stream_keeps[OF assms]) (auto simp: Read_def copy_unread_def split: option.splits list.splits prod.splits if_splits)
  show "quiet zl i q (UserOp (OpReadData r))"
    by (simp, intro allI on_stream_keeps[OF assms]) (auto simp: ReadData_def split: list.splits if_splits)
  show "quiet zl i q (UserOp (OpPriority p r))"
    using assms by (auto simp: SetPriority_def intro!: aside_keeps aside_upd)
  show "quiet zl i q (UserOp OpPing)"
    by (auto simp: Ping_begin_def write_frame_def aside_def Let_def intro!: aside_keeps split: prod.splits option.splits)
  have "keeps i q s (step_state (call_step (WriteData zl data fin r s)))" for s
  proof -
    have "keeps i q s (upd_stream r (\<lambda>t. t\<lparr>sm_finished := True\<rparr>) s)" by (rule aside_keeps[OF aside_upd[OF assms]]) simp
    then show ?thesis by (auto simp: WriteData_def Let_def intro: send_keeps keeps_trans[OF _ send_keeps])
  qed
  then show "quiet zl i q (UserOp (OpWrite data fin r))" by simp
qed

lemma deliver_conn:
  assumes "delivering i q t sv es" "keeps i q (sv_conn sv) (sv_conn sv')" "sv_worker sv' = sv_worker sv"
  shows "delivering i q t sv' es"
  using assms unfolding delivering_def by (metis received_keeps)

lemma deliver_arrive:
  assumes "delivering i q t sv es" "serve_inv i sv es" "serve_frame fr (sv_rr sv) (sv_conn sv) = (Some (j, p), rr, s)"
    and "stream_data (of_stream_id i (map fst (admitted es)) @ of_stream_id i [fr])" "length (admitted es) < 2 ^ 64"
    and "sv' = sv\<lparr>sv_rr := rr, sv_conn := s, sv_push := Some (j, p, fr)\<rparr>"
  shows "delivering i q t sv' (es @ [Accepted fr p])"
proof -
  have d: "\<exists>d. fr = DataFrame d" if "frame_stream fr = Some i"
    using stream_data_data[OF assms(4)] that by simp
  have k: "keeps i q (sv_conn sv) s" by (rule serve_keeps[OF assms(3)]) (use d in blast)
  have p: "p = sm_priority t" if f: "frame_stream fr = Some i"
  proof -
    obtain gs where g: "of_stream_id i (map fst (admitted es)) = of_stream_id i (taken es) @ gs"
      using taken_first[OF assms(2,1,5)] by blast
    obtain ds where ds: "of_stream_id i (taken es) = map DataFrame ds @ of_stream_id i (held (sv_worker sv (worker_of i)))"
      "received i q t ds (sv_conn sv)"
      using assms(1) by (auto simp: delivering_def)
    have "\<forall>d \<in> set ds. \<not> finishes d" using stream_data_init(2)[OF assms(4)] f g ds(1) by fastforce
    then have "cn_streams (sv_conn sv) i = Some q" "sm_priority (cn_mem (sv_conn sv) q) = sm_priority t"
      using ds(2) by (auto simp: received_def split: if_splits)
    then show ?thesis using assms(3) d[OF f] f by (auto simp: of_stream_def getStreamPriority_def getStream_def)
  qed
  obtain ds where "of_stream_id i (taken es) = map DataFrame ds @ of_stream_id i (held (sv_worker sv (worker_of i)))"
    "received i q t ds s"
    using assms(1) received_keeps[OF _ k] by (auto simp: delivering_def)
  then show ?thesis using assms(1,6) p by (auto simp: delivering_def of_id_def)
qed

lemma deliver_pop:
  assumes "delivering i q t sv es" "queue_inv (sv_queues sv j)" "routed i sv" "sv_worker sv j = Free"
    and "queue_Pop (sv_queues sv j) = Goes (Some fr, w)"
    and "sv' = sv\<lparr>sv_queues := (sv_queues sv)(j := w), sv_worker := (sv_worker sv)(j := Holds fr)\<rparr>"
  shows "delivering i q t sv' (es @ [Taken j fr])"
proof -
  have ne: "pq_queue (sv_queues sv j) \<noteq> []" using assms(5) by (auto simp: queue_Pop_def fq_Len_def split: if_splits)
  have "fr = fst (hd (abstract_queue (sv_queues sv j)))" using queue_Pop_step[OF assms(2) ne] assms(5) by auto
  moreover have "abstract_queue (sv_queues sv j) \<noteq> []" using ne by (metis length_0_conv length_abstract)
  ultimately have "hd (abstract_queue (sv_queues sv j)) \<in> set (in_line j sv)" "fst (hd (abstract_queue (sv_queues sv j))) = fr"
    by (simp_all add: in_line_def)
  then have j: "frame_stream fr = Some i \<Longrightarrow> j = worker_of i" using assms(3) by (auto simp: routed_def of_id_def)
  obtain ds where ds: "of_stream_id i (taken es) = map DataFrame ds @ of_stream_id i (held (sv_worker sv (worker_of i)))"
    "received i q t ds (sv_conn sv)"
    using assms(1) by (auto simp: delivering_def)
  have "of_stream_id i (taken (es @ [Taken j fr])) = map DataFrame ds @ of_stream_id i (held (sv_worker sv' (worker_of i)))"
    using ds(1) j assms(4,6) by (cases "j = worker_of i") auto
  moreover have "\<forall>k. k \<noteq> worker_of i \<longrightarrow> of_stream_id i (held (sv_worker sv' k)) = []"
    using assms(1,6) j by (auto simp: delivering_def)
  ultimately show ?thesis using assms(1,6) ds(2) by (auto simp: delivering_def)
qed

lemma deliver_handle:
  assumes "delivering i q t sv es" "serve_inv i sv es" "length (admitted es) < 2 ^ 64"
    and "stream_data (of_stream_id i (map fst (admitted es)))"
    and "sv_worker sv j = Holds fr" "reading \<or> j \<noteq> worker_of i" "\<And>r s. r \<noteq> q \<Longrightarrow> keeps i q s (step_state (h r s))"
    and "x = handleFrame zl h reading fr (sv_conn sv)"
    and "sv' = settle x (sv\<lparr>sv_worker := (sv_worker sv)(j := case x of Stuck s \<Rightarrow> HangsWith fr | _ \<Rightarrow> Free)\<rparr>)"
  shows "delivering i q t sv' es"
proof -
  have w: "sv_worker sv' k = (if k = j then (case x of Stuck s \<Rightarrow> HangsWith fr | _ \<Rightarrow> Free) else sv_worker sv k)" "sv_conn sv' = step_state x" for k
    by (simp_all add: assms(9) settle_def)
  obtain ds where ds: "of_stream_id i (taken es) = map DataFrame ds @ of_stream_id i (held (sv_worker sv (worker_of i)))"
    "received i q t ds (sv_conn sv)"
    using assms(1) by (auto simp: delivering_def)
  have others: "\<forall>k. k \<noteq> worker_of i \<longrightarrow> of_stream_id i (held (sv_worker sv k)) = []" using assms(1) by (simp add: delivering_def)
  show ?thesis
  proof (cases "frame_stream fr = Some i")
    case False
    have "keeps i q (sv_conn sv) (sv_conn sv')" unfolding w(2) assms(8) by (rule handle_keeps[OF assms(7) False])
    then have "received i q t ds (sv_conn sv')" using ds(2) received_keeps by blast
    moreover have "of_stream_id i (held (sv_worker sv' k)) = of_stream_id i (held (sv_worker sv k))" for k
      using False assms(5) by (cases x) (simp_all add: w(1))
    ultimately show ?thesis using assms(1) ds(1) by (auto simp: delivering_def)
  next
    case True
    then have j: "j = worker_of i" using others assms(5) by (metis held.simps(2) not_Cons_self2 of_stream_id_simps(3))
    then have r: "reading" using assms(6) by simp
    obtain gs where g: "of_stream_id i (map fst (admitted es)) = of_stream_id i (taken es) @ gs"
      using taken_first[OF assms(2,1,3)] by blast
    have tk: "of_stream_id i (taken es) = map DataFrame ds @ [fr]" using ds(1) True assms(5) j by simp
    then obtain d where d: "fr = DataFrame d" using stream_data_data[OF assms(4), of fr] g by auto
    have "stream_data (map DataFrame ds @ (fr # gs))" using assms(4) unfolding g tk by simp
    then have "\<forall>d \<in> set ds. \<not> finishes d" using stream_data_init(2) by fastforce
    then obtain s where s: "handleDataFrame True d (sv_conn sv) = Ok s" "received i q t (ds @ [d]) s"
      using received_data[OF ds(2), of d] True d by auto
    then have x: "x = Ok s" using assms(8) d r by simp
    have "of_stream_id i (taken es) = map DataFrame (ds @ [d]) @ of_stream_id i (held (sv_worker sv' (worker_of i)))"
      using tk d x j by (simp add: w(1))
    moreover have "received i q t (ds @ [d]) (sv_conn sv')" using s(2) x w(2) by simp
    moreover have "\<forall>k. k \<noteq> worker_of i \<longrightarrow> of_stream_id i (held (sv_worker sv' k)) = []" using others j by (simp add: w(1))
    ultimately show ?thesis using assms(1) unfolding delivering_def by blast
  qed
qed

lemma deliver_do:
  assumes "delivering i q t sv es" "serve_inv i sv es" "quiet zl i q a" "\<And>r s. r \<noteq> q \<Longrightarrow> keeps i q s (step_state (h r s))"
    and "serve_do zl h a sv = (sv', es1)"
    and "stream_data (of_stream_id i (map fst (admitted (es @ es1))))" "length (admitted (es @ es1)) < 2 ^ 64"
  shows "delivering i q t sv' (es @ es1)"
proof -
  have len: "length (admitted es) < 2 ^ 64" using assms(7) by simp
  note ok = taken_first[OF assms(2,1) len]
  show ?thesis
  proof (cases a)
    case (Arrive fr)
    show ?thesis
    proof (cases "sv_over sv \<or> sv_push sv \<noteq> None")
      case True
      then show ?thesis using assms(1,5) Arrive by auto
    next
      case False
      obtain r rr s where f: "serve_frame fr (sv_rr sv) (sv_conn sv) = (r, rr, s)" by (metis prod_cases3)
      show ?thesis
      proof (cases r)
        case None
        then have "sv' = sv\<lparr>sv_rr := rr, sv_conn := s\<rparr>" "es1 = []" using False f assms(5) Arrive by auto
        moreover have "keeps i q (sv_conn sv) s" using serve_keeps[OF f] None by blast
        ultimately show ?thesis using deliver_conn[OF assms(1), of sv'] by simp
      next
        case (Some x)
        obtain j p where x: "x = (j, p)" by fastforce
        then have "sv' = sv\<lparr>sv_rr := rr, sv_conn := s, sv_push := Some (j, p, fr)\<rparr>" "es1 = [Accepted fr p]"
          using False f assms(5) Arrive Some by auto
        then show ?thesis using deliver_arrive[OF assms(1,2) _ _ len, of fr j p rr s sv'] f Some x assms(6) by simp
      qed
    qed
  next
    case (PopFrame j)
    show ?thesis
    proof (cases "sv_worker sv j = Free \<and> (\<exists>fr w. queue_Pop (sv_queues sv j) = Goes (Some fr, w))")
      case True
      then obtain fr w where p: "queue_Pop (sv_queues sv j) = Goes (Some fr, w)" "sv_worker sv j = Free" by blast
      obtain gs where "queues_ok sv es" "routed i sv" using ok by blast
      moreover have "sv' = sv\<lparr>sv_queues := (sv_queues sv)(j := w), sv_worker := (sv_worker sv)(j := Holds fr)\<rparr>" "es1 = [Taken j fr]"
        using p assms(5) PopFrame by auto
      ultimately show ?thesis using deliver_pop[OF assms(1), of j fr w sv'] p by (simp add: queues_ok_def)
    next
      case False
      then have "es1 = [] \<and> sv_conn sv' = sv_conn sv \<and> sv_worker sv' = sv_worker sv" using assms(5) PopFrame
        by (auto split: wait.splits option.splits prod.splits if_splits)
      then show ?thesis using deliver_conn[OF assms(1), of sv'] by simp
    qed
  next
    case (HandleFrame j reading)
    show ?thesis
    proof (cases "sv_worker sv j")
      case (Holds fr)
      let ?x = "handleFrame zl h reading fr (sv_conn sv)"
      have e: "es1 = []" "sv' = settle ?x (sv\<lparr>sv_worker := (sv_worker sv)(j := case ?x of Stuck s \<Rightarrow> HangsWith fr | _ \<Rightarrow> Free)\<rparr>)"
        using assms(5) HandleFrame Holds by (auto simp: Let_def)
      have "stream_data (of_stream_id i (map fst (admitted es)))" using assms(6) e(1) by simp
      then show ?thesis using deliver_handle[OF assms(1,2) len _ Holds _ assms(4) refl e(2)] assms(3) HandleFrame e(1) by simp
    qed (use assms(1,5) HandleFrame in auto)
  next
    case (UserOp op)
    have "keeps i q (sv_conn sv) (step_state (conn_do zl op (sv_conn sv)))" using assms(3) UserOp by simp
    then have "keeps i q (sv_conn sv) (sv_conn sv')" "sv_worker sv' = sv_worker sv" "es1 = []"
      using assms(5) UserOp by (auto simp: settle_def split: if_splits)
    then show ?thesis using deliver_conn[OF assms(1), of sv'] by simp
  next
    case PushFrame
    then have "es1 = [] \<and> sv_conn sv' = sv_conn sv \<and> sv_worker sv' = sv_worker sv" using assms(5)
      by (auto split: wait.splits option.splits prod.splits)
    then show ?thesis using deliver_conn[OF assms(1), of sv'] by simp
  next
    case (DrainQueue j)
    then have "es1 = [] \<and> sv_conn sv' = sv_conn sv \<and> sv_worker sv' = sv_worker sv" using assms(5) by (auto split: if_splits)
    then show ?thesis using deliver_conn[OF assms(1), of sv'] by simp
  qed (use assms(3) in simp)
qed

lemma stream_data_prefix: "stream_data (xs @ ys) \<Longrightarrow> stream_data xs"
  by (cases "ys = []") (auto dest: stream_data_init(1))

lemma deliver_run:
  assumes "\<And>r s. r \<noteq> q \<Longrightarrow> keeps i q s (step_state (h r s))"
  shows "delivering i q t sv es \<Longrightarrow> serve_inv i sv es \<Longrightarrow> list_all (quiet zl i q) acts \<Longrightarrow> serve_run zl h acts sv = (sv', es') \<Longrightarrow>
    stream_data (of_stream_id i (map fst (admitted (es @ es')))) \<Longrightarrow> length (admitted (es @ es')) < 2 ^ 64 \<Longrightarrow>
    delivering i q t sv' (es @ es')"
proof (induction acts arbitrary: sv es es')
  case (Cons a acts)
  show ?case
  proof (cases "sv_dead sv = None")
    case True
    obtain sv1 es1 where d: "serve_do zl h a sv = (sv1, es1)" by fastforce
    obtain es2 where r: "serve_run zl h acts sv1 = (sv', es2)" "es' = es1 @ es2"
      using Cons.prems(4) True d by (auto simp: apsnd_def map_prod_def split: prod.splits)
    have sd: "stream_data (of_stream_id i (map fst (admitted (es @ es1))))"
      using Cons.prems(5) stream_data_prefix unfolding r(2) by (metis append_assoc map_append of_stream_id_simps(2) trace_simps(3))
    have l: "length (admitted (es @ es1)) < 2 ^ 64" using Cons.prems(6) r(2) by simp
    have "delivering i q t sv1 (es @ es1)" using deliver_do[OF Cons.prems(1,2) _ assms d sd l] Cons.prems(3) by simp
    moreover have "serve_inv i sv1 (es @ es1)" using serve_inv_do[OF Cons.prems(2), of zl h a] d by simp
    ultimately show ?thesis using Cons.IH[OF _ _ _ r(1), of "es @ es1"] Cons.prems(3,5,6) r(2) by simp
  qed (use Cons.prems in auto)
qed simp

subsection \<open>Delivery\<close>

text \<open>C5. Data that comes for an open stream and is closed there reaches it whole and in order, whatever the order in which the
  reader, the workers and the users of other streams act and whatever else comes: once the stream's worker has handled all
  that has been read for it, its readers have been given exactly the chunks, without the empty ones, and it is closed. The
  users are \<open>quiet\<close>: they leave the stream alone, and they open and close none on this side meanwhile.\<close>

theorem delivery_through_workers:
  assumes "serve_run zl h acts (new_server s) = (sv, es)" "length acts < 2 ^ 64"
    and "map_ok s" "getStream s i = Some q" "sm_replied (cn_mem s q)" "\<not> sm_closed (cn_mem s q)" "\<not> sm_dataClosed (cn_mem s q)"
    and "list_all (quiet zl i q) acts" "\<And>r s. r \<noteq> q \<Longrightarrow> keeps i q s (step_state (h r s))"
    and "filter (\<lambda>fr. frame_stream fr = Some i) (map fst (admitted es)) =
      map (\<lambda>d. DataFrame (data_frame_of i False d)) ds @ [DataFrame (data_frame_of i True [])]"
    and "filter (\<lambda>fr. frame_stream fr = Some i) (map fst (in_line (worker_of i) sv) @ held (sv_worker sv (worker_of i))) = []"
  shows "sm_inbox (cn_mem (sv_conn sv) q) = sm_inbox (cn_mem s q) @ filter (\<lambda>d. d \<noteq> []) ds \<and> sm_closed (cn_mem (sv_conn sv) q)"
proof -
  let ?t = "cn_mem s q"
  have fin: "finishes (data_frame_of i b d) = b" for b d by (simp add: finishes_def data_frame_of_def fin_flag_def)
  have ad: "of_stream_id i (map fst (admitted es)) = map DataFrame (map (data_frame_of i False) ds @ [data_frame_of i True []])"
    using assms(10) by (simp add: of_stream_id_def)
  have sd: "stream_data (of_stream_id i (map fst (admitted es)))" unfolding ad by (auto simp: stream_data_def fin)
  have len: "length (admitted es) < 2 ^ 64" using serve_run_admits[OF assms(1)] assms(2) by simp
  have h: "home i q s" using assms(3,4) by (auto simp: home_def map_ok_def getStream_def)
  have "received i q ?t [] s" using assms(4-7) h by (simp add: received_def getStream_def)
  then have "delivering i q ?t (new_server s) []" by (simp add: delivering_def new_server_def)
  from deliver_run[OF assms(9) this serve_inv_new assms(8,1)] have d: "delivering i q ?t sv es" using sd len by simp
  have inv: "serve_inv i sv es" using serve_inv_run[OF serve_inv_new assms(1), of i] by simp
  have "sorted (map snd (filter (of_id i) (admitted es)))" using d by (auto simp: delivering_def intro: same_priority_sorted)
  then have "of_stream_id i (map fst (admitted es)) = of_stream_id i (taken es) @ of_stream_id i (map fst (in_line (worker_of i) sv))"
    using stream_frames[OF assms(1,2)] by (simp add: of_stream_id_def)
  moreover obtain gs where g: "of_stream_id i (taken es) = map DataFrame gs @ of_stream_id i (held (sv_worker sv (worker_of i)))"
    "received i q ?t gs (sv_conn sv)"
    using d by (auto simp: delivering_def)
  ultimately have "map DataFrame gs = map DataFrame (map (data_frame_of i False) ds @ [data_frame_of i True []])"
    using assms(11) ad by (simp add: of_stream_id_def)
  then have gs: "gs = map (data_frame_of i False) ds @ [data_frame_of i True []]" by (simp add: inj_map_eq_map inj_def del: map_append)
  have "map fd_Data gs = ds @ [[]]" by (simp add: gs data_frame_of_def o_def)
  then show ?thesis using g(2) by (simp add: received_def gs fin)
qed

definition ex_chunks :: "serve_act list" where
  "ex_chunks = [Arrive (DataFrame (data_frame_of 1 False [7])), PushFrame, Arrive (SynStreamFrame (ex_syn 3)), PushFrame,
     Arrive (DataFrame (data_frame_of 1 True [])), PopFrame 1, PushFrame, PopFrame 3, HandleFrame 3 False, HandleFrame 1 True,
     PopFrame 1, HandleFrame 1 True]"

text \<open>Stream 1, open and answered.\<close>

definition ex_answered :: "(unit, unit) connection" where
  "ex_answered = upd_stream 0 (\<lambda>t. t\<lparr>sm_replied := True\<rparr>) (snd (snd (serve_frame (SynStreamFrame (ex_syn 1)) 0 (ex_conn True))))"

lemma ex_chunks_run:
  "filter (\<lambda>fr. frame_stream fr = Some 1) (map fst (admitted (snd (serve_run ex_zlib (\<lambda>r s. Ok s) ex_chunks (new_server ex_answered))))) =
     [DataFrame (data_frame_of 1 False [7]), DataFrame (data_frame_of 1 True [])]"
  "abstract_queue (sv_queues (fst (serve_run ex_zlib (\<lambda>r s. Ok s) ex_chunks (new_server ex_answered))) 1) = []"
  "sv_push (fst (serve_run ex_zlib (\<lambda>r s. Ok s) ex_chunks (new_server ex_answered))) = None"
  "sv_worker (fst (serve_run ex_zlib (\<lambda>r s. Ok s) ex_chunks (new_server ex_answered))) 1 = Free"
  by code_simp+

lemma ex_answered_open:
  "map_ok ex_answered" "getStream ex_answered 1 = Some 0" "sm_replied (cn_mem ex_answered 0)" "\<not> sm_closed (cn_mem ex_answered 0)"
  "\<not> sm_dataClosed (cn_mem ex_answered 0)" "sm_inbox (cn_mem ex_answered 0) = []"
  by (simp_all add: ex_answered_def upd_stream_def map_ok_def ex_conn_def NewConnection_def ex_syn_def checkStreamFrame_def
    validateStreamId_def addStreamFrame_def addStream_def Let_def getStream_def blank_stream_def)

theorem delivery_through_workers_witness:
  "\<exists>sv es. serve_run ex_zlib (\<lambda>r s. Ok s) ex_chunks (new_server ex_answered) = (sv, es) \<and>
    sm_inbox (cn_mem (sv_conn sv) 0) = [[7]] \<and> sm_closed (cn_mem (sv_conn sv) 0)"
proof -
  obtain sv es where r: "serve_run ex_zlib (\<lambda>r s. Ok s) ex_chunks (new_server ex_answered) = (sv, es)" by fastforce
  note x = ex_chunks_run[unfolded r fst_conv snd_conv]
  have w: "worker_of 1 = 1" by (simp add: worker_of_def FRAME_WORKERS_def)
  have "list_all (quiet ex_zlib 1 0) ex_chunks" "length ex_chunks < 2 ^ 64" by (simp_all add: ex_chunks_def w)
  moreover have "in_line (worker_of 1) sv = []" "held (sv_worker sv (worker_of 1)) = []"
    using x by (simp_all add: w in_line_def pushing_def)
  ultimately show ?thesis
    using delivery_through_workers[OF r _ ex_answered_open(1,2,3,4,5), where ds = "[[7]]"] x(1) r ex_answered_open(6) by simp
qed

subsection \<open>The end of a connection\<close>

text \<open>Once the reader has stopped, the streams are out of the map: what waits in the queues for a stream does nothing to it.\<close>

definition ended :: "('c, 'd) server \<Rightarrow> bool" where
  "ended sv \<longleftrightarrow> sv_over sv \<and> cn_streams (sv_conn sv) = Map.empty"

lemma handle_ended:
  assumes "cn_streams s = Map.empty"
  shows "cn_streams (step_state (handleFrame zl h reading fr s)) = Map.empty \<and> cn_mem (step_state (handleFrame zl h reading fr s)) = cn_mem s"
proof (cases fr)
  case (PingFrame x)
  then show ?thesis using assms by (auto simp: handlePingFrame_def write_frame_def split: prod.splits option.splits bool.splits)
next
  case (GoAwayFrame x)
  then show ?thesis using assms by (simp add: handleGoAwayFrame_def Let_def)
qed (use assms in \<open>simp_all add: getStream_def handleReplyFrame_def handleDataFrame_def handleResetFrame_def handleHeaderFrame_def\<close>)

fun no_user :: "serve_act \<Rightarrow> bool" where
  "no_user (UserOp op) \<longleftrightarrow> False"
| "no_user a \<longleftrightarrow> True"

lemma serve_do_ended:
  assumes "ended sv" "no_user a"
  shows "ended (fst (serve_do zl h a sv)) \<and> cn_mem (sv_conn (fst (serve_do zl h a sv))) = cn_mem (sv_conn sv)"
proof (cases a)
  case (HandleFrame i reading)
  then show ?thesis using assms(1) handle_ended[of "sv_conn sv" zl h reading]
    by (auto simp: ended_def Let_def settle_def split: worker.splits)
next
  case (UserOp op)
  then show ?thesis using assms(2) by simp
qed (use assms(1) in \<open>auto simp: ended_def split: option.splits wait.splits prod.splits\<close>)

lemma serve_run_ended:
  "ended sv \<Longrightarrow> list_all no_user acts \<Longrightarrow> cn_mem (sv_conn (fst (serve_run zl h acts sv))) = cn_mem (sv_conn sv)"
proof (induction acts arbitrary: sv)
  case (Cons a acts)
  obtain sv1 es1 where d: "serve_do zl h a sv = (sv1, es1)" by fastforce
  have "ended sv1" "cn_mem (sv_conn sv1) = cn_mem (sv_conn sv)" using serve_do_ended[OF Cons.prems(1), of a zl h] Cons.prems(2) d by simp_all
  then show ?case using Cons.IH[of sv1] Cons.prems(2) d by (cases "serve_run zl h acts sv1") auto
qed simp

text \<open>C23. When the connection breaks off or is closed by the peer, a reader of an open stream is not told: whatever the workers still
  do with the frames that have been read, its data included, the reader waits for ever. A chunk that a worker had
  been sending when nobody read is not such a frame: a worker that hangs in a send stays so in the model.\<close>

theorem reader_waits_after_end:
  assumes "sv_dead sv = None" "sv_push sv = None" "\<not> sv_over sv" "list_all no_user acts"
    and "\<not> sm_closed (cn_mem (sv_conn sv) q)" "\<not> sm_dataClosed (cn_mem (sv_conn sv) q)" "sm_inbox (cn_mem (sv_conn sv) q) = []"
    and "sm_unread (cn_mem (sv_conn sv) q) = None" "serve_run zl h (ReadFails # acts) sv = (sv', es)"
  shows "Read n (cn_mem (sv_conn sv') q) = Stuck ([], None, cn_mem (sv_conn sv) q)"
proof -
  let ?sv = "settle (serve_end (sv_conn sv)) (sv\<lparr>sv_over := True\<rparr>)"
  have r: "sv' = fst (serve_run zl h acts ?sv)"
    using assms(1-3,9) by (auto simp: apsnd_def map_prod_def split: prod.splits)
  have "cn_mem (sv_conn sv') = cn_mem (sv_conn sv)"
  proof (cases "cn_closed (sv_conn sv)")
    case True
    then show ?thesis using r by (cases acts) (simp_all add: serve_end_def settle_def)
  next
    case False
    then have "ended ?sv" by (simp add: ended_def serve_end_def settle_def)
    then show ?thesis using r False serve_run_ended[of ?sv acts zl h] assms(4) by (simp add: serve_end_def settle_def)
  qed
  then show ?thesis using assms(5-8) by (simp add: Read_def)
qed

definition ex_broken :: "(unit, unit) server" where
  "ex_broken = fst (serve_run ex_zlib (\<lambda>r s. Ok s) [Arrive (DataFrame (data_frame_of 1 False [7])), PushFrame] (new_server ex_answered))"

lemma ex_broken_open:
  "sv_dead ex_broken = None" "sv_push ex_broken = None" "\<not> sv_over ex_broken" "\<not> sm_closed (cn_mem (sv_conn ex_broken) 0)"
  "\<not> sm_dataClosed (cn_mem (sv_conn ex_broken) 0)" "sm_inbox (cn_mem (sv_conn ex_broken) 0) = []" "sm_unread (cn_mem (sv_conn ex_broken) 0) = None"
  by code_simp+

theorem reader_waits_after_end_witness:
  "\<exists>sv' es. serve_run ex_zlib (\<lambda>r s. Ok s) [ReadFails, PopFrame 1, HandleFrame 1 True] ex_broken = (sv', es) \<and>
    Read 10 (cn_mem (sv_conn sv') 0) = Stuck ([], None, cn_mem (sv_conn ex_broken) 0)"
proof -
  obtain sv' es where r: "serve_run ex_zlib (\<lambda>r s. Ok s) [ReadFails, PopFrame 1, HandleFrame 1 True] ex_broken = (sv', es)" by fastforce
  have "list_all no_user [PopFrame 1, HandleFrame 1 True]" by simp
  then show ?thesis using reader_waits_after_end[OF ex_broken_open(1,2,3) _ ex_broken_open(4-7) r] r by blast
qed

end
