(* ===== verification/EtcdPersist.thy ===== *)
theory EtcdPersist
  imports ClusterLock
begin

text \<open>
  coreos/go-etcd/etcd/client.go, the parts beside the requests: writing the configuration to a writer whenever it is
  saved, making a client of what was written, and recording the requests as curl commands over a channel with a buffer
  of ten. The writer, encoding and decoding of JSON are arguments. The goroutines of \<open>sendCURL\<close> are the commands on
  their way, which arrive in any order.
\<close>

subsection \<open>The client with its writer and its channel\<close>

definition defaultBufferSize :: nat where "defaultBufferSize = 10"

record ('w, 'f) full_client =
  fc_state :: "'w etcd_state"
  fc_persistence :: "'f option"
  fc_cURLch :: "string list option"
  fc_sending :: "string list"

record 'f json_io =
  js_Marshal :: "etcd_config \<times> etcd_cluster \<Rightarrow> string + string"
  js_Unmarshal :: "string \<Rightarrow> string + etcd_config \<times> etcd_cluster"
  js_Write :: "string \<Rightarrow> 'f \<Rightarrow> string option \<times> 'f"

definition MarshalJSON :: "'f json_io \<Rightarrow> etcd_client \<Rightarrow> string + string" where
  "MarshalJSON js c = js_Marshal js (ek_config c, ek_cluster c)"

definition UnmarshalJSON :: "'f json_io \<Rightarrow> string \<Rightarrow> etcd_client \<Rightarrow> string option \<times> etcd_client" where
  "UnmarshalJSON js b c =
    (case js_Unmarshal js b of
       Inl e \<Rightarrow> (Some e, c)
     | Inr (g, cl) \<Rightarrow> (None, c\<lparr>ek_cluster := cl, ek_config := g\<rparr>))"

definition SetPersistence :: "'f \<Rightarrow> ('w, 'f) full_client \<Rightarrow> ('w, 'f) full_client" where
  "SetPersistence f x = x\<lparr>fc_persistence := Some f\<rparr>"

definition GetCluster :: "('w, 'f) full_client \<Rightarrow> string list" where
  "GetCluster x = ec_Machines (ek_cluster (es_client (fc_state x)))"

text \<open>The error is returned, and none of the callers looks at it.\<close>

definition saveConfig :: "'f json_io \<Rightarrow> ('w, 'f) full_client \<Rightarrow> string option \<times> ('w, 'f) full_client" where
  "saveConfig js x =
    (case fc_persistence x of
       None \<Rightarrow> (None, x)
     | Some f \<Rightarrow>
         (case MarshalJSON js (es_client (fc_state x)) of
            Inl e \<Rightarrow> (Some e, x)
          | Inr b \<Rightarrow> (case js_Write js b f of (e, f) \<Rightarrow> (e, x\<lparr>fc_persistence := Some f\<rparr>))))"

subsection \<open>The operations that save\<close>

text \<open>A file that cannot be read is an early return; one that holds no certificate is an error, but recorded and saved.\<close>

definition AddRootCA_saved ::
  "'f json_io \<Rightarrow> (string \<Rightarrow> string + string) \<Rightarrow> (string \<Rightarrow> bool) \<Rightarrow> string \<Rightarrow> ('w, 'f) full_client \<Rightarrow>
   string option \<times> ('w, 'f) full_client"
where
  "AddRootCA_saved js read pem caCert x =
    (let c = es_client (fc_state x) in
     case AddRootCA read pem caCert c of
       (e, c') \<Rightarrow>
         let x' = x\<lparr>fc_state := (fc_state x)\<lparr>es_client := c'\<rparr>\<rparr> in
         (e, if ek_http c = None \<or> isl (read caCert) then x' else snd (saveConfig js x')))"

definition SetCluster_saved ::
  "'f json_io \<Rightarrow> 'w etcd_env \<Rightarrow> url_lib \<Rightarrow> string list \<Rightarrow> ('w, 'f) full_client \<Rightarrow> (etcd_fail + bool) \<times> ('w, 'f) full_client"
where
  "SetCluster_saved js env u machines x =
    (case internalSyncCluster env u machines (fc_state x) of
       (r, s) \<Rightarrow> (r, if r = Inr True then snd (saveConfig js (x\<lparr>fc_state := s\<rparr>)) else x\<lparr>fc_state := s\<rparr>))"

definition SyncCluster_saved ::
  "'f json_io \<Rightarrow> 'w etcd_env \<Rightarrow> url_lib \<Rightarrow> ('w, 'f) full_client \<Rightarrow> (etcd_fail + bool) \<times> ('w, 'f) full_client"
where
  "SyncCluster_saved js env u x = SetCluster_saved js env u (GetCluster x) x"

subsection \<open>Requests as curl commands\<close>

definition OpenCURL :: "('w, 'f) full_client \<Rightarrow> ('w, 'f) full_client" where
  "OpenCURL x = x\<lparr>fc_cURLch := Some []\<rparr>"

definition CloseCURL :: "('w, 'f) full_client \<Rightarrow> ('w, 'f) full_client" where
  "CloseCURL x = x\<lparr>fc_cURLch := None\<rparr>"

definition sendCURL :: "string \<Rightarrow> ('w, 'f) full_client \<Rightarrow> ('w, 'f) full_client" where
  "sendCURL command x = x\<lparr>fc_sending := fc_sending x @ [command]\<rparr>"

text \<open>The goroutine of one command: it looks at the channel of that moment, and drops its command if there is none or
  no room.\<close>

definition send_arrives :: "nat \<Rightarrow> ('w, 'f) full_client \<Rightarrow> ('w, 'f) full_client" where
  "send_arrives i x =
    (if i < length (fc_sending x) then
       x\<lparr>fc_sending := take i (fc_sending x) @ drop (Suc i) (fc_sending x),
         fc_cURLch := map_option (\<lambda>q. if length q < defaultBufferSize then q @ [fc_sending x ! i] else q) (fc_cURLch x)\<rparr>
     else x)"

text \<open>None is a call that waits: for a command, or for ever if the channel is closed.\<close>

definition RecvCURL :: "('w, 'f) full_client \<Rightarrow> (string \<times> ('w, 'f) full_client) option" where
  "RecvCURL x = (case fc_cURLch x of Some (c # q) \<Rightarrow> Some (c, x\<lparr>fc_cURLch := Some q\<rparr>) | _ \<Rightarrow> None)"

text \<open>The values are in the order in which Go visits the map.\<close>

definition curl_command :: "string \<Rightarrow> string \<Rightarrow> (string \<times> string) list \<Rightarrow> string" where
  "curl_command meth httpPath vals =
    ''curl -X '' @ meth @ '' '' @ httpPath @ concat (map (\<lambda>(k, v). '' -d '' @ k @ ''='' @ v) vals)"

text \<open>The loop of \<open>sendRequest\<close> with its recording. \<open>visit\<close> gives the values as they are visited in each trial.\<close>

function curl_loop ::
  "'w etcd_env \<Rightarrow> (nat \<Rightarrow> (string \<times> string) list) \<Rightarrow> string \<Rightarrow> string \<Rightarrow> (string \<times> string) list option \<Rightarrow> nat \<Rightarrow> nat \<Rightarrow>
   ('w, 'f) full_client \<Rightarrow> (etcd_fail + raw_response) \<times> ('w, 'f) full_client"
where
  "curl_loop env visit meth path vals n trial x =
    (let trial = trial + 1 in
     if trial > 2 * n then (Inl not_reachable, x)
     else
       let s = fc_state x;
           random = (meth = ''GET'' \<and> eg_Consistency (ek_config (es_client s)) = WEAK_CONSISTENCY);
           httpPath = getHttpPath env random path s;
           x = (if fc_cURLch x \<noteq> None then sendCURL (curl_command meth httpPath (visit trial)) x else x) in
       if \<not> ee_url_ok env httpPath then (Inl (EtcdPanic NilPointer), x)
       else
         case ee_Do env \<lparr>rq_method = meth, rq_url = httpPath, rq_values = vals\<rparr> (es_world s) of
           (Inl err, w) \<Rightarrow>
             curl_loop env visit meth path vals n trial
               (x\<lparr>fc_state := on_cluster (switchLeader (trial mod n)) (s\<lparr>es_world := w\<rparr>)\<rparr>)
         | (Inr resp, w) \<Rightarrow>
             (case handleResp resp (s\<lparr>es_world := w\<rparr>) of
                (None, s) \<Rightarrow> curl_loop env visit meth path vals n trial (x\<lparr>fc_state := s\<rparr>)
              | (Some b, s) \<Rightarrow>
                  (Inr \<lparr>rr_StatusCode = rp_StatusCode resp, rr_Body = b, rr_Header = rp_Header resp\<rparr>, x\<lparr>fc_state := s\<rparr>)))"
  by pat_completeness auto
termination by (relation "measure (\<lambda>(env, visit, meth, path, vals, n, trial, x). 2 * n - trial)") auto

declare curl_loop.simps [simp del]

lemma sendCURL_fields [simp]:
  "fc_state (sendCURL c x) = fc_state x" "fc_cURLch (sendCURL c x) = fc_cURLch x"
  "fc_persistence (sendCURL c x) = fc_persistence x" "fc_sending (sendCURL c x) = fc_sending x @ [c]"
  by (simp_all add: sendCURL_def)

text \<open>Recording changes neither the result nor the client.\<close>

lemma curl_loop_same:
  "case curl_loop env visit meth path vals n trial x of
     (r, y) \<Rightarrow> send_loop env meth path vals n trial (fc_state x) = (r, fc_state y) \<and>
       fc_cURLch y = fc_cURLch x \<and> fc_persistence y = fc_persistence x"
proof (induction env visit meth path vals n trial x rule: curl_loop.induct)
  case (1 env visit meth path vals n trial x)
  show ?case
    apply (subst curl_loop.simps)
    apply (subst send_loop.simps)
    using 1 by (auto simp: Let_def split: prod.splits sum.splits option.splits)
qed

text \<open>A command for each request that is sent, in the order of the requests, with its method and its URL. \<open>log\<close> reads
  the requests off the world.\<close>

lemma curl_loop_commands:
  assumes logs: "\<And>rq w r w'. ee_Do env rq w = (r, w') \<Longrightarrow> log w' = log w @ [rq]"
    and urls: "\<And>p. ee_url_ok env p"
  shows "fc_cURLch x \<noteq> None \<Longrightarrow> curl_loop env (\<lambda>_. vs) meth path vals n trial x = (r, y) \<Longrightarrow>
    \<exists>rqs. log (es_world (fc_state y)) = log (es_world (fc_state x)) @ rqs \<and> length rqs \<le> 2 * n - trial \<and>
      fc_sending y = fc_sending x @ map (\<lambda>rq. curl_command (rq_method rq) (rq_url rq) vs) rqs"
proof (induction "2 * n - trial" arbitrary: trial x rule: less_induct)
  case less
  show ?case
  proof (cases "Suc trial > 2 * n")
    case True
    then have "y = x" using less.prems(2) by (subst (asm) curl_loop.simps) simp
    then show ?thesis by simp
  next
    case False
    define s where "s = fc_state x"
    define url where
      "url = getHttpPath env (meth = ''GET'' \<and> eg_Consistency (ek_config (es_client s)) = WEAK_CONSISTENCY) path s"
    let ?x = "sendCURL (curl_command meth url vs) x" and ?rq = "\<lparr>rq_method = meth, rq_url = url, rq_values = vals\<rparr>"
    obtain a w where d: "ee_Do env ?rq (es_world s) = (a, w)" by fastforce
    have l: "log w = log (es_world (fc_state x)) @ [?rq]" using logs[OF d] by (simp add: s_def)
    have again: ?thesis
      if "curl_loop env (\<lambda>_. vs) meth path vals n (Suc trial) (?x\<lparr>fc_state := t\<rparr>) = (r, y)" "es_world t = w" for t
    proof -
      note same = that(2)
      have "2 * n - Suc trial < 2 * n - trial" using False by simp
      from less.hyps[OF this _ that(1)] less.prems(1) obtain rqs where
        "log (es_world (fc_state y)) = log w @ rqs" "length rqs \<le> 2 * n - Suc trial"
        "fc_sending y = fc_sending ?x @ map (\<lambda>rq. curl_command (rq_method rq) (rq_url rq) vs) rqs"
        using same by auto
      then show ?thesis using l False by (intro exI[of _ "?rq # rqs"]) auto
    qed
    show ?thesis
    proof (cases a)
      case (Inl e)
      then have "curl_loop env (\<lambda>_. vs) meth path vals n (Suc trial)
          (?x\<lparr>fc_state := on_cluster (switchLeader (Suc trial mod n)) (s\<lparr>es_world := w\<rparr>)\<rparr>) = (r, y)"
        using less.prems False d urls by (subst (asm) curl_loop.simps) (auto simp: Let_def s_def[symmetric] url_def[symmetric])
      then show ?thesis by (rule again) simp
    next
      case (Inr resp)
      obtain b t where h: "handleResp resp (s\<lparr>es_world := w\<rparr>) = (b, t)" by fastforce
      have w: "es_world t = w" using handleResp_world[of resp "s\<lparr>es_world := w\<rparr>"] h by simp
      show ?thesis
      proof (cases b)
        case None
        then have "curl_loop env (\<lambda>_. vs) meth path vals n (Suc trial) (?x\<lparr>fc_state := t\<rparr>) = (r, y)"
          using less.prems False d urls Inr h
          by (subst (asm) curl_loop.simps) (auto simp: Let_def s_def[symmetric] url_def[symmetric])
        then show ?thesis using w by (rule again)
      next
        case (Some bs)
        then have "y = ?x\<lparr>fc_state := t\<rparr>" using less.prems False d urls Inr h
          by (subst (asm) curl_loop.simps) (auto simp: Let_def s_def[symmetric] url_def[symmetric])
        then show ?thesis using l w False by (intro exI[of _ "[?rq]"]) simp
      qed
    qed
  qed
qed

subsection \<open>What is saved\<close>

lemma SetCluster_saves:
  assumes "SetCluster_saved js env u machines x = (Inr True, y)"
  obtains s where "y = snd (saveConfig js (x\<lparr>fc_state := s\<rparr>))"
proof -
  obtain r s where "internalSyncCluster env u machines (fc_state x) = (r, s)" by fastforce
  then show thesis using assms that[of s] by (auto simp: SetCluster_saved_def)
qed

text \<open>After a successful synchronisation the last document written restores the configuration and the machines.\<close>

lemma sync_saves_current:
  assumes json: "\<And>c. \<exists>b. js_Marshal js c = Inr b \<and> js_Unmarshal js b = Inr c"
    and sync: "SetCluster_saved js env u machines x = (Inr True, y)" and f: "fc_persistence x = Some f"
  shows "\<exists>b. fc_persistence y = Some (snd (js_Write js b f)) \<and>
    (\<forall>c. snd (UnmarshalJSON js b c) = c\<lparr>ek_config := ek_config (es_client (fc_state y)),
                                    ek_cluster := ek_cluster (es_client (fc_state y))\<rparr>)"
proof -
  obtain s where s: "y = snd (saveConfig js (x\<lparr>fc_state := s\<rparr>))" by (rule SetCluster_saves[OF sync])
  obtain b where b: "js_Marshal js (ek_config (es_client s), ek_cluster (es_client s)) = Inr b"
    "js_Unmarshal js b = Inr (ek_config (es_client s), ek_cluster (es_client s))" using json by blast
  have y: "fc_persistence y = Some (snd (js_Write js b f))" "fc_state y = s"
    using s f b(1) by (simp_all add: saveConfig_def MarshalJSON_def split: prod.split)
  show ?thesis using y b(2) by (intro exI[of _ b]) (simp add: UnmarshalJSON_def)
qed

text \<open>Each save appends a document. JSON allows none after another, so a file that has been saved to twice cannot be
  read back.\<close>

theorem second_save_spoils_file:
  assumes append: "\<And>b f. js_Write js b f = (None, f @ b)" and enc: "\<And>c. \<exists>b. js_Marshal js c = Inr b"
    and json: "\<And>c d b b'. js_Marshal js c = Inr b \<Longrightarrow> js_Marshal js d = Inr b' \<Longrightarrow> isl (js_Unmarshal js (b @ b'))"
    and first: "SetCluster_saved js env u ms (SetPersistence '''' x) = (Inr True, y)"
    and second: "SyncCluster_saved js env u y = (Inr True, z)"
  shows "\<exists>file. fc_persistence z = Some file \<and> isl (NewClientFromReader load read pem (js_Unmarshal js) (Inr file))"
proof -
  have saved: "\<exists>b c. js_Marshal js c = Inr b \<and> fc_persistence q = Some (f @ b)"
    if sync: "SetCluster_saved js env u machines p = (Inr True, q)" and "fc_persistence p = Some f" for machines p q f
  proof -
    obtain s where q: "q = snd (saveConfig js (p\<lparr>fc_state := s\<rparr>))" by (rule SetCluster_saves[OF sync])
    obtain b where "js_Marshal js (ek_config (es_client s), ek_cluster (es_client s)) = Inr b" using enc by blast
    then show ?thesis using q that(2) append by (auto simp: saveConfig_def MarshalJSON_def)
  qed
  have "fc_persistence (SetPersistence '''' x) = Some ''''" by (simp add: SetPersistence_def)
  from saved[OF first this] obtain b c where b: "js_Marshal js c = Inr b" "fc_persistence y = Some b" by auto
  from saved[OF second[unfolded SyncCluster_saved_def] b(2)] obtain b' d where
    b': "js_Marshal js d = Inr b'" "fc_persistence z = Some (b @ b')" by blast
  from json[OF b(1) b'(1)] obtain e where "js_Unmarshal js (b @ b') = Inl e" by (cases "js_Unmarshal js (b @ b')") auto
  then show ?thesis using b'(2) by (simp add: NewClientFromReader_def)
qed

definition ex_json :: "string json_io" where
  "ex_json = \<lparr>js_Marshal = (\<lambda>_. Inr ''{}''),
    js_Unmarshal = (\<lambda>b. if b = ''{}'' then Inr (ek_config (NewClient []), NewCluster []) else Inl ''trailing data''),
    js_Write = (\<lambda>b f. (None, f @ b))\<rparr>"

definition ex_sync_env :: "unit etcd_env" where
  "ex_sync_env = \<lparr>ee_Do = (\<lambda>_ w. (Inr \<lparr>rp_StatusCode = 200, rp_Body = Some ''m1'', rp_Header = (\<lambda>_. ''''), rp_Location = None\<rparr>, w)),
    ee_url_ok = (\<lambda>_. True), ee_escape = id, ee_join = (\<lambda>_. ''''), ee_random = (\<lambda>_. 0), ee_ParseUint = (\<lambda>_. 0),
    ee_decode = Inl, ee_decode_error = Inl\<rparr>"

definition ex_urls :: url_lib where
  "ex_urls = \<lparr>ul_Parse = (\<lambda>_. Some ('''', '''', '''')), ul_String = (\<lambda>_. ''url''), ul_Join = (\<lambda>_. '''')\<rparr>"

definition ex_full :: "(unit, string) full_client" where
  "ex_full = \<lparr>fc_state = \<lparr>es_client = NewClient [''m0''], es_world = ()\<rparr>, fc_persistence = None, fc_cURLch = None, fc_sending = []\<rparr>"

theorem second_save_spoils_file_witness:
  "\<exists>file (z :: (unit, string) full_client). fc_persistence z = Some file \<and> GetCluster z = [''m1''] \<and>
     isl (NewClientFromReader (\<lambda>_ _. None) Inr (\<lambda>_. True) (js_Unmarshal ex_json) (Inr file))"
proof -
  let ?set = "SetCluster_saved ex_json ex_sync_env ex_urls [''m0''] (SetPersistence '''' ex_full)"
  let ?sync = "SyncCluster_saved ex_json ex_sync_env ex_urls (snd ?set)"
  have sync: "?set = (Inr True, snd ?set)" "?sync = (Inr True, snd ?sync)" "GetCluster (snd ?sync) = [''m1'']"
    by code_simp+
  have json: "js_Write ex_json b f = (None, f @ b)" "\<exists>b. js_Marshal ex_json c = Inr b"
    "js_Marshal ex_json c = Inr b \<Longrightarrow> js_Marshal ex_json d = Inr b' \<Longrightarrow> isl (js_Unmarshal ex_json (b @ b'))" for b b' f c d
    by (auto simp: ex_json_def)
  have "\<exists>file. fc_persistence (snd ?sync) = Some file \<and>
      isl (NewClientFromReader (\<lambda>_ _. None) Inr (\<lambda>_. True) (js_Unmarshal ex_json) (Inr file))"
    by (rule second_save_spoils_file[OF json(1,2) _ sync(1,2)]) (rule json(3))
  then show ?thesis using sync(3) by blast
qed

end
