(* ===== verification/Spec2Isabelle.thy ===== *)
theory Spec2Isabelle
  imports SchedulerProps Engine Commands SandboxNet GaleraWire MysqlBinary SpdyDelivery EtcdPersist
begin

text \<open>
  A model of gbalancer, a TCP load balancer in Go, and what is proved of it.

  \<^bold>\<open>The program.\<close> main.go reads a configuration and hands the process over to package daemon, which puts
  it into the background if asked to. The service is engine/engine.go: a wrangler (wrangler/) checks the
  configured servers at intervals and sends the servers it finds up over a channel; an engine takes the
  reports. The native engine (engine/native/) accepts connections, and its scheduler gives each to the
  server of least load, directly or as a stream in one of several SPDY connections (tunnels) to an agent
  beside the server (cmd/streamd). The ipvs engine (engine/ipvs/) only keeps the kernel's table in line
  with the reports. cluster/ registers a node and elects a leader in etcd, for cmd/ldirector. cmd/virtnet and
  the sandbox make virtual networks. The tunnels are the vendored packages docker/spdystream and go.net/spdy
  under Godeps, etcd is reached through go-etcd, databases through go-sql-driver/mysql, libvirt through libvirt-go.

  \<^bold>\<open>Conventions.\<close> A function or method is a definition of the same name; a struct is a record whose fields
  have a two-letter prefix; a uint, uint32 or uint64 is a word. Pointers that are shared are numbers into a
  memory that is part of the state. A panic keeps the state reached, since the callers recover and go on
  with it (\<open>outcome\<close> in Prelude); \<open>exit\<close> is a call that ends the process. The orders in which Go visits a map,
  the order in which goroutines answer, and the results of the network, the clock and the system are
  arguments. Channels with their goroutines are queues, and one step is one case of a \<open>select\<close> or one
  visible action of a goroutine.

  \<^bold>\<open>Theories.\<close>
  \<^item> Prelude: machine integers, panics, loops that may panic, swapping, enumerating a map.
  \<^item> GoHeap: container/heap as a locale \<open>go_heap\<close> over the five methods, with sift loops, \<open>Push\<close>, \<open>Pop\<close> and
    \<open>Remove\<close> proved once. Pool (pool.go) and FrameQueue (priority.go) interpret it on their methods.
  \<^item> Registry: the locale \<open>registry\<close> of a table kept in line with a report by two loops, interpreted by the
    wrangler and by the ipvs engine.
  \<^item> Backend, Forwarder (backend.go, spdy.go): the slots of a server's tunnels, opening a stream with the
    retry over the slots, creating a session; the retry that may not end is a \<open>partial_function\<close>.
  \<^item> Scheduler (scheduler.go): record, \<open>dispatch\<close>, \<open>finish\<close>, the five cases of \<open>Schedule\<close>, \<open>EventLoop\<close>.
    SchedulerInv and SchedulerEvents: the invariant and what each handler does to it. SchedulerSystem: the
    scheduler with the goroutines around it as an inductive step relation, and its reachable states.
    SchedulerExample: a run for the witnesses. SchedulerProps: the properties.
  \<^item> Shuffle, GoStrings, Exec (utils/), Config (config/).
  \<^item> Health (the four drivers), Wrangler (the locale \<open>health_driver\<close>, interpreted by each driver and by their
    sum, the table, \<open>ValidBackends\<close>, \<open>Monitor\<close>).
  \<^item> Ipvs: the register, the commands, the event loop, the two schedulers with their deferred calls.
  \<^item> Daemon: the processes parent, monitor and worker, signals, pid file, restarts.
  \<^item> Balancer: listeners and wait group, and the composition of the wrangler with the scheduler. Engine:
    the choice of the engine, \<open>main\<close>. Cluster: cluster/client.go over a record of etcd calls. EtcdClient
    (go-etcd): machines and leader, requests with their retries, responses, keys, watching. ClusterLock: the
    record of calls made of EtcdClient, a store of keys, and two nodes that take turns over it. EtcdPersist: saving the
    client's configuration and recording its requests as curl commands.
    Commands: the mains of cmd/ldirector and cmd/streamd. SandboxNet: utils/libvirt and cmd/virtnet over what they
    call of libvirt-go.
  \<^item> Wire, SpdyFrame, SpdyRead, SpdyRoundtrip, SpdyProps (go.net/spdy): bytes, frames, writing, reading, and
    that reading inverts writing. SpdyStream (spdystream): the connection and its streams; SpdyStreamProps:
    all operations as one step function, with the invariant and the ids. StreamDelivery: two connections
    back to back. SpdyServe: the reader of a connection, its five queues and their workers as the actions of goroutines in
    any order. SpdyDelivery: what reaches a stream through them, and the end of a connection.
    Agent (cmd/streamd/handler.go): the handler of new streams at the other end of a tunnel.
  \<^item> MysqlCodec, MysqlDsn, MysqlBuffer, MysqlConn, MysqlAuth, MysqlQuery (go-sql-driver/mysql): the driver under
    the Galera probe, from the integers and hashes over the buffer and the packets to the handshake, the
    text protocol and \<open>Open\<close>. A call maps the connection to a result or an error and the connection; None is
    a call that does not return. A slice is a position in the buffer's array, so that what it shows changes
    with the array. The locale \<open>full_reader\<close> is what packets need of a reader, interpreted on the buffer.
    MysqlPacket, MysqlRows, MysqlResult: packets, rows and whole result sets as they are written and read back.
    MysqlProps: the properties; GaleraWire: the probe of a Galera node from the query to its verdict.
    MysqlStmt: prepared statements with their parameters and binary rows; MysqlBinary: rows and parameters on the wire.

  \<^bold>\<open>What is shown.\<close> Of the scheduler, in every reachable state: the load counters are the numbers of
  requests in flight and stay in bounds; no connection is lost or duplicated; a connection goes to a
  server of least key and is refused only when all are full; a status message aligns register and pool;
  handlers panic only on a session without a tunnel. Of the health checks: each driver's report, the
  monitor's acts, and that without tunnels the register follows the last report that named a server, whatever the
  scheduler does between the messages; with tunnels it names reported servers only. Of the ipvs engine:
  the register is the table the commands have built, and the engine undoes what it set up. Of the
  tunnels: frames are read as written, what is read is in bounds whatever the bytes, the frame queue
  refines a stable bounded priority queue, stream ids are never used twice, no channel is closed twice or sent to
  after it is closed but that of a ping, \<open>Serve\<close> being run once, and what is written to a stream and closed is what the other end reads. However reader, workers and
  users interleave, the frames of a stream are taken in the order in which they came and each once if the priorities they
  are queued under do not fall, and once its worker is through, an open stream has got what was sent. Of the
  daemon: the three processes, the pace of restarts, how it stops. Of the MySQL driver: the buffer delivers the bytes of
  the connection however they arrive, packets, rows and result sets are read as they were written, binary rows and
  the parameters of a statement included, the probe's data source name is understood, and its verdict is what the last
  rows of the answer say. Of the cluster: two nodes do not lead at once if a node counts the time of its lock from its
  request, and a call sends at most twice as many requests as there are machines. Of the sandbox: every network it needs
  that libvirt can handle is active, whatever else fails, and no other is touched. Several theorems state what goes wrong:
  an answer cut off between two rows is believed, a node whose renewal was carried out and not answered ends itself, the 65th parameter cannot be NULL, requests
  pending without tunnels are never served, a retried request that succeeds counts as failed, a worker is
  killed without being stopped, an agent is silent when its service is down, a silent database blocks its
  health check for ever, a short reply to a login is a panic, a stream of a tunnel that has broken off is read for ever, its
  data may overtake the frame that opens it, a client saved twice cannot be loaded again.

  \<^bold>\<open>Bounds and fuel.\<close> Every loop of the code that ends is a total function. A loop that runs as long as
  events come takes the list of events so far. \<open>drain_headers\<close> has a fuel, one more than the headers
  waiting, which is enough on a closed stream; that of \<open>getWarnings\<close> bounds how often an answer to SHOW
  WARNINGS has warnings itself, and no theorem depends on it. The scheduler's theorems assume at most \<open>MaxForwarders\<close>
  servers, the capacity of the pool's slice. \<open>uint\<close> has 64 bits.

  \<^bold>\<open>Not modelled.\<close> Output and logging; flag parsing; the JSON decoder, zlib, database/sql, the HTTP client and
  the C library of libvirt, which are arguments with the behaviour the code relies on as hypotheses where a
  theorem needs it (\<open>zlib_ok\<close>: a flushed block is inflated to what was written; \<open>store_ok\<close> and \<open>swaps\<close>: what etcd
  documents of create and compare-and-swap, the index in the header of an answer being that of the key it has written;
  \<open>libvirt_ok\<close>: what the calls for networks do when they succeed, and which networks they do not fail for;
  \<open>os_ok\<close>: that the system resolves names, sets variables and starts processes). Data races: the steps
  take the fields an operation writes as written at once. A read from a connection returns bytes or an error, not both, as
  TCP connections of Go do. A worker that waits in a send to a stream nobody reads hangs in the model: a reader that comes
  later is not given that chunk, so that a theorem on such a reader speaks of streams to which no worker is sending.
  Deadlines and addresses of connections. The many wrappers of
  libvirt-go for domains, volumes and snapshots, one call of C each, which the program does not use. Constants and
  registers of handlers that no modelled function reads. Dates and times of binary rows are modelled, but the
  theorem on rows leaves them out. The memory a hostile column count would ask for is taken as given.

  \<^bold>\<open>What is left open.\<close> Dates and times in the theorem on binary rows; a whole prepared query from \<open>Prepare\<close> to the last
  row in one theorem; the director of cmd/ldirector over the locks of two nodes.
\<close>

end
